(* ===== verification/Prelude.thy ===== *)
theory Prelude
  imports "HOL-Library.Word" "HOL-Library.Monad_Syntax"
begin

text \<open>
  Shared vocabulary of the development: the machine integers of the source, the
  Rust library routines the components use (\<open>div_ceil\<close>, bit vectors), and the
  generic facts about words, lists and options that the component proofs rest on.

  Conventions used by every theory:

  \<^item> a Rust \<open>u64\<close>, \<open>u32\<close>, \<open>u8\<close> is a word of that width, so additions, subtractions and
    multiplications wrap around as they do in a release build;
  \<^item> a panic (a failed \<open>assert!\<close>, an \<open>expect\<close> on \<open>None\<close>, an index out of range, a
    division by zero) is the value \<^const>\<open>None\<close> of an option;
  \<^item> a Rust \<open>Result\<close> is a sum whose left injection carries the error.
\<close>

type_synonym u8 = "8 word"
type_synonym u16 = "16 word"
type_synonym u32 = "32 word"
type_synonym u64 = "64 word"

named_theorems u64_nat \<open>reading word arithmetic that does not wrap as arithmetic on nat\<close>

subsection \<open>Routines of the Rust libraries\<close>

text \<open>\<open>u64::div_ceil\<close>: the quotient rounded towards positive infinity; it panics when the
  divisor is zero.\<close>

definition div_ceil :: "u64 \<Rightarrow> u64 \<Rightarrow> u64 option" where
  "div_ceil a b =
     (if b = 0 then None
      else Some (if a mod b > 0 then a div b + 1 else a div b))"

text \<open>A bit vector is the list of its bits. Reading out of range gives \<^const>\<open>None\<close>, writing
  out of range panics, and a union of vectors of different lengths panics.\<close>

type_synonym bit_vec = "bool list"

definition bit_get :: "bit_vec \<Rightarrow> nat \<Rightarrow> bool option" where
  "bit_get bs i = (if i < length bs then Some (bs ! i) else None)"

definition bit_set :: "bit_vec \<Rightarrow> nat \<Rightarrow> bool \<Rightarrow> bit_vec option" where
  "bit_set bs i v = (if i < length bs then Some (bs[i := v]) else None)"

definition bit_or :: "bit_vec \<Rightarrow> bit_vec \<Rightarrow> bit_vec option" where
  "bit_or xs ys = (if length xs = length ys then Some (map2 (\<or>) xs ys) else None)"

text \<open>Sequencing of fallible steps, the \<open>?\<close> operator.\<close>

primrec try_bind :: "'e + 'a \<Rightarrow> ('a \<Rightarrow> 'e + 'b) \<Rightarrow> 'e + 'b" where
  "try_bind (Inl e) f = Inl e"
| "try_bind (Inr x) f = f x"

primrec map_err :: "('e \<Rightarrow> 'f) \<Rightarrow> 'e + 'a \<Rightarrow> 'f + 'a" where
  "map_err g (Inl e) = Inl (g e)"
| "map_err g (Inr x) = Inr x"

primrec is_ok :: "'e + 'a \<Rightarrow> bool" where
  "is_ok (Inl e) = False"
| "is_ok (Inr x) = True"

text \<open>A loop whose body may panic.\<close>

primrec foldM :: "('a \<Rightarrow> 's \<Rightarrow> 's option) \<Rightarrow> 'a list \<Rightarrow> 's \<Rightarrow> 's option" where
  "foldM f [] s = Some s"
| "foldM f (x # xs) s = (case f x s of None \<Rightarrow> None | Some s' \<Rightarrow> foldM f xs s')"

lemma try_bind_Inr: "try_bind m f = Inr y \<longleftrightarrow> (\<exists>x. m = Inr x \<and> f x = Inr y)"
  by (cases m) auto

lemma map_err_Inr: "map_err g m = Inr y \<longleftrightarrow> m = Inr y"
  by (cases m) auto

lemma try_bind_Inl: "try_bind m f = Inl e \<longleftrightarrow> m = Inl e \<or> (\<exists>x. m = Inr x \<and> f x = Inl e)"
  by (cases m) auto

subsection \<open>Words that do not wrap\<close>

lemma unat_lt_64: "unat (a :: u64) < 18446744073709551616"
  using unsigned_less [of a] by simp

lemma unat_add_64 [u64_nat]:
  "unat a + unat b < 18446744073709551616 \<Longrightarrow> unat (a + b :: u64) = unat a + unat b"
  by (simp add: unat_word_ariths)

lemma unat_mult_64 [u64_nat]:
  "unat a * unat b < 18446744073709551616 \<Longrightarrow> unat (a * b :: u64) = unat a * unat b"
  by (simp add: unat_word_ariths)

lemma unat_sub_64 [u64_nat]:
  "unat b \<le> unat a \<Longrightarrow> unat (a - b :: u64) = unat a - unat b"
  by (simp add: unat_sub word_le_nat_alt)

lemma unat_div_64 [u64_nat]: "unat (a div b :: u64) = unat a div unat b"
  by (simp add: unat_div_distrib)

lemma unat_mod_64 [u64_nat]: "unat (a mod b :: u64) = unat a mod unat b"
  by (simp add: unat_mod_distrib)

lemma u64_le_nat [u64_nat]: "a \<le> b \<longleftrightarrow> unat (a :: u64) \<le> unat b"
  by (simp add: word_le_nat_alt)

lemma u64_less_nat [u64_nat]: "a < b \<longleftrightarrow> unat (a :: u64) < unat b"
  by (simp add: word_less_nat_alt)

lemma u64_eq_nat: "a = b \<longleftrightarrow> unat (a :: u64) = unat b"
  by (rule word_unat_eq_iff)

lemma u64_neq0_nat: "a \<noteq> 0 \<longleftrightarrow> 0 < unat (a :: u64)"
  by (simp add: unat_gt_0)

lemma unat_of_nat_64: "n < 18446744073709551616 \<Longrightarrow> unat (of_nat n :: u64) = n"
  by (simp add: unat_of_nat)

lemma unat_min_64 [u64_nat]: "unat (min a b :: u64) = min (unat a) (unat b)"
  by (simp add: min_def word_le_nat_alt)

lemma unat_max_64 [u64_nat]: "unat (max a b :: u64) = max (unat a) (unat b)"
  by (simp add: max_def word_le_nat_alt)

text \<open>The ceiling of a division, on naturals.\<close>

lemma ceil_div_nat:
  assumes "0 < (b :: nat)"
  shows "(a + b - 1) div b = (if 0 < a mod b then a div b + 1 else a div b)"
proof -
  define q r where "q = a div b" and "r = a mod b"
  have a: "a = q * b + r" and r: "r < b"
    using assms by (simp_all add: q_def r_def)
  show ?thesis
  proof (cases "0 < r")
    case True
    then have "(a + b - 1) div b = q + 1"
      using a r by (intro div_nat_eqI) (simp_all add: algebra_simps)
    with True show ?thesis by (simp add: q_def r_def)
  next
    case False
    then have "(a + b - 1) div b = q"
      using a assms by (intro div_nat_eqI) (simp_all add: algebra_simps)
    with False show ?thesis by (simp add: q_def r_def)
  qed
qed

lemma div_less_ceil_div:
  assumes "x < y" "0 < (b :: nat)"
  shows "x div b < (y + b - 1) div b"
proof -
  have "x div b + 1 = (x + b) div b" using assms by (simp add: div_add_self2)
  also have "\<dots> \<le> (y + b - 1) div b" using assms by (intro div_le_mono) simp
  finally show ?thesis by simp
qed

text \<open>\<open>div_ceil\<close> reads as the ceiling of the division of naturals.\<close>

lemma div_ceil_nat:
  assumes "div_ceil a b = Some c"
  shows "unat c = (unat a + unat b - 1) div unat b"
proof -
  have b: "0 < unat b" and c: "c = (if a mod b > 0 then a div b + 1 else a div b)"
    using assms by (auto simp: div_ceil_def unat_gt_0 split: if_splits)
  have lt: "unat a div unat b + 1 < 18446744073709551616" if "0 < unat a mod unat b"
  proof -
    from that have "unat b \<noteq> 1" by auto
    then have "2 \<le> unat b" using b by linarith
    then have "unat a div unat b \<le> unat a div 2" by (intro div_le_mono2) auto
    then show ?thesis using unat_lt_64 [of a] by linarith
  qed
  show ?thesis
    unfolding ceil_div_nat [OF b] c using lt by (simp add: u64_nat)
qed

lemma div_ceil_Some [simp]: "b \<noteq> 0 \<Longrightarrow> \<exists>c. div_ceil a b = Some c"
  by (simp add: div_ceil_def)

subsection \<open>Bit vectors\<close>

lemma bit_get_set:
  "bit_set bs i v = Some bs' \<Longrightarrow> bit_get bs' j = (if j = i then Some v else bit_get bs j)"
  by (auto simp: bit_set_def bit_get_def split: if_splits)

lemma bit_set_length: "bit_set bs i v = Some bs' \<Longrightarrow> length bs' = length bs"
  by (auto simp: bit_set_def split: if_splits)

lemma bit_or_get:
  "bit_or xs ys = Some zs \<Longrightarrow>
     bit_get zs i = Some True \<longleftrightarrow> bit_get xs i = Some True \<or> bit_get ys i = Some True"
  by (auto simp: bit_or_def bit_get_def split: if_splits)

lemma bit_or_length: "bit_or xs ys = Some zs \<Longrightarrow> length zs = length xs \<and> length zs = length ys"
  by (auto simp: bit_or_def split: if_splits)

end
