(* ===== verification/Core_Types.thy ===== *)
theory Core_Types
  imports Prelude
begin

text \<open>
  The error and status types of the core layer: \<open>CoreError\<close>, \<open>IoCompletionStatus\<close> and
  \<open>to_errno\<close> of \<open>core/mod.rs\<close>, the errors of the wiper and of the NVMe-oF target they refer
  to, \<open>ReadOptions\<close> and what the sources ask of a \<open>BlockDevice\<close> (\<open>core/block_device.rs\<close>),
  and \<open>BdevError\<close> of \<open>bdev_api.rs\<close>. Error numbers and NVMe statuses that the
  sources do not tell apart are collected in one constructor.
\<close>

datatype Errno =
    ENODEV | ENXIO | EINVAL | EIO | ENOMEM | EXFULL | EBUSY | ENOSPC | EEXIST | ENOENT
  | EPERM | ESTALE | EFAULT | ENOTSUP | EMEDIUMTYPE | EOPNOTSUPP | EILSEQ | ECANCELED
  | EPIPE | ERFKILL | EMLINK | EKEYREJECTED | ENODATA | EOther nat

text \<open>The NVMe statuses the sources distinguish: \<open>NO_SPACE\<close>, \<open>UNWRITTEN_BLOCK\<close>,
  \<open>Generic(SPDK_NVME_SC_CAPACITY_EXCEEDED)\<close>, \<open>Media(SPDK_NVME_SC_COMPARE_FAILURE)\<close> and so on.\<close>

datatype NvmeStatus =
    Nvme_SUCCESS | Nvme_UNWRITTEN_BLOCK | Nvme_NO_SPACE | Nvme_CAPACITY_EXCEEDED
  | Nvme_COMPARE_FAILURE | Nvme_DATA_TRANSFER_ERROR | Nvme_INVALID_OPCODE
  | Nvme_RESERVATION_CONFLICT | Nvme_ABORTED_SQ_DELETION | Nvme_OTHER nat

datatype LvolFailure = NoSpace

datatype IoSubmissionFailure = SubmitRead | SubmitWrite

datatype IoCompletionStatus =
    IoSuccess
  | IoNvmeError NvmeStatus
  | IoLvolError LvolFailure
  | IoSubmissionError IoSubmissionFailure
  | IoAdminCommandError

definition io_status_of_nvme :: "NvmeStatus \<Rightarrow> IoCompletionStatus" where
  "io_status_of_nvme s =
     (case s of
        Nvme_NO_SPACE \<Rightarrow> IoLvolError NoSpace
      | Nvme_CAPACITY_EXCEEDED \<Rightarrow> IoLvolError NoSpace
      | _ \<Rightarrow> IoNvmeError s)"

datatype NvmfError =
    Nvmf_CreateTarget string
  | Nvmf_DestroyTarget Errno string
  | Nvmf_PgError string
  | Nvmf_Transport Errno string
  | Nvmf_SubsystemBusy string string
  | Nvmf_SubsystemExt Errno string
  | Nvmf_Subsystem Errno string string
  | Nvmf_Share string string
  | Nvmf_Namespace string string
  | Nvmf_Listener string string
  | Nvmf_HostCstrNul string

fun nvmf_errno :: "NvmfError \<Rightarrow> Errno" where
  "nvmf_errno (Nvmf_CreateTarget _) = EXFULL"
| "nvmf_errno (Nvmf_DestroyTarget source _) = source"
| "nvmf_errno (Nvmf_PgError _) = EXFULL"
| "nvmf_errno (Nvmf_Transport source _) = source"
| "nvmf_errno (Nvmf_SubsystemBusy _ _) = EBUSY"
| "nvmf_errno (Nvmf_SubsystemExt source _) = source"
| "nvmf_errno (Nvmf_Subsystem source _ _) = source"
| "nvmf_errno (Nvmf_Share _ _) = EXFULL"
| "nvmf_errno (Nvmf_Namespace _ _) = EXFULL"
| "nvmf_errno (Nvmf_Listener _ _) = EXFULL"
| "nvmf_errno (Nvmf_HostCstrNul _) = EXFULL"

text \<open>The methods of the wiper; the initial value of the checksum comes with the method.\<close>

datatype WipeMethod =
    Wipe_None | Wipe_WriteZeroes | Wipe_Unmap | Wipe_WritePattern u32 | Wipe_CkSum u32

datatype (plugins only: code size) CoreError =
    Core_BdevNotFound string
  | Core_OpenBdev Errno
  | Core_InvalidDescriptor string
  | Core_GetIoChannel string
  | Core_InvalidOffset u64
  | Core_WriteDispatch Errno u64 u64
  | Core_CompareDispatch Errno u64 u64
  | Core_ReadDispatch Errno u64 u64
  | Core_ResetDispatch Errno
  | Core_FlushDispatch Errno
  | Core_NvmeAdminDispatch Errno u16
  | Core_UnmapDispatch Errno u64 u64
  | Core_WriteZeroesDispatch Errno u64 u64
  | Core_NvmeIoPassthruDispatch Errno u16
  | Core_WriteFailed IoCompletionStatus u64 u64
  | Core_ReadFailed IoCompletionStatus u64 u64
  | Core_CompareFailed IoCompletionStatus u64 u64
  | Core_ReadingUnallocatedBlock u64 u64
  | Core_ResetFailed
  | Core_WriteZeroesFailed u64 u64
  | Core_NvmeAdminFailed Errno u16
  | Core_NvmeIoPassthruFailed u16
  | Core_ShareNvmf NvmfError
  | Core_UnshareNvmf NvmfError
  | Core_NotSupported Errno
  | Core_ReactorConfigureFailed Errno
  | Core_DmaAllocationFailed u64
  | Core_DeviceStatisticsFailed Errno
  | Core_NoDevicesAvailable
  | Core_InvalidNvmeDeviceHandle string
  | Core_DeviceFlush Errno string
  | Core_Ptpl string
  | Core_SnapshotCreate string Errno
  | Core_WipeFailed WiperError
  | Core_InitCryptoModule string
and WiperError =
    Wiper_TooManyChunks
  | Wiper_ChunkTooLarge
  | Wiper_ChunkBlockSizeInvalid
  | Wiper_ZeroBdev
  | Wiper_WipeAborted
  | Wiper_WipeIoFailed CoreError
  | Wiper_MethodUnimplemented WipeMethod
  | Wiper_ChunkNotifyFailed string

definition core_to_errno :: "CoreError \<Rightarrow> Errno" where
  "core_to_errno e =
     (case e of
        Core_BdevNotFound _ \<Rightarrow> ENODEV
      | Core_OpenBdev source \<Rightarrow> source
      | Core_InvalidDescriptor _ \<Rightarrow> ENODEV
      | Core_GetIoChannel _ \<Rightarrow> ENXIO
      | Core_InvalidOffset _ \<Rightarrow> EINVAL
      | Core_WriteDispatch source _ _ \<Rightarrow> source
      | Core_ReadDispatch source _ _ \<Rightarrow> source
      | Core_CompareDispatch source _ _ \<Rightarrow> source
      | Core_ResetDispatch source \<Rightarrow> source
      | Core_FlushDispatch source \<Rightarrow> source
      | Core_NvmeAdminDispatch source _ \<Rightarrow> source
      | Core_UnmapDispatch source _ _ \<Rightarrow> source
      | Core_WriteZeroesDispatch source _ _ \<Rightarrow> source
      | Core_NvmeIoPassthruDispatch source _ \<Rightarrow> source
      | Core_WriteFailed _ _ _ \<Rightarrow> EIO
      | Core_ReadFailed _ _ _ \<Rightarrow> EIO
      | Core_CompareFailed _ _ _ \<Rightarrow> EIO
      | Core_ReadingUnallocatedBlock _ _ \<Rightarrow> EIO
      | Core_ResetFailed \<Rightarrow> EIO
      | Core_WriteZeroesFailed _ _ \<Rightarrow> EIO
      | Core_NvmeIoPassthruFailed _ \<Rightarrow> EIO
      | Core_UnshareNvmf _ \<Rightarrow> EIO
      | Core_ShareNvmf source \<Rightarrow> nvmf_errno source
      | Core_NvmeAdminFailed source _ \<Rightarrow> source
      | Core_NotSupported source \<Rightarrow> source
      | Core_ReactorConfigureFailed source \<Rightarrow> source
      | Core_DmaAllocationFailed _ \<Rightarrow> ENOMEM
      | Core_DeviceStatisticsFailed source \<Rightarrow> source
      | Core_NoDevicesAvailable \<Rightarrow> ENODEV
      | Core_InvalidNvmeDeviceHandle _ \<Rightarrow> EINVAL
      | Core_DeviceFlush source _ \<Rightarrow> source
      | Core_Ptpl _ \<Rightarrow> EIO
      | Core_SnapshotCreate _ source \<Rightarrow> source
      | Core_WipeFailed _ \<Rightarrow> EIO
      | Core_InitCryptoModule _ \<Rightarrow> EINVAL)"

datatype ReadOptions = Read_None | Read_UnwrittenFail | Read_CurrentUnwrittenFail

text \<open>What the rebuild asks of a block device.\<close>

record BlockDevice =
  bd_device_name :: string
  bd_num_blocks :: u64
  bd_block_len :: u64
  bd_size_in_bytes :: u64

text \<open>The errors of creating and destroying block devices; the parser errors they carry are
  given by their texts.\<close>

datatype (plugins only: code size) BdevError =
    Bdev_UriParseFailed string string
  | Bdev_BdevNoMatchingUri string "string list"
  | Bdev_UriSchemeUnsupported string
  | Bdev_InvalidUri string string
  | Bdev_BoolParamParseFailed string string string string
  | Bdev_IntParamParseFailed string string string string
  | Bdev_UuidParamParseFailed string string
  | Bdev_BdevExists string
  | Bdev_BdevWrongUuid string string
  | Bdev_BdevNotFound string
  | Bdev_CreateBdevInvalidParams Errno string
  | Bdev_CreateBdevFailed Errno string
  | Bdev_DestroyBdevFailed Errno string
  | Bdev_ResizeBdevFailed Errno string
  | Bdev_CreateBdevFailedStr string string
  | Bdev_DestroyBdevFailedStr string string
  | Bdev_BdevCommandCanceled string
  | Bdev_WipeFailed

definition bdev_to_errno :: "BdevError \<Rightarrow> Errno" where
  "bdev_to_errno e =
     (case e of
        Bdev_UriParseFailed _ _ \<Rightarrow> EINVAL
      | Bdev_BdevNoMatchingUri _ _ \<Rightarrow> EPIPE
      | Bdev_UriSchemeUnsupported _ \<Rightarrow> ENOTSUP
      | Bdev_InvalidUri _ _ \<Rightarrow> EINVAL
      | Bdev_BoolParamParseFailed _ _ _ _ \<Rightarrow> EINVAL
      | Bdev_IntParamParseFailed _ _ _ _ \<Rightarrow> EINVAL
      | Bdev_UuidParamParseFailed _ _ \<Rightarrow> EINVAL
      | Bdev_BdevExists _ \<Rightarrow> ENOENT
      | Bdev_BdevWrongUuid _ _ \<Rightarrow> EINVAL
      | Bdev_BdevNotFound _ \<Rightarrow> ENOENT
      | Bdev_CreateBdevInvalidParams source _ \<Rightarrow> source
      | Bdev_CreateBdevFailed source _ \<Rightarrow> source
      | Bdev_DestroyBdevFailed source _ \<Rightarrow> source
      | Bdev_ResizeBdevFailed source _ \<Rightarrow> source
      | Bdev_CreateBdevFailedStr _ _ \<Rightarrow> EPERM
      | Bdev_DestroyBdevFailedStr _ _ \<Rightarrow> EPERM
      | Bdev_BdevCommandCanceled _ \<Rightarrow> EPIPE
      | Bdev_WipeFailed \<Rightarrow> EPERM)"

text \<open>The events of a device (\<open>core/device_events.rs\<close>).\<close>

datatype DeviceEventType =
    DeviceRemoved | LoopbackRemoved | DeviceResized | MediaManagement
  | AdminCommandCompletionFailed | AdminQNoticeCtrlFailed | AdminQBroken

end
