(* ===== verification/Rebuild_State.thy ===== *)
theory Rebuild_State
  imports Core_Types
begin

text \<open>
  The state machine of a rebuild job (\<open>rebuild/rebuild_state.rs\<close>), the errors, statistics and
  operations of a rebuild (\<open>rebuild_error.rs\<close>, \<open>rebuild_stats.rs\<close>), the frontend of a job
  (\<open>rebuild_job.rs\<close>) and the registry of jobs (\<open>rebuild_instances.rs\<close>).
\<close>

section \<open>Data\<close>

datatype RebuildState = RsInit | RsRunning | RsStopped | RsPaused | RsFailed | RsCompleted

definition rs_done :: "RebuildState \<Rightarrow> bool" where
  "rs_done s \<longleftrightarrow> s \<in> {RsStopped, RsFailed, RsCompleted}"

definition rs_running :: "RebuildState \<Rightarrow> bool" where
  "rs_running s \<longleftrightarrow> s = RsRunning"

datatype RebuildOperation = OpStart | OpStop | OpPause | OpResume | OpFail | OpComplete

text \<open>Errors of layers outside the rebuild (DMA allocation, block device descriptors, URIs)
  are carried as their text; an \<open>OpError\<close> carries the values its two strings are printed from.\<close>

datatype SnapshotRebuildError =
    SRE_LocalBdevNotFound | SRE_RemoteNoUri | SRE_NotAReplica | SRE_UriBdevOpen string string

datatype (plugins only: code size) RebuildError =
    RE_JobAlreadyExists string
  | RE_NoCopyBuffer string
  | RE_InvalidSrcDstRange
  | RE_InvalidMapRange
  | RE_SameBdev string
  | RE_NoBdevHandle CoreError string
  | RE_BdevNotFound CoreError string
  | RE_IoFailed CoreError string
  | RE_ReadIoFailed CoreError string
  | RE_WriteIoFailed CoreError string
  | RE_VerifyIoFailed CoreError string
  | RE_VerifyCompareFailed string u64
  | RE_JobNotFound string
  | RE_MissingDestination string
  | RE_OpError RebuildOperation RebuildState "RebuildState option"
  | RE_StatePending RebuildState
  | RE_RangeLockFailed u64 u64 string
  | RE_RangeUnlockFailed u64 u64 string
  | RE_BdevInvalidUri string string
  | RE_FrontendGone
  | RE_BackendGone
  | RE_RebuildTasksChannel nat
  | RE_SnapshotRebuild SnapshotRebuildError

record RebuildStats =
  st_blocks_total :: u64
  st_blocks_recovered :: u64
  st_blocks_transferred :: u64
  st_blocks_remaining :: u64
  st_progress :: u64
  st_blocks_per_task :: u64
  st_block_size :: u64
  st_tasks_total :: u64
  st_tasks_active :: u64
  st_start_time :: nat
  st_is_partial :: bool
  st_end_time :: "nat option"

record HistoryRecord =
  hr_child_uri :: string
  hr_src_uri :: string
  hr_final_stats :: RebuildStats
  hr_state :: RebuildState
  hr_end_time :: nat

record RebuildStates =
  rs_current :: RebuildState
  rs_pending :: "RebuildState option"
  rs_error :: "RebuildError option"
  rs_final_stats :: "RebuildStats option"

definition rebuild_states_default :: RebuildStates where
  "rebuild_states_default =
     \<lparr> rs_current = RsInit, rs_pending = None, rs_error = None, rs_final_stats = None \<rparr>"

section \<open>The state machine\<close>

definition set_final_stats :: "nat \<Rightarrow> RebuildStats \<Rightarrow> RebuildStates \<Rightarrow> RebuildStates" where
  "set_final_stats now stats s = s\<lparr>rs_final_stats := Some (stats\<lparr>st_end_time := Some now\<rparr>)\<rparr>"

definition set_pending ::
  "RebuildState \<Rightarrow> bool \<Rightarrow> RebuildStates \<Rightarrow> RebuildError + RebuildStates" where
  "set_pending state override_pending s =
     (let ok = Inr (if rs_current s \<noteq> state then s\<lparr>rs_pending := Some state\<rparr>
                    else s\<lparr>rs_pending := None\<rparr>)
      in case rs_pending s of
           Some pending \<Rightarrow>
             if \<not> override_pending \<and> pending \<noteq> state then Inl (RE_StatePending pending) else ok
         | None \<Rightarrow> ok)"

definition states_reconcile :: "RebuildStates \<Rightarrow> RebuildState \<times> RebuildStates" where
  "states_reconcile s =
     (case rs_pending s of
        Some pending \<Rightarrow> (pending, s\<lparr>rs_pending := None, rs_current := pending\<rparr>)
      | None \<Rightarrow> (rs_current s, s))"

text \<open>\<open>exec_op\<close>: an error leaves the states as they are; the boolean tells whether the backend
  has to be woken up.\<close>

definition exec_op ::
  "RebuildOperation \<Rightarrow> bool \<Rightarrow> RebuildStates \<Rightarrow> RebuildError + (bool \<times> RebuildStates)" where
  "exec_op op override_pending s =
     (let e = Inl (RE_OpError op (rs_current s) (rs_pending s));
          pend = (\<lambda>state ov wake. try_bind (set_pending state ov s) (\<lambda>s'. Inr (wake, s')))
      in case op of
           OpStart \<Rightarrow> (case rs_current s of
                         RsRunning \<Rightarrow> Inr (False, s)
                       | RsInit \<Rightarrow> pend RsRunning False True
                       | _ \<Rightarrow> e)
         | OpStop \<Rightarrow> (case rs_current s of
                         RsFailed \<Rightarrow> e
                       | RsCompleted \<Rightarrow> e
                       | RsStopped \<Rightarrow> Inr (False, s)
                       | RsRunning \<Rightarrow> pend RsStopped override_pending False
                       | RsInit \<Rightarrow> pend RsStopped override_pending True
                       | RsPaused \<Rightarrow> pend RsStopped override_pending True)
         | OpPause \<Rightarrow> (case rs_current s of
                         RsStopped \<Rightarrow> e
                       | RsFailed \<Rightarrow> e
                       | RsCompleted \<Rightarrow> e
                       | _ \<Rightarrow> pend RsPaused False False)
         | OpResume \<Rightarrow> (case rs_current s of
                         RsRunning \<Rightarrow> pend RsRunning False True
                       | RsPaused \<Rightarrow> pend RsRunning False True
                       | _ \<Rightarrow> e)
         | OpFail \<Rightarrow> (case rs_current s of
                         RsFailed \<Rightarrow> Inr (False, s)
                       | RsRunning \<Rightarrow> pend RsFailed override_pending False
                       | _ \<Rightarrow> e)
         | OpComplete \<Rightarrow> (case rs_current s of
                         RsRunning \<Rightarrow> pend RsCompleted override_pending False
                       | _ \<Rightarrow> e))"

section \<open>The frontend of a job\<close>

text \<open>The frontend shares its states with the backend. \<open>rj_wakeups\<close> counts the wake-up
  messages sent to the backend, \<open>rj_listeners\<close> the completion listeners registered with it;
  it is \<^const>\<open>None\<close> once the backend has been dropped.\<close>

record RebuildJob =
  rj_src_uri :: string
  rj_dst_uri :: string
  rj_states :: RebuildStates
  rj_wakeups :: nat
  rj_listeners :: "nat option"

definition job_exec_op :: "RebuildOperation \<Rightarrow> bool \<Rightarrow> RebuildJob \<Rightarrow> RebuildError + RebuildJob" where
  "job_exec_op op override_pending j =
     try_bind (exec_op op override_pending (rj_states j)) (\<lambda>(wake_up, s).
       Inr (if wake_up then j\<lparr>rj_states := s, rj_wakeups := rj_wakeups j + 1\<rparr>
            else j\<lparr>rj_states := s\<rparr>))"

definition exec_client_op :: "RebuildOperation \<Rightarrow> RebuildJob \<Rightarrow> RebuildError + RebuildJob" where
  "exec_client_op op j = job_exec_op op False j"

definition exec_internal_op :: "RebuildOperation \<Rightarrow> RebuildJob \<Rightarrow> RebuildError + RebuildJob" where
  "exec_internal_op op j = job_exec_op op True j"

definition add_completion_listener :: "RebuildJob \<Rightarrow> RebuildError + RebuildJob" where
  "add_completion_listener j =
     (case rj_listeners j of
        None \<Rightarrow> Inl RE_BackendGone
      | Some n \<Rightarrow> Inr (j\<lparr>rj_listeners := Some (n + 1)\<rparr>))"

text \<open>\<open>start\<close> keeps the state change of its operation even when the listener cannot be added.\<close>

definition job_start :: "RebuildJob \<Rightarrow> (RebuildError + unit) \<times> RebuildJob" where
  "job_start j =
     (case exec_client_op OpStart j of
        Inl e \<Rightarrow> (Inl e, j)
      | Inr j' \<Rightarrow> (case add_completion_listener j' of
                    Inl e \<Rightarrow> (Inl e, j')
                  | Inr j'' \<Rightarrow> (Inr (), j'')))"

definition job_stop :: "RebuildJob \<Rightarrow> RebuildError + RebuildJob" where
  "job_stop j = exec_client_op OpStop j"

definition job_pause :: "RebuildJob \<Rightarrow> RebuildError + RebuildJob" where
  "job_pause j = exec_client_op OpPause j"

definition job_resume :: "RebuildJob \<Rightarrow> RebuildError + RebuildJob" where
  "job_resume j = exec_client_op OpResume j"

text \<open>\<open>force_terminate\<close> ignores the error of its operation and answers a completion channel
  (left) or, when the backend is gone, the current state (right).\<close>

definition force_terminate :: "RebuildOperation \<Rightarrow> RebuildJob \<Rightarrow> (unit + RebuildState) \<times> RebuildJob" where
  "force_terminate op j =
     (let j' = (case exec_internal_op op j of Inl _ \<Rightarrow> j | Inr j' \<Rightarrow> j')
      in case add_completion_listener j' of
           Inr j'' \<Rightarrow> (Inl (), j'')
         | Inl _ \<Rightarrow> (Inr (rs_current (rj_states j')), j'))"

definition force_stop :: "RebuildJob \<Rightarrow> (unit + RebuildState) \<times> RebuildJob" where
  "force_stop j = force_terminate OpStop j"

definition force_fail :: "RebuildJob \<Rightarrow> (unit + RebuildState) \<times> RebuildJob" where
  "force_fail j = force_terminate OpFail j"

definition history_record :: "nat \<Rightarrow> RebuildJob \<Rightarrow> HistoryRecord option" where
  "history_record now j =
     map_option (\<lambda>final_stats.
       \<lparr> hr_child_uri = rj_dst_uri j, hr_src_uri = rj_src_uri j, hr_final_stats = final_stats,
         hr_state = rs_current (rj_states j), hr_end_time = now \<rparr>)
       (rs_final_stats (rj_states j))"

section \<open>The registry of jobs\<close>

text \<open>The hash map from job names to jobs. \<open>name\<close>, \<open>dst_uri\<close> and \<open>src_uri\<close> are the accessors of
  the job type that the macro is instantiated with.\<close>

definition inst_remove ::
  "string \<Rightarrow> (string \<times> 'j) list \<Rightarrow> RebuildError + ('j \<times> (string \<times> 'j) list)" where
  "inst_remove name is =
     (case map_of is name of
        Some job \<Rightarrow> Inr (job, filter (\<lambda>kv. fst kv \<noteq> name) is)
      | None \<Rightarrow> Inl (RE_JobNotFound name))"

definition inst_store ::
  "('j \<Rightarrow> string) \<Rightarrow> ('j \<Rightarrow> string) \<Rightarrow> 'j \<Rightarrow> (string \<times> 'j) list \<Rightarrow> RebuildError + (string \<times> 'j) list" where
  "inst_store name dst_uri job is =
     (if map_of is (name job) \<noteq> None then Inl (RE_JobAlreadyExists (dst_uri job))
      else Inr ((name job, job) # is))"

definition inst_lookup :: "string \<Rightarrow> (string \<times> 'j) list \<Rightarrow> RebuildError + 'j" where
  "inst_lookup name is =
     (case map_of is name of Some job \<Rightarrow> Inr job | None \<Rightarrow> Inl (RE_JobNotFound name))"

definition inst_lookup_src :: "('j \<Rightarrow> string) \<Rightarrow> string \<Rightarrow> (string \<times> 'j) list \<Rightarrow> 'j list" where
  "inst_lookup_src src_uri uri is = map snd (filter (\<lambda>kv. src_uri (snd kv) = uri) is)"

definition inst_count :: "(string \<times> 'j) list \<Rightarrow> nat" where
  "inst_count is = length is"

section \<open>Runs of the state machine\<close>

text \<open>What may happen to the states of a job: an operation of a client or of the job itself
  (with or without override, refused or not), the backend reconciling, recording an error or
  the final statistics.\<close>

inductive states_step :: "RebuildStates \<Rightarrow> RebuildStates \<Rightarrow> bool" where
  step_op: "exec_op op ov s = Inr (w, s') \<Longrightarrow> states_step s s'"
| step_reconcile: "states_reconcile s = (r, s') \<Longrightarrow> states_step s s'"
| step_error: "states_step s (s\<lparr>rs_error := e\<rparr>)"
| step_final: "states_step s (set_final_stats now stats s)"

inductive states_run :: "RebuildStates \<Rightarrow> RebuildStates \<Rightarrow> bool" where
  run_refl: "states_run s s"
| run_step: "states_run s t \<Longrightarrow> states_step t u \<Longrightarrow> states_run s u"

inductive_cases states_stepE: "states_step s t"

text \<open>The edges of the state diagram.\<close>

fun rs_next :: "RebuildState \<Rightarrow> RebuildState set" where
  "rs_next RsInit = {RsRunning, RsStopped, RsPaused}"
| "rs_next RsRunning = {RsStopped, RsPaused, RsFailed, RsCompleted}"
| "rs_next RsPaused = {RsRunning, RsStopped}"
| "rs_next RsStopped = {}"
| "rs_next RsFailed = {}"
| "rs_next RsCompleted = {}"

text \<open>The invariant: a pending state is always a successor of the current one.\<close>

definition states_inv :: "RebuildStates \<Rightarrow> bool" where
  "states_inv s \<longleftrightarrow> (\<forall>p. rs_pending s = Some p \<longrightarrow> p \<in> rs_next (rs_current s))"

section \<open>Lemmas\<close>

lemma set_pending_cases:
  "set_pending state ov s = Inr s' \<Longrightarrow>
     s' = s\<lparr>rs_pending := (if rs_current s = state then None else Some state)\<rparr>"
  by (auto simp: set_pending_def Let_def split: option.splits if_splits)

lemma set_pending_override [simp]:
  "set_pending state True s =
     Inr (s\<lparr>rs_pending := (if rs_current s = state then None else Some state)\<rparr>)"
  by (auto simp: set_pending_def Let_def split: option.splits)

text \<open>What an accepted operation may change.\<close>

lemma exec_op_cases:
  assumes "exec_op op ov s = Inr (w, s')"
  shows "s' = s \<or> s' = s\<lparr>rs_pending := None\<rparr> \<and> rs_current s \<in> {RsPaused, RsRunning} \<or>
         (\<exists>p \<in> rs_next (rs_current s). s' = s\<lparr>rs_pending := Some p\<rparr>)"
  using assms
  by (auto simp: exec_op_def Let_def try_bind_Inr
           split: RebuildOperation.splits RebuildState.splits dest!: set_pending_cases)

lemma states_step_inv:
  assumes "states_inv s" "states_step s t"
  shows "states_inv t"
  using assms(2,1)
proof cases
  case (step_op op ov w)
  then show ?thesis using exec_op_cases [OF step_op] assms(1) by (auto simp: states_inv_def)
next
  case (step_reconcile r)
  then show ?thesis using assms(1) by (auto simp: states_reconcile_def states_inv_def split: option.splits)
qed (auto simp: states_inv_def set_final_stats_def)

lemma states_step_edge:
  assumes "states_inv s" "states_step s t"
  shows "rs_current t = rs_current s \<or> rs_current t \<in> rs_next (rs_current s)"
  using assms(2)
proof cases
  case (step_op op ov w)
  then show ?thesis using exec_op_cases [OF step_op] by auto
next
  case (step_reconcile r)
  then show ?thesis using assms(1) by (auto simp: states_reconcile_def states_inv_def split: option.splits)
qed (auto simp: set_final_stats_def)

lemma states_run_inv: "states_run s t \<Longrightarrow> states_inv s \<Longrightarrow> states_inv t"
  by (induction rule: states_run.induct) (auto intro: states_step_inv)

lemma default_inv [simp]: "states_inv rebuild_states_default"
  by (simp add: states_inv_def rebuild_states_default_def)

lemma rs_done_next: "rs_done s \<longleftrightarrow> rs_next s = {}"
  by (cases s) (auto simp: rs_done_def)

lemma states_run_done:
  assumes "states_run s t" "states_inv s" "rs_done (rs_current s)"
  shows "rs_current t = rs_current s"
  using assms
proof (induction rule: states_run.induct)
  case (run_step s t u)
  then show ?case
    using states_step_edge [OF states_run_inv [OF run_step(1)]] by (auto simp: rs_done_next)
qed simp

section \<open>Properties\<close>

text \<open>C16: the state diagram of a rebuild job. In every state that a new job can reach through
  any sequence of client operations, internal operations with override, and reconciliations, a
  pending state is a successor of the current one in the diagram, and the next step either keeps
  the current state or follows an edge of the diagram: a job starts before it completes or
  fails, and only a running job completes or fails.\<close>

theorem rebuild_state_diagram:
  assumes "states_run rebuild_states_default s" "states_step s t"
  shows "(\<forall>p. rs_pending s = Some p \<longrightarrow> p \<in> rs_next (rs_current s)) \<and>
         (rs_current t = rs_current s \<or> rs_current t \<in> rs_next (rs_current s))"
  using states_run_inv [OF assms(1) default_inv] states_step_edge [OF _ assms(2)]
  by (simp add: states_inv_def)

lemma states_run_one: "states_step s t \<Longrightarrow> states_run s t"
  using run_refl run_step by blast

theorem rebuild_state_diagram_witness:
  "\<exists>s t. states_run rebuild_states_default s \<and> states_step s t \<and>
         rs_pending s = Some RsRunning \<and> RsRunning \<in> rs_next (rs_current s) \<and> rs_current t = RsRunning"
proof -
  define s where "s = rebuild_states_default\<lparr>rs_pending := Some RsRunning\<rparr>"
  define t where "t = s\<lparr>rs_pending := None, rs_current := RsRunning\<rparr>"
  have "states_step rebuild_states_default s"
    by (rule step_op [of OpStart False _ True])
      (simp add: s_def rebuild_states_default_def exec_op_def set_pending_def)
  then have s: "states_run rebuild_states_default s" by (rule states_run_one)
  have t: "states_step s t"
    by (rule step_reconcile [of _ RsRunning]) (simp add: s_def t_def states_reconcile_def)
  show ?thesis
    using rebuild_state_diagram [OF s t] s t
    by (intro exI [of _ s] exI [of _ t]) (simp add: s_def t_def)
qed

text \<open>C17: the end of a rebuild is final. Once the current state of a job is stopped, failed or
  completed it never changes again, whatever operations follow, and no change is pending.\<close>

theorem rebuild_done_is_final:
  assumes "states_run rebuild_states_default s" "rs_done (rs_current s)" "states_run s t"
  shows "rs_current t = rs_current s \<and> rs_pending t = None"
proof -
  have inv: "states_inv s" using states_run_inv [OF assms(1)] by simp
  then have "states_inv t" and cur: "rs_current t = rs_current s"
    using states_run_inv [OF assms(3)] states_run_done [OF assms(3) _ assms(2)] by auto
  then show ?thesis
    using assms(2) by (cases "rs_pending t") (auto simp: states_inv_def rs_done_next)
qed

theorem rebuild_done_is_final_witness:
  "\<exists>s. states_run rebuild_states_default s \<and> rs_current s = RsStopped \<and>
       rs_current s = RsStopped \<and> rs_pending s = None"
proof -
  define s where "s = rebuild_states_default\<lparr>rs_pending := Some RsStopped\<rparr>"
  define t where "t = s\<lparr>rs_pending := None, rs_current := RsStopped\<rparr>"
  have s: "states_step rebuild_states_default s"
    by (rule step_op [of OpStop False _ True])
      (simp add: s_def rebuild_states_default_def exec_op_def set_pending_def)
  have t: "states_step s t"
    by (rule step_reconcile [of _ RsStopped]) (simp add: s_def t_def states_reconcile_def)
  have r: "states_run rebuild_states_default t"
    using run_step [OF states_run_one [OF s] t] .
  have "rs_done (rs_current t)" by (simp add: t_def rs_done_def)
  then show ?thesis
    using rebuild_done_is_final [OF r _ run_refl] r by (intro exI [of _ t]) (simp add: t_def)
qed

text \<open>what a forced termination achieves. A forced stop makes the next reconciliation of
  any job that is not done yet answer \<open>Stopped\<close>, overriding whatever was pending. A
  forced failure does the same for a running job, but it leaves the states of a job that is
  initialising or paused untouched, although a completion listener is registered all the same.\<close>

theorem force_terminate_effect:
  "(\<not> rs_done (rs_current (rj_states j)) \<longrightarrow>
      fst (states_reconcile (rj_states (snd (force_stop j)))) = RsStopped) \<and>
   (rs_current (rj_states j) = RsRunning \<longrightarrow>
      fst (states_reconcile (rj_states (snd (force_fail j)))) = RsFailed) \<and>
   (rs_current (rj_states j) \<in> {RsInit, RsPaused} \<longrightarrow>
      rj_states (snd (force_fail j)) = rj_states j \<and>
      (rj_listeners j \<noteq> None \<longrightarrow> fst (force_fail j) = Inl ()))"
  by (cases "rs_current (rj_states j)"; cases "rj_listeners j"; cases "rs_pending (rj_states j)")
    (simp_all add: force_stop_def force_fail_def force_terminate_def exec_internal_op_def
      job_exec_op_def exec_op_def states_reconcile_def add_completion_listener_def rs_done_def)

theorem force_terminate_effect_witness:
  "rj_states (snd (force_fail
     \<lparr> rj_src_uri = ''a'', rj_dst_uri = ''b'',
       rj_states = rebuild_states_default\<lparr>rs_current := RsPaused\<rparr>,
       rj_wakeups = 0, rj_listeners = Some 0 \<rparr>)) = rebuild_states_default\<lparr>rs_current := RsPaused\<rparr>"
  using force_terminate_effect [of "\<lparr> rj_src_uri = ''a'', rj_dst_uri = ''b'',
       rj_states = rebuild_states_default\<lparr>rs_current := RsPaused\<rparr>,
       rj_wakeups = 0, rj_listeners = Some 0 \<rparr>"] by simp

end
