(* ===== verification/Segment_Map.thy ===== *)
theory Segment_Map
  imports Prelude
begin

text \<open>
  The map of dirty segments of a replica: \<open>SegmentMap\<close> of \<open>core/segment_map.rs\<close> and its
  wrapper \<open>RebuildMap\<close> of \<open>rebuild/rebuild_map.rs\<close>. The contract that the I/O log and the
  partial rebuild rely on (what a lookup answers after a range of blocks has been marked) is
  the locale \<open>dirty_map\<close>, interpreted here on the operations of the segment map.
\<close>

section \<open>SegmentMap\<close>

record SegmentMap =
  sm_segments :: bit_vec
  sm_num_segments :: u64
  sm_num_blocks :: u64
  sm_block_len :: u64
  sm_segment_size :: u64

text \<open>\<open>SegmentMap::new\<close>: the product wraps, \<open>div_ceil\<close> panics on a zero segment size.\<close>

definition sm_new :: "u64 \<Rightarrow> u64 \<Rightarrow> u64 \<Rightarrow> SegmentMap option" where
  "sm_new num_blocks block_len segment_size =
     do {
       num_segments \<leftarrow> div_ceil (num_blocks * block_len) segment_size;
       Some \<lparr> sm_segments = replicate (unat num_segments) False,
              sm_num_segments = num_segments,
              sm_num_blocks = num_blocks,
              sm_block_len = block_len,
              sm_segment_size = segment_size \<rparr>
     }"

text \<open>\<open>SegmentMap::merge\<close>.\<close>

definition sm_merge :: "SegmentMap \<Rightarrow> SegmentMap \<Rightarrow> SegmentMap option" where
  "sm_merge m other =
     do { bs \<leftarrow> bit_or (sm_segments m) (sm_segments other); Some (m\<lparr>sm_segments := bs\<rparr>) }"

text \<open>\<open>SegmentMap::lbn_to_seg\<close>. The fields are private and \<open>new\<close> has divided by the segment
  size already, so the divisor is not zero.\<close>

definition lbn_to_seg :: "SegmentMap \<Rightarrow> u64 \<Rightarrow> nat" where
  "lbn_to_seg m lbn = unat (lbn * sm_block_len m div sm_segment_size m)"

text \<open>The loop of \<open>SegmentMap::set\<close> over the inclusive range of segment indexes.\<close>

function set_range :: "bit_vec \<Rightarrow> nat \<Rightarrow> nat \<Rightarrow> bool \<Rightarrow> bit_vec option" where
  "set_range bs i e v =
     (if e < i then Some bs
      else case bit_set bs i v of
             None \<Rightarrow> None
           | Some bs' \<Rightarrow> set_range bs' (Suc i) e v)"
  by pat_completeness auto
termination by (relation "measure (\<lambda>(bs, i, e, v). Suc e - i)") auto

definition sm_set :: "SegmentMap \<Rightarrow> u64 \<Rightarrow> u64 \<Rightarrow> bool \<Rightarrow> SegmentMap option" where
  "sm_set m lbn lbn_cnt v =
     (if sm_num_blocks m = 0 then None
      else do {
        bs \<leftarrow> set_range (sm_segments m) (lbn_to_seg m lbn) (lbn_to_seg m (lbn + lbn_cnt - 1)) v;
        Some (m\<lparr>sm_segments := bs\<rparr>)
      })"

definition sm_get :: "SegmentMap \<Rightarrow> u64 \<Rightarrow> bool option" where
  "sm_get m lbn = bit_get (sm_segments m) (lbn_to_seg m lbn)"

definition count_ones :: "SegmentMap \<Rightarrow> u64" where
  "count_ones m = of_nat (length (filter (\<lambda>i. i) (sm_segments m)))"

text \<open>\<open>SegmentMap::count_dirty_blks\<close>; a zero block length makes the division panic.\<close>

definition sm_count_dirty_blks :: "SegmentMap \<Rightarrow> u64 option" where
  "sm_count_dirty_blks m =
     (if sm_block_len m = 0 then None
      else Some (count_ones m * sm_segment_size m div sm_block_len m))"

definition sm_segment_size_blks :: "SegmentMap \<Rightarrow> u64 option" where
  "sm_segment_size_blks m =
     (if sm_block_len m = 0 then None else Some (sm_segment_size m div sm_block_len m))"

definition sm_size_blks :: "SegmentMap \<Rightarrow> u64" where
  "sm_size_blks m = sm_num_blocks m"

section \<open>RebuildMap\<close>

record RebuildMap =
  rm_device_name :: string
  rm_segments :: SegmentMap

definition rm_new :: "string \<Rightarrow> SegmentMap \<Rightarrow> RebuildMap" where
  "rm_new device_name segments = \<lparr> rm_device_name = device_name, rm_segments = segments \<rparr>"

definition is_blk_clean :: "RebuildMap \<Rightarrow> u64 \<Rightarrow> bool" where
  "is_blk_clean r lbn = (case sm_get (rm_segments r) lbn of Some v \<Rightarrow> \<not> v | None \<Rightarrow> False)"

definition blk_clean :: "RebuildMap \<Rightarrow> u64 \<Rightarrow> RebuildMap option" where
  "blk_clean r lbn =
     do { m \<leftarrow> sm_set (rm_segments r) lbn 1 False; Some (r\<lparr>rm_segments := m\<rparr>) }"

definition rm_count_dirty_blks :: "RebuildMap \<Rightarrow> u64 option" where
  "rm_count_dirty_blks r = sm_count_dirty_blks (rm_segments r)"

section \<open>Well-formed maps and their abstraction\<close>

text \<open>A well-formed map describes a device whose size in bytes fits a \<open>u64\<close> and has one bit
  for each segment of it.\<close>

definition sm_wf :: "SegmentMap \<Rightarrow> bool" where
  "sm_wf m \<longleftrightarrow>
     sm_segment_size m \<noteq> 0 \<and> sm_block_len m \<noteq> 0 \<and>
     unat (sm_num_blocks m) * unat (sm_block_len m) < 18446744073709551616 \<and>
     length (sm_segments m) = unat (sm_num_segments m) \<and>
     unat (sm_num_segments m) =
       (unat (sm_num_blocks m) * unat (sm_block_len m) + unat (sm_segment_size m) - 1)
         div unat (sm_segment_size m)"

definition sm_same_geometry :: "SegmentMap \<Rightarrow> SegmentMap \<Rightarrow> bool" where
  "sm_same_geometry a b \<longleftrightarrow>
     sm_num_blocks a = sm_num_blocks b \<and> sm_block_len a = sm_block_len b \<and>
     sm_segment_size a = sm_segment_size b"

text \<open>The number of the segment that holds a block, and whether the map calls the block dirty.\<close>

definition seg_of :: "SegmentMap \<Rightarrow> nat \<Rightarrow> nat" where
  "seg_of m l = l * unat (sm_block_len m) div unat (sm_segment_size m)"

definition sm_dirty :: "SegmentMap \<Rightarrow> nat \<Rightarrow> bool" where
  "sm_dirty m l \<longleftrightarrow> bit_get (sm_segments m) (seg_of m l) = Some True"

section \<open>Lemmas\<close>

declare set_range.simps [simp del]

lemma set_range_spec:
  assumes "e < length bs"
  shows "\<exists>bs'. set_range bs i e v = Some bs' \<and> length bs' = length bs \<and>
           (\<forall>j. bit_get bs' j = (if i \<le> j \<and> j \<le> e then Some v else bit_get bs j))"
  using assms
proof (induction bs i e v rule: set_range.induct)
  case (1 bs i e v)
  show ?case
  proof (cases "e < i")
    case True
    then show ?thesis by (auto simp: set_range.simps)
  next
    case False
    then obtain b where b: "bit_set bs i v = Some b"
      using 1(2) by (simp add: bit_set_def)
    obtain bs' where bs': "set_range b (Suc i) e v = Some bs'" "length bs' = length b"
      "\<forall>j. bit_get bs' j = (if Suc i \<le> j \<and> j \<le> e then Some v else bit_get b j)"
      using 1(1) [OF False b] 1(2) bit_set_length [OF b] by auto
    have "set_range bs i e v = Some bs'"
      using False b bs'(1) by (simp add: set_range.simps)
    moreover have "bit_get bs' j = (if i \<le> j \<and> j \<le> e then Some v else bit_get bs j)" for j
      using False bs'(3) bit_get_set [OF b, of j] by auto
    ultimately show ?thesis using bs'(2) bit_set_length [OF b] by auto
  qed
qed

lemma sm_new_wf:
  assumes "unat num_blocks * unat block_len < 18446744073709551616"
    and "block_len \<noteq> 0" "segment_size \<noteq> 0"
  shows "\<exists>m. sm_new num_blocks block_len segment_size = Some m \<and> sm_wf m \<and>
             sm_num_blocks m = num_blocks \<and> sm_block_len m = block_len \<and>
             sm_segment_size m = segment_size \<and> (\<forall>l. \<not> sm_dirty m l)"
proof -
  obtain c where c: "div_ceil (num_blocks * block_len) segment_size = Some c"
    using assms(3) div_ceil_Some by blast
  have "unat c = (unat num_blocks * unat block_len + unat segment_size - 1) div unat segment_size"
    using div_ceil_nat [OF c] assms(1) by (simp add: unat_mult_64)
  then show ?thesis
    using assms c by (simp add: sm_new_def sm_wf_def sm_dirty_def bit_get_def)
qed

lemma lbn_to_seg_nat:
  assumes "sm_wf m" "unat lbn \<le> unat (sm_num_blocks m)"
  shows "lbn_to_seg m lbn = seg_of m (unat lbn)"
proof -
  have "unat lbn * unat (sm_block_len m) \<le> unat (sm_num_blocks m) * unat (sm_block_len m)"
    using assms(2) by simp
  then have "unat lbn * unat (sm_block_len m) < 18446744073709551616"
    using assms(1) unfolding sm_wf_def by linarith
  then show ?thesis
    by (simp add: lbn_to_seg_def seg_of_def u64_nat)
qed

lemma seg_of_in_range:
  assumes "sm_wf m" "l < unat (sm_num_blocks m)"
  shows "seg_of m l < length (sm_segments m)"
proof -
  have "l * unat (sm_block_len m) < unat (sm_num_blocks m) * unat (sm_block_len m)"
    using assms by (simp add: sm_wf_def unat_gt_0)
  then show ?thesis
    using assms(1) div_less_ceil_div by (simp add: seg_of_def sm_wf_def unat_gt_0)
qed

lemma seg_of_mono: "a \<le> b \<Longrightarrow> seg_of m a \<le> seg_of m b"
  by (simp add: seg_of_def div_le_mono)

lemma sm_get_dirty:
  assumes "sm_wf m" "unat lbn < unat (sm_num_blocks m)"
  shows "sm_get m lbn = Some (sm_dirty m (unat lbn))"
  using seg_of_in_range [OF assms] lbn_to_seg_nat [OF assms(1), of lbn] assms(2)
  by (simp add: sm_get_def sm_dirty_def bit_get_def)

text \<open>The full effect of \<open>set\<close> on a range inside the device.\<close>

lemma sm_set_spec:
  assumes wf: "sm_wf m" and cnt: "0 < unat cnt"
    and range: "unat lbn + unat cnt \<le> unat (sm_num_blocks m)"
  obtains m' where "sm_set m lbn cnt v = Some m'" "sm_wf m'" "sm_same_geometry m' m"
    "\<And>l. l < unat (sm_num_blocks m) \<Longrightarrow>
       sm_dirty m' l = (if seg_of m (unat lbn) \<le> seg_of m l \<and>
                           seg_of m l \<le> seg_of m (unat lbn + unat cnt - 1)
                        then v else sm_dirty m l)"
proof -
  have nb: "sm_num_blocks m \<noteq> 0"
    using cnt range by auto
  have last: "unat (lbn + cnt - 1) = unat lbn + unat cnt - 1"
    using cnt range unat_lt_64 [of "sm_num_blocks m"] by (simp add: u64_nat)
  have ix: "lbn_to_seg m lbn = seg_of m (unat lbn)"
    "lbn_to_seg m (lbn + cnt - 1) = seg_of m (unat lbn + unat cnt - 1)"
    using lbn_to_seg_nat [OF wf] last cnt range by auto
  have "seg_of m (unat lbn + unat cnt - 1) < length (sm_segments m)"
    using wf cnt range by (intro seg_of_in_range) auto
  then obtain bs where bs:
    "set_range (sm_segments m) (lbn_to_seg m lbn) (lbn_to_seg m (lbn + cnt - 1)) v = Some bs"
    "length bs = length (sm_segments m)"
    "\<forall>j. bit_get bs j = (if seg_of m (unat lbn) \<le> j \<and> j \<le> seg_of m (unat lbn + unat cnt - 1)
                          then Some v else bit_get (sm_segments m) j)"
    using set_range_spec [of "seg_of m (unat lbn + unat cnt - 1)" "sm_segments m"] ix by metis
  show ?thesis
    by (rule that [of "m\<lparr>sm_segments := bs\<rparr>"])
      (use nb bs wf in \<open>auto simp: sm_set_def sm_wf_def sm_same_geometry_def sm_dirty_def seg_of_def\<close>)
qed

lemma sm_merge_spec:
  assumes "sm_wf a" "sm_wf b" "sm_same_geometry a b"
  obtains c where "sm_merge a b = Some c" "sm_wf c" "sm_same_geometry c a"
    "\<And>l. sm_dirty c l \<longleftrightarrow> sm_dirty a l \<or> sm_dirty b l"
proof -
  have "length (sm_segments a) = length (sm_segments b)"
    using assms by (simp add: sm_wf_def sm_same_geometry_def)
  then obtain bs where bs: "bit_or (sm_segments a) (sm_segments b) = Some bs"
    by (simp add: bit_or_def)
  show ?thesis
    by (rule that [of "a\<lparr>sm_segments := bs\<rparr>"])
      (use bs bit_or_length [OF bs] bit_or_get [OF bs] assms in
        \<open>auto simp: sm_merge_def sm_wf_def sm_same_geometry_def sm_dirty_def seg_of_def\<close>)
qed

section \<open>The contract of a dirty map\<close>

text \<open>
  What the users of a map rely on. Two maps are the \<open>same\<close> when they describe the same device;
  \<open>near\<close> relates the blocks that share a segment. Marking a range inside the device never
  panics and changes exactly the segments the range touches; a union never panics on maps of
  the same device.
\<close>

locale dirty_map =
  fixes wf :: "'m \<Rightarrow> bool"
    and same :: "'m \<Rightarrow> 'm \<Rightarrow> bool"
    and blocks :: "'m \<Rightarrow> nat"
    and near :: "'m \<Rightarrow> nat \<Rightarrow> nat \<Rightarrow> bool"
    and dirty :: "'m \<Rightarrow> nat \<Rightarrow> bool"
    and mark :: "'m \<Rightarrow> u64 \<Rightarrow> u64 \<Rightarrow> bool \<Rightarrow> 'm option"
    and union :: "'m \<Rightarrow> 'm \<Rightarrow> 'm option"
  assumes mark_ok:
    "wf m \<Longrightarrow> 0 < unat cnt \<Longrightarrow> unat lbn + unat cnt \<le> blocks m \<Longrightarrow>
       \<exists>m'. mark m lbn cnt v = Some m' \<and> wf m' \<and> same m' m \<and>
            (\<forall>l < blocks m. dirty m' l =
               (if \<exists>k. unat lbn \<le> k \<and> k < unat lbn + unat cnt \<and> near m k l then v else dirty m l))"
    and union_ok:
    "wf a \<Longrightarrow> wf b \<Longrightarrow> same b a \<Longrightarrow>
       \<exists>c. union a b = Some c \<and> wf c \<and> same c a \<and> (\<forall>l. dirty c l \<longleftrightarrow> dirty a l \<or> dirty b l)"
    and same_trans: "same a b \<Longrightarrow> same b c \<Longrightarrow> same a c"
    and same_refl: "same a a"
    and same_sym: "same a b \<Longrightarrow> same b a"
    and same_blocks: "same a b \<Longrightarrow> blocks a = blocks b"
    and same_near: "same a b \<Longrightarrow> near a k l = near b k l"
    and near_refl: "near m k k"
begin

text \<open>The blocks that a list of logged ranges makes dirty.\<close>

definition touched :: "'m \<Rightarrow> (u64 \<times> u64) list \<Rightarrow> nat \<Rightarrow> bool" where
  "touched m ws l \<longleftrightarrow>
     (\<exists>(lbn, cnt) \<in> set ws. \<exists>k. unat lbn \<le> k \<and> k < unat lbn + unat cnt \<and> near m k l)"

lemma touched_same: "same a b \<Longrightarrow> touched a ws l = touched b ws l"
  by (simp add: touched_def same_near)

lemma touched_append: "touched m (xs @ ys) l \<longleftrightarrow> touched m xs l \<or> touched m ys l"
  unfolding touched_def by (simp add: bex_Un)

lemma touched_self:
  "(lbn, cnt) \<in> set ws \<Longrightarrow> unat lbn \<le> l \<Longrightarrow> l < unat lbn + unat cnt \<Longrightarrow> touched m ws l"
  unfolding touched_def using near_refl by fastforce

text \<open>Logging one more range.\<close>

lemma mark_touched:
  assumes "wf m" "same m m0" "\<forall>l < blocks m0. dirty m l \<longleftrightarrow> touched m0 ws l"
    and "0 < unat cnt" "unat lbn + unat cnt \<le> blocks m0"
  obtains m' where "mark m lbn cnt True = Some m'" "wf m'" "same m' m0"
    "\<forall>l < blocks m0. dirty m' l \<longleftrightarrow> touched m0 (ws @ [(lbn, cnt)]) l"
proof -
  have bl: "blocks m = blocks m0" using assms(2) same_blocks by blast
  obtain m' where m': "mark m lbn cnt True = Some m'" "wf m'" "same m' m"
    "\<forall>l < blocks m0. dirty m' l =
       (if \<exists>k. unat lbn \<le> k \<and> k < unat lbn + unat cnt \<and> near m k l then True else dirty m l)"
    using mark_ok [of m cnt lbn True] assms bl by auto
  have "dirty m' l \<longleftrightarrow> touched m0 (ws @ [(lbn, cnt)]) l" if "l < blocks m0" for l
    using m'(4) that assms(3) same_near [OF assms(2)]
    unfolding touched_append by (auto simp: touched_def)
  then show ?thesis
    using that m'(1,2) same_trans [OF m'(3) assms(2)] by blast
qed

text \<open>The union of the maps of several logs of one device.\<close>

lemma union_all:
  assumes "wf a" "same a m0" "\<forall>m \<in> set ms. wf m \<and> same m m0"
  shows "\<exists>c. foldM (\<lambda>e acc. union acc e) ms a = Some c \<and> wf c \<and> same c m0 \<and>
             (\<forall>l. dirty c l \<longleftrightarrow> dirty a l \<or> (\<exists>m \<in> set ms. dirty m l))"
  using assms
proof (induction ms arbitrary: a)
  case Nil
  then show ?case by simp
next
  case (Cons m ms)
  have "same m a" using Cons.prems(2,3) same_trans same_sym by (metis list.set_intros(1))
  then obtain b where b: "union a m = Some b" "wf b" "same b a"
    "\<forall>l. dirty b l \<longleftrightarrow> dirty a l \<or> dirty m l"
    using union_ok Cons.prems by (metis list.set_intros(1))
  show ?case
    using Cons.IH [OF b(2) same_trans [OF b(3) Cons.prems(2)]] Cons.prems(3) b(1,4) by auto
qed

end

text \<open>The segment map keeps the contract.\<close>

lemma seg_interval:
  assumes "0 < c"
  shows "seg_of m a \<le> seg_of m l \<and> seg_of m l \<le> seg_of m (a + c - 1) \<longleftrightarrow>
           (\<exists>k. a \<le> k \<and> k < a + c \<and> seg_of m k = seg_of m l)" (is "?L \<longleftrightarrow> ?R")
proof
  assume L: ?L
  consider "l < a" | "a \<le> l" "l < a + c" | "a + c \<le> l" by linarith
  then show ?R
  proof cases
    case 1
    then have "seg_of m l = seg_of m a" using L seg_of_mono [of l a m] by simp
    then show ?thesis using assms by (intro exI [of _ a]) simp
  next
    case 2
    then show ?thesis by blast
  next
    case 3
    then have "seg_of m (a + c - 1) \<le> seg_of m l" by (intro seg_of_mono) linarith
    then have "seg_of m l = seg_of m (a + c - 1)" using L by linarith
    then show ?thesis using assms by (intro exI [of _ "a + c - 1"]) simp
  qed
next
  assume ?R
  then obtain k where "a \<le> k" "k < a + c" "seg_of m k = seg_of m l" by blast
  then show ?L
    using seg_of_mono [of a k m] seg_of_mono [of k "a + c - 1" m] by simp
qed

interpretation sm: dirty_map sm_wf sm_same_geometry "\<lambda>m. unat (sm_num_blocks m)"
    "\<lambda>m k l. seg_of m k = seg_of m l" sm_dirty sm_set sm_merge
proof (unfold_locales, goal_cases)
  case (1 m cnt lbn v)
  obtain m' where "sm_set m lbn cnt v = Some m'" "sm_wf m'" "sm_same_geometry m' m"
    "\<And>l. l < unat (sm_num_blocks m) \<Longrightarrow>
       sm_dirty m' l = (if seg_of m (unat lbn) \<le> seg_of m l \<and>
                           seg_of m l \<le> seg_of m (unat lbn + unat cnt - 1)
                        then v else sm_dirty m l)"
    using sm_set_spec [OF 1] by blast
  then show ?case
    by (simp only: seg_interval [OF 1(2)]) blast
next
  case (2 a b)
  then have "sm_same_geometry a b" by (simp add: sm_same_geometry_def)
  then show ?case using sm_merge_spec [of a b] 2(1,2) by metis
qed (auto simp: sm_same_geometry_def seg_of_def)

section \<open>Properties\<close>

text \<open>C14: setting the bits of a range of blocks inside the device never panics, keeps the map
  well formed, and afterwards a lookup of any block of the device answers the new value exactly
  when the block shares a segment with a block of the range, and the old value otherwise.\<close>

theorem segment_map_set_get:
  assumes "sm_wf m" "0 < unat cnt" "unat lbn + unat cnt \<le> unat (sm_num_blocks m)"
    and "unat l < unat (sm_num_blocks m)"
  shows "\<exists>m'. sm_set m lbn cnt v = Some m' \<and> sm_wf m' \<and>
    sm_get m' l =
      (if \<exists>k. unat lbn \<le> k \<and> k < unat lbn + unat cnt \<and> seg_of m k = seg_of m (unat l)
       then Some v else sm_get m l)"
proof -
  obtain m' where m': "sm_set m lbn cnt v = Some m'" "sm_wf m'" "sm_same_geometry m' m"
    "\<forall>l < unat (sm_num_blocks m). sm_dirty m' l =
       (if \<exists>k. unat lbn \<le> k \<and> k < unat lbn + unat cnt \<and> seg_of m k = seg_of m l
        then v else sm_dirty m l)"
    using sm.mark_ok [OF assms(1-3), of v] by blast
  have "unat l < unat (sm_num_blocks m')"
    using m'(3) assms(4) by (simp add: sm_same_geometry_def)
  then show ?thesis
    using m' assms(4) sm_get_dirty [OF assms(1,4)] sm_get_dirty [OF m'(2)] by auto
qed

theorem segment_map_set_get_witness:
  "\<exists>m m'. sm_new 1000 512 65536 = Some m \<and> sm_set m 120 20 True = Some m' \<and>
     sm_get m' 130 = Some True"
proof -
  obtain m where m: "sm_new 1000 512 65536 = Some m" "sm_wf m" "sm_num_blocks m = 1000"
    using sm_new_wf [of 1000 512 65536] by auto
  have "\<exists>k \<ge> unat (120 :: u64). k < unat (120 :: u64) + unat (20 :: u64) \<and>
          seg_of m k = seg_of m (unat (130 :: u64))"
    by (intro exI [of _ 130]) simp
  then show ?thesis
    using segment_map_set_get [of m 20 120 130 True] m by auto
qed

end
