(* ===== verification/Rebuild_Copy.thy ===== *)
theory Rebuild_Copy
  imports Rebuild_State Segment_Map
begin

text \<open>
  Copying segments from a healthy replica to a replica under rebuild: the descriptor of a
  rebuild (\<open>rebuild/rebuild_descriptor.rs\<close>), the copy of one segment (\<open>rebuild_task.rs\<close>,
  \<open>nexus_rebuild.rs\<close>), and the ways to walk a device (\<open>rebuilders.rs\<close>).

  The devices themselves are outside of the program. What the two devices hold is an explicit
  store, and what they answer to the I/Os of one copy is an input of the copy.
\<close>

section \<open>The descriptor\<close>

datatype RebuildVerifyMode = VerifyNone | VerifyFail | VerifyPanic

record RebuildJobOptions =
  opt_verify_mode :: RebuildVerifyMode
  opt_read_opts :: ReadOptions

definition with_read_opts :: "ReadOptions \<Rightarrow> RebuildJobOptions \<Rightarrow> RebuildJobOptions" where
  "with_read_opts read_opts o' = o'\<lparr>opt_read_opts := read_opts\<rparr>"

record RebuildDescriptor =
  rd_block_size :: u64
  rd_range_start :: u64
  rd_range_end :: u64
  rd_options :: RebuildJobOptions
  rd_segment_size_blks :: u64
  rd_src_uri :: string
  rd_dst_uri :: string
  rd_start_time :: nat

text \<open>\<open>WithinRange::within\<close>.\<close>

definition within :: "u64 \<times> u64 \<Rightarrow> u64 \<times> u64 \<Rightarrow> bool" where
  "within self right \<longleftrightarrow>
     fst self < snd self \<and> fst right < snd right \<and>
     fst self \<ge> fst right \<and> snd self \<le> snd right"

definition rd_validate :: "BlockDevice \<Rightarrow> BlockDevice \<Rightarrow> u64 \<times> u64 \<Rightarrow> bool" where
  "rd_validate source destination rng \<longleftrightarrow>
     within rng (0, bd_num_blocks source) \<and>
     within rng (0, bd_num_blocks destination) \<and>
     bd_block_len source = bd_block_len destination"

text \<open>\<open>RebuildDescriptor::new\<close>. Resolving a URI, opening a device and getting an I/O handle
  belong to the block device layer and are parameters; a zero block length makes the division
  panic.\<close>

definition rd_new ::
  "u64 \<Rightarrow> (string \<Rightarrow> string + string) \<Rightarrow> (string \<Rightarrow> bool \<Rightarrow> CoreError + BlockDevice) \<Rightarrow>
   (BlockDevice \<Rightarrow> RebuildError + unit) \<Rightarrow> string \<Rightarrow> string \<Rightarrow> (u64 \<times> u64) option \<Rightarrow>
   RebuildJobOptions \<Rightarrow> nat \<Rightarrow> (RebuildError + RebuildDescriptor) option" where
  "rd_new SEGMENT_SIZE bdev_get_name device_open io_handle src_uri dst_uri rng options now =
     (let open_uri = (\<lambda>uri rw.
            try_bind (map_err (\<lambda>e. RE_BdevInvalidUri e uri) (bdev_get_name uri)) (\<lambda>name.
              map_err (\<lambda>e. RE_BdevNotFound e uri) (device_open name rw)));
          devs = try_bind (open_uri src_uri False) (\<lambda>src.
                 try_bind (open_uri dst_uri True) (\<lambda>dst.
                   if bd_device_name src = bd_device_name dst
                   then Inl (RE_SameBdev (bd_device_name src))
                   else try_bind (io_handle src) (\<lambda>_.
                        try_bind (io_handle dst) (\<lambda>_. Inr (src, dst)))))
      in case devs of
           Inl e \<Rightarrow> Some (Inl e)
         | Inr (src, dst) \<Rightarrow>
             do {
               r \<leftarrow> (case rng of
                       None \<Rightarrow> if bd_block_len dst = 0 then None
                               else Some (0, bd_size_in_bytes dst div bd_block_len dst)
                     | Some r \<Rightarrow> Some r);
               if \<not> rd_validate src dst r then Some (Inl RE_InvalidSrcDstRange)
               else if bd_block_len dst = 0 then None
               else Some (Inr \<lparr> rd_block_size = bd_block_len dst,
                                rd_range_start = fst r, rd_range_end = snd r,
                                rd_options = options,
                                rd_segment_size_blks = SEGMENT_SIZE div bd_block_len dst,
                                rd_src_uri = src_uri, rd_dst_uri = dst_uri,
                                rd_start_time = now \<rparr>)
             })"

definition validate_map :: "RebuildDescriptor \<Rightarrow> SegmentMap \<Rightarrow> RebuildError + unit" where
  "validate_map d m = (if sm_size_blks m > rd_range_end d then Inl RE_InvalidMapRange else Inr ())"

definition get_segment_size_blks :: "RebuildDescriptor \<Rightarrow> u64 \<Rightarrow> u64" where
  "get_segment_size_blks d blk =
     (if blk + rd_segment_size_blks d > rd_range_end d then rd_range_end d - blk
      else rd_segment_size_blks d)"

text \<open>\<open>adjusted_iov\<close>: the length in bytes of the part of the buffer that is used; it panics
  when the buffer is too small.\<close>

definition adjusted_iov :: "RebuildDescriptor \<Rightarrow> u64 \<Rightarrow> u64 \<Rightarrow> u64 option" where
  "adjusted_iov d buffer_len offset_blk =
     (let iov_len = get_segment_size_blks d offset_blk * rd_block_size d
      in if iov_len \<le> buffer_len then Some iov_len else None)"

section \<open>The devices\<close>

text \<open>The blocks that the source and the destination hold.\<close>

record 'd disks =
  dk_src :: "nat \<Rightarrow> 'd"
  dk_dst :: "nat \<Rightarrow> 'd"

text \<open>What the block layer answers to the I/Os of one segment copy: \<^const>\<open>None\<close> is success.
  After a failed write the destination may hold anything in the range of the write
  (\<open>ci_torn\<close>). The comparison is decided by the contents unless the I/O itself fails.\<close>

record 'd copy_io =
  ci_lock :: "string option"
  ci_read :: "CoreError option"
  ci_write :: "CoreError option"
  ci_torn :: "nat \<Rightarrow> 'd"
  ci_verify_read :: "CoreError option"
  ci_compare :: "CoreError option"
  ci_unlock :: "string option"

definition blocks_at :: "(nat \<Rightarrow> 'd) \<Rightarrow> u64 \<Rightarrow> u64 \<Rightarrow> 'd list" where
  "blocks_at f off n = map f [unat off ..< unat off + unat n]"

definition store_at :: "u64 \<Rightarrow> 'd list \<Rightarrow> (nat \<Rightarrow> 'd) \<Rightarrow> nat \<Rightarrow> 'd" where
  "store_at off ds f b =
     (if unat off \<le> b \<and> b < unat off + length ds then ds ! (b - unat off) else f b)"

section \<open>Copying one segment\<close>

definition read_src_segment ::
  "RebuildDescriptor \<Rightarrow> 'd copy_io \<Rightarrow> u64 \<Rightarrow> 'd disks \<Rightarrow> RebuildError + 'd list option" where
  "read_src_segment d io offset_blk dk =
     (case ci_read io of
        None \<Rightarrow> Inr (Some (blocks_at (dk_src dk) offset_blk (get_segment_size_blks d offset_blk)))
      | Some err \<Rightarrow>
          (case err of
             Core_ReadFailed (IoNvmeError Nvme_UNWRITTEN_BLOCK) _ _ \<Rightarrow> Inr None
           | _ \<Rightarrow> Inl (RE_ReadIoFailed err (rd_src_uri d))))"

definition write_dst_segment ::
  "RebuildDescriptor \<Rightarrow> 'd copy_io \<Rightarrow> u64 \<Rightarrow> 'd list \<Rightarrow> 'd disks \<Rightarrow> (RebuildError + unit) \<times> 'd disks" where
  "write_dst_segment d io offset_blk buf dk =
     (let n = get_segment_size_blks d offset_blk
      in case ci_write io of
           None \<Rightarrow> (Inr (), dk\<lparr>dk_dst := store_at offset_blk buf (dk_dst dk)\<rparr>)
         | Some err \<Rightarrow> (Inl (RE_WriteIoFailed err (rd_dst_uri d)),
                        dk\<lparr>dk_dst := store_at offset_blk (blocks_at (ci_torn io) offset_blk n) (dk_dst dk)\<rparr>))"

text \<open>\<open>verify_failure\<close>: the outer option is the panic.\<close>

definition verify_failure :: "RebuildDescriptor \<Rightarrow> u64 \<Rightarrow> (RebuildError + unit) option" where
  "verify_failure d offset_blk =
     (case opt_verify_mode (rd_options d) of
        VerifyNone \<Rightarrow> Some (Inr ())
      | VerifyFail \<Rightarrow> Some (Inl (RE_VerifyCompareFailed (rd_dst_uri d) offset_blk))
      | VerifyPanic \<Rightarrow> None)"

definition verify_segment ::
  "RebuildDescriptor \<Rightarrow> 'd copy_io \<Rightarrow> u64 \<Rightarrow> 'd disks \<Rightarrow> (RebuildError + unit) option" where
  "verify_segment d io offset_blk dk =
     (let n = get_segment_size_blks d offset_blk
      in case ci_verify_read io of
           Some err \<Rightarrow> Some (Inl (RE_VerifyIoFailed err (rd_dst_uri d)))
         | None \<Rightarrow>
             (case (case ci_compare io of
                      Some err \<Rightarrow> Some err
                    | None \<Rightarrow>
                        if blocks_at (dk_src dk) offset_blk n = blocks_at (dk_dst dk) offset_blk n
                        then None
                        else Some (Core_CompareFailed (IoNvmeError Nvme_COMPARE_FAILURE) offset_blk n)) of
                None \<Rightarrow> Some (Inr ())
              | Some err \<Rightarrow>
                  (case err of
                     Core_CompareFailed (IoNvmeError Nvme_COMPARE_FAILURE) _ _ \<Rightarrow>
                       verify_failure d offset_blk
                   | _ \<Rightarrow> Some (Inl (RE_VerifyIoFailed err (rd_dst_uri d))))))"

text \<open>\<open>RebuildTask::copy_one\<close>; \<open>buffer_len\<close> is the length of the buffer of the task.\<close>

definition copy_one ::
  "u64 \<Rightarrow> RebuildDescriptor \<Rightarrow> 'd copy_io \<Rightarrow> u64 \<Rightarrow> 'd disks \<Rightarrow>
   ((RebuildError + bool) \<times> 'd disks) option" where
  "copy_one buffer_len d io offset_blk dk =
     do {
       _ \<leftarrow> adjusted_iov d buffer_len offset_blk;
       (case read_src_segment d io offset_blk dk of
          Inl e \<Rightarrow> Some (Inl e, dk)
        | Inr None \<Rightarrow> Some (Inr False, dk)
        | Inr (Some buf) \<Rightarrow>
            (case write_dst_segment d io offset_blk buf dk of
               (Inl e, dk') \<Rightarrow> Some (Inl e, dk')
             | (Inr _, dk') \<Rightarrow>
                 if opt_verify_mode (rd_options d) \<noteq> VerifyNone then
                   do {
                     r \<leftarrow> verify_segment d io offset_blk dk';
                     Some (case r of Inl e \<Rightarrow> (Inl e, dk') | Inr _ \<Rightarrow> (Inr True, dk'))
                   }
                 else Some (Inr True, dk')))
     }"

text \<open>\<open>copy_segment\<close> of the nexus rebuild: the range is locked on the nexus during the copy, and
  a failed unlock takes precedence over the result of the copy.\<close>

definition nexus_copy_segment ::
  "u64 \<Rightarrow> RebuildDescriptor \<Rightarrow> 'd copy_io \<Rightarrow> u64 \<Rightarrow> 'd disks \<Rightarrow>
   ((RebuildError + bool) \<times> 'd disks) option" where
  "nexus_copy_segment buffer_len d io blk dk =
     (let len = get_segment_size_blks d blk
      in case ci_lock io of
           Some e \<Rightarrow> Some (Inl (RE_RangeLockFailed blk len e), dk)
         | None \<Rightarrow>
             do {
               (result, dk') \<leftarrow> copy_one buffer_len d io blk dk;
               (case ci_unlock io of
                  Some e \<Rightarrow> Some (Inl (RE_RangeUnlockFailed blk len e), dk')
                | None \<Rightarrow> Some (result, dk'))
             })"

text \<open>The range that is locked, relative to the data partition.\<close>

definition locked_range :: "RebuildDescriptor \<Rightarrow> u64 \<Rightarrow> u64 \<times> u64" where
  "locked_range d blk = (blk - rd_range_start d, get_segment_size_blks d blk)"

text \<open>\<open>PartialSeqCopier::copy_segment\<close> over an inner copier: a clean segment is skipped, and a
  segment copied without error is marked clean.\<close>

definition partial_seq_copy_segment ::
  "(u64 \<Rightarrow> 'd disks \<Rightarrow> ((RebuildError + bool) \<times> 'd disks) option) \<Rightarrow>
   u64 \<Rightarrow> RebuildMap \<times> 'd disks \<Rightarrow> ((RebuildError + bool) \<times> (RebuildMap \<times> 'd disks)) option" where
  "partial_seq_copy_segment copier blk = (\<lambda>(m, dk).
     if is_blk_clean m blk then Some (Inr False, (m, dk))
     else do {
       (result, dk') \<leftarrow> copier blk dk;
       (case result of
          Inr t \<Rightarrow> do { m' \<leftarrow> blk_clean m blk; Some (Inr t, (m', dk')) }
        | Inl e \<Rightarrow> Some (Inl e, (m, dk')))
     })"

section \<open>Walking the device\<close>

text \<open>\<open>(start..end).step_by(step)\<close>; a zero step panics where the iterator is made.\<close>

function step_range :: "nat \<Rightarrow> nat \<Rightarrow> nat \<Rightarrow> u64 list" where
  "step_range s e k = (if k = 0 \<or> e \<le> s then [] else of_nat s # step_range (s + k) e k)"
  by pat_completeness auto
termination by (relation "measure (\<lambda>(s, e, k). e - s)") auto

definition step_by :: "u64 \<Rightarrow> u64 \<Rightarrow> u64 \<Rightarrow> u64 list option" where
  "step_by s e k = (if k = 0 then None else Some (step_range (unat s) (unat e) (unat k)))"

text \<open>\<open>PeekableIterator\<close>: the element to be yielded next is always fetched already.\<close>

record 'a PeekableIterator =
  pk_iter :: "'a list"
  pk_peek :: "'a option"

definition iter_next :: "'a list \<Rightarrow> 'a option \<times> 'a list" where
  "iter_next xs = (case xs of [] \<Rightarrow> (None, []) | x # xs' \<Rightarrow> (Some x, xs'))"

definition pk_new :: "'a list \<Rightarrow> 'a PeekableIterator" where
  "pk_new iter = \<lparr> pk_iter = snd (iter_next iter), pk_peek = fst (iter_next iter) \<rparr>"

definition pk_next :: "'a PeekableIterator \<Rightarrow> 'a option \<times> 'a PeekableIterator" where
  "pk_next p =
     (pk_peek p, \<lparr> pk_iter = snd (iter_next (pk_iter p)), pk_peek = fst (iter_next (pk_iter p)) \<rparr>)"

text \<open>\<open>FullRebuild\<close> and \<open>PartialSeqRebuild\<close> walk the whole range in steps of a segment.\<close>

definition seq_rebuild_new :: "RebuildDescriptor \<Rightarrow> u64 PeekableIterator option" where
  "seq_rebuild_new d =
     map_option pk_new (step_by (rd_range_start d) (rd_range_end d) (rd_segment_size_blks d))"

definition full_blocks_remaining :: "RebuildDescriptor \<Rightarrow> u64 PeekableIterator \<Rightarrow> u64" where
  "full_blocks_remaining d p =
     (case pk_peek p of Some r \<Rightarrow> max (rd_range_end d) r - r | None \<Rightarrow> 0)"

text \<open>\<open>PartialRebuild\<close> walks the bits of the map.\<close>

record PartialRebuild =
  pr_range :: "(nat \<times> bool) PeekableIterator"
  pr_segment_size_blks :: u64
  pr_total_blks :: u64
  pr_rebuilt_blks :: u64

definition partial_rebuild_new :: "SegmentMap \<Rightarrow> PartialRebuild option" where
  "partial_rebuild_new m =
     do {
       total_blks \<leftarrow> sm_count_dirty_blks m;
       segment_size_blks \<leftarrow> sm_segment_size_blks m;
       Some \<lparr> pr_range = pk_new (List.enumerate 0 (sm_segments m)),
              pr_segment_size_blks = segment_size_blks,
              pr_total_blks = total_blks, pr_rebuilt_blks = 0 \<rparr>
     }"

text \<open>The loop of \<open>PartialRebuild::next\<close> over the elements left, the peeked one first.\<close>

primrec next_set :: "(nat \<times> bool) list \<Rightarrow> nat option \<times> (nat \<times> bool) list" where
  "next_set [] = (None, [])"
| "next_set (x # xs) = (if snd x then (Some (fst x), xs) else next_set xs)"

definition partial_rebuild_next :: "PartialRebuild \<Rightarrow> u64 option \<times> PartialRebuild" where
  "partial_rebuild_next r =
     (let left = (case pk_peek (pr_range r) of None \<Rightarrow> [] | Some x \<Rightarrow> x # pk_iter (pr_range r))
      in case next_set left of
           (Some blk, rest) \<Rightarrow>
             (Some (of_nat blk),
              r\<lparr>pr_range := pk_new rest, pr_rebuilt_blks := pr_rebuilt_blks r + pr_segment_size_blks r\<rparr>)
         | (None, rest) \<Rightarrow> (None, r\<lparr>pr_range := pk_new rest\<rparr>))"

definition partial_blocks_remaining :: "PartialRebuild \<Rightarrow> u64" where
  "partial_blocks_remaining r = pr_total_blks r - pr_rebuilt_blks r"

text \<open>What the job manager calls of a rebuilder and its copier: the copy of a segment, the
  blocks remaining, and whether the rebuild is partial. The world of a copier is what its
  copies change: the devices, and for a partial rebuild the rebuild map.\<close>

record ('w, 'io) copier =
  cp_copy :: "'io \<Rightarrow> u64 \<Rightarrow> 'w \<Rightarrow> ((RebuildError + bool) \<times> 'w) option"
  cp_remaining :: "u64 PeekableIterator \<Rightarrow> 'w \<Rightarrow> u64 option"
  cp_is_partial :: bool

definition full_rebuild :: "u64 \<Rightarrow> RebuildDescriptor \<Rightarrow> ('d disks, 'd copy_io) copier" where
  "full_rebuild buffer_len d =
     \<lparr> cp_copy = nexus_copy_segment buffer_len d,
       cp_remaining = (\<lambda>p _. Some (full_blocks_remaining d p)),
       cp_is_partial = False \<rparr>"

definition partial_seq_rebuild ::
  "u64 \<Rightarrow> RebuildDescriptor \<Rightarrow> (RebuildMap \<times> 'd disks, 'd copy_io) copier" where
  "partial_seq_rebuild buffer_len d =
     \<lparr> cp_copy = (\<lambda>io. partial_seq_copy_segment (nexus_copy_segment buffer_len d io)),
       cp_remaining = (\<lambda>_ w. rm_count_dirty_blks (fst w)),
       cp_is_partial = True \<rparr>"

section \<open>Well-formed descriptors and their segments\<close>

text \<open>What \<open>new\<close> establishes for a range that leaves room for one more segment below the end
  of the address space, with the statistics in range.\<close>

definition rd_wf :: "u64 \<Rightarrow> RebuildDescriptor \<Rightarrow> bool" where
  "rd_wf buffer_len d \<longleftrightarrow>
     unat (rd_range_start d) < unat (rd_range_end d) \<and>
     0 < unat (rd_segment_size_blks d) \<and>
     (unat (rd_range_end d) + unat (rd_segment_size_blks d)) * 100 < 18446744073709551616 \<and>
     unat (rd_segment_size_blks d) * unat (rd_block_size d) \<le> unat buffer_len"

definition rd_segs :: "RebuildDescriptor \<Rightarrow> u64 list" where
  "rd_segs d =
     step_range (unat (rd_range_start d)) (unat (rd_range_end d)) (unat (rd_segment_size_blks d))"

definition seg_blocks :: "RebuildDescriptor \<Rightarrow> u64 \<Rightarrow> nat set" where
  "seg_blocks d blk = {unat blk ..< unat blk + unat (get_segment_size_blks d blk)}"

definition rd_range :: "RebuildDescriptor \<Rightarrow> nat set" where
  "rd_range d = {unat (rd_range_start d) ..< unat (rd_range_end d)}"

section \<open>Lemmas\<close>

declare step_range.simps [simp del]

lemma step_range_mem:
  "x \<in> set (step_range s e k) \<Longrightarrow> e \<le> 18446744073709551616 \<Longrightarrow>
     s \<le> unat x \<and> unat x < e \<and> k dvd unat x - s"
proof (induction s e k rule: step_range.induct)
  case (1 s e k)
  have nz: "k \<noteq> 0" "s < e"
    using "1.prems"(1) by (auto simp: step_range.simps [of s] split: if_splits)
  then have s: "unat (of_nat s :: u64) = s" using "1.prems"(2) by (simp add: unat_of_nat_64)
  consider "x = of_nat s" | "x \<in> set (step_range (s + k) e k)"
    using "1.prems"(1) nz by (auto simp: step_range.simps [of s])
  then show ?case
  proof cases
    case 1
    then show ?thesis using nz s by simp
  next
    case 2
    then have ih: "s + k \<le> unat x" "unat x < e" "k dvd unat x - (s + k)"
      using "1.IH" "1.prems"(2) nz by auto
    have "unat x - s = (unat x - (s + k)) + k" using ih(1) by simp
    then have "k dvd unat x - s" using ih(3) by (metis dvd_add dvd_refl)
    then show ?thesis using ih(1,2) by simp
  qed
qed

lemma step_range_cover:
  "0 < k \<Longrightarrow> e \<le> 18446744073709551616 \<Longrightarrow> s \<le> b \<Longrightarrow> b < e \<Longrightarrow>
     \<exists>x \<in> set (step_range s e k). unat x \<le> b \<and> b < unat x + k"
proof (induction s e k rule: step_range.induct)
  case (1 s e k)
  have s: "unat (of_nat s :: u64) = s" using "1.prems" by (simp add: unat_of_nat_64)
  have unfold: "step_range s e k = of_nat s # step_range (s + k) e k"
    using "1.prems" by (simp add: step_range.simps [of s])
  show ?case
  proof (cases "b < s + k")
    case True
    then show ?thesis using "1.prems" s unfold by (intro bexI [of _ "of_nat s"]) auto
  next
    case False
    then show ?thesis using "1.IH" "1.prems" unfold by auto
  qed
qed

lemma step_range_distinct:
  "e \<le> 18446744073709551616 \<Longrightarrow> distinct (step_range s e k)"
proof (induction s e k rule: step_range.induct)
  case (1 s e k)
  show ?case
  proof (cases "k = 0 \<or> e \<le> s")
    case True
    then show ?thesis by (auto simp: step_range.simps)
  next
    case False
    then have "unat (of_nat s :: u64) = s" using "1.prems" by (simp add: unat_of_nat_64)
    then have "of_nat s \<notin> set (step_range (s + k) e k)"
      using step_range_mem [of "of_nat s" "s + k" e k] "1.prems" False by auto
    then show ?thesis
      using "1.IH" "1.prems" False by (subst step_range.simps) auto
  qed
qed

lemma step_range_length:
  "0 < k \<Longrightarrow> s \<le> e \<Longrightarrow> length (step_range s e k) = (e - s + k - 1) div k"
proof (induction s e k rule: step_range.induct)
  case (1 s e k)
  show ?case
  proof (cases "e \<le> s")
    case True
    then show ?thesis using "1.prems" by (simp add: step_range.simps)
  next
    case False
    show ?thesis
    proof (cases "s + k \<le> e")
      case True
      have "e - s + k - 1 = (e - (s + k) + k - 1) + k" using True "1.prems" by simp
      then have "(e - s + k - 1) div k = (e - (s + k) + k - 1) div k + 1"
        using "1.prems" by (simp only: div_add_self2)
      then show ?thesis
        using "1.IH" "1.prems" True False by (subst step_range.simps) simp
    next
      case F: False
      then have "step_range (s + k) e k = []" by (simp add: step_range.simps)
      moreover have "(e - s + k - 1) div k = 1"
        using F False "1.prems" by (intro div_nat_eqI) auto
      ultimately show ?thesis using False "1.prems" by (subst step_range.simps) simp
    qed
  qed
qed

lemma rd_end_le: "unat (rd_range_end d) \<le> 18446744073709551616"
  using unat_lt_64 [of "rd_range_end d"] by simp

lemma rd_segs_mem:
  "x \<in> set (rd_segs d) \<Longrightarrow>
     unat (rd_range_start d) \<le> unat x \<and> unat x < unat (rd_range_end d) \<and>
     unat (rd_segment_size_blks d) dvd unat x - unat (rd_range_start d)"
  unfolding rd_segs_def by (rule step_range_mem [OF _ rd_end_le])

lemma rd_segs_distinct: "distinct (rd_segs d)"
  unfolding rd_segs_def by (rule step_range_distinct [OF rd_end_le])

text \<open>The length of a segment of the walk: the last one is cut at the end of the range.\<close>

lemma seg_size_nat:
  assumes "rd_wf bl d" "unat blk < unat (rd_range_end d)"
  shows "unat (get_segment_size_blks d blk) =
           min (unat (rd_segment_size_blks d)) (unat (rd_range_end d) - unat blk)"
  using assms by (auto simp: get_segment_size_blks_def rd_wf_def u64_nat)

lemma seg_blocks_range:
  assumes "rd_wf bl d" "blk \<in> set (rd_segs d)"
  shows "seg_blocks d blk \<subseteq> rd_range d"
  using rd_segs_mem [OF assms(2)] seg_size_nat [OF assms(1), of blk]
  by (auto simp: seg_blocks_def rd_range_def)

text \<open>The segments cover the range, and no block is in two of them.\<close>

lemma seg_blocks_cover:
  assumes "rd_wf bl d" "b \<in> rd_range d"
  obtains blk where "blk \<in> set (rd_segs d)" "b \<in> seg_blocks d blk"
proof -
  obtain x where x: "x \<in> set (rd_segs d)" "unat x \<le> b" "b < unat x + unat (rd_segment_size_blks d)"
    using step_range_cover [of "unat (rd_segment_size_blks d)" "unat (rd_range_end d)"
        "unat (rd_range_start d)" b] assms rd_end_le [of d]
    by (auto simp: rd_wf_def rd_range_def rd_segs_def)
  then show ?thesis
    using that [of x] seg_size_nat [OF assms(1), of x] assms(2)
    by (auto simp: seg_blocks_def rd_range_def)
qed

lemma seg_blocks_disjoint:
  assumes "rd_wf bl d" "x \<in> set (rd_segs d)" "y \<in> set (rd_segs d)" "x \<noteq> y"
  shows "seg_blocks d x \<inter> seg_blocks d y = {}"
proof -
  let ?s = "unat (rd_range_start d)" and ?k = "unat (rd_segment_size_blks d)"
  have gap: "unat u + ?k \<le> unat v"
    if "u \<in> set (rd_segs d)" "v \<in> set (rd_segs d)" "unat u < unat v" for u v
  proof -
    have u: "?s \<le> unat u" "?k dvd unat u - ?s" and v: "?k dvd unat v - ?s"
      using rd_segs_mem [OF that(1)] rd_segs_mem [OF that(2)] by auto
    then have "?k dvd (unat v - ?s) - (unat u - ?s)" by (metis dvd_diff_nat)
    then have "?k dvd unat v - unat u" using u(1) that(3) by simp
    then have "?k \<le> unat v - unat u" using that(3) by (intro dvd_imp_le) auto
    then show ?thesis using that(3) by simp
  qed
  have "unat x \<noteq> unat y" using assms(4) u64_eq_nat by blast
  then consider "unat x < unat y" | "unat y < unat x" by linarith
  then show ?thesis
  proof cases
    case 1
    then show ?thesis
      using gap [OF assms(2,3)] seg_size_nat [OF assms(1), of x] rd_segs_mem [OF assms(2)]
      by (auto simp: seg_blocks_def)
  next
    case 2
    then show ?thesis
      using gap [OF assms(3,2)] seg_size_nat [OF assms(1), of y] rd_segs_mem [OF assms(3)]
      by (auto simp: seg_blocks_def)
  qed
qed

text \<open>The effect of a copy.\<close>

definition read_unwritten :: "'d copy_io \<Rightarrow> bool" where
  "read_unwritten io \<longleftrightarrow>
     (\<exists>off len. ci_read io = Some (Core_ReadFailed (IoNvmeError Nvme_UNWRITTEN_BLOCK) off len))"

lemma store_blocks_at:
  "store_at off (blocks_at f off n) g b =
     (if unat off \<le> b \<and> b < unat off + unat n then f b else g b)"
  by (auto simp: store_at_def blocks_at_def)

lemma blocks_at_eq:
  "blocks_at f off n = blocks_at g off n \<longleftrightarrow> (\<forall>b. unat off \<le> b \<and> b < unat off + unat n \<longrightarrow> f b = g b)"
  by (auto simp: blocks_at_def)

lemma read_src_cases:
  "read_src_segment d io blk dk =
     (if ci_read io = None then Inr (Some (blocks_at (dk_src dk) blk (get_segment_size_blks d blk)))
      else if read_unwritten io then Inr None
      else Inl (RE_ReadIoFailed (the (ci_read io)) (rd_src_uri d)))"
  by (auto simp: read_src_segment_def read_unwritten_def
      split: option.splits CoreError.splits IoCompletionStatus.splits NvmeStatus.splits)

lemma verify_segment_Some:
  "opt_verify_mode (rd_options d) \<noteq> VerifyPanic \<Longrightarrow> \<exists>r. verify_segment d io blk dk = Some r"
  by (auto simp: verify_segment_def verify_failure_def Let_def
      split: option.splits CoreError.splits IoCompletionStatus.splits NvmeStatus.splits
        RebuildVerifyMode.splits)

lemma adjusted_iov_Some:
  assumes "rd_wf bl d" "blk \<in> set (rd_segs d)"
  shows "\<exists>n. adjusted_iov d bl blk = Some n"
proof -
  have size: "unat (get_segment_size_blks d blk) \<le> unat (rd_segment_size_blks d)"
    using seg_size_nat [OF assms(1), of blk] rd_segs_mem [OF assms(2)] by simp
  have "unat (get_segment_size_blks d blk) * unat (rd_block_size d) \<le> unat bl"
    using mult_le_mono1 [OF size] assms(1) unfolding rd_wf_def by (meson order_trans)
  moreover from this have "unat (get_segment_size_blks d blk) * unat (rd_block_size d) < 18446744073709551616"
    using unat_lt_64 [of bl] by linarith
  ultimately show ?thesis
    by (simp add: adjusted_iov_def u64_nat)
qed

text \<open>A copy of a segment of the walk never panics unless verification is told to; it changes
  the destination only inside the segment, and if it succeeds the segment is in sync, or the
  source has reported it as unwritten and nothing has changed.\<close>

lemma copy_one_effect:
  assumes "rd_wf bl d" "opt_verify_mode (rd_options d) \<noteq> VerifyPanic" "blk \<in> set (rd_segs d)"
  obtains r dk' where "copy_one bl d io blk dk = Some (r, dk')" "dk_src dk' = dk_src dk"
    "\<And>b. b \<notin> seg_blocks d blk \<Longrightarrow> dk_dst dk' b = dk_dst dk b"
    "is_ok r \<Longrightarrow> (\<forall>b \<in> seg_blocks d blk. dk_dst dk' b = dk_src dk b) \<or> dk' = dk \<and> read_unwritten io"
proof -
  obtain n where iov: "adjusted_iov d bl blk = Some n"
    using adjusted_iov_Some [OF assms(1,3)] by blast
  let ?len = "get_segment_size_blks d blk"
  let ?dk = "dk\<lparr>dk_dst := store_at blk (blocks_at (dk_src dk) blk ?len) (dk_dst dk)\<rparr>"
  obtain v where v: "verify_segment d io blk ?dk = Some v"
    using verify_segment_Some [OF assms(2)] by blast
  show ?thesis
  proof (cases "ci_read io")
    case (Some e)
    then show ?thesis
      using iov that [of _ dk] by (cases "read_unwritten io") (simp_all add: copy_one_def read_src_cases)
  next
    case None
    then have read: "read_src_segment d io blk dk = Inr (Some (blocks_at (dk_src dk) blk ?len))"
      by (simp add: read_src_cases)
    show ?thesis
    proof (cases "ci_write io")
      case (Some e)
      then show ?thesis
        using iov read
        by (intro that [of _ "dk\<lparr>dk_dst := store_at blk (blocks_at (ci_torn io) blk ?len) (dk_dst dk)\<rparr>"])
          (auto simp: copy_one_def write_dst_segment_def store_blocks_at seg_blocks_def)
    next
      case w: None
      have "\<exists>r. copy_one bl d io blk dk = Some (r, ?dk)"
        using iov read v w by (cases v) (simp_all add: copy_one_def write_dst_segment_def)
      then obtain r where "copy_one bl d io blk dk = Some (r, ?dk)" by blast
      then show ?thesis
        by (rule that) (auto simp: store_blocks_at seg_blocks_def)
    qed
  qed
qed

lemma nexus_copy_effect:
  assumes "rd_wf bl d" "opt_verify_mode (rd_options d) \<noteq> VerifyPanic" "blk \<in> set (rd_segs d)"
  obtains r dk' where "nexus_copy_segment bl d io blk dk = Some (r, dk')" "dk_src dk' = dk_src dk"
    "\<And>b. b \<notin> seg_blocks d blk \<Longrightarrow> dk_dst dk' b = dk_dst dk b"
    "is_ok r \<Longrightarrow> (\<forall>b \<in> seg_blocks d blk. dk_dst dk' b = dk_src dk b) \<or> dk' = dk \<and> read_unwritten io"
proof (cases "ci_lock io")
  case (Some e)
  then show ?thesis using that [of _ dk] by (simp add: nexus_copy_segment_def)
next
  case None
  obtain r dk' where c: "copy_one bl d io blk dk = Some (r, dk')" "dk_src dk' = dk_src dk"
    "\<And>b. b \<notin> seg_blocks d blk \<Longrightarrow> dk_dst dk' b = dk_dst dk b"
    "is_ok r \<Longrightarrow> (\<forall>b \<in> seg_blocks d blk. dk_dst dk' b = dk_src dk b) \<or> dk' = dk \<and> read_unwritten io"
    using copy_one_effect [OF assms] by metis
  then show ?thesis
    using that [of _ dk'] None by (cases "ci_unlock io") (simp_all add: nexus_copy_segment_def)
qed

section \<open>The contract of a copier\<close>

text \<open>What the job manager relies on, for a configuration \<open>c\<close> and a world \<open>w\<close>: a copy of a
  segment of the walk returns, keeps the world well formed and the other segments in order, and
  puts the segment in order when it succeeds while the environment answers truthfully (\<open>env\<close>);
  a frontend write to the nexus disturbs nothing; and when every segment is in order and the
  walk is over, no blocks remain.\<close>

locale segment_copier =
  fixes desc :: "'c \<Rightarrow> RebuildDescriptor"
    and copier :: "'c \<Rightarrow> ('w, 'io) copier"
    and front :: "'f \<Rightarrow> 'w \<Rightarrow> 'w"
    and wf :: "'c \<Rightarrow> 'w \<Rightarrow> bool"
    and seg_ok :: "'c \<Rightarrow> 'w \<Rightarrow> u64 \<Rightarrow> bool"
    and env :: "'c \<Rightarrow> u64 \<Rightarrow> 'io \<Rightarrow> bool"
  assumes desc_wf: "wf c w \<Longrightarrow> \<exists>bl. rd_wf bl (desc c)"
    and copy_total: "wf c w \<Longrightarrow> s \<in> set (rd_segs (desc c)) \<Longrightarrow> env c s io \<Longrightarrow>
       \<exists>r w'. cp_copy (copier c) io s w = Some (r, w') \<and> wf c w'"
    and copy_ok: "wf c w \<Longrightarrow> s \<in> set (rd_segs (desc c)) \<Longrightarrow> env c s io \<Longrightarrow>
       cp_copy (copier c) io s w = Some (Inr t, w') \<Longrightarrow> seg_ok c w' s"
    and copy_keeps: "wf c w \<Longrightarrow> s \<in> set (rd_segs (desc c)) \<Longrightarrow> s' \<in> set (rd_segs (desc c)) \<Longrightarrow>
       s' \<noteq> s \<Longrightarrow> cp_copy (copier c) io s w = Some (r, w') \<Longrightarrow> seg_ok c w s' \<Longrightarrow> seg_ok c w' s'"
    and front_wf: "wf c w \<Longrightarrow> wf c (front f w)"
    and front_keeps: "wf c w \<Longrightarrow> seg_ok c w s \<Longrightarrow> seg_ok c (front f w) s"
    and remaining_total: "wf c w \<Longrightarrow> \<exists>n. cp_remaining (copier c) p w = Some n"
    and remaining_done: "wf c w \<Longrightarrow> \<forall>s \<in> set (rd_segs (desc c)). seg_ok c w s \<Longrightarrow>
       pk_peek p = None \<Longrightarrow> cp_remaining (copier c) p w = Some 0"

subsection \<open>The full rebuild keeps the contract\<close>

text \<open>A configuration is the length of the buffers, the descriptor and the set of blocks that
  the source device has never allocated. A block is in sync when both replicas hold the same
  data or the source has none.\<close>

type_synonym copy_config = "u64 \<times> RebuildDescriptor \<times> (nat \<Rightarrow> bool)"

definition in_sync :: "(nat \<Rightarrow> bool) \<Rightarrow> 'd disks \<Rightarrow> nat \<Rightarrow> bool" where
  "in_sync U dk b \<longleftrightarrow> dk_dst dk b = dk_src dk b \<or> U b"

definition full_wf :: "copy_config \<Rightarrow> 'd disks \<Rightarrow> bool" where
  "full_wf c dk \<longleftrightarrow> (case c of (bl, d, U) \<Rightarrow>
     rd_wf bl d \<and> opt_verify_mode (rd_options d) \<noteq> VerifyPanic)"

definition full_seg_ok :: "copy_config \<Rightarrow> 'd disks \<Rightarrow> u64 \<Rightarrow> bool" where
  "full_seg_ok c dk s \<longleftrightarrow> (case c of (bl, d, U) \<Rightarrow> \<forall>b \<in> seg_blocks d s. in_sync U dk b)"

text \<open>The source calls a segment unwritten only if no block of it is allocated.\<close>

definition copy_env :: "copy_config \<Rightarrow> u64 \<Rightarrow> 'd copy_io \<Rightarrow> bool" where
  "copy_env c s io \<longleftrightarrow> (case c of (bl, d, U) \<Rightarrow> read_unwritten io \<longrightarrow> (\<forall>b \<in> seg_blocks d s. U b))"

text \<open>A frontend write through the nexus reaches both replicas.\<close>

definition front_write :: "nat \<times> 'd \<Rightarrow> 'd disks \<Rightarrow> 'd disks" where
  "front_write f dk = dk\<lparr>dk_src := (dk_src dk)(fst f := snd f), dk_dst := (dk_dst dk)(fst f := snd f)\<rparr>"

lemma front_write_in_sync: "in_sync U dk b \<Longrightarrow> in_sync U (front_write f dk) b"
  by (simp add: in_sync_def front_write_def)

lemma nexus_copy_in_sync:
  assumes "rd_wf bl d" "opt_verify_mode (rd_options d) \<noteq> VerifyPanic" "blk \<in> set (rd_segs d)"
    and "nexus_copy_segment bl d io blk dk = Some (r, dk')"
  shows "b \<notin> seg_blocks d blk \<Longrightarrow> in_sync U dk' b = in_sync U dk b"
    and "is_ok r \<Longrightarrow> b \<in> seg_blocks d blk \<Longrightarrow> copy_env (bl, d, U) blk io \<Longrightarrow> in_sync U dk' b"
proof -
  obtain r1 dk1 where c: "nexus_copy_segment bl d io blk dk = Some (r1, dk1)" "dk_src dk1 = dk_src dk"
    "\<And>b. b \<notin> seg_blocks d blk \<Longrightarrow> dk_dst dk1 b = dk_dst dk b"
    "is_ok r1 \<Longrightarrow> (\<forall>b \<in> seg_blocks d blk. dk_dst dk1 b = dk_src dk b) \<or> dk1 = dk \<and> read_unwritten io"
    using nexus_copy_effect [OF assms(1-3)] by metis
  have eq: "r1 = r" "dk1 = dk'" using c(1) assms(4) by simp_all
  show "b \<notin> seg_blocks d blk \<Longrightarrow> in_sync U dk' b = in_sync U dk b"
    using c(2,3) eq by (simp add: in_sync_def)
  show "is_ok r \<Longrightarrow> b \<in> seg_blocks d blk \<Longrightarrow> copy_env (bl, d, U) blk io \<Longrightarrow> in_sync U dk' b"
    using c(2,4) eq by (auto simp: in_sync_def copy_env_def)
qed

lemma nexus_copy_total:
  assumes "rd_wf bl d" "opt_verify_mode (rd_options d) \<noteq> VerifyPanic" "blk \<in> set (rd_segs d)"
  shows "\<exists>r dk'. nexus_copy_segment bl d io blk dk = Some (r, dk')"
  using nexus_copy_effect [OF assms] by metis

interpretation full: segment_copier "\<lambda>(bl, d, U). d" "\<lambda>(bl, d, U). full_rebuild bl d"
    front_write full_wf full_seg_ok copy_env
proof (unfold_locales, goal_cases)
  case (1 c w)
  then show ?case by (auto simp: full_wf_def)
next
  case (2 c w s io)
  then show ?case
    using nexus_copy_total [of "fst c" "fst (snd c)" s io w]
    by (cases c) (simp add: full_wf_def full_rebuild_def)
next
  case (3 c w s io t w')
  then show ?case
    using nexus_copy_in_sync(2) [of "fst c" "fst (snd c)" s io w "Inr t" w' _ "snd (snd c)"]
    by (cases c) (simp add: full_wf_def full_rebuild_def full_seg_ok_def)
next
  case (4 c w s s' io r w')
  obtain bl d U where c: "c = (bl, d, U)" by (cases c)
  have "seg_blocks d s' \<inter> seg_blocks d s = {}"
    using seg_blocks_disjoint [of bl d s' s] 4 c by (simp add: full_wf_def)
  then show ?case
    using nexus_copy_in_sync(1) [of bl d s io w r w' _ U] 4 c
    by (auto simp: full_wf_def full_rebuild_def full_seg_ok_def)
next
  case (5 c w f)
  then show ?case by (simp add: full_wf_def)
next
  case (6 c w s f)
  then show ?case by (auto simp: full_seg_ok_def intro: front_write_in_sync)
qed (auto simp: full_rebuild_def full_blocks_remaining_def)

subsection \<open>The partial rebuild keeps the contract\<close>

text \<open>The rebuild map fits the descriptor when both cut the device into the same segments: the
  segments of the rebuild are whole numbers of blocks, and the range starts at the boundary of a
  segment of the map.\<close>

definition map_fits :: "RebuildDescriptor \<Rightarrow> SegmentMap \<Rightarrow> bool" where
  "map_fits d m \<longleftrightarrow>
     sm_block_len m = rd_block_size d \<and>
     unat (sm_segment_size m) = unat (rd_segment_size_blks d) * unat (rd_block_size d) \<and>
     unat (rd_range_end d) \<le> unat (sm_num_blocks m) \<and>
     unat (rd_segment_size_blks d) dvd unat (rd_range_start d)"

text \<open>The map is truthful: a block it calls clean is in sync, and it calls nothing dirty outside
  the range of the rebuild.\<close>

definition part_wf :: "copy_config \<Rightarrow> RebuildMap \<times> 'd disks \<Rightarrow> bool" where
  "part_wf c w \<longleftrightarrow> (case (c, w) of ((bl, d, U), (rm, dk)) \<Rightarrow>
     rd_wf bl d \<and> opt_verify_mode (rd_options d) \<noteq> VerifyPanic \<and>
     sm_wf (rm_segments rm) \<and> map_fits d (rm_segments rm) \<and>
     (\<forall>b \<in> rd_range d. \<not> sm_dirty (rm_segments rm) b \<longrightarrow> in_sync U dk b) \<and>
     (\<forall>l < unat (sm_num_blocks (rm_segments rm)). sm_dirty (rm_segments rm) l \<longrightarrow>
        (\<exists>b \<in> rd_range d. seg_of (rm_segments rm) b = seg_of (rm_segments rm) l)))"

definition part_seg_ok :: "copy_config \<Rightarrow> RebuildMap \<times> 'd disks \<Rightarrow> u64 \<Rightarrow> bool" where
  "part_seg_ok c w s \<longleftrightarrow> (case (c, w) of ((bl, d, U), (rm, dk)) \<Rightarrow>
     \<not> sm_dirty (rm_segments rm) (unat s) \<and> (\<forall>b \<in> seg_blocks d s. in_sync U dk b))"

lemma fits_seg_of:
  assumes "map_fits d m" "sm_wf m"
  shows "seg_of m l = l div unat (rd_segment_size_blks d)"
  using assms by (simp add: seg_of_def map_fits_def sm_wf_def unat_gt_0)

text \<open>In an aligned rebuild, the blocks of a segment are the blocks that share its bit.\<close>

lemma seg_blocks_bit:
  assumes "rd_wf bl d" "map_fits d m" "sm_wf m" "s \<in> set (rd_segs d)" "b \<in> rd_range d"
  shows "b \<in> seg_blocks d s \<longleftrightarrow> seg_of m b = seg_of m (unat s)"
proof -
  let ?k = "unat (rd_segment_size_blks d)" and ?s = "unat (rd_range_start d)"
  have k: "0 < ?k" and al: "?k dvd ?s" using assms(1,2) by (auto simp: rd_wf_def map_fits_def)
  have "?s \<le> unat s" "?k dvd unat s - ?s" and lt: "unat s < unat (rd_range_end d)"
    using rd_segs_mem [OF assms(4)] by auto
  then have "?k dvd unat s" using al by (metis dvd_add le_add_diff_inverse)
  then obtain q where q: "unat s = ?k * q" by (rule dvdE)
  have "b div ?k = q \<longleftrightarrow> ?k * q \<le> b \<and> b < ?k * q + ?k"
    using k by (metis div_nat_eqI mult_Suc_right add.commute dividend_less_times_div
        times_div_less_eq_dividend)
  moreover have "b \<in> seg_blocks d s \<longleftrightarrow> unat s \<le> b \<and> b < unat s + ?k"
    using seg_size_nat [OF assms(1) lt] assms(5) lt by (auto simp: seg_blocks_def rd_range_def)
  ultimately show ?thesis
    using k by (simp add: fits_seg_of [OF assms(2,3)] q)
qed

lemma seg_lt_blocks:
  "map_fits d m \<Longrightarrow> s \<in> set (rd_segs d) \<Longrightarrow> unat s < unat (sm_num_blocks m)"
  using rd_segs_mem [of s d] by (auto simp: map_fits_def)

lemma range_lt_blocks: "map_fits d m \<Longrightarrow> b \<in> rd_range d \<Longrightarrow> b < unat (sm_num_blocks m)"
  by (auto simp: map_fits_def rd_range_def)

lemma is_blk_clean_dirty:
  "sm_wf (rm_segments rm) \<Longrightarrow> unat s < unat (sm_num_blocks (rm_segments rm)) \<Longrightarrow>
     is_blk_clean rm s \<longleftrightarrow> \<not> sm_dirty (rm_segments rm) (unat s)"
  by (simp add: is_blk_clean_def sm_get_dirty)

lemma blk_clean_effect:
  assumes "sm_wf (rm_segments rm)" "unat s < unat (sm_num_blocks (rm_segments rm))"
  obtains rm' where "blk_clean rm s = Some rm'" "sm_wf (rm_segments rm')"
    "sm_same_geometry (rm_segments rm') (rm_segments rm)"
    "\<forall>l < unat (sm_num_blocks (rm_segments rm)). sm_dirty (rm_segments rm') l \<longleftrightarrow>
       seg_of (rm_segments rm) l \<noteq> seg_of (rm_segments rm) (unat s) \<and> sm_dirty (rm_segments rm) l"
proof -
  obtain m' where m': "sm_set (rm_segments rm) s 1 False = Some m'" "sm_wf m'"
    "sm_same_geometry m' (rm_segments rm)"
    "\<forall>l < unat (sm_num_blocks (rm_segments rm)). sm_dirty m' l =
       (if \<exists>k. unat s \<le> k \<and> k < unat s + unat (1 :: u64) \<and>
              seg_of (rm_segments rm) k = seg_of (rm_segments rm) l
        then False else sm_dirty (rm_segments rm) l)"
    using sm.mark_ok [OF assms(1), of 1 s False] assms(2) by auto
  have one: "(\<exists>k. unat s \<le> k \<and> k < unat s + unat (1 :: u64) \<and> P k) \<longleftrightarrow> P (unat s)" for P
    by (auto simp: less_Suc_eq le_antisym)
  show ?thesis
    by (rule that [of "rm\<lparr>rm_segments := m'\<rparr>"])
      (use m' one in \<open>auto simp: blk_clean_def\<close>)
qed

lemma same_geometry_fits:
  "sm_same_geometry a b \<Longrightarrow> map_fits d b \<Longrightarrow> map_fits d a"
  by (simp add: sm_same_geometry_def map_fits_def)

text \<open>The three outcomes of a partial copy: the segment is clean and skipped, the copy fails, or
  the copy succeeds and the segment is marked clean.\<close>

lemma part_copy_cases:
  assumes wf: "part_wf (bl, d, U) (rm, dk)" and s: "s \<in> set (rd_segs d)"
  obtains (skip) "\<not> sm_dirty (rm_segments rm) (unat s)"
      "partial_seq_copy_segment (nexus_copy_segment bl d io) s (rm, dk) = Some (Inr False, (rm, dk))"
  | (error) e dk' where "sm_dirty (rm_segments rm) (unat s)"
      "nexus_copy_segment bl d io s dk = Some (Inl e, dk')"
      "partial_seq_copy_segment (nexus_copy_segment bl d io) s (rm, dk) = Some (Inl e, (rm, dk'))"
  | (copied) t dk' rm' where "nexus_copy_segment bl d io s dk = Some (Inr t, dk')"
      "partial_seq_copy_segment (nexus_copy_segment bl d io) s (rm, dk) = Some (Inr t, (rm', dk'))"
      "sm_wf (rm_segments rm')" "sm_same_geometry (rm_segments rm') (rm_segments rm)"
      "\<forall>l < unat (sm_num_blocks (rm_segments rm)). sm_dirty (rm_segments rm') l \<longleftrightarrow>
         seg_of (rm_segments rm) l \<noteq> seg_of (rm_segments rm) (unat s) \<and> sm_dirty (rm_segments rm) l"
proof -
  have m: "sm_wf (rm_segments rm)" "unat s < unat (sm_num_blocks (rm_segments rm))"
    and d: "rd_wf bl d" "opt_verify_mode (rd_options d) \<noteq> VerifyPanic"
    using wf seg_lt_blocks [OF _ s] by (auto simp: part_wf_def)
  obtain r dk' where c: "nexus_copy_segment bl d io s dk = Some (r, dk')"
    using nexus_copy_total [OF d s] by blast
  obtain rm' where rm': "blk_clean rm s = Some rm'" "sm_wf (rm_segments rm')"
    "sm_same_geometry (rm_segments rm') (rm_segments rm)"
    "\<forall>l < unat (sm_num_blocks (rm_segments rm)). sm_dirty (rm_segments rm') l \<longleftrightarrow>
       seg_of (rm_segments rm) l \<noteq> seg_of (rm_segments rm) (unat s) \<and> sm_dirty (rm_segments rm) l"
    using blk_clean_effect [OF m] by blast
  show ?thesis
  proof (cases "sm_dirty (rm_segments rm) (unat s)")
    case False
    then show ?thesis
      using skip is_blk_clean_dirty [OF m] by (simp add: partial_seq_copy_segment_def)
  next
    case True
    then show ?thesis
      using error [of _ dk'] copied [of _ dk' rm'] is_blk_clean_dirty [OF m] c rm'
      by (cases r) (simp_all add: partial_seq_copy_segment_def)
  qed
qed

lemma same_geometry_seg_of: "sm_same_geometry a b \<Longrightarrow> seg_of a l = seg_of b l"
  by (simp add: sm_same_geometry_def seg_of_def)

lemma part_copied_wf:
  assumes wf: "part_wf (bl, d, U) (rm, dk)" and s: "s \<in> set (rd_segs d)"
    and env: "copy_env (bl, d, U) s io"
    and c: "nexus_copy_segment bl d io s dk = Some (Inr t, dk')"
    and rm': "sm_wf (rm_segments rm')" "sm_same_geometry (rm_segments rm') (rm_segments rm)"
      "\<forall>l < unat (sm_num_blocks (rm_segments rm)). sm_dirty (rm_segments rm') l \<longleftrightarrow>
         seg_of (rm_segments rm) l \<noteq> seg_of (rm_segments rm) (unat s) \<and> sm_dirty (rm_segments rm) l"
  shows "part_wf (bl, d, U) (rm', dk')" "part_seg_ok (bl, d, U) (rm', dk') s"
proof -
  have d: "rd_wf bl d" "opt_verify_mode (rd_options d) \<noteq> VerifyPanic"
    and m: "sm_wf (rm_segments rm)" "map_fits d (rm_segments rm)"
    and sync: "\<forall>b \<in> rd_range d. \<not> sm_dirty (rm_segments rm) b \<longrightarrow> in_sync U dk b"
    and inside: "\<forall>l < unat (sm_num_blocks (rm_segments rm)). sm_dirty (rm_segments rm) l \<longrightarrow>
        (\<exists>b \<in> rd_range d. seg_of (rm_segments rm) b = seg_of (rm_segments rm) l)"
    using wf by (auto simp: part_wf_def)
  have seg: "b \<in> seg_blocks d s \<longleftrightarrow> seg_of (rm_segments rm) b = seg_of (rm_segments rm) (unat s)"
    if "b \<in> rd_range d" for b
    using seg_blocks_bit [OF d(1) m(2,1) s that] .
  have hit: "in_sync U dk' b" if "b \<in> seg_blocks d s" for b
    using nexus_copy_in_sync(2) [OF d s c _ that env] by simp
  have "in_sync U dk' b" if "b \<in> rd_range d" "\<not> sm_dirty (rm_segments rm') b" for b
    using that rm'(3) range_lt_blocks [OF m(2) that(1)] seg [OF that(1)] hit sync
      nexus_copy_in_sync(1) [OF d s c, of b U] by auto
  moreover have "unat (sm_num_blocks (rm_segments rm')) = unat (sm_num_blocks (rm_segments rm))"
    using rm'(2) by (simp add: sm_same_geometry_def)
  ultimately show "part_wf (bl, d, U) (rm', dk')"
    using d rm' same_geometry_fits [OF rm'(2) m(2)] inside
    by (auto simp: part_wf_def same_geometry_seg_of [OF rm'(2)])
  show "part_seg_ok (bl, d, U) (rm', dk') s"
    using hit rm'(3) seg_lt_blocks [OF m(2) s] by (auto simp: part_seg_ok_def)
qed

lemma part_error_wf:
  assumes wf: "part_wf (bl, d, U) (rm, dk)" and s: "s \<in> set (rd_segs d)"
    and dirty: "sm_dirty (rm_segments rm) (unat s)"
    and c: "nexus_copy_segment bl d io s dk = Some (Inl e, dk')"
  shows "part_wf (bl, d, U) (rm, dk')"
proof -
  have d: "rd_wf bl d" "opt_verify_mode (rd_options d) \<noteq> VerifyPanic"
    and m: "sm_wf (rm_segments rm)" "map_fits d (rm_segments rm)"
    and sync: "\<forall>b \<in> rd_range d. \<not> sm_dirty (rm_segments rm) b \<longrightarrow> in_sync U dk b"
    using wf by (auto simp: part_wf_def)
  have "in_sync U dk' b" if b: "b \<in> rd_range d" "\<not> sm_dirty (rm_segments rm) b" for b
  proof -
    have "b \<notin> seg_blocks d s"
      using seg_blocks_bit [OF d(1) m(2,1) s b(1)] b(2) dirty by (auto simp: sm_dirty_def)
    then show ?thesis using nexus_copy_in_sync(1) [OF d s c] sync b by blast
  qed
  then show ?thesis using wf by (auto simp: part_wf_def)
qed

lemma part_skip_ok:
  assumes wf: "part_wf (bl, d, U) (rm, dk)" and s: "s \<in> set (rd_segs d)"
    and clean: "\<not> sm_dirty (rm_segments rm) (unat s)"
  shows "part_seg_ok (bl, d, U) (rm, dk) s"
proof -
  have d: "rd_wf bl d" and m: "sm_wf (rm_segments rm)" "map_fits d (rm_segments rm)"
    and sync: "\<forall>b \<in> rd_range d. \<not> sm_dirty (rm_segments rm) b \<longrightarrow> in_sync U dk b"
    using wf by (auto simp: part_wf_def)
  have "in_sync U dk b" if "b \<in> seg_blocks d s" for b
    using seg_blocks_bit [OF d m(2,1) s] seg_blocks_range [OF d s] sync clean that
    by (auto simp: sm_dirty_def)
  then show ?thesis using clean by (simp add: part_seg_ok_def)
qed

lemma part_copy_keeps:
  assumes wf: "part_wf (bl, d, U) (rm, dk)" and s: "s \<in> set (rd_segs d)"
    and s': "s' \<in> set (rd_segs d)" "s' \<noteq> s" "part_seg_ok (bl, d, U) (rm, dk) s'"
    and c: "partial_seq_copy_segment (nexus_copy_segment bl d io) s (rm, dk) = Some (r, w')"
  shows "part_seg_ok (bl, d, U) w' s'"
proof -
  have d: "rd_wf bl d" "opt_verify_mode (rd_options d) \<noteq> VerifyPanic"
    and fits: "map_fits d (rm_segments rm)"
    using wf by (auto simp: part_wf_def)
  have disj: "seg_blocks d s' \<inter> seg_blocks d s = {}"
    using seg_blocks_disjoint [OF d(1) s'(1) s s'(2)] .
  have keep: "\<forall>b \<in> seg_blocks d s'. in_sync U dk' b"
    if "nexus_copy_segment bl d io s dk = Some (q, dk')" for q dk'
    using nexus_copy_in_sync(1) [OF d s that] disj s'(3) by (auto simp: part_seg_ok_def)
  from wf s show ?thesis
  proof (cases rule: part_copy_cases [where io = io])
    case skip
    then show ?thesis using c s'(3) by simp
  next
    case (error e dk')
    then show ?thesis using c s'(3) keep by (auto simp: part_seg_ok_def)
  next
    case (copied t dk' rm')
    then show ?thesis
      using c s'(3) keep seg_lt_blocks [OF fits s'(1)] by (auto simp: part_seg_ok_def)
  qed
qed

text \<open>Every bit of a map that fits is the bit of some block of the device, so a map with no dirty
  block counts no dirty blocks.\<close>

lemma bit_has_block:
  assumes "map_fits d m" "sm_wf m" "0 < unat (rd_segment_size_blks d)" "i < length (sm_segments m)"
  shows "i * unat (rd_segment_size_blks d) < unat (sm_num_blocks m)"
proof -
  let ?k = "unat (rd_segment_size_blks d)" and ?bl = "unat (rd_block_size d)"
    and ?nb = "unat (sm_num_blocks m)"
  have bl: "0 < ?bl" using assms(1,2) by (simp add: map_fits_def sm_wf_def unat_gt_0)
  have "i < (?nb * ?bl + ?k * ?bl - 1) div (?k * ?bl)"
    using assms by (simp add: map_fits_def sm_wf_def)
  then have "Suc i * (?k * ?bl) \<le> ?nb * ?bl + ?k * ?bl - 1"
    using div_times_less_eq_dividend [of "?nb * ?bl + ?k * ?bl - 1" "?k * ?bl"]
    by (meson Suc_leI le_trans mult_le_mono1)
  moreover have "0 < ?k * ?bl" using bl assms(3) by simp
  ultimately have "i * (?k * ?bl) < ?nb * ?bl" unfolding mult_Suc by linarith
  then have "(i * ?k) * ?bl < ?nb * ?bl" by (simp only: mult.assoc)
  then show ?thesis by simp
qed

lemma count_dirty_zero:
  assumes "map_fits d (rm_segments rm)" "sm_wf (rm_segments rm)" "0 < unat (rd_segment_size_blks d)"
    and "\<forall>l < unat (sm_num_blocks (rm_segments rm)). \<not> sm_dirty (rm_segments rm) l"
  shows "rm_count_dirty_blks rm = Some 0"
proof -
  let ?m = "rm_segments rm"
  have "\<not> sm_segments ?m ! i" if i: "i < length (sm_segments ?m)" for i
  proof -
    have "\<not> sm_dirty ?m (i * unat (rd_segment_size_blks d))"
      using assms(4) bit_has_block [OF assms(1-3) i] by blast
    then show ?thesis
      using i assms(3) by (simp add: sm_dirty_def fits_seg_of [OF assms(1,2)] bit_get_def)
  qed
  then have "filter (\<lambda>i. i) (sm_segments ?m) = []"
    by (auto simp: filter_empty_conv in_set_conv_nth)
  then show ?thesis
    using assms(2) by (simp add: rm_count_dirty_blks_def sm_count_dirty_blks_def count_ones_def sm_wf_def)
qed

definition part_front :: "nat \<times> 'd \<Rightarrow> RebuildMap \<times> 'd disks \<Rightarrow> RebuildMap \<times> 'd disks" where
  "part_front f w = (fst w, front_write f (snd w))"

interpretation part: segment_copier "\<lambda>(bl, d, U). d" "\<lambda>(bl, d, U). partial_seq_rebuild bl d"
    part_front part_wf part_seg_ok copy_env
proof (unfold_locales, goal_cases)
  case (1 c w)
  then show ?case by (auto simp: part_wf_def)
next
  case (2 c w s io)
  obtain bl d U rm dk where cw: "c = (bl, d, U)" "w = (rm, dk)" by (cases c, cases w)
  from 2(1,2) have "part_wf (bl, d, U) (rm, dk)" "s \<in> set (rd_segs d)" by (simp_all add: cw)
  then show ?case
  proof (cases rule: part_copy_cases [where io = io])
    case skip
    then show ?thesis using 2 cw by (simp add: partial_seq_rebuild_def)
  next
    case (error e dk')
    then show ?thesis using part_error_wf [of bl d U rm dk s io e dk'] 2 cw by (simp add: partial_seq_rebuild_def)
  next
    case (copied t dk' rm')
    then show ?thesis
      using part_copied_wf(1) [of bl d U rm dk s io t dk' rm'] 2 cw by (simp add: partial_seq_rebuild_def)
  qed
next
  case (3 c w s io t w')
  obtain bl d U rm dk where cw: "c = (bl, d, U)" "w = (rm, dk)" by (cases c, cases w)
  from 3(1,2) have "part_wf (bl, d, U) (rm, dk)" "s \<in> set (rd_segs d)" by (simp_all add: cw)
  then show ?case
  proof (cases rule: part_copy_cases [where io = io])
    case skip
    then show ?thesis using part_skip_ok [of bl d U rm dk s] 3 cw by (simp add: partial_seq_rebuild_def)
  next
    case (error e dk')
    then show ?thesis using 3 cw by (simp add: partial_seq_rebuild_def)
  next
    case (copied t dk' rm')
    then show ?thesis
      using part_copied_wf(2) [of bl d U rm dk s io t dk' rm'] 3 cw by (simp add: partial_seq_rebuild_def)
  qed
next
  case (4 c w s s' io r w')
  obtain bl d U rm dk where cw: "c = (bl, d, U)" "w = (rm, dk)" by (cases c, cases w)
  then show ?case
    using part_copy_keeps [of bl d U rm dk s s' io r w'] 4 by (simp add: partial_seq_rebuild_def)
next
  case (5 c w f)
  then show ?case by (auto simp: part_wf_def part_front_def intro: front_write_in_sync)
next
  case (6 c w s f)
  then show ?case by (auto simp: part_seg_ok_def part_front_def intro: front_write_in_sync)
next
  case (7 c w p)
  then show ?case
    by (auto simp: partial_seq_rebuild_def rm_count_dirty_blks_def sm_count_dirty_blks_def part_wf_def
        sm_wf_def)
next
  case (8 c w p)
  obtain bl d U rm dk where cw: "c = (bl, d, U)" "w = (rm, dk)" by (cases c, cases w)
  have wf: "rd_wf bl d" "map_fits d (rm_segments rm)" "sm_wf (rm_segments rm)"
    and inside: "\<forall>l < unat (sm_num_blocks (rm_segments rm)). sm_dirty (rm_segments rm) l \<longrightarrow>
        (\<exists>b \<in> rd_range d. seg_of (rm_segments rm) b = seg_of (rm_segments rm) l)"
    using 8(1) cw by (auto simp: part_wf_def)
  have "\<not> sm_dirty (rm_segments rm) b" if b: "b \<in> rd_range d" for b
  proof -
    obtain s where s: "s \<in> set (rd_segs d)" "b \<in> seg_blocks d s"
      using seg_blocks_cover [OF wf(1) b] .
    then have "\<not> sm_dirty (rm_segments rm) (unat s)"
      using 8(2) cw by (auto simp: part_seg_ok_def)
    then show ?thesis
      using seg_blocks_bit [OF wf s(1) b] s(2) by (simp add: sm_dirty_def)
  qed
  then have "\<forall>l < unat (sm_num_blocks (rm_segments rm)). \<not> sm_dirty (rm_segments rm) l"
    using inside unfolding sm_dirty_def by fastforce
  then show ?case
    using count_dirty_zero [OF wf(2,3)] wf(1) cw by (simp add: partial_seq_rebuild_def rd_wf_def)
qed

section \<open>Properties\<close>

text \<open>C15: the segments of a rebuild partition its range. Every block of the range lies in exactly
  one segment of the walk, no segment leaves the range, and the locked range of a segment, seen
  from the start of the data partition, is the segment itself.\<close>

theorem rebuild_segments_partition:
  assumes "rd_wf bl d"
  shows "(\<forall>b \<in> rd_range d. \<exists>!s. s \<in> set (rd_segs d) \<and> b \<in> seg_blocks d s) \<and>
         (\<forall>s \<in> set (rd_segs d). seg_blocks d s \<subseteq> rd_range d \<and> seg_blocks d s \<noteq> {} \<and>
            unat (fst (locked_range d s)) + unat (rd_range_start d) = unat s \<and>
            unat (snd (locked_range d s)) = card (seg_blocks d s))"
proof (intro conjI ballI)
  fix b
  assume b: "b \<in> rd_range d"
  obtain s where s: "s \<in> set (rd_segs d)" "b \<in> seg_blocks d s" using seg_blocks_cover [OF assms b] .
  show "\<exists>!s. s \<in> set (rd_segs d) \<and> b \<in> seg_blocks d s"
    using s seg_blocks_disjoint [OF assms _ s(1)] by (intro ex1I [of _ s]) blast+
next
  fix s
  assume s: "s \<in> set (rd_segs d)"
  note m = rd_segs_mem [OF s]
  show "seg_blocks d s \<subseteq> rd_range d" by (rule seg_blocks_range [OF assms s])
  show "seg_blocks d s \<noteq> {}"
    using seg_size_nat [OF assms, of s] m assms by (simp add: seg_blocks_def rd_wf_def)
  show "unat (fst (locked_range d s)) + unat (rd_range_start d) = unat s"
    using m by (simp add: locked_range_def unat_sub_64)
  show "unat (snd (locked_range d s)) = card (seg_blocks d s)"
    by (simp add: locked_range_def seg_blocks_def)
qed

definition wit_range_desc :: RebuildDescriptor where
  "wit_range_desc = \<lparr> rd_block_size = 512, rd_range_start = 10240, rd_range_end = 10500,
     rd_options = \<lparr> opt_verify_mode = VerifyNone, opt_read_opts = Read_None \<rparr>,
     rd_segment_size_blks = 128, rd_src_uri = ''s'', rd_dst_uri = ''d'', rd_start_time = 0 \<rparr>"

theorem rebuild_segments_partition_witness:
  "\<exists>!s. s \<in> set (rd_segs wit_range_desc) \<and> 10498 \<in> seg_blocks wit_range_desc s"
proof -
  have "rd_wf 65536 wit_range_desc" "10498 \<in> rd_range wit_range_desc"
    by (simp_all add: rd_wf_def rd_range_def wit_range_desc_def)
  then show ?thesis using rebuild_segments_partition [of 65536 wit_range_desc] by blast
qed

text \<open>the partial rebuild that walks the bits of a map yields the index of a dirty segment
  where the block address of the segment is called for. With segments of two blocks and only
  blocks 8 and 9 dirty, the walk yields block 4, which is clean, and then nothing.\<close>

theorem partial_rebuild_yields_index:
  "\<exists>m r. Option.bind (sm_new 16 512 1024) (\<lambda>m. sm_set m 8 2 True) = Some m \<and>
     partial_rebuild_new m = Some r \<and> sm_segment_size_blks m = Some 2 \<and>
     sm_get m 8 = Some True \<and> sm_get m 9 = Some True \<and> sm_get m 4 = Some False \<and>
     fst (partial_rebuild_next r) = Some 4 \<and>
     fst (partial_rebuild_next (snd (partial_rebuild_next r))) = None"
proof -
  have "(do { m0 \<leftarrow> sm_new 16 512 1024; m \<leftarrow> sm_set m0 8 2 True; r \<leftarrow> partial_rebuild_new m;
      Some (sm_segment_size_blks m, sm_get m 8, sm_get m 9, sm_get m 4, fst (partial_rebuild_next r),
        fst (partial_rebuild_next (snd (partial_rebuild_next r)))) }) =
      Some (Some 2, Some True, Some True, Some False, Some 4, None)"
    by code_simp
  then show ?thesis by (auto split: bind_splits)
qed

end
