(* ===== verification/Rebuild_Backend.thy ===== *)
theory Rebuild_Backend
  imports Rebuild_Copy
begin

text \<open>
  The manager of a rebuild job (\<open>rebuild/rebuild_job_backend.rs\<close>) and its pool of tasks
  (\<open>rebuild_task.rs\<close>), as an event system: the run loop is cut at its await points, and an
  event is whatever happens next: the loop makes progress, a message arrives, a task completes,
  a client operates on the states, or the frontend of the nexus writes a block.
\<close>

section \<open>The state of a running job\<close>

text \<open>Where the run loop is: at its head, waiting for a message, inside \<open>manage_tasks\<close>, inside
  \<open>await_all_tasks\<close>, or returned.\<close>

datatype job_pc = PcTop | PcWait | PcManage | PcAwaitAll | PcDone

text \<open>The tasks in flight are pairs of a task id and the block it copies.\<close>

record 'w job =
  jb_states :: RebuildStates
  jb_pc :: job_pc
  jb_walk :: "u64 PeekableIterator"
  jb_world :: 'w
  jb_inflight :: "(nat \<times> u64) list"
  jb_active :: nat
  jb_total :: nat
  jb_segments_done :: u64
  jb_segments_transferred :: u64
  jb_notified :: "RebuildState list"

datatype RebuildJobRequest = WakeUp | GetStats

section \<open>State management\<close>

definition jb_exec_internal_op :: "RebuildOperation \<Rightarrow> 'w job \<Rightarrow> 'w job" where
  "jb_exec_internal_op op j =
     (case exec_op op True (jb_states j) of Inl _ \<Rightarrow> j | Inr (_, s) \<Rightarrow> j\<lparr>jb_states := s\<rparr>)"

definition jb_fail :: "'w job \<Rightarrow> 'w job" where
  "jb_fail j = jb_exec_internal_op OpFail j"

definition jb_fail_with :: "RebuildError \<Rightarrow> 'w job \<Rightarrow> 'w job" where
  "jb_fail_with e j = (let j' = jb_fail j in j'\<lparr>jb_states := (jb_states j')\<lparr>rs_error := Some e\<rparr>\<rparr>)"

definition jb_complete :: "'w job \<Rightarrow> 'w job" where
  "jb_complete j = jb_exec_internal_op OpComplete j"

text \<open>\<open>stats\<close> panics when the total is zero or when the assertion on the progress fails.\<close>

definition jb_stats :: "RebuildDescriptor \<Rightarrow> ('w, 'io) copier \<Rightarrow> 'w job \<Rightarrow> RebuildStats option" where
  "jb_stats d cp j =
     (let blocks_total = rd_range_end d - rd_range_start d;
          blocks_recovered = min (jb_segments_done j * rd_segment_size_blks d) blocks_total;
          blocks_transferred = min (jb_segments_transferred j * rd_segment_size_blks d) blocks_total
      in do {
           blocks_remaining \<leftarrow> cp_remaining cp (jb_walk j) (jb_world j);
           if blocks_total = 0 then None
           else
             let progress = blocks_recovered * 100 div blocks_total
             in if progress < 100 \<or> blocks_remaining = 0 then
                  Some \<lparr> st_blocks_total = blocks_total,
                         st_blocks_recovered = blocks_recovered,
                         st_blocks_transferred = blocks_transferred,
                         st_blocks_remaining = blocks_remaining,
                         st_progress = progress,
                         st_blocks_per_task = rd_segment_size_blks d,
                         st_block_size = rd_block_size d,
                         st_tasks_total = of_nat (jb_total j),
                         st_tasks_active = of_nat (jb_active j),
                         st_start_time = rd_start_time d,
                         st_is_partial = cp_is_partial cp,
                         st_end_time = None \<rparr>
                else None
         })"

text \<open>\<open>reconcile\<close>, with the notification of a state change.\<close>

definition jb_reconcile ::
  "RebuildDescriptor \<Rightarrow> ('w, 'io) copier \<Rightarrow> 'w job \<Rightarrow> (RebuildState \<times> 'w job) option" where
  "jb_reconcile d cp j =
     (let old = rs_current (jb_states j);
          (new, s) = states_reconcile (jb_states j);
          j' = j\<lparr>jb_states := s\<rparr>
      in if old \<noteq> new then
           do { _ \<leftarrow> jb_stats d cp j'; Some (new, j'\<lparr>jb_notified := jb_notified j' @ [new]\<rparr>) }
         else Some (new, j'))"

section \<open>Task management\<close>

definition schedule_task_by_id :: "nat \<Rightarrow> 'w job \<Rightarrow> bool \<times> 'w job" where
  "schedule_task_by_id id' j =
     (case pk_next (jb_walk j) of
        (Some blk, walk) \<Rightarrow>
          (True, j\<lparr>jb_walk := walk, jb_inflight := jb_inflight j @ [(id', blk)],
                   jb_active := jb_active j + 1\<rparr>)
      | (None, walk) \<Rightarrow> (False, j\<lparr>jb_walk := walk\<rparr>))"

definition start_task_by_id :: "nat \<Rightarrow> 'w job \<Rightarrow> bool \<times> 'w job" where
  "start_task_by_id id' j =
     (case schedule_task_by_id id' j of
        (False, j') \<Rightarrow> (False, if jb_active j' = 0 then jb_complete j' else j')
      | (True, j') \<Rightarrow> (True, j'))"

text \<open>The loop of \<open>start_all_tasks\<close> over the task ids.\<close>

primrec start_tasks :: "nat list \<Rightarrow> 'w job \<Rightarrow> 'w job" where
  "start_tasks [] j = j"
| "start_tasks (n # ns) j =
     (case start_task_by_id n j of (True, j') \<Rightarrow> start_tasks ns j' | (False, j') \<Rightarrow> j')"

definition start_all_tasks :: "RebuildDescriptor \<Rightarrow> ('w, 'io) copier \<Rightarrow> 'w job \<Rightarrow> 'w job option" where
  "start_all_tasks d cp j =
     (if jb_active j \<noteq> 0 then None
      else
        let j1 = start_tasks [0 ..< jb_total j] j;
            j2 = (if jb_active j1 = 0 then jb_complete j1 else j1)
        in do { _ \<leftarrow> jb_stats d cp j2; Some j2 })"

text \<open>A task completes: its copy runs, and \<open>await_one_task\<close> counts the result.\<close>

definition run_task :: "('w, 'io) copier \<Rightarrow> u64 \<Rightarrow> 'io \<Rightarrow> 'w job \<Rightarrow> ((RebuildError + bool) \<times> 'w job) option" where
  "run_task cp blk io j =
     do { (r, w) \<leftarrow> cp_copy cp io blk (jb_world j); Some (r, j\<lparr>jb_world := w\<rparr>) }"

definition await_one_task :: "nat \<times> u64 \<Rightarrow> RebuildError + bool \<Rightarrow> 'w job \<Rightarrow> 'w job" where
  "await_one_task t r j =
     (let j' = j\<lparr>jb_inflight := remove1 t (jb_inflight j), jb_active := jb_active j - 1\<rparr>
      in case r of
           Inl _ \<Rightarrow> j'
         | Inr is_transferred \<Rightarrow>
             j'\<lparr>jb_segments_done := jb_segments_done j' + 1,
                jb_segments_transferred := jb_segments_transferred j' + (if is_transferred then 1 else 0)\<rparr>)"

text \<open>The body of the loop of \<open>manage_tasks\<close> for one result, and of \<open>await_all_tasks\<close>, which
  only counts.\<close>

definition manage_result :: "nat \<Rightarrow> RebuildError + bool \<Rightarrow> 'w job \<Rightarrow> 'w job" where
  "manage_result id' r j =
     (case r of
        Inr _ \<Rightarrow>
          if rs_pending (jb_states j) \<in> {None, Some RsRunning} then snd (start_task_by_id id' j)
          else j\<lparr>jb_pc := PcAwaitAll\<rparr>
      | Inl e \<Rightarrow> (jb_fail_with e j)\<lparr>jb_pc := PcAwaitAll\<rparr>)"

definition task_done ::
  "('w, 'io) copier \<Rightarrow> nat \<Rightarrow> u64 \<Rightarrow> 'io \<Rightarrow> 'w job \<Rightarrow> 'w job option" where
  "task_done cp id' blk io j =
     do {
       (r, j1) \<leftarrow> run_task cp blk io j;
       let j2 = await_one_task (id', blk) r j1;
       Some (if jb_pc j2 = PcManage then manage_result id' r j2 else j2)
     }"

section \<open>The run loop\<close>

definition handle_message ::
  "RebuildDescriptor \<Rightarrow> ('w, 'io) copier \<Rightarrow> RebuildJobRequest option \<Rightarrow> 'w job \<Rightarrow> 'w job option" where
  "handle_message d cp msg j =
     (case msg of
        Some WakeUp \<Rightarrow> Some j
      | Some GetStats \<Rightarrow> do { _ \<leftarrow> jb_stats d cp j; Some j }
      | None \<Rightarrow> Some (jb_fail_with RE_FrontendGone j))"

text \<open>One turn of the outer loop of \<open>run\<close>, up to the next await.\<close>

definition run_turn :: "RebuildDescriptor \<Rightarrow> ('w, 'io) copier \<Rightarrow> 'w job \<Rightarrow> 'w job option" where
  "run_turn d cp j =
     do {
       (new, j1) \<leftarrow> jb_reconcile d cp j;
       if rs_done new then Some (j1\<lparr>jb_pc := PcDone\<rparr>)
       else if \<not> rs_running (rs_current (jb_states j1)) then Some (j1\<lparr>jb_pc := PcWait\<rparr>)
       else do { j2 \<leftarrow> start_all_tasks d cp j1; Some (j2\<lparr>jb_pc := PcManage\<rparr>) }
     }"

text \<open>The operations that the frontend of a job offers.\<close>

datatype client_op = ClStart | ClStop | ClPause | ClResume | ClForceStop | ClForceFail

definition client_exec :: "client_op \<Rightarrow> RebuildStates \<Rightarrow> RebuildStates" where
  "client_exec op s =
     (let r = (case op of
                 ClStart \<Rightarrow> exec_op OpStart False s
               | ClStop \<Rightarrow> exec_op OpStop False s
               | ClPause \<Rightarrow> exec_op OpPause False s
               | ClResume \<Rightarrow> exec_op OpResume False s
               | ClForceStop \<Rightarrow> exec_op OpStop True s
               | ClForceFail \<Rightarrow> exec_op OpFail True s)
      in case r of Inl _ \<Rightarrow> s | Inr (_, s') \<Rightarrow> s')"

datatype ('io, 'f) job_event =
    EvPoll
  | EvMessage "RebuildJobRequest option"
  | EvTask nat u64 'io
  | EvClient client_op
  | EvFront 'f

text \<open>One event; \<^const>\<open>None\<close> is a panic, and an event that cannot happen changes nothing. A
  message that arrives inside \<open>select!\<close> drops the \<open>manage_tasks\<close> future, which starts afresh.\<close>

definition job_step ::
  "RebuildDescriptor \<Rightarrow> ('w, 'io) copier \<Rightarrow> ('f \<Rightarrow> 'w \<Rightarrow> 'w) \<Rightarrow> ('io, 'f) job_event \<Rightarrow> 'w job \<Rightarrow> 'w job option" where
  "job_step d cp front ev j =
     (case ev of
        EvPoll \<Rightarrow>
          (case jb_pc j of
             PcTop \<Rightarrow> run_turn d cp j
           | PcManage \<Rightarrow> Some (if jb_active j = 0 then j\<lparr>jb_pc := PcTop\<rparr> else j)
           | PcAwaitAll \<Rightarrow> Some (if jb_active j = 0 then j\<lparr>jb_pc := PcTop\<rparr> else j)
           | _ \<Rightarrow> Some j)
      | EvMessage msg \<Rightarrow>
          (case jb_pc j of
             PcWait \<Rightarrow> do { j' \<leftarrow> handle_message d cp msg j; Some (j'\<lparr>jb_pc := PcTop\<rparr>) }
           | PcManage \<Rightarrow> handle_message d cp msg j
           | PcAwaitAll \<Rightarrow> do { j' \<leftarrow> handle_message d cp msg j; Some (j'\<lparr>jb_pc := PcManage\<rparr>) }
           | _ \<Rightarrow> Some j)
      | EvTask id' blk io \<Rightarrow>
          if (id', blk) \<in> set (jb_inflight j) then task_done cp id' blk io j else Some j
      | EvClient op \<Rightarrow> Some (j\<lparr>jb_states := client_exec op (jb_states j)\<rparr>)
      | EvFront f \<Rightarrow> Some (j\<lparr>jb_world := front f (jb_world j)\<rparr>))"

definition job_run ::
  "RebuildDescriptor \<Rightarrow> ('w, 'io) copier \<Rightarrow> ('f \<Rightarrow> 'w \<Rightarrow> 'w) \<Rightarrow> ('io, 'f) job_event list \<Rightarrow> 'w job \<Rightarrow> 'w job option" where
  "job_run d cp front evs j = foldM (job_step d cp front) evs j"

text \<open>A new job with its pool of tasks.\<close>

definition job_new :: "nat \<Rightarrow> RebuildDescriptor \<Rightarrow> 'w \<Rightarrow> 'w job option" where
  "job_new SEGMENT_TASKS d w =
     do {
       walk \<leftarrow> seq_rebuild_new d;
       Some \<lparr> jb_states = rebuild_states_default, jb_pc = PcTop, jb_walk = walk, jb_world = w,
              jb_inflight = [], jb_active = 0, jb_total = SEGMENT_TASKS,
              jb_segments_done = 0, jb_segments_transferred = 0, jb_notified = [] \<rparr>
     }"

text \<open>\<open>Drop\<close> of the manager records the final statistics.\<close>

definition jb_drop :: "nat \<Rightarrow> RebuildDescriptor \<Rightarrow> ('w, 'io) copier \<Rightarrow> 'w job \<Rightarrow> 'w job option" where
  "jb_drop now d cp j =
     do { stats \<leftarrow> jb_stats d cp j; Some (j\<lparr>jb_states := set_final_stats now stats (jb_states j)\<rparr>) }"

text \<open>A schedule under which every task that was started completes: as long as tasks are in
  flight the one that \<open>pick\<close> chooses completes, with the answers \<open>io\<close> of the devices for its
  block; otherwise the run loop makes progress.\<close>

primrec drive ::
  "nat \<Rightarrow> RebuildDescriptor \<Rightarrow> ('w, 'io) copier \<Rightarrow> ('f \<Rightarrow> 'w \<Rightarrow> 'w) \<Rightarrow> ('w job \<Rightarrow> nat \<times> u64) \<Rightarrow>
   (u64 \<Rightarrow> 'io) \<Rightarrow> 'w job \<Rightarrow> 'w job option" where
  "drive 0 d cp front pick io j = Some j"
| "drive (Suc n) d cp front pick io j =
     do {
       j' \<leftarrow> job_step d cp front
               (if jb_inflight j \<noteq> [] then EvTask (fst (pick j)) (snd (pick j)) (io (snd (pick j)))
                else EvPoll) j;
       drive n d cp front pick io j'
     }"

section \<open>Lemmas on the parts\<close>

text \<open>What is left of a walk.\<close>

definition rest_of :: "'a PeekableIterator \<Rightarrow> 'a list" where
  "rest_of p = (case pk_peek p of None \<Rightarrow> [] | Some x \<Rightarrow> x # pk_iter p)"

definition pk_wf :: "'a PeekableIterator \<Rightarrow> bool" where
  "pk_wf p \<longleftrightarrow> (pk_peek p = None \<longrightarrow> pk_iter p = [])"

lemma pk_new_rest [simp]: "rest_of (pk_new xs) = xs" "pk_wf (pk_new xs)"
  by (cases xs; simp add: pk_new_def rest_of_def iter_next_def pk_wf_def)+

lemma pk_next_rest:
  assumes "pk_wf p"
  shows "(case rest_of p of
            [] \<Rightarrow> fst (pk_next p) = None \<and> rest_of (snd (pk_next p)) = []
          | x # xs \<Rightarrow> fst (pk_next p) = Some x \<and> rest_of (snd (pk_next p)) = xs) \<and>
         pk_wf (snd (pk_next p))"
  using assms
  by (cases "pk_peek p"; cases "pk_iter p")
    (simp_all add: pk_next_def rest_of_def iter_next_def pk_wf_def)

lemma rest_Nil: "rest_of p = [] \<longleftrightarrow> pk_peek p = None"
  by (cases "pk_peek p") (simp_all add: rest_of_def)

text \<open>The states while no client pauses: \<open>good\<close> states are on the way to completion.\<close>

definition good :: "RebuildStates \<Rightarrow> bool" where
  "good s \<longleftrightarrow> rs_current s \<in> {RsInit, RsRunning, RsCompleted} \<and>
     rs_pending s \<in> {None, Some RsRunning, Some RsCompleted}"

definition completing :: "RebuildStates \<Rightarrow> bool" where
  "completing s \<longleftrightarrow> rs_current s = RsCompleted \<or> rs_pending s = Some RsCompleted"

definition unpaused :: "RebuildStates \<Rightarrow> bool" where
  "unpaused s \<longleftrightarrow> rs_current s \<noteq> RsPaused \<and> rs_pending s \<noteq> Some RsPaused"

definition ending :: "RebuildStates \<Rightarrow> bool" where
  "ending s \<longleftrightarrow> rs_pending s \<in> {Some RsStopped, Some RsFailed}"

lemmas state_kinds = good_def completing_def unpaused_def ending_def

lemma client_exec_current [simp]: "rs_current (client_exec op s) = rs_current s"
  by (cases op; cases "rs_current s"; cases "rs_pending s")
    (simp_all add: client_exec_def exec_op_def set_pending_def Let_def split: sum.splits)

lemma client_exec_step: "client_exec op s = s \<or> states_step s (client_exec op s)"
  by (cases op) (auto simp: client_exec_def Let_def split: sum.splits intro: step_op)

lemma client_exec_inv: "states_inv s \<Longrightarrow> states_inv (client_exec op s)"
  using client_exec_step [of op s] states_step_inv by metis

lemma client_exec_unpaused:
  assumes "op \<noteq> ClPause" "unpaused s" "states_inv s"
  shows "unpaused (client_exec op s)"
    and "good (client_exec op s) \<Longrightarrow> good s"
    and "completing (client_exec op s) \<Longrightarrow> completing s"
    and "rs_current s = RsRunning \<Longrightarrow> ending s \<Longrightarrow> ending (client_exec op s)"
  using assms
  by (cases op; cases "rs_current s"; cases "rs_pending s";
      auto simp: client_exec_def exec_op_def set_pending_def Let_def state_kinds states_inv_def split: sum.splits if_splits)+

lemma exec_internal_running:
  assumes "rs_current (jb_states j) = RsRunning"
  shows "jb_complete j = j\<lparr>jb_states := (jb_states j)\<lparr>rs_pending := Some RsCompleted\<rparr>\<rparr>"
    and "jb_fail j = j\<lparr>jb_states := (jb_states j)\<lparr>rs_pending := Some RsFailed\<rparr>\<rparr>"
  using assms by (simp_all add: jb_complete_def jb_fail_def jb_exec_internal_op_def exec_op_def)

lemma fail_with_running:
  "rs_current (jb_states j) = RsRunning \<Longrightarrow>
     jb_fail_with e j = j\<lparr>jb_states := (jb_states j)\<lparr>rs_pending := Some RsFailed, rs_error := Some e\<rparr>\<rparr>"
  by (simp add: jb_fail_with_def exec_internal_running Let_def)

lemma fail_with_not_running:
  "rs_current (jb_states j) \<noteq> RsRunning \<Longrightarrow>
     jb_fail_with e j = j\<lparr>jb_states := (jb_states j)\<lparr>rs_error := Some e\<rparr>\<rparr>"
  by (cases "rs_current (jb_states j)")
    (simp_all add: jb_fail_with_def jb_fail_def jb_exec_internal_op_def exec_op_def Let_def)

lemma job_states_id: "(j :: 'w job)\<lparr>jb_states := jb_states j\<rparr> = j"
  by (cases j) simp

text \<open>The number of segments, and the products the statistics compute with it.\<close>

lemma segs_length:
  assumes "rd_wf bl d"
  shows "length (rd_segs d) =
      (unat (rd_range_end d) - unat (rd_range_start d) + unat (rd_segment_size_blks d) - 1)
        div unat (rd_segment_size_blks d)"
    and "length (rd_segs d) * unat (rd_segment_size_blks d)
           < unat (rd_range_end d) + unat (rd_segment_size_blks d)"
    and "length (rd_segs d) + 1 < 18446744073709551616"
proof -
  let ?e = "unat (rd_range_end d)" and ?s = "unat (rd_range_start d)"
    and ?k = "unat (rd_segment_size_blks d)"
  have wf: "?s < ?e" "0 < ?k" "(?e + ?k) * 100 < 18446744073709551616"
    using assms by (auto simp: rd_wf_def)
  show len: "length (rd_segs d) = (?e - ?s + ?k - 1) div ?k"
    unfolding rd_segs_def using wf by (intro step_range_length) auto
  have "length (rd_segs d) * ?k \<le> ?e - ?s + ?k - 1"
    unfolding len by (rule div_times_less_eq_dividend)
  then show prod: "length (rd_segs d) * ?k < ?e + ?k" using wf by linarith
  have "length (rd_segs d) \<le> length (rd_segs d) * ?k" using wf(2) by simp
  moreover have "?e + ?k \<le> (?e + ?k) * 100" by simp
  ultimately show "length (rd_segs d) + 1 < 18446744073709551616" using prod wf(3) by linarith
qed

text \<open>A hundred percent means that every segment is done.\<close>

lemma progress_complete:
  assumes wf: "rd_wf bl d" and n: "unat n \<le> length (rd_segs d)"
    and full: "\<not> min (n * rd_segment_size_blks d) (rd_range_end d - rd_range_start d) * 100
                 div (rd_range_end d - rd_range_start d) < 100"
  shows "unat n = length (rd_segs d)"
proof -
  let ?e = "unat (rd_range_end d)" and ?s = "unat (rd_range_start d)"
    and ?k = "unat (rd_segment_size_blks d)"
  have r: "?s < ?e" "0 < ?k" "(?e + ?k) * 100 < 18446744073709551616"
    using wf by (auto simp: rd_wf_def)
  have total: "unat (rd_range_end d - rd_range_start d) = ?e - ?s" using r by (simp add: u64_nat)
  have "unat n * ?k \<le> length (rd_segs d) * ?k" using n by simp
  then have lt: "unat n * ?k < ?e + ?k" using segs_length(2) [OF wf] by linarith
  then have rec: "unat (min (n * rd_segment_size_blks d) (rd_range_end d - rd_range_start d)) =
      min (unat n * ?k) (?e - ?s)"
    using r total by (simp add: u64_nat)
  have "100 \<le> min (unat n * ?k) (?e - ?s) * 100 div (?e - ?s)"
    using full total rec r lt by (simp add: u64_nat min_def split: if_splits)
  then have "100 * (?e - ?s) \<le> min (unat n * ?k) (?e - ?s) * 100"
    using r by (metis less_eq_div_iff_mult_less_eq zero_less_diff)
  then have "?e - ?s \<le> unat n * ?k" by (simp add: min_def split: if_splits)
  then have "?e - ?s + ?k - 1 \<le> unat n * ?k + (?k - 1)" using r by linarith
  then have "(?e - ?s + ?k - 1) div ?k \<le> (unat n * ?k + (?k - 1)) div ?k" by (rule div_le_mono)
  also have "(unat n * ?k + (?k - 1)) div ?k = unat n"
    using r(2) by (intro div_nat_eqI) (auto simp: algebra_simps)
  finally have "length (rd_segs d) \<le> unat n" unfolding segs_length(1) [OF wf] .
  then show ?thesis using n by simp
qed

section \<open>The invariant of a job\<close>

context segment_copier
begin

text \<open>\<open>pre\<close> are the segments that have been handed out, \<open>D\<close> those that were copied. While no
  client pauses (\<open>np\<close>), a good job has copied all segments that are not in flight.\<close>

definition cover :: "bool \<Rightarrow> 'c \<Rightarrow> 'w job \<Rightarrow> u64 list \<Rightarrow> u64 set \<Rightarrow> bool" where
  "cover np c j pre D \<longleftrightarrow>
     rd_segs (desc c) = pre @ rest_of (jb_walk j) \<and>
     distinct (map snd (jb_inflight j)) \<and> snd ` set (jb_inflight j) \<subseteq> set pre \<and>
     D \<subseteq> set pre - snd ` set (jb_inflight j) \<and> card D = unat (jb_segments_done j) \<and>
     (\<forall>s \<in> D. seg_ok c (jb_world j) s) \<and>
     (np \<and> good (jb_states j) \<longrightarrow> D = set pre - snd ` set (jb_inflight j)) \<and>
     (np \<and> completing (jb_states j) \<longrightarrow> rest_of (jb_walk j) = [] \<and> jb_inflight j = [])"

definition core_inv :: "bool \<Rightarrow> 'c \<Rightarrow> 'w job \<Rightarrow> bool" where
  "core_inv np c j \<longleftrightarrow>
     wf c (jb_world j) \<and> pk_wf (jb_walk j) \<and> states_inv (jb_states j) \<and>
     jb_active j = length (jb_inflight j) \<and> 0 < jb_total j \<and>
     (np \<longrightarrow> unpaused (jb_states j)) \<and> (\<exists>pre D. cover np c j pre D)"

definition job_inv :: "bool \<Rightarrow> 'c \<Rightarrow> 'w job \<Rightarrow> bool" where
  "job_inv np c j \<longleftrightarrow>
     core_inv np c j \<and>
     (jb_pc j \<in> {PcTop, PcWait, PcDone} \<longrightarrow> jb_inflight j = []) \<and>
     (jb_pc j \<in> {PcManage, PcAwaitAll} \<longrightarrow> rs_current (jb_states j) = RsRunning) \<and>
     (np \<and> jb_pc j = PcAwaitAll \<longrightarrow> ending (jb_states j))"

lemma core_inv_pc [simp]: "core_inv np c (j\<lparr>jb_pc := p\<rparr>) = core_inv np c j"
  by (simp add: core_inv_def cover_def)

lemma core_inv_notified [simp]: "core_inv np c (j\<lparr>jb_notified := ns\<rparr>) = core_inv np c j"
  by (simp add: core_inv_def cover_def)

text \<open>A change of the states alone: it must not make a job good or completing that was not.\<close>

lemma core_inv_states:
  assumes "core_inv np c j" "states_inv s"
    and "np \<Longrightarrow> unpaused s"
    and "np \<Longrightarrow> good s \<Longrightarrow> good (jb_states j)"
    and "np \<Longrightarrow> completing s \<Longrightarrow>
           completing (jb_states j) \<or> rest_of (jb_walk j) = [] \<and> jb_inflight j = []"
  shows "core_inv np c (j\<lparr>jb_states := s\<rparr>)"
proof -
  obtain pre D where "cover np c j pre D" using assms(1) by (auto simp: core_inv_def)
  then have "cover np c (j\<lparr>jb_states := s\<rparr>) pre D"
    using assms(4,5) by (auto simp: cover_def)
  then show ?thesis using assms(1-3) by (auto simp: core_inv_def)
qed

text \<open>The statistics of a job that satisfies the invariant never panic.\<close>

lemma stats_total:
  assumes "core_inv np c j"
  shows "\<exists>st. jb_stats (desc c) (copier c) j = Some st"
proof -
  have wf: "wf c (jb_world j)" using assms by (simp add: core_inv_def)
  obtain bl where d: "rd_wf bl (desc c)" using desc_wf [OF wf] by blast
  obtain pre D where cov: "cover np c j pre D" using assms by (auto simp: core_inv_def)
  have segs: "rd_segs (desc c) = pre @ rest_of (jb_walk j)"
    and D: "D \<subseteq> set pre" "card D = unat (jb_segments_done j)" "\<forall>s \<in> D. seg_ok c (jb_world j) s"
    using cov unfolding cover_def by blast+
  obtain n where n: "cp_remaining (copier c) (jb_walk j) (jb_world j) = Some n"
    using remaining_total [OF wf] by blast
  have dist: "distinct (rd_segs (desc c))" by (rule rd_segs_distinct)
  have card: "card (set (rd_segs (desc c))) = length (rd_segs (desc c))"
    using dist by (rule distinct_card)
  have le: "unat (jb_segments_done j) \<le> length (rd_segs (desc c))"
    using card_mono [of "set (rd_segs (desc c))" D] D segs card by auto
  have total: "rd_range_end (desc c) - rd_range_start (desc c) \<noteq> 0"
    using d by (auto simp: rd_wf_def)
  have "n = 0" if full: "\<not> min (jb_segments_done j * rd_segment_size_blks (desc c))
        (rd_range_end (desc c) - rd_range_start (desc c)) * 100
        div (rd_range_end (desc c) - rd_range_start (desc c)) < 100"
  proof -
    have "card D = card (set (rd_segs (desc c)))"
      using progress_complete [OF d le full] D(2) card by simp
    then have all: "D = set (rd_segs (desc c))"
      using D(1) segs by (intro card_subset_eq) auto
    have "set (rest_of (jb_walk j)) \<subseteq> set pre" using all D(1) segs by auto
    moreover have "set pre \<inter> set (rest_of (jb_walk j)) = {}" using dist segs by simp
    ultimately have "rest_of (jb_walk j) = []" by (cases "rest_of (jb_walk j)") auto
    then show ?thesis
      using remaining_done [OF wf, of "jb_walk j"] n all D(3) by (simp add: rest_Nil)
  qed
  then show ?thesis
    using n total by (auto simp: jb_stats_def Let_def)
qed

text \<open>Starting a task on a running job with nothing else pending.\<close>

definition startable :: "bool \<Rightarrow> 'c \<Rightarrow> 'w job \<Rightarrow> bool" where
  "startable np c j \<longleftrightarrow> core_inv np c j \<and> rs_current (jb_states j) = RsRunning \<and>
     rs_pending (jb_states j) \<in> {None, Some RsRunning}"

lemma schedule_task:
  assumes st: "startable np c j" and r: "schedule_task_by_id i j = (r, j')"
  shows "core_inv np c j'" "jb_states j' = jb_states j" "jb_pc j' = jb_pc j"
    "jb_total j' = jb_total j"
    "r \<Longrightarrow> 0 < jb_active j'"
    "\<not> r \<Longrightarrow> rest_of (jb_walk j') = [] \<and> jb_inflight j' = jb_inflight j \<and> jb_active j' = jb_active j"
proof -
  obtain pre D where cov: "cover np c j pre D"
    using st by (auto simp: startable_def core_inv_def)
  have wf: "pk_wf (jb_walk j)" using st by (simp add: startable_def core_inv_def)
  obtain q walk where nx: "pk_next (jb_walk j) = (q, walk)" by fastforce
  have dist: "distinct (rd_segs (desc c))" by (rule rd_segs_distinct)
  have "core_inv np c j' \<and> jb_states j' = jb_states j \<and> jb_pc j' = jb_pc j \<and>
      jb_total j' = jb_total j \<and> (r \<longrightarrow> 0 < jb_active j') \<and>
      (\<not> r \<longrightarrow> rest_of (jb_walk j') = [] \<and> jb_inflight j' = jb_inflight j \<and> jb_active j' = jb_active j)"
  proof (cases "rest_of (jb_walk j)")
    case Nil
    then have q: "q = None" "rest_of walk = []" "pk_wf walk"
      using pk_next_rest [OF wf] nx by simp_all
    then have j': "r = False" "j' = j\<lparr>jb_walk := walk\<rparr>"
      using r nx by (simp_all add: schedule_task_by_id_def)
    have "cover np c j' pre D"
      using cov Nil q(2) by (simp add: j' cover_def)
    then show ?thesis
      using st q by (auto simp: startable_def core_inv_def j')
  next
    case (Cons x xs)
    then have q: "q = Some x" "rest_of walk = xs" "pk_wf walk"
      using pk_next_rest [OF wf] nx by simp_all
    then have j': "r = True" "j' = j\<lparr>jb_walk := walk, jb_inflight := jb_inflight j @ [(i, x)],
          jb_active := jb_active j + 1\<rparr>"
      using r nx by (simp_all add: schedule_task_by_id_def)
    have "x \<notin> set pre" using cov Cons dist by (auto simp: cover_def)
    moreover have "\<not> completing (jb_states j)"
      using st by (auto simp: startable_def completing_def)
    ultimately have "cover np c j' (pre @ [x]) D"
      using cov Cons q(2) unfolding cover_def j' by auto
    then show ?thesis
      using st q by (auto simp: startable_def core_inv_def j')
  qed
  then show "core_inv np c j'" "jb_states j' = jb_states j" "jb_pc j' = jb_pc j"
    "jb_total j' = jb_total j"
    "r \<Longrightarrow> 0 < jb_active j'"
    "\<not> r \<Longrightarrow> rest_of (jb_walk j') = [] \<and> jb_inflight j' = jb_inflight j \<and> jb_active j' = jb_active j"
    by blast+
qed

text \<open>Completing a running job whose walk is over and which has no task in flight.\<close>

lemma complete_core_inv:
  assumes "core_inv np c j" "rs_current (jb_states j) = RsRunning"
    and "good (jb_states j)" "rest_of (jb_walk j) = []" "jb_inflight j = []"
  shows "core_inv np c (jb_complete j)"
  unfolding exec_internal_running(1) [OF assms(2)]
  by (rule core_inv_states [OF assms(1)])
    (use assms in \<open>auto simp: states_inv_def core_inv_def state_kinds\<close>)

lemma start_task:
  assumes st: "startable np c j" and r: "start_task_by_id i j = (r, j')"
  shows "core_inv np c j'" "rs_current (jb_states j') = RsRunning" "jb_pc j' = jb_pc j"
    "jb_total j' = jb_total j"
    "r \<Longrightarrow> startable np c j' \<and> 0 < jb_active j'"
    "\<not> r \<Longrightarrow> rest_of (jb_walk j') = [] \<and> jb_active j' = jb_active j \<and> good (jb_states j')"
proof -
  obtain q j1 where s: "schedule_task_by_id i j = (q, j1)" by fastforce
  note f = schedule_task [OF st s]
  have run: "rs_current (jb_states j1) = RsRunning" and good: "good (jb_states j1)"
    using st f(2) by (auto simp: startable_def good_def)
  have len: "jb_active j1 = length (jb_inflight j1)" using f(1) by (simp add: core_inv_def)
  have "core_inv np c j' \<and> rs_current (jb_states j') = RsRunning \<and> jb_pc j' = jb_pc j \<and>
      jb_total j' = jb_total j \<and> (r \<longrightarrow> startable np c j' \<and> 0 < jb_active j') \<and>
      (\<not> r \<longrightarrow> rest_of (jb_walk j') = [] \<and> jb_active j' = jb_active j \<and> good (jb_states j'))"
  proof (cases q)
    case True
    then show ?thesis
      using r s f st by (auto simp: start_task_by_id_def startable_def)
  next
    case False
    show ?thesis
    proof (cases "jb_active j1 = 0")
      case zero: True
      then have j': "r = False" "j' = jb_complete j1"
        using r s False by (simp_all add: start_task_by_id_def)
      have "core_inv np c j'"
        unfolding j' using f(1,6) False run good zero len by (intro complete_core_inv) auto
      then show ?thesis
        using f False run by (simp add: j' exec_internal_running(1) [OF run] good_def)
    next
      case nz: False
      then have j': "r = False" "j' = j1"
        using r s False by (simp_all add: start_task_by_id_def)
      then show ?thesis using f False run good by simp
    qed
  qed
  then show "core_inv np c j'" "rs_current (jb_states j') = RsRunning" "jb_pc j' = jb_pc j"
    "jb_total j' = jb_total j"
    "r \<Longrightarrow> startable np c j' \<and> 0 < jb_active j'"
    "\<not> r \<Longrightarrow> rest_of (jb_walk j') = [] \<and> jb_active j' = jb_active j \<and> good (jb_states j')"
    by blast+
qed

lemma start_tasks_inv:
  assumes "startable np c j"
  shows "core_inv np c (start_tasks ns j) \<and> rs_current (jb_states (start_tasks ns j)) = RsRunning \<and>
         good (jb_states (start_tasks ns j)) \<and>
         (ns \<noteq> [] \<and> jb_active (start_tasks ns j) = 0 \<longrightarrow> rest_of (jb_walk (start_tasks ns j)) = [])"
  using assms
proof (induction ns arbitrary: j)
  case Nil
  then show ?case by (auto simp: startable_def good_def)
next
  case (Cons n ns)
  obtain r j' where r: "start_task_by_id n j = (r, j')" by fastforce
  note f = start_task [OF Cons.prems r]
  show ?case
  proof (cases r)
    case True
    have "0 < jb_active (start_tasks ns j')" if "ns = []" using that f(5) True by simp
    then show ?thesis using Cons.IH [of j'] f(5) True r by (cases ns) auto
  next
    case False
    then show ?thesis using f r by simp
  qed
qed

lemma start_all_inv:
  assumes st: "startable np c j" and idle: "jb_inflight j = []"
  shows "\<exists>j'. start_all_tasks (desc c) (copier c) j = Some j' \<and> core_inv np c j' \<and>
              rs_current (jb_states j') = RsRunning"
proof -
  let ?j1 = "start_tasks [0 ..< jb_total j] j"
  have act: "jb_active j = 0" and tot: "[0 ..< jb_total j] \<noteq> []"
    using st idle by (auto simp: startable_def core_inv_def)
  have f: "core_inv np c ?j1" "rs_current (jb_states ?j1) = RsRunning" "good (jb_states ?j1)"
    "jb_active ?j1 = 0 \<Longrightarrow> rest_of (jb_walk ?j1) = []"
    using start_tasks_inv [OF st, of "[0 ..< jb_total j]"] tot by auto
  let ?j2 = "if jb_active ?j1 = 0 then jb_complete ?j1 else ?j1"
  have j2: "core_inv np c ?j2" "rs_current (jb_states ?j2) = RsRunning"
    using f complete_core_inv [OF f(1-3)] exec_internal_running(1) [OF f(2)]
    by (auto simp: core_inv_def)
  show ?thesis
    using stats_total [OF j2(1)] j2 act by (auto simp: start_all_tasks_def Let_def)
qed

lemma reconcile_inv:
  assumes inv: "core_inv np c j"
  shows "\<exists>new j'. jb_reconcile (desc c) (copier c) j = Some (new, j') \<and> core_inv np c j' \<and>
                  rs_current (jb_states j') = new \<and> rs_pending (jb_states j') = None \<and>
                  jb_inflight j' = jb_inflight j"
proof -
  obtain new s where r: "states_reconcile (jb_states j) = (new, s)" by fastforce
  have sinv: "states_inv (jb_states j)" and un: "np \<Longrightarrow> unpaused (jb_states j)"
    using inv by (auto simp: core_inv_def)
  have cur: "rs_current s = new" "rs_pending s = None"
    using r by (auto simp: states_reconcile_def split: option.splits)
  have core: "core_inv np c (j\<lparr>jb_states := s\<rparr>)"
  proof (rule core_inv_states [OF inv])
    show "states_inv s" using cur by (simp add: states_inv_def)
    show "unpaused s" if np using un [OF that] r
      by (auto simp: unpaused_def states_reconcile_def split: option.splits)
    show "good (jb_states j)" if np "good s"
      using that un r sinv
      by (cases "rs_current (jb_states j)")
        (auto simp: state_kinds states_reconcile_def states_inv_def split: option.splits)
    show "completing (jb_states j) \<or> rest_of (jb_walk j) = [] \<and> jb_inflight j = []"
      if np "completing s"
      using that r by (auto simp: completing_def states_reconcile_def split: option.splits)
  qed
  show ?thesis
    using stats_total [OF core] core cur r by (auto simp: jb_reconcile_def Let_def)
qed

lemma run_turn_inv:
  assumes "job_inv np c j" "jb_pc j = PcTop"
  shows "\<exists>j'. run_turn (desc c) (copier c) j = Some j' \<and> job_inv np c j'"
proof -
  have inv: "core_inv np c j" "jb_inflight j = []" using assms by (auto simp: job_inv_def)
  obtain new j1 where r: "jb_reconcile (desc c) (copier c) j = Some (new, j1)" "core_inv np c j1"
    "rs_current (jb_states j1) = new" "rs_pending (jb_states j1) = None" "jb_inflight j1 = []"
    using reconcile_inv [OF inv(1)] inv(2) by auto
  show ?thesis
  proof (cases "rs_running new")
    case True
    then have "startable np c j1" using r by (simp add: startable_def rs_running_def)
    then show ?thesis
      using start_all_inv [of np c j1] r True
      by (auto simp: run_turn_def job_inv_def rs_running_def rs_done_def)
  next
    case False
    then show ?thesis using r by (auto simp: run_turn_def job_inv_def)
  qed
qed

text \<open>A task completes. First the bookkeeping, for a copy that succeeds and for one that fails.\<close>

lemma inflight_remove:
  assumes "distinct (map snd xs)" "t \<in> set xs"
  shows "snd ` set (remove1 t xs) = snd ` set xs - {snd t}" "distinct (map snd (remove1 t xs))"
proof -
  have "distinct xs" using assms(1) by (simp add: distinct_map)
  then show "snd ` set (remove1 t xs) = snd ` set xs - {snd t}"
    using assms by (auto simp: distinct_map inj_on_def)
  show "distinct (map snd (remove1 t xs))"
    using assms(1) by (auto simp: distinct_map inj_on_def dest: notin_set_remove1)
qed

lemma coverD:
  assumes "cover np c j pre D"
  shows "rd_segs (desc c) = pre @ rest_of (jb_walk j)" "distinct (map snd (jb_inflight j))"
    "snd ` set (jb_inflight j) \<subseteq> set pre" "D \<subseteq> set pre - snd ` set (jb_inflight j)"
    "card D = unat (jb_segments_done j)" "s \<in> D \<Longrightarrow> seg_ok c (jb_world j) s"
    "np \<Longrightarrow> good (jb_states j) \<Longrightarrow> D = set pre - snd ` set (jb_inflight j)"
    "np \<Longrightarrow> completing (jb_states j) \<Longrightarrow> rest_of (jb_walk j) = [] \<and> jb_inflight j = []"
  using assms unfolding cover_def by blast+

lemma cover_finite:
  assumes "cover np c j pre D"
  shows "D \<subseteq> set (rd_segs (desc c))" "finite D"
proof -
  show D: "D \<subseteq> set (rd_segs (desc c))"
    using coverD(4) [OF assms] unfolding coverD(1) [OF assms] by auto
  show "finite D" using finite_subset [OF D] by simp
qed

lemma cover_inflight:
  assumes "cover np c j pre D" "(i, blk) \<in> set (jb_inflight j)"
  shows "blk \<in> set pre" "blk \<in> set (rd_segs (desc c))" "blk \<notin> D"
proof -
  have b: "blk \<in> snd ` set (jb_inflight j)" using image_eqI [OF _ assms(2), of blk snd] by simp
  with coverD(1,3,4) [OF assms(1)]
  show "blk \<in> set pre" "blk \<in> set (rd_segs (desc c))" "blk \<notin> D" by auto
qed

lemma await_one_fields [simp]:
  "jb_world (await_one_task t r j) = jb_world j" "jb_walk (await_one_task t r j) = jb_walk j"
  "jb_states (await_one_task t r j) = jb_states j" "jb_total (await_one_task t r j) = jb_total j"
  "jb_pc (await_one_task t r j) = jb_pc j"
  "jb_inflight (await_one_task t r j) = remove1 t (jb_inflight j)"
  "jb_active (await_one_task t r j) = jb_active j - 1"
  by (cases r; simp add: await_one_task_def Let_def)+

lemma task_ok_core:
  assumes inv: "core_inv np c j" and t: "(i, blk) \<in> set (jb_inflight j)" and env: "env c blk io"
    and cp: "cp_copy (copier c) io blk (jb_world j) = Some (Inr b, w)"
  shows "core_inv np c (await_one_task (i, blk) (Inr b) (j\<lparr>jb_world := w\<rparr>))"
proof -
  obtain pre D where cov: "cover np c j pre D" using inv by (auto simp: core_inv_def)
  have wfj: "wf c (jb_world j)" using inv by (simp add: core_inv_def)
  obtain bl where d: "rd_wf bl (desc c)" using desc_wf [OF wfj] by blast
  note blk = cover_inflight [OF cov t]
  have wf': "wf c w" using copy_total [OF wfj blk(2) env] cp by auto
  note cv = coverD [OF cov] cover_finite [OF cov]
  have "card (insert blk D) \<le> length (rd_segs (desc c))"
    using cv(9) blk(2) card_mono [of "set (rd_segs (desc c))" "insert blk D"]
      card_length [of "rd_segs (desc c)"] by simp
  then have card: "card (insert blk D) = unat (jb_segments_done j + 1)"
    using cv(5,10) blk(3) segs_length(3) [OF d] by (simp add: u64_nat)
  have ok: "seg_ok c w s" if "s \<in> insert blk D" for s
    using copy_ok [OF wfj blk(2) env cp] copy_keeps [OF wfj blk(2) _ _ cp, of s] cv(6,9) blk(3) that
    by blast
  have rem: "snd ` set (remove1 (i, blk) (jb_inflight j)) = snd ` set (jb_inflight j) - {blk}"
    "distinct (map snd (remove1 (i, blk) (jb_inflight j)))"
    using inflight_remove [OF cv(2) t] by simp_all
  have "insert blk D = set pre - (snd ` set (jb_inflight j) - {blk})" if "np" "good (jb_states j)"
    using cv(7) [OF that] blk(1) by blast
  moreover have "insert blk D \<subseteq> set pre - (snd ` set (jb_inflight j) - {blk})"
    using cv(4) blk(1) by blast
  moreover have "\<not> completing (jb_states j)" if "np" using cv(8) that t by auto
  ultimately have "cover np c (await_one_task (i, blk) (Inr b) (j\<lparr>jb_world := w\<rparr>)) pre (insert blk D)"
    using cv(1,3) card ok rem by (auto simp: cover_def await_one_task_def)
  then have "\<exists>pre D. cover np c (await_one_task (i, blk) (Inr b) (j\<lparr>jb_world := w\<rparr>)) pre D"
    by blast
  then show ?thesis
    using inv wf' t unfolding core_inv_def by (simp add: length_remove1)
qed

lemma task_error_core:
  assumes inv: "core_inv np c j" and t: "(i, blk) \<in> set (jb_inflight j)" and env: "env c blk io"
    and cp: "cp_copy (copier c) io blk (jb_world j) = Some (Inl e, w)"
    and s: "states_inv s" "np \<Longrightarrow> unpaused s \<and> \<not> good s \<and> \<not> completing s"
  shows "core_inv np c ((await_one_task (i, blk) (Inl e) (j\<lparr>jb_world := w\<rparr>))\<lparr>jb_states := s\<rparr>)"
proof -
  obtain pre D where cov: "cover np c j pre D" using inv by (auto simp: core_inv_def)
  have wfj: "wf c (jb_world j)" using inv by (simp add: core_inv_def)
  note blk = cover_inflight(2,3) [OF cov t]
  have wf': "wf c w" using copy_total [OF wfj blk(1) env] cp by auto
  note cv = coverD [OF cov] cover_finite [OF cov]
  have ok: "seg_ok c w s" if "s \<in> D" for s
    using copy_keeps [OF wfj blk(1) _ _ cp, of s] cv(6,9) blk(2) that by blast
  have rem: "snd ` set (remove1 (i, blk) (jb_inflight j)) = snd ` set (jb_inflight j) - {blk}"
    "distinct (map snd (remove1 (i, blk) (jb_inflight j)))"
    using inflight_remove [OF cv(2) t] by simp_all
  have "cover np c ((await_one_task (i, blk) (Inl e) (j\<lparr>jb_world := w\<rparr>))\<lparr>jb_states := s\<rparr>) pre D"
    using cv(1,3,4,5) ok rem s(2) by (auto simp: cover_def await_one_task_def)
  then have "\<exists>pre D. cover np c ((await_one_task (i, blk) (Inl e) (j\<lparr>jb_world := w\<rparr>))\<lparr>jb_states := s\<rparr>) pre D"
    by blast
  then show ?thesis
    using inv wf' t s unfolding core_inv_def by (simp add: length_remove1)
qed

text \<open>Then what the manager does with the result.\<close>

lemma task_done_inv:
  assumes inv: "job_inv np c j" and t: "(i, blk) \<in> set (jb_inflight j)" and env: "env c blk io"
  shows "\<exists>j'. task_done (copier c) i blk io j = Some j' \<and> job_inv np c j'"
proof -
  have core: "core_inv np c j" and pc: "jb_pc j \<in> {PcManage, PcAwaitAll}"
    and run: "rs_current (jb_states j) = RsRunning"
    and en: "np \<Longrightarrow> jb_pc j = PcAwaitAll \<Longrightarrow> ending (jb_states j)"
    using inv t by (cases "jb_pc j"; auto simp: job_inv_def)+
  obtain pre D where cov: "cover np c j pre D" using core by (auto simp: core_inv_def)
  have wfj: "wf c (jb_world j)" and sinv: "states_inv (jb_states j)"
    and un: "np \<Longrightarrow> unpaused (jb_states j)"
    using core by (auto simp: core_inv_def)
  have nc: "np \<Longrightarrow> \<not> completing (jb_states j)" using coverD(8) [OF cov] t by auto
  obtain r w where cp: "cp_copy (copier c) io blk (jb_world j) = Some (r, w)"
    using copy_total [OF wfj cover_inflight(2) [OF cov t] env] by blast
  let ?j2 = "await_one_task (i, blk) r (j\<lparr>jb_world := w\<rparr>)"
  let ?j3 = "if jb_pc j = PcManage then manage_result i r ?j2 else ?j2"
  have "job_inv np c ?j3"
  proof (cases r)
    case (Inr b)
    have core2: "core_inv np c ?j2"
      using task_ok_core [OF core t env] cp by (simp add: Inr)
    show ?thesis
    proof (cases "jb_pc j = PcManage \<and> rs_pending (jb_states j) \<in> {None, Some RsRunning}")
      case True
      then have "startable np c ?j2" using core2 run by (simp add: startable_def)
      moreover obtain q j4 where q: "start_task_by_id i ?j2 = (q, j4)" by fastforce
      ultimately have "core_inv np c j4" "rs_current (jb_states j4) = RsRunning" "jb_pc j4 = PcManage"
        using start_task(1,2,3) [of np c ?j2 i q j4] True by simp_all
      then show ?thesis using True q by (simp add: job_inv_def manage_result_def Inr)
    next
      case False
      have "ending (jb_states j)" if np "jb_pc j = PcManage"
        using that False un nc run sinv
        by (cases "rs_pending (jb_states j)") (auto simp: state_kinds states_inv_def)
      then show ?thesis
        using False core2 run en pc by (auto simp: job_inv_def manage_result_def Inr)
    qed
  next
    case (Inl e)
    show ?thesis
    proof (cases "jb_pc j = PcManage")
      case True
      let ?s = "(jb_states j)\<lparr>rs_pending := Some RsFailed, rs_error := Some e\<rparr>"
      have "core_inv np c (?j2\<lparr>jb_states := ?s\<rparr>)"
        unfolding Inl
        by (rule task_error_core [OF core t env])
          (use cp un run in \<open>auto simp: Inl states_inv_def state_kinds\<close>)
      then show ?thesis
        using True run by (simp add: job_inv_def manage_result_def Inl fail_with_running ending_def)
    next
      case False
      have "core_inv np c (?j2\<lparr>jb_states := jb_states ?j2\<rparr>)"
        unfolding Inl
        by (rule task_error_core [OF core t env])
          (use cp un sinv nc en False pc in \<open>auto simp: Inl state_kinds\<close>)
      then have "core_inv np c ?j2" unfolding job_states_id .
      then show ?thesis using False run en pc by (auto simp: job_inv_def)
    qed
  qed
  then show ?thesis using cp by (simp add: task_done_def run_task_def Let_def)
qed

lemma handle_message_inv:
  assumes "core_inv np c j"
  shows "\<exists>j'. handle_message (desc c) (copier c) msg j = Some j' \<and> core_inv np c j' \<and>
              rs_current (jb_states j') = rs_current (jb_states j) \<and> jb_pc j' = jb_pc j \<and>
              jb_inflight j' = jb_inflight j \<and>
              (rs_current (jb_states j) = RsRunning \<longrightarrow> ending (jb_states j) \<longrightarrow> ending (jb_states j'))"
proof (cases msg)
  case None
  let ?s = "if rs_current (jb_states j) = RsRunning
    then (jb_states j)\<lparr>rs_pending := Some RsFailed, rs_error := Some RE_FrontendGone\<rparr>
    else (jb_states j)\<lparr>rs_error := Some RE_FrontendGone\<rparr>"
  have eq: "jb_fail_with RE_FrontendGone j = j\<lparr>jb_states := ?s\<rparr>"
    by (simp add: fail_with_running fail_with_not_running)
  have "core_inv np c (j\<lparr>jb_states := ?s\<rparr>)"
    by (rule core_inv_states [OF assms])
      (use assms in \<open>auto simp: core_inv_def states_inv_def state_kinds split: if_splits\<close>)
  then show ?thesis
    using eq None by (auto simp: handle_message_def ending_def)
next
  case (Some m)
  then show ?thesis
    using stats_total [OF assms] assms by (cases m) (auto simp: handle_message_def)
qed

text \<open>The events of a run: the devices answer truthfully, and under \<open>np\<close> no client pauses.\<close>

definition event_ok :: "bool \<Rightarrow> 'c \<Rightarrow> ('io, 'f) job_event \<Rightarrow> bool" where
  "event_ok np c ev \<longleftrightarrow>
     (case ev of
        EvTask i blk io \<Rightarrow> env c blk io
      | EvClient op \<Rightarrow> np \<longrightarrow> op \<noteq> ClPause
      | _ \<Rightarrow> True)"

lemma client_step_inv:
  assumes "job_inv np c j" "np \<longrightarrow> op \<noteq> ClPause"
  shows "job_inv np c (j\<lparr>jb_states := client_exec op (jb_states j)\<rparr>)"
proof -
  have core: "core_inv np c j" using assms(1) by (simp add: job_inv_def)
  have sinv: "states_inv (jb_states j)" and un: "np \<Longrightarrow> unpaused (jb_states j)"
    using core by (auto simp: core_inv_def)
  have op: "np \<Longrightarrow> op \<noteq> ClPause" using assms(2) by blast
  note cl = client_exec_unpaused [OF op un sinv]
  have "core_inv np c (j\<lparr>jb_states := client_exec op (jb_states j)\<rparr>)"
    by (rule core_inv_states [OF core client_exec_inv [OF sinv]]) (use cl in blast)+
  moreover have "ending (client_exec op (jb_states j))" if np "jb_pc j = PcAwaitAll"
    using cl(4) that assms(1) by (simp add: job_inv_def)
  ultimately show ?thesis using assms(1) by (simp add: job_inv_def)
qed

lemma front_step_inv:
  assumes "job_inv np c j"
  shows "job_inv np c (j\<lparr>jb_world := front f (jb_world j)\<rparr>)"
proof -
  have core: "core_inv np c j" using assms by (simp add: job_inv_def)
  obtain pre D where cov: "cover np c j pre D" using core by (auto simp: core_inv_def)
  have wfj: "wf c (jb_world j)" using core by (simp add: core_inv_def)
  have "cover np c (j\<lparr>jb_world := front f (jb_world j)\<rparr>) pre D"
    using cov front_keeps [OF wfj] unfolding cover_def by simp
  then have "\<exists>pre D. cover np c (j\<lparr>jb_world := front f (jb_world j)\<rparr>) pre D" by blast
  then have "core_inv np c (j\<lparr>jb_world := front f (jb_world j)\<rparr>)"
    using core front_wf [OF wfj] unfolding core_inv_def by simp
  then show ?thesis using assms by (simp add: job_inv_def)
qed

lemma message_step_inv:
  assumes "job_inv np c j"
  shows "\<exists>j'. job_step (desc c) (copier c) front (EvMessage msg) j = Some j' \<and> job_inv np c j'"
proof -
  have "core_inv np c j" using assms by (simp add: job_inv_def)
  from handle_message_inv [OF this, of msg] assms show ?thesis
    by (cases "jb_pc j") (auto simp: job_step_def job_inv_def)
qed

lemma poll_step_inv:
  assumes "job_inv np c j"
  shows "\<exists>j'. job_step (desc c) (copier c) front EvPoll j = Some j' \<and> job_inv np c j'"
  using run_turn_inv [OF assms] assms
  by (cases "jb_pc j") (auto simp: job_step_def job_inv_def core_inv_def [of np c j])

lemma job_step_inv:
  assumes "job_inv np c j" "event_ok np c ev"
  shows "\<exists>j'. job_step (desc c) (copier c) front ev j = Some j' \<and> job_inv np c j'"
proof (cases ev)
  case EvPoll
  then show ?thesis using poll_step_inv [OF assms(1)] by simp
next
  case (EvMessage msg)
  then show ?thesis using message_step_inv [OF assms(1)] by simp
next
  case (EvTask i blk io)
  then show ?thesis
    using task_done_inv [OF assms(1), of i blk io] assms by (auto simp: job_step_def event_ok_def)
next
  case (EvClient op)
  then show ?thesis
    using client_step_inv [OF assms(1)] assms(2) by (simp add: job_step_def event_ok_def)
next
  case (EvFront f)
  then show ?thesis using front_step_inv [OF assms(1)] by (simp add: job_step_def)
qed

lemma job_run_inv:
  assumes "job_inv np c j" "\<forall>ev \<in> set evs. event_ok np c ev"
  shows "\<exists>j'. job_run (desc c) (copier c) front evs j = Some j' \<and> job_inv np c j'"
  using assms unfolding job_run_def
proof (induction evs arbitrary: j)
  case Nil
  then show ?case by simp
next
  case (Cons ev evs)
  obtain j1 where "job_step (desc c) (copier c) front ev j = Some j1" "job_inv np c j1"
    using job_step_inv [OF Cons.prems(1)] Cons.prems(2) by auto
  then show ?case using Cons.IH [of j1] Cons.prems(2) by simp
qed

lemma job_new_inv:
  assumes "wf c w" "0 < n"
  shows "\<exists>j. job_new n (desc c) w = Some j \<and> job_inv np c j \<and> jb_states j = rebuild_states_default \<and>
             jb_pc j = PcTop \<and> rest_of (jb_walk j) = rd_segs (desc c)"
proof -
  obtain bl where d: "rd_wf bl (desc c)" using desc_wf [OF assms(1)] by blast
  then have "rd_segment_size_blks (desc c) \<noteq> 0" by (auto simp: rd_wf_def)
  then have "seq_rebuild_new (desc c) = Some (pk_new (rd_segs (desc c)))"
    by (simp add: seq_rebuild_new_def step_by_def rd_segs_def)
  moreover have "good rebuild_states_default" "\<not> completing rebuild_states_default"
    "unpaused rebuild_states_default"
    by (simp_all add: state_kinds rebuild_states_default_def)
  ultimately show ?thesis
    using assms by (auto simp: job_new_def job_inv_def core_inv_def cover_def)
qed

lemma job_reaches:
  assumes "wf c w" "0 < n" "\<forall>ev \<in> set evs. event_ok np c ev"
  shows "\<exists>j0 j. job_new n (desc c) w = Some j0 \<and>
                job_run (desc c) (copier c) front evs j0 = Some j \<and> job_inv np c j"
  using job_new_inv [OF assms(1,2), of np] job_run_inv [OF _ assms(3)] by blast

text \<open>A completed job that was never paused has copied every segment.\<close>

lemma completed_all:
  assumes "job_inv True c j" "rs_current (jb_states j) = RsCompleted" "s \<in> set (rd_segs (desc c))"
  shows "seg_ok c (jb_world j) s"
proof -
  obtain pre D where cov: "cover True c j pre D"
    using assms(1) by (auto simp: job_inv_def core_inv_def)
  have "rs_pending (jb_states j) = None"
    using assms by (cases "rs_pending (jb_states j)") (auto simp: job_inv_def core_inv_def states_inv_def)
  then have "good (jb_states j)" "completing (jb_states j)"
    using assms(2) by (auto simp: state_kinds)
  then have "D = set (rd_segs (desc c))"
    using coverD(1,7,8) [OF cov] by simp
  then show ?thesis using coverD(6) [OF cov] assms(3) by simp
qed

text \<open>Progress: a managed job has tasks in flight until it completes, and every task that
  succeeds brings it one segment closer.\<close>

definition live :: "'c \<Rightarrow> 'w job \<Rightarrow> bool" where
  "live c j \<longleftrightarrow> job_inv True c j \<and> jb_pc j = PcManage \<and>
     (rs_pending (jb_states j) = None \<and> jb_inflight j \<noteq> [] \<or>
      rs_pending (jb_states j) = Some RsCompleted \<and> jb_inflight j = [])"

definition todo :: "'w job \<Rightarrow> nat" where
  "todo j = length (rest_of (jb_walk j)) + length (jb_inflight j)"

lemma start_task_todo:
  assumes st: "startable np c j" and p: "rs_pending (jb_states j) = None"
    and r: "start_task_by_id i j = (r, j')"
  shows "todo j' = todo j"
    and "rs_pending (jb_states j') = (if r \<or> jb_inflight j \<noteq> [] then None else Some RsCompleted)"
    and "jb_inflight j' = [] \<longleftrightarrow> \<not> r \<and> jb_inflight j = []"
    and "r \<longleftrightarrow> rest_of (jb_walk j) \<noteq> []"
proof -
  have wf: "pk_wf (jb_walk j)" and act: "jb_active j = length (jb_inflight j)"
    and run: "rs_current (jb_states j) = RsRunning"
    using st by (auto simp: startable_def core_inv_def)
  obtain q walk where nx: "pk_next (jb_walk j) = (q, walk)" by fastforce
  have "todo j' = todo j \<and>
      rs_pending (jb_states j') = (if r \<or> jb_inflight j \<noteq> [] then None else Some RsCompleted) \<and>
      (jb_inflight j' = [] \<longleftrightarrow> \<not> r \<and> jb_inflight j = []) \<and> (r \<longleftrightarrow> rest_of (jb_walk j) \<noteq> [])"
  proof (cases "rest_of (jb_walk j)")
    case Nil
    then have "q = None" "rest_of walk = []" using pk_next_rest [OF wf] nx by simp_all
    then show ?thesis
      using Nil r nx act run p exec_internal_running(1) [of "j\<lparr>jb_walk := walk\<rparr>"]
      by (auto simp: start_task_by_id_def schedule_task_by_id_def todo_def split: if_splits)
  next
    case (Cons x xs)
    then have "q = Some x" "rest_of walk = xs" using pk_next_rest [OF wf] nx by simp_all
    then show ?thesis
      using Cons r nx p by (auto simp: start_task_by_id_def schedule_task_by_id_def todo_def)
  qed
  then show "todo j' = todo j"
    "rs_pending (jb_states j') = (if r \<or> jb_inflight j \<noteq> [] then None else Some RsCompleted)"
    "jb_inflight j' = [] \<longleftrightarrow> \<not> r \<and> jb_inflight j = []"
    "r \<longleftrightarrow> rest_of (jb_walk j) \<noteq> []"
    by blast+
qed

lemma start_tasks_todo:
  assumes "startable np c j" "rs_pending (jb_states j) = None"
    and "jb_inflight j \<noteq> [] \<or> rest_of (jb_walk j) \<noteq> [] \<and> ns \<noteq> []"
  shows "todo (start_tasks ns j) = todo j \<and> rs_pending (jb_states (start_tasks ns j)) = None \<and>
         jb_inflight (start_tasks ns j) \<noteq> []"
  using assms
proof (induction ns arbitrary: j)
  case Nil
  then show ?case by simp
next
  case (Cons n ns)
  obtain r j' where r: "start_task_by_id n j = (r, j')" by fastforce
  note f = start_task_todo [OF Cons.prems(1,2) r] start_task(5) [OF Cons.prems(1) r]
  show ?case
  proof (cases r)
    case True
    then show ?thesis using Cons.IH [of j'] f r by simp
  next
    case False
    then show ?thesis using f Cons.prems(3) r by auto
  qed
qed

lemma live_task:
  assumes lv: "live c j" and t: "(i, blk) \<in> set (jb_inflight j)" and env: "env c blk io"
    and ok: "cp_copy (copier c) io blk (jb_world j) = Some (Inr b, w)"
  shows "\<exists>j'. task_done (copier c) i blk io j = Some j' \<and> live c j' \<and> Suc (todo j') = todo j"
proof -
  have inv: "job_inv True c j" and pc: "jb_pc j = PcManage" and p: "rs_pending (jb_states j) = None"
    using lv t by (auto simp: live_def)
  have core: "core_inv True c j" and run: "rs_current (jb_states j) = RsRunning"
    using inv pc by (auto simp: job_inv_def)
  let ?j2 = "await_one_task (i, blk) (Inr b) (j\<lparr>jb_world := w\<rparr>)"
  have st: "startable True c ?j2"
    using task_ok_core [OF core t env ok] run p by (simp add: startable_def)
  obtain r j3 where r: "start_task_by_id i ?j2 = (r, j3)" by fastforce
  have td: "task_done (copier c) i blk io j = Some j3"
    using ok pc p r by (simp add: task_done_def run_task_def manage_result_def Let_def)
  have "jb_pc j3 = PcManage" using start_task(3) [OF st r] pc by simp
  moreover have "todo j3 = todo ?j2" "rs_pending (jb_states j3) = None \<and> jb_inflight j3 \<noteq> [] \<or>
      rs_pending (jb_states j3) = Some RsCompleted \<and> jb_inflight j3 = []"
    using start_task_todo [OF st _ r] p by auto
  moreover have "Suc (todo ?j2) = todo j"
    using t length_pos_if_in_set [OF t] by (simp add: todo_def length_remove1)
  ultimately show ?thesis
    using td task_done_inv [OF inv t env] by (auto simp: live_def)
qed

lemma reconcile_new:
  "jb_reconcile d cp j = Some (new, j') \<Longrightarrow> new = fst (states_reconcile (jb_states j))"
  by (auto simp: jb_reconcile_def Let_def split: prod.splits if_splits bind_splits)

lemma live_done:
  assumes lv: "live c j" and idle: "jb_inflight j = []"
  shows "\<exists>j'. drive 2 (desc c) (copier c) front pick io j = Some j' \<and> jb_pc j' = PcDone \<and>
              rs_current (jb_states j') = RsCompleted \<and> job_inv True c j'"
proof -
  let ?j1 = "j\<lparr>jb_pc := PcTop\<rparr>"
  have inv: "job_inv True c ?j1" and act: "jb_active j = 0" and pc: "jb_pc j = PcManage"
    and p: "rs_pending (jb_states j) = Some RsCompleted"
    using assms by (auto simp: live_def job_inv_def core_inv_def [of True c j])
  have s1: "job_step (desc c) (copier c) front EvPoll j = Some ?j1"
    using pc act by (simp add: job_step_def)
  obtain j2 where j2: "run_turn (desc c) (copier c) ?j1 = Some j2" "job_inv True c j2"
    using run_turn_inv [OF inv] by auto
  obtain new j' where r: "jb_reconcile (desc c) (copier c) ?j1 = Some (new, j')"
    "rs_current (jb_states j') = new"
    using reconcile_inv [of True c ?j1] inv by (auto simp: job_inv_def)
  have "new = RsCompleted" using reconcile_new [OF r(1)] p by (simp add: states_reconcile_def)
  then have "j2 = j'\<lparr>jb_pc := PcDone\<rparr>" using j2(1) r(1) by (simp add: run_turn_def rs_done_def)
  then show ?thesis
    using s1 j2 r(2) \<open>new = RsCompleted\<close> idle by (simp add: numeral_2_eq_2 job_step_def)
qed

lemma live_drive:
  assumes succ: "\<forall>w s. wf c w \<longrightarrow> s \<in> set (rd_segs (desc c)) \<longrightarrow>
      env c s (io s) \<and> (\<exists>b w'. cp_copy (copier c) (io s) s w = Some (Inr b, w'))"
    and pick: "\<forall>j. jb_inflight j \<noteq> [] \<longrightarrow> pick j \<in> set (jb_inflight j)"
    and "live c j"
  shows "\<exists>j'. drive (todo j + 2) (desc c) (copier c) front pick io j = Some j' \<and> jb_pc j' = PcDone \<and>
              rs_current (jb_states j') = RsCompleted \<and> job_inv True c j'"
  using assms(3)
proof (induction "todo j" arbitrary: j)
  case 0
  have idle: "jb_inflight j = []" using 0(1) by (simp add: todo_def)
  have two: "todo j + 2 = 2" using 0(1) by simp
  show ?case unfolding two by (rule live_done [OF 0(2) idle])
next
  case (Suc n)
  obtain pre D where cov: "cover True c j pre D"
    using Suc.prems by (auto simp: live_def job_inv_def core_inv_def)
  have ne: "jb_inflight j \<noteq> []"
    using Suc.prems Suc.hyps(2) coverD(8) [OF cov] by (auto simp: live_def todo_def completing_def)
  obtain i blk where p: "pick j = (i, blk)" by (cases "pick j")
  have t: "(i, blk) \<in> set (jb_inflight j)" using pick ne p by metis
  have wfj: "wf c (jb_world j)" using Suc.prems by (simp add: live_def job_inv_def core_inv_def)
  obtain b w' where c: "env c blk (io blk)" "cp_copy (copier c) (io blk) blk (jb_world j) = Some (Inr b, w')"
    using succ wfj cover_inflight(2) [OF cov t] by blast
  obtain j1 where j1: "task_done (copier c) i blk (io blk) j = Some j1" "live c j1" "Suc (todo j1) = todo j"
    using live_task [OF Suc.prems t c] by blast
  have "job_step (desc c) (copier c) front (EvTask i blk (io blk)) j = Some j1"
    using j1(1) t by (simp add: job_step_def)
  then show ?case
    using Suc.hyps(1) [of j1] Suc.hyps(2) j1 p ne by simp
qed

text \<open>A new job that is started reaches the managed state with its first poll.\<close>

lemma started_live:
  assumes wfw: "wf c w" and n: "0 < n" and new: "job_new n (desc c) w = Some j0"
    and j1: "j1 = j0\<lparr>jb_states := client_exec ClStart (jb_states j0)\<rparr>"
  shows "\<exists>j2. job_step (desc c) (copier c) front EvPoll j1 = Some j2 \<and> live c j2 \<and>
              todo j2 = length (rd_segs (desc c))"
proof -
  have inv0: "job_inv True c j0" and s0: "jb_states j0 = rebuild_states_default"
    and pc0: "jb_pc j0 = PcTop" and w0: "rest_of (jb_walk j0) = rd_segs (desc c)"
    using job_new_inv [OF wfw n, of True] new by auto
  have inv: "job_inv True c j1" unfolding j1 using client_step_inv [OF inv0] by simp
  have s1: "jb_states j1 = rebuild_states_default\<lparr>rs_pending := Some RsRunning\<rparr>"
    by (simp add: j1 s0 client_exec_def exec_op_def set_pending_def rebuild_states_default_def)
  obtain new j' where r: "jb_reconcile (desc c) (copier c) j1 = Some (new, j')" "core_inv True c j'"
    "rs_current (jb_states j') = new" "rs_pending (jb_states j') = None" "jb_inflight j' = []"
    using reconcile_inv [of True c j1] inv pc0 by (auto simp: job_inv_def j1)
  have new: "new = RsRunning"
    using reconcile_new [OF r(1)] s1 by (simp add: states_reconcile_def)
  have walk: "jb_walk j' = jb_walk j0" "jb_total j' = jb_total j0"
    using r(1) by (auto simp: jb_reconcile_def Let_def j1 split: prod.splits if_splits bind_splits)
  obtain bl where d: "rd_wf bl (desc c)" using desc_wf [OF wfw] by blast
  then have ne: "rd_segs (desc c) \<noteq> []"
    by (subst rd_segs_def, subst step_range.simps) (auto simp: rd_wf_def)
  have st: "startable True c j'" using r new by (simp add: startable_def)
  have tot: "[0 ..< jb_total j'] \<noteq> []" using inv0 walk by (simp add: job_inv_def core_inv_def)
  note td = start_tasks_todo [OF st r(4), of "[0 ..< jb_total j']"]
  have td2: "todo (start_tasks [0 ..< jb_total j'] j') = length (rd_segs (desc c))"
    "rs_pending (jb_states (start_tasks [0 ..< jb_total j'] j')) = None"
    "jb_inflight (start_tasks [0 ..< jb_total j'] j') \<noteq> []"
    using td ne tot w0 walk r(5) by (simp_all add: todo_def)
  obtain j2 where j2: "run_turn (desc c) (copier c) j1 = Some j2" "job_inv True c j2"
    using run_turn_inv [OF inv] pc0 by (auto simp: j1)
  have "core_inv True c (start_tasks [0 ..< jb_total j'] j')" using start_tasks_inv [OF st] by blast
  then have "jb_active (start_tasks [0 ..< jb_total j'] j') \<noteq> 0"
    using td2(3) by (simp add: core_inv_def)
  moreover obtain j3 where j3: "start_all_tasks (desc c) (copier c) j' = Some j3"
    using start_all_inv [OF st r(5)] by blast
  ultimately have j3': "j3 = start_tasks [0 ..< jb_total j'] j'"
    by (auto simp: start_all_tasks_def Let_def split: if_splits bind_splits)
  then have "j2 = j3\<lparr>jb_pc := PcManage\<rparr>"
    using j2(1) r(1,3) new j3 by (simp add: run_turn_def rs_done_def rs_running_def)
  then have "live c j2" "todo j2 = length (rd_segs (desc c))"
    using j2(2) td2 j3' by (auto simp: live_def todo_def)
  then show ?thesis using j2(1) pc0 by (simp add: job_step_def j1)
qed

lemma drive_completes:
  assumes "wf c w" "0 < n"
    and "\<forall>w s. wf c w \<longrightarrow> s \<in> set (rd_segs (desc c)) \<longrightarrow>
      env c s (io s) \<and> (\<exists>b w'. cp_copy (copier c) (io s) s w = Some (Inr b, w'))"
    and "\<forall>j. jb_inflight j \<noteq> [] \<longrightarrow> pick j \<in> set (jb_inflight j)"
  shows "\<exists>j0 j. job_new n (desc c) w = Some j0 \<and>
      drive (length (rd_segs (desc c)) + 3) (desc c) (copier c) front pick io
        (j0\<lparr>jb_states := client_exec ClStart (jb_states j0)\<rparr>) = Some j \<and>
      jb_pc j = PcDone \<and> rs_current (jb_states j) = RsCompleted \<and> job_inv True c j"
proof -
  obtain j0 where j0: "job_new n (desc c) w = Some j0" "job_inv True c j0" "jb_pc j0 = PcTop"
    using job_new_inv [OF assms(1,2)] by blast
  let ?j1 = "j0\<lparr>jb_states := client_exec ClStart (jb_states j0)\<rparr>"
  obtain j2 where j2: "job_step (desc c) (copier c) front EvPoll ?j1 = Some j2" "live c j2"
    "todo j2 = length (rd_segs (desc c))"
    using started_live [OF assms(1,2) j0(1) refl] by blast
  have "jb_inflight ?j1 = []" using j0(2,3) by (simp add: job_inv_def)
  then have "drive (Suc (todo j2 + 2)) (desc c) (copier c) front pick io ?j1 =
      drive (todo j2 + 2) (desc c) (copier c) front pick io j2"
    using j2(1) unfolding drive.simps(2) [of "todo j2 + 2"] by simp
  moreover have "length (rd_segs (desc c)) + 3 = Suc (todo j2 + 2)" using j2(3) by simp
  ultimately show ?thesis
    using live_drive [OF assms(3,4) j2(2)] j0(1) by metis
qed

end

section \<open>Concrete runs\<close>

text \<open>The events of a run against truthful devices.\<close>

definition copy_event_ok :: "bool \<Rightarrow> copy_config \<Rightarrow> ('d copy_io, 'f) job_event \<Rightarrow> bool" where
  "copy_event_ok np c ev =
     (case ev of
        EvTask i blk io \<Rightarrow> copy_env c blk io
      | EvClient op \<Rightarrow> np \<longrightarrow> op \<noteq> ClPause
      | _ \<Rightarrow> True)"

lemma copy_event_ok_full: "full.event_ok np c ev = copy_event_ok np c ev"
  by (simp add: full.event_ok_def copy_event_ok_def split: job_event.splits)

lemma copy_event_ok_part: "part.event_ok np c ev = copy_event_ok np c ev"
  by (simp add: part.event_ok_def copy_event_ok_def split: job_event.splits)

text \<open>A rebuild of four blocks in two segments, devices that answer every I/O, and a run in which
  the tasks complete out of order and the frontend writes a block in between.\<close>

definition wit_desc :: RebuildDescriptor where
  "wit_desc = \<lparr> rd_block_size = 512, rd_range_start = 8, rd_range_end = 12,
     rd_options = \<lparr> opt_verify_mode = VerifyNone, opt_read_opts = Read_None \<rparr>,
     rd_segment_size_blks = 2, rd_src_uri = ''s'', rd_dst_uri = ''d'', rd_start_time = 0 \<rparr>"

definition wit_io :: "nat copy_io" where
  "wit_io = \<lparr> ci_lock = None, ci_read = None, ci_write = None, ci_torn = (\<lambda>_. 0),
     ci_verify_read = None, ci_compare = None, ci_unlock = None \<rparr>"

definition wit_disks :: "nat disks" where
  "wit_disks = \<lparr> dk_src = (\<lambda>b. b), dk_dst = (\<lambda>b. if b < 10 then 0 else b) \<rparr>"

definition wit_events :: "(nat copy_io, nat \<times> nat) job_event list" where
  "wit_events = [EvClient ClStart, EvPoll, EvTask 1 10 wit_io, EvFront (9, 7), EvTask 0 8 wit_io,
     EvPoll, EvPoll]"

definition wit_map :: RebuildMap where
  "wit_map = \<lparr> rm_device_name = ''d'', rm_segments =
     \<lparr> sm_segments = [False, False, False, False, True, False, False, False],
       sm_num_segments = 8, sm_num_blocks = 16, sm_block_len = 512, sm_segment_size = 1024 \<rparr> \<rparr>"

text \<open>Devices that answer every I/O of a copy.\<close>

definition copy_answered :: "'d copy_io \<Rightarrow> bool" where
  "copy_answered io \<longleftrightarrow> ci_lock io = None \<and> ci_read io = None \<and> ci_write io = None \<and>
     ci_verify_read io = None \<and> ci_compare io = None \<and> ci_unlock io = None"

lemma answered_copy:
  assumes "rd_wf bl d" "blk \<in> set (rd_segs d)" "copy_answered io"
  shows "\<exists>dk'. nexus_copy_segment bl d io blk dk = Some (Inr True, dk')"
proof -
  obtain n where "adjusted_iov d bl blk = Some n" using adjusted_iov_Some [OF assms(1,2)] by blast
  then show ?thesis
    using assms(3)
    by (auto simp: nexus_copy_segment_def copy_one_def read_src_segment_def write_dst_segment_def
        verify_segment_def copy_answered_def blocks_at_eq store_blocks_at Let_def)
qed

text \<open>The same rebuild, paused while both tasks are in flight; the first task succeeds, the second
  one fails to read the source, and the job is resumed later.\<close>

definition lost_disks :: "nat disks" where
  "lost_disks = \<lparr> dk_src = (\<lambda>b. b), dk_dst = (\<lambda>_. 0) \<rparr>"

definition lost_events :: "(nat copy_io, nat \<times> nat) job_event list" where
  "lost_events = [EvClient ClStart, EvPoll, EvClient ClPause, EvTask 0 8 wit_io,
     EvTask 1 10 (wit_io\<lparr>ci_read := Some (Core_ReadDispatch EIO 10 2)\<rparr>),
     EvPoll, EvPoll, EvClient ClResume, EvMessage (Some WakeUp), EvPoll, EvPoll, EvPoll]"

lemma wit_rd_wf: "rd_wf 1024 wit_desc" "opt_verify_mode (rd_options wit_desc) \<noteq> VerifyPanic"
  by (simp_all add: rd_wf_def wit_desc_def)

lemma wit_range: "b \<in> rd_range wit_desc \<longleftrightarrow> b \<in> {8, 9, 10, 11}"
  by (auto simp: rd_range_def wit_desc_def)

lemma wit_full_completes:
  "Option.bind (job_new 16 wit_desc wit_disks) (\<lambda>j0.
     Option.bind (job_run wit_desc (full_rebuild 1024 wit_desc) front_write wit_events j0)
       (\<lambda>j. Some (rs_current (jb_states j)))) = Some RsCompleted"
  by code_simp

lemma wit_part_completes:
  "Option.bind (job_new 16 wit_desc (wit_map, wit_disks)) (\<lambda>j0.
     Option.bind (job_run wit_desc (partial_seq_rebuild 1024 wit_desc) part_front wit_events j0)
       (\<lambda>j. Some (rs_current (jb_states j)))) = Some RsCompleted"
  by code_simp

lemma wit_part_wf: "part_wf (1024, wit_desc, \<lambda>_. False) (wit_map, wit_disks)"
proof -
  have fits: "map_fits wit_desc (rm_segments wit_map)" and wf: "sm_wf (rm_segments wit_map)"
    by (simp_all add: map_fits_def sm_wf_def wit_desc_def wit_map_def)
  have dirty: "sm_dirty (rm_segments wit_map) b \<longleftrightarrow> b div 2 = 4" if "b < 16" for b
  proof -
    have "b div 2 < 8" using that by simp
    then have "b div 2 \<in> {0, 1, 2, 3, 4, 5, 6, 7}" by auto
    then show ?thesis
      by (auto simp: sm_dirty_def seg_of_def wit_map_def bit_get_def)
  qed
  have "\<not> sm_dirty (rm_segments wit_map) b \<longrightarrow> in_sync (\<lambda>_. False) wit_disks b"
    if "b \<in> rd_range wit_desc" for b
    using that dirty by (auto simp: wit_range in_sync_def wit_disks_def)
  moreover have "\<exists>b \<in> rd_range wit_desc. seg_of (rm_segments wit_map) b = seg_of (rm_segments wit_map) l"
    if "l < 16" "sm_dirty (rm_segments wit_map) l" for l
    using that dirty by (intro bexI [of _ 8]) (auto simp: wit_range seg_of_def wit_map_def)
  ultimately show ?thesis
    using fits wf wit_rd_wf by (simp add: part_wf_def) (simp add: wit_map_def)
qed

lemma wit_events_ok: "\<forall>ev \<in> set wit_events. copy_event_ok True (1024, wit_desc, \<lambda>_. False) ev"
  by (simp add: wit_events_def copy_event_ok_def copy_env_def read_unwritten_def wit_io_def)

section \<open>Properties\<close>


text \<open>C4: a full rebuild is correct. Whatever the interleaving of task completions, device
  errors, client operations and frontend writes to the nexus, as long as no client pauses the
  job, the job never panics, and once it is \<open>Completed\<close> every block of the range holds the same
  data on both replicas, or was never allocated on the source.\<close>

theorem full_rebuild_in_sync:
  assumes "rd_wf bl d" "opt_verify_mode (rd_options d) \<noteq> VerifyPanic" "0 < n"
    and "\<forall>ev \<in> set evs. copy_event_ok True (bl, d, U) ev"
  shows "\<exists>j0 j. job_new n d dk = Some j0 \<and>
      job_run d (full_rebuild bl d) front_write evs j0 = Some j \<and>
      (rs_current (jb_states j) = RsCompleted \<longrightarrow>
         (\<forall>b \<in> rd_range d. dk_dst (jb_world j) b = dk_src (jb_world j) b \<or> U b))"
proof -
  have wf: "full_wf (bl, d, U) dk" using assms(1,2) by (simp add: full_wf_def)
  obtain j0 j where j: "job_new n d dk = Some j0"
    "job_run d (full_rebuild bl d) front_write evs j0 = Some j" "full.job_inv True (bl, d, U) j"
    using full.job_reaches [OF wf assms(3), of evs True] assms(4) by (auto simp: copy_event_ok_full)
  have "dk_dst (jb_world j) b = dk_src (jb_world j) b \<or> U b"
    if cmp: "rs_current (jb_states j) = RsCompleted" and b: "b \<in> rd_range d" for b
  proof -
    obtain s where "s \<in> set (rd_segs d)" "b \<in> seg_blocks d s"
      using seg_blocks_cover [OF assms(1) b] .
    then show ?thesis
      using full.completed_all [OF j(3) cmp, of s] by (simp add: full_seg_ok_def in_sync_def)
  qed
  then show ?thesis using j(1,2) by blast
qed

theorem full_rebuild_in_sync_witness:
  "\<exists>j0 j. job_new 16 wit_desc wit_disks = Some j0 \<and>
     job_run wit_desc (full_rebuild 1024 wit_desc) front_write wit_events j0 = Some j \<and>
     rs_current (jb_states j) = RsCompleted \<and>
     dk_dst (jb_world j) 9 = dk_src (jb_world j) 9"
proof -
  obtain j0 j where j: "job_new 16 wit_desc wit_disks = Some j0"
    "job_run wit_desc (full_rebuild 1024 wit_desc) front_write wit_events j0 = Some j"
    "rs_current (jb_states j) = RsCompleted \<longrightarrow>
       (\<forall>b \<in> rd_range wit_desc. dk_dst (jb_world j) b = dk_src (jb_world j) b \<or> False)"
    using full_rebuild_in_sync [OF wit_rd_wf _ wit_events_ok, of 16 wit_disks] by auto
  then have "rs_current (jb_states j) = RsCompleted" using wit_full_completes by simp
  then show ?thesis using j by (auto simp: wit_range)
qed

text \<open>C5: a partial rebuild is correct. If the rebuild map describes the same segments as the
  rebuild and calls clean only blocks that are in sync, then the statement of the full rebuild
  holds of the rebuild that skips the clean segments and marks the copied ones.\<close>

theorem partial_rebuild_in_sync:
  assumes "part_wf (bl, d, U) (rm, dk)" "0 < n"
    and "\<forall>ev \<in> set evs. copy_event_ok True (bl, d, U) ev"
  shows "\<exists>j0 j. job_new n d (rm, dk) = Some j0 \<and>
      job_run d (partial_seq_rebuild bl d) part_front evs j0 = Some j \<and>
      (rs_current (jb_states j) = RsCompleted \<longrightarrow>
         rm_count_dirty_blks (fst (jb_world j)) = Some 0 \<and>
         (\<forall>b \<in> rd_range d. dk_dst (snd (jb_world j)) b = dk_src (snd (jb_world j)) b \<or> U b))"
proof -
  have d: "rd_wf bl d" using assms(1) by (simp add: part_wf_def)
  obtain j0 j where j: "job_new n d (rm, dk) = Some j0"
    "job_run d (partial_seq_rebuild bl d) part_front evs j0 = Some j" "part.job_inv True (bl, d, U) j"
    using part.job_reaches [OF assms(1,2), of evs True] assms(3) by (auto simp: copy_event_ok_part)
  have wfj: "part_wf (bl, d, U) (jb_world j)"
    using j(3) by (simp add: part.job_inv_def part.core_inv_def)
  have sync: "dk_dst (snd (jb_world j)) b = dk_src (snd (jb_world j)) b \<or> U b"
    if cmp: "rs_current (jb_states j) = RsCompleted" and b: "b \<in> rd_range d" for b
  proof -
    obtain s where "s \<in> set (rd_segs d)" "b \<in> seg_blocks d s"
      using seg_blocks_cover [OF d b] .
    then show ?thesis
      using part.completed_all [OF j(3) cmp, of s]
      by (cases "jb_world j") (simp add: part_seg_ok_def in_sync_def)
  qed
  have "rm_count_dirty_blks (fst (jb_world j)) = Some 0"
    if "rs_current (jb_states j) = RsCompleted"
    using part.remaining_done [OF wfj, of "pk_new []"] part.completed_all [OF j(3) that]
    by (simp add: partial_seq_rebuild_def pk_new_def iter_next_def)
  then show ?thesis using j(1,2) sync by blast
qed

theorem partial_rebuild_in_sync_witness:
  "\<exists>j0 j. job_new 16 wit_desc (wit_map, wit_disks) = Some j0 \<and>
     job_run wit_desc (partial_seq_rebuild 1024 wit_desc) part_front wit_events j0 = Some j \<and>
     rs_current (jb_states j) = RsCompleted \<and>
     dk_dst (snd (jb_world j)) 8 = dk_src (snd (jb_world j)) 8"
proof -
  obtain j0 j where j: "job_new 16 wit_desc (wit_map, wit_disks) = Some j0"
    "job_run wit_desc (partial_seq_rebuild 1024 wit_desc) part_front wit_events j0 = Some j"
    "rs_current (jb_states j) = RsCompleted \<longrightarrow>
       rm_count_dirty_blks (fst (jb_world j)) = Some 0 \<and>
       (\<forall>b \<in> rd_range wit_desc.
          dk_dst (snd (jb_world j)) b = dk_src (snd (jb_world j)) b \<or> False)"
    using partial_rebuild_in_sync [OF wit_part_wf _ wit_events_ok, of 16] by auto
  then have "rs_current (jb_states j) = RsCompleted" using wit_part_completes by simp
  then show ?thesis using j by (auto simp: wit_range)
qed



text \<open>C8: a started rebuild completes. If the devices answer every I/O, then whichever task in
  flight completes next, the job is \<open>Completed\<close> after one completion for each segment and three
  turns of the run loop, and the replicas are in sync.\<close>

theorem full_rebuild_completes:
  fixes dk :: "'d disks"
  assumes "rd_wf bl d" "opt_verify_mode (rd_options d) \<noteq> VerifyPanic" "0 < n"
    and "\<forall>s. copy_answered (io s)"
    and "\<forall>j. jb_inflight j \<noteq> [] \<longrightarrow> pick j \<in> set (jb_inflight j)"
  shows "\<exists>j0 j. job_new n d dk = Some j0 \<and>
      drive (length (rd_segs d) + 3) d (full_rebuild bl d) front_write pick io
        (j0\<lparr>jb_states := client_exec ClStart (jb_states j0)\<rparr>) = Some j \<and>
      rs_current (jb_states j) = RsCompleted \<and>
      (\<forall>b \<in> rd_range d. dk_dst (jb_world j) b = dk_src (jb_world j) b)"
proof -
  let ?c = "(bl, d, \<lambda>_. False)"
  have wf: "full_wf ?c dk" using assms(1,2) by (simp add: full_wf_def)
  have "\<exists>b w'. cp_copy (full_rebuild bl d) (io s) s w = Some (Inr b, w')"
    if "s \<in> set (rd_segs d)" for s and w :: "'d disks"
    using answered_copy [OF assms(1) that] assms(4) by (simp add: full_rebuild_def) blast
  moreover have "copy_env ?c s (io s)" for s
    using assms(4) by (simp add: copy_env_def read_unwritten_def copy_answered_def)
  ultimately have "\<forall>w s. full_wf ?c w \<longrightarrow> s \<in> set (rd_segs d) \<longrightarrow> copy_env ?c s (io s) \<and>
      (\<exists>b w'. cp_copy (full_rebuild bl d) (io s) s w = Some (Inr b, w'))"
    by blast
  then obtain j0 j where j: "job_new n d dk = Some j0"
    "drive (length (rd_segs d) + 3) d (full_rebuild bl d) front_write pick io
        (j0\<lparr>jb_states := client_exec ClStart (jb_states j0)\<rparr>) = Some j"
    "rs_current (jb_states j) = RsCompleted" "full.job_inv True ?c j"
    using full.drive_completes [OF wf assms(3) _ assms(5), of io] by auto
  have "dk_dst (jb_world j) b = dk_src (jb_world j) b" if b: "b \<in> rd_range d" for b
  proof -
    obtain s where "s \<in> set (rd_segs d)" "b \<in> seg_blocks d s"
      using seg_blocks_cover [OF assms(1) b] .
    then show ?thesis
      using full.completed_all [OF j(4,3), of s] by (simp add: full_seg_ok_def in_sync_def)
  qed
  then show ?thesis using j(1-3) by blast
qed

theorem full_rebuild_completes_witness:
  "\<exists>j0 j. job_new 16 wit_desc wit_disks = Some j0 \<and>
     drive (length (rd_segs wit_desc) + 3) wit_desc (full_rebuild 1024 wit_desc) front_write
       (\<lambda>j. last (jb_inflight j)) (\<lambda>_. wit_io)
       (j0\<lparr>jb_states := client_exec ClStart (jb_states j0)\<rparr>) = Some j \<and>
     rs_current (jb_states j) = RsCompleted"
proof -
  have "\<forall>s :: u64. copy_answered ((\<lambda>_. wit_io) s)"
    "\<forall>j :: nat disks job. jb_inflight j \<noteq> [] \<longrightarrow> (\<lambda>j. last (jb_inflight j)) j \<in> set (jb_inflight j)"
    by (simp_all add: copy_answered_def wit_io_def)
  from full_rebuild_completes [OF wit_rd_wf _ this, of 16 wit_disks] show ?thesis by auto
qed


end
