(* ===== verification/Io_Log.thy ===== *)
theory Io_Log
  imports Segment_Map "HOL-Library.AList"
begin

text \<open>
  The I/O log of \<open>bdev/nexus/nexus_io_log.rs\<close>: while a replica is out of service, every write
  to the nexus marks the segments it touches in a per-core segment map; finalising the log
  merges the maps of all cores into the rebuild map that drives the partial rebuild.
\<close>

section \<open>Channels\<close>

text \<open>The I/O types of the block layer, as far as the sources name them.\<close>

datatype IoType =
    IoInvalid | IoRead | IoWrite | IoUnmap | IoFlush | IoReset | IoNvmeAdmin | IoNvmeIo
  | IoNvmeIoMd | IoWriteZeros | IoCompare | IoCompareAndWrite | IoAbort | IoOther nat

record IOLogChannel =
  lc_core :: u32
  lc_device_name :: string
  lc_segments :: "SegmentMap option"

text \<open>\<open>IOLogChannel::new\<close>; the segment size is the constant \<open>SEGMENT_SIZE\<close> of the rebuild.\<close>

definition log_channel_new :: "u64 \<Rightarrow> u32 \<Rightarrow> string \<Rightarrow> u64 \<Rightarrow> u64 \<Rightarrow> IOLogChannel option" where
  "log_channel_new SEGMENT_SIZE core device_name num_blocks block_len =
     do {
       m \<leftarrow> sm_new num_blocks block_len SEGMENT_SIZE;
       Some \<lparr> lc_core = core, lc_device_name = device_name, lc_segments = Some m \<rparr>
     }"

text \<open>\<open>log_io\<close>, run on core \<open>current\<close>.\<close>

definition log_io :: "IOLogChannel \<Rightarrow> u32 \<Rightarrow> IoType \<Rightarrow> u64 \<Rightarrow> u64 \<Rightarrow> IOLogChannel option" where
  "log_io ch current io_type lbn lbn_cnt =
     (if lc_core ch \<noteq> current then None
      else if io_type \<in> {IoWrite, IoWriteZeros, IoUnmap} then
        do {
          m \<leftarrow> lc_segments ch;
          m' \<leftarrow> sm_set m lbn lbn_cnt True;
          Some (ch\<lparr>lc_segments := Some m'\<rparr>)
        }
      else Some ch)"

text \<open>\<open>take_segments\<close> moves the map out of the channel, which is stopped from then on.\<close>

definition take_segments :: "IOLogChannel \<Rightarrow> (SegmentMap \<times> IOLogChannel) option" where
  "take_segments ch = do { m \<leftarrow> lc_segments ch; Some (m, ch\<lparr>lc_segments := None\<rparr>) }"

section \<open>The log\<close>

text \<open>The hash map from cores to channels is an association list with distinct keys, in the
  arbitrary order in which the hash map iterates.\<close>

record IOLog =
  il_device_name :: string
  il_channels :: "(u32 \<times> IOLogChannel) list"

definition io_log_new :: "u64 \<Rightarrow> u32 list \<Rightarrow> string \<Rightarrow> u64 \<Rightarrow> u64 \<Rightarrow> IOLog option" where
  "io_log_new SEGMENT_SIZE cores device_name num_blocks block_len =
     (if device_name \<noteq> [] \<and> num_blocks > 0 \<and> block_len > 0 then
        do {
          channels \<leftarrow> foldM (\<lambda>i acc. do {
                          ch \<leftarrow> log_channel_new SEGMENT_SIZE i device_name num_blocks block_len;
                          Some (AList.update i ch acc) }) cores [];
          Some \<lparr> il_device_name = device_name, il_channels = channels \<rparr>
        }
      else None)"

definition current_channel :: "IOLog \<Rightarrow> u32 \<Rightarrow> IOLogChannel option" where
  "current_channel log current = map_of (il_channels log) current"

text \<open>An I/O logged through the channel of the current core. The channel is shared by
  reference, so the log sees the update.\<close>

definition log_current_io :: "u32 \<times> IoType \<times> u64 \<times> u64 \<Rightarrow> IOLog \<Rightarrow> IOLog option" where
  "log_current_io = (\<lambda>(current, io_type, lbn, lbn_cnt) log.
     do {
       ch \<leftarrow> current_channel log current;
       ch' \<leftarrow> log_io ch current io_type lbn lbn_cnt;
       Some (log\<lparr>il_channels := AList.update current ch' (il_channels log)\<rparr>)
     })"

text \<open>\<open>finalize\<close>: the maps are taken from the channels and reduced with \<open>merge\<close>; no channel at
  all is a panic.\<close>

primrec take_all :: "(u32 \<times> IOLogChannel) list \<Rightarrow> SegmentMap list option" where
  "take_all [] = Some []"
| "take_all (kv # kvs) =
     do { (m, _) \<leftarrow> take_segments (snd kv); ms \<leftarrow> take_all kvs; Some (m # ms) }"

definition io_log_finalize :: "IOLog \<Rightarrow> RebuildMap option" where
  "io_log_finalize log =
     do {
       ms \<leftarrow> take_all (il_channels log);
       segments \<leftarrow> (case ms of [] \<Rightarrow> None | m # ms' \<Rightarrow> foldM (\<lambda>e acc. sm_merge acc e) ms' m);
       Some (rm_new (il_device_name log) segments)
     }"

section \<open>What the log records\<close>

text \<open>The ranges that the modifying operations of one core, or of all cores, cover.\<close>

definition core_writes :: "(u32 \<times> IoType \<times> u64 \<times> u64) list \<Rightarrow> u32 \<Rightarrow> (u64 \<times> u64) list" where
  "core_writes ops c =
     map (\<lambda>(_, _, lbn, cnt). (lbn, cnt))
       (filter (\<lambda>(core, t, _, _). core = c \<and> t \<in> {IoWrite, IoWriteZeros, IoUnmap}) ops)"

definition log_op_ok :: "u32 list \<Rightarrow> u64 \<Rightarrow> u32 \<times> IoType \<times> u64 \<times> u64 \<Rightarrow> bool" where
  "log_op_ok cores num_blocks = (\<lambda>(core, t, lbn, cnt).
     core \<in> set cores \<and> 0 < unat cnt \<and> unat lbn + unat cnt \<le> unat num_blocks)"

text \<open>The invariant of a running log: each core has its channel, and the map of the channel
  calls dirty exactly the blocks that the writes of that core have touched.\<close>

definition chan_inv :: "SegmentMap \<Rightarrow> (u64 \<times> u64) list \<Rightarrow> u32 \<Rightarrow> IOLogChannel \<Rightarrow> bool" where
  "chan_inv m0 ws c ch \<longleftrightarrow>
     lc_core ch = c \<and>
     (\<exists>m. lc_segments ch = Some m \<and> sm_wf m \<and> sm_same_geometry m m0 \<and>
          (\<forall>l < unat (sm_num_blocks m0). sm_dirty m l \<longleftrightarrow> sm.touched m0 ws l))"

definition log_inv ::
  "SegmentMap \<Rightarrow> u32 list \<Rightarrow> (u32 \<times> IoType \<times> u64 \<times> u64) list \<Rightarrow> IOLog \<Rightarrow> bool" where
  "log_inv m0 cores ops log \<longleftrightarrow>
     distinct (map fst (il_channels log)) \<and> fst ` set (il_channels log) = set cores \<and>
     (\<forall>c ch. map_of (il_channels log) c = Some ch \<longrightarrow> chan_inv m0 (core_writes ops c) c ch)"

section \<open>Lemmas\<close>

lemma core_writes_snoc:
  "core_writes (ops @ [(core, t, lbn, cnt)]) c =
     core_writes ops c @
       (if core = c \<and> t \<in> {IoWrite, IoWriteZeros, IoUnmap} then [(lbn, cnt)] else [])"
  by (simp add: core_writes_def)

lemma log_io_chan_inv:
  assumes inv: "chan_inv m0 (core_writes ops c) c ch"
    and op: "0 < unat cnt" "unat lbn + unat cnt \<le> unat (sm_num_blocks m0)"
  shows "\<exists>ch'. log_io ch c t lbn cnt = Some ch' \<and>
               chan_inv m0 (core_writes (ops @ [(c, t, lbn, cnt)]) c) c ch'"
proof (cases "t \<in> {IoWrite, IoWriteZeros, IoUnmap}")
  case True
  obtain m where m: "lc_segments ch = Some m" "sm_wf m" "sm_same_geometry m m0"
    "\<forall>l < unat (sm_num_blocks m0). sm_dirty m l \<longleftrightarrow> sm.touched m0 (core_writes ops c) l"
    using inv by (auto simp: chan_inv_def)
  obtain m' where "sm_set m lbn cnt True = Some m'" "sm_wf m'" "sm_same_geometry m' m0"
    "\<forall>l < unat (sm_num_blocks m0).
       sm_dirty m' l \<longleftrightarrow> sm.touched m0 (core_writes ops c @ [(lbn, cnt)]) l"
    using sm.mark_touched [OF m(2-4) op] by blast
  then show ?thesis
    using True inv m(1) by (auto simp: log_io_def chan_inv_def core_writes_snoc)
next
  case False
  then show ?thesis
    using inv by (auto simp: log_io_def chan_inv_def core_writes_snoc)
qed

lemma log_current_io_inv:
  assumes inv: "log_inv m0 cores ops log"
    and op: "log_op_ok cores (sm_num_blocks m0) (c, t, lbn, cnt)"
  shows "\<exists>log'. log_current_io (c, t, lbn, cnt) log = Some log' \<and>
                log_inv m0 cores (ops @ [(c, t, lbn, cnt)]) log'"
proof -
  have cc: "c \<in> fst ` set (il_channels log)"
    using inv op by (simp add: log_inv_def log_op_ok_def)
  then obtain ch where ch: "map_of (il_channels log) c = Some ch"
    by (metis map_of_eq_None_iff not_None_eq)
  obtain ch' where ch': "log_io ch c t lbn cnt = Some ch'"
    "chan_inv m0 (core_writes (ops @ [(c, t, lbn, cnt)]) c) c ch'"
    using log_io_chan_inv [of m0 ops c ch cnt lbn t] inv op ch
    by (auto simp: log_inv_def log_op_ok_def)
  have "chan_inv m0 (core_writes (ops @ [(c, t, lbn, cnt)]) c') c' d"
    if "map_of (AList.update c ch' (il_channels log)) c' = Some d" for c' d
    using that ch'(2) inv by (auto simp: update_conv' log_inv_def core_writes_snoc split: if_splits)
  then show ?thesis
    using inv ch ch'(1) cc
    by (auto simp: log_current_io_def current_channel_def log_inv_def dom_update distinct_update)
qed

lemma log_replay_inv:
  assumes "log_inv m0 cores done log" "\<forall>op \<in> set ops. log_op_ok cores (sm_num_blocks m0) op"
  shows "\<exists>log'. foldM log_current_io ops log = Some log' \<and> log_inv m0 cores (done @ ops) log'"
  using assms
proof (induction ops arbitrary: log "done")
  case Nil
  then show ?case by simp
next
  case (Cons op ops)
  obtain c t lbn cnt where op: "op = (c, t, lbn, cnt)" by (cases op)
  obtain log1 where log1: "log_current_io op log = Some log1" "log_inv m0 cores (done @ [op]) log1"
    using log_current_io_inv [OF Cons.prems(1)] Cons.prems(2) op by force
  then show ?case
    using Cons.IH [OF log1(2)] Cons.prems(2) by simp
qed

lemma log_channel_new_inv:
  assumes "sm_new num_blocks block_len seg = Some m0" "sm_wf m0" "\<forall>l. \<not> sm_dirty m0 l"
  shows "\<exists>ch. log_channel_new seg c name num_blocks block_len = Some ch \<and> chan_inv m0 [] c ch"
  using assms sm.same_refl
  by (auto simp: log_channel_new_def chan_inv_def sm.touched_def)

lemma log_channels_new:
  assumes "sm_new num_blocks block_len seg = Some m0" "sm_wf m0" "\<forall>l. \<not> sm_dirty m0 l"
    and "distinct (map fst acc)" "\<forall>c ch. map_of acc c = Some ch \<longrightarrow> chan_inv m0 [] c ch"
  shows "\<exists>chs. foldM (\<lambda>i acc. do {
              ch \<leftarrow> log_channel_new seg i name num_blocks block_len;
              Some (AList.update i ch acc) }) cores acc = Some chs \<and>
            distinct (map fst chs) \<and> fst ` set chs = set cores \<union> fst ` set acc \<and>
            (\<forall>c ch. map_of chs c = Some ch \<longrightarrow> chan_inv m0 [] c ch)"
  using assms(4,5)
proof (induction cores arbitrary: acc)
  case Nil
  then show ?case by simp
next
  case (Cons i cores)
  obtain ch where ch: "log_channel_new seg i name num_blocks block_len = Some ch" "chan_inv m0 [] i ch"
    using log_channel_new_inv [OF assms(1-3)] by blast
  have "distinct (map fst (AList.update i ch acc))"
    using Cons.prems(1) by (rule distinct_update)
  moreover have "\<forall>c d. map_of (AList.update i ch acc) c = Some d \<longrightarrow> chan_inv m0 [] c d"
    using Cons.prems(2) ch(2) by (auto simp: update_conv' split: if_splits)
  ultimately show ?case
    using Cons.IH [of "AList.update i ch acc"] ch(1) by (auto simp: dom_update)
qed

lemma io_log_new_inv:
  assumes "name \<noteq> []" "num_blocks \<noteq> 0" "block_len \<noteq> 0" "seg \<noteq> 0"
    and "unat num_blocks * unat block_len < 18446744073709551616"
  obtains m0 log where "sm_new num_blocks block_len seg = Some m0" "sm_num_blocks m0 = num_blocks"
    "sm_block_len m0 = block_len" "sm_segment_size m0 = seg" "sm_wf m0"
    "io_log_new seg cores name num_blocks block_len = Some log" "il_device_name log = name"
    "log_inv m0 cores [] log"
proof -
  obtain m0 where m0: "sm_new num_blocks block_len seg = Some m0" "sm_wf m0"
    "sm_num_blocks m0 = num_blocks" "sm_block_len m0 = block_len" "sm_segment_size m0 = seg"
    "\<forall>l. \<not> sm_dirty m0 l"
    using sm_new_wf [OF assms(5,3,4)] by blast
  have "num_blocks > 0" "block_len > 0" using assms(2,3) by (simp_all add: word_gt_0)
  then show ?thesis
    using that m0 assms(1) log_channels_new [OF m0(1,2,6), of "[]" name cores]
    by (auto simp: io_log_new_def log_inv_def core_writes_def)
qed

lemma take_all_segments:
  assumes "\<forall>kv \<in> set kvs. \<exists>m. lc_segments (snd kv) = Some m"
  shows "take_all kvs = Some (map (\<lambda>kv. the (lc_segments (snd kv))) kvs)"
  using assms by (induction kvs) (auto simp: take_segments_def)

text \<open>The rebuild map of a log that satisfies the invariant.\<close>

lemma io_log_finalize_inv:
  assumes inv: "log_inv m0 cores ops log" and cores: "cores \<noteq> []"
  obtains rm where "io_log_finalize log = Some rm" "sm_wf (rm_segments rm)"
    "sm_same_geometry (rm_segments rm) m0"
    "\<forall>l < unat (sm_num_blocks m0). sm_dirty (rm_segments rm) l \<longleftrightarrow>
       (\<exists>c \<in> set cores. sm.touched m0 (core_writes ops c) l)"
proof -
  let ?seg = "\<lambda>kv. the (lc_segments (snd kv))"
  have ch: "chan_inv m0 (core_writes ops (fst kv)) (fst kv) (snd kv)"
    if "kv \<in> set (il_channels log)" for kv
    using inv that unfolding log_inv_def by (cases kv) simp
  have segs: "lc_segments (snd kv) = Some (?seg kv) \<and> sm_wf (?seg kv) \<and>
      sm_same_geometry (?seg kv) m0 \<and>
      (\<forall>l < unat (sm_num_blocks m0).
         sm_dirty (?seg kv) l \<longleftrightarrow> sm.touched m0 (core_writes ops (fst kv)) l)"
    if "kv \<in> set (il_channels log)" for kv
    using ch [OF that] by (auto simp: chan_inv_def)
  have keys: "fst ` set (il_channels log) = set cores"
    using inv by (simp add: log_inv_def)
  then obtain kv kvs where kvs: "il_channels log = kv # kvs"
    using cores by (cases "il_channels log") auto
  have all: "take_all (il_channels log) = Some (?seg kv # map ?seg kvs)"
    using take_all_segments [of "il_channels log"] segs unfolding kvs list.map by blast
  obtain c where c: "foldM (\<lambda>e acc. sm_merge acc e) (map ?seg kvs) (?seg kv) = Some c" "sm_wf c"
    "sm_same_geometry c m0"
    "\<forall>l. sm_dirty c l \<longleftrightarrow> sm_dirty (?seg kv) l \<or> (\<exists>m \<in> set (map ?seg kvs). sm_dirty m l)"
    using sm.union_all [of "?seg kv" m0 "map ?seg kvs"] segs kvs by auto
  have "sm_dirty c l \<longleftrightarrow> (\<exists>c \<in> set cores. sm.touched m0 (core_writes ops c) l)"
    if "l < unat (sm_num_blocks m0)" for l
    using c(4) segs that kvs unfolding keys [symmetric] by simp
  then show ?thesis
    using that [of "rm_new (il_device_name log) c"] all c
    by (simp add: io_log_finalize_def rm_new_def)
qed

lemma touched_core_writes:
  "(\<exists>c \<in> set cores. sm.touched m (core_writes ops c) l) \<longleftrightarrow>
     (\<exists>(c, t, lbn, cnt) \<in> set ops. c \<in> set cores \<and> t \<in> {IoWrite, IoWriteZeros, IoUnmap} \<and>
        (\<exists>k. unat lbn \<le> k \<and> k < unat lbn + unat cnt \<and> seg_of m k = seg_of m l))"
  by (force simp: sm.touched_def core_writes_def)

section \<open>Properties\<close>

text \<open>C12: the rebuild map of a finalised log is exact. However the I/Os are spread over the
  cores and whatever the order in which the channels are merged, creating the log, logging the
  I/Os and finalising it never panics, and the resulting map calls a block clean exactly when no
  logged write, write-zeroes or unmap touches the segment of the block.\<close>

theorem io_log_finalize_exact:
  assumes "name \<noteq> []" "num_blocks \<noteq> 0" "block_len \<noteq> 0" "SEGMENT_SIZE \<noteq> 0" "cores \<noteq> []"
    and "unat num_blocks * unat block_len < 18446744073709551616"
    and "\<forall>op \<in> set ops. log_op_ok cores num_blocks op"
  shows "\<exists>log log' rm.
    io_log_new SEGMENT_SIZE cores name num_blocks block_len = Some log \<and>
    foldM log_current_io ops log = Some log' \<and> io_log_finalize log' = Some rm \<and>
    (\<forall>l. unat l < unat num_blocks \<longrightarrow>
       (is_blk_clean rm l \<longleftrightarrow>
         \<not> (\<exists>(c, t, lbn, cnt) \<in> set ops. t \<in> {IoWrite, IoWriteZeros, IoUnmap} \<and>
              (\<exists>k. unat lbn \<le> k \<and> k < unat lbn + unat cnt \<and>
                   k * unat block_len div unat SEGMENT_SIZE =
                   unat l * unat block_len div unat SEGMENT_SIZE))))"
proof -
  obtain m0 log where m0: "sm_num_blocks m0 = num_blocks" "sm_block_len m0 = block_len"
    "sm_segment_size m0 = SEGMENT_SIZE" "sm_wf m0"
    and log: "io_log_new SEGMENT_SIZE cores name num_blocks block_len = Some log"
    "log_inv m0 cores [] log"
    using io_log_new_inv [OF assms(1-4,6)] by metis
  obtain log' where log': "foldM log_current_io ops log = Some log'" "log_inv m0 cores ops log'"
    using log_replay_inv [OF log(2), of ops] assms(7) m0(1) by auto
  obtain rm where rm: "io_log_finalize log' = Some rm" "sm_wf (rm_segments rm)"
    "sm_same_geometry (rm_segments rm) m0"
    "\<forall>l < unat (sm_num_blocks m0). sm_dirty (rm_segments rm) l \<longleftrightarrow>
       (\<exists>c \<in> set cores. sm.touched m0 (core_writes ops c) l)"
    using io_log_finalize_inv [OF log'(2) assms(5)] by blast
  have cores: "\<forall>(c, t, lbn, cnt) \<in> set ops. c \<in> set cores"
    using assms(7) by (auto simp: log_op_ok_def)
  have "(\<exists>c \<in> set cores. sm.touched m0 (core_writes ops c) l) \<longleftrightarrow>
      (\<exists>(c, t, lbn, cnt) \<in> set ops. t \<in> {IoWrite, IoWriteZeros, IoUnmap} \<and>
        (\<exists>k. unat lbn \<le> k \<and> k < unat lbn + unat cnt \<and>
             k * unat block_len div unat SEGMENT_SIZE = l * unat block_len div unat SEGMENT_SIZE))"
    for l
    unfolding touched_core_writes unfolding seg_of_def m0 using cores by (intro bex_cong) auto
  moreover have "is_blk_clean rm l \<longleftrightarrow> \<not> sm_dirty (rm_segments rm) (unat l)"
    if "unat l < unat num_blocks" for l
    using sm_get_dirty [OF rm(2), of l] that rm(3) m0(1)
    by (simp add: is_blk_clean_def sm_same_geometry_def)
  ultimately have "is_blk_clean rm l \<longleftrightarrow>
         \<not> (\<exists>(c, t, lbn, cnt) \<in> set ops. t \<in> {IoWrite, IoWriteZeros, IoUnmap} \<and>
              (\<exists>k. unat lbn \<le> k \<and> k < unat lbn + unat cnt \<and>
                   k * unat block_len div unat SEGMENT_SIZE =
                   unat l * unat block_len div unat SEGMENT_SIZE))"
    if "unat l < unat num_blocks" for l
    using that rm(4) m0(1) by simp
  then show ?thesis
    using log(1) log'(1) rm(1) by blast
qed

theorem io_log_finalize_exact_witness:
  "\<exists>log log' rm.
     io_log_new 65536 [0, 1] ''dev'' 1000 512 = Some log \<and>
     foldM log_current_io [(1, IoWrite, 120, 20), (0, IoRead, 700, 1)] log = Some log' \<and>
     io_log_finalize log' = Some rm \<and> \<not> is_blk_clean rm 130 \<and> is_blk_clean rm 700"
proof -
  let ?ops = "[(1, IoWrite, 120, 20), (0, IoRead, 700, 1)] :: (u32 \<times> IoType \<times> u64 \<times> u64) list"
  have hit: "\<exists>k \<ge> (120 :: nat). k < 140 \<and> k div 128 = Suc 0"
    by (intro exI [of _ 130]) simp
  have far: "\<not> (\<exists>k \<ge> (120 :: nat). k < 140 \<and> k div 128 = 5)"
    by auto
  have h: "''dev'' \<noteq> []" "(1000 :: u64) \<noteq> 0" "(512 :: u64) \<noteq> 0" "(65536 :: u64) \<noteq> 0"
    "[0, 1 :: u32] \<noteq> []" "unat (1000 :: u64) * unat (512 :: u64) < 18446744073709551616"
    "\<forall>op \<in> set ?ops. log_op_ok [0, 1] 1000 op"
    by (simp_all add: log_op_ok_def)
  obtain log log' rm where w: "io_log_new 65536 [0, 1] ''dev'' 1000 512 = Some log"
    "foldM log_current_io ?ops log = Some log'" "io_log_finalize log' = Some rm"
    and clean: "\<forall>l. unat l < unat (1000 :: u64) \<longrightarrow>
       (is_blk_clean rm l \<longleftrightarrow>
         \<not> (\<exists>(c, t, lbn, cnt) \<in> set ?ops. t \<in> {IoWrite, IoWriteZeros, IoUnmap} \<and>
              (\<exists>k. unat lbn \<le> k \<and> k < unat lbn + unat cnt \<and>
                   k * unat (512 :: u64) div unat (65536 :: u64) =
                   unat l * unat (512 :: u64) div unat (65536 :: u64))))"
    using io_log_finalize_exact [of "''dev''" 1000 512 65536 "[0, 1]" ?ops, OF h] by blast
  have "\<not> is_blk_clean rm 130" "is_blk_clean rm 700"
    using clean [rule_format, of 130] clean [rule_format, of 700] hit far by simp_all
  then show ?thesis using w by blast
qed

end
