(* ===== verification/Gpt_Label.thy ===== *)
theory Gpt_Label
  imports Core_Types
begin

text \<open>
  The GPT label that the nexus keeps on its children: the standard structures, their validation
  and probing (\<open>core/gpt/primitives.rs\<close>), the two versions of the MayaMeta/MayaData layout
  (\<open>core/gpt/maya.rs\<close>) and the version dispatch (\<open>core/gpt/label.rs\<close>).

  The byte encoding of integers and plain structures and the CRC are library code: they are the
  fields of a codec that the routines take as an argument. So is the disk: its allocator and its
  read operation are the fields of \<open>gpt_disk\<close>.
\<close>

section \<open>Structures\<close>

datatype LabelError =
    LE_SerializeError string
  | LE_ReadAlloc string string
  | LE_WriteAlloc string string
  | LE_ReadError CoreError string
  | LE_WriteError CoreError string
  | LE_InvalidLabel ProbeError
  | LE_HandleError CoreError
  | LE_DeviceTooSmall u64 u64
  | LE_SeekError string
and ProbeError =
    PE_ChecksumSerializeError string
  | PE_DeserializeError string
  | PE_MbrSignature
  | PE_MbrSize
  | PE_GptSignature
  | PE_GptRevision
  | PE_GptHeaderSize u32 u32
  | PE_GptChecksum
  | PE_PartitionTableChecksum
  | PE_CompareDiskGuid
  | PE_CompareDiskSize
  | PE_ComparePartitionTableChecksum
  | PE_PartitionTableLocation
  | PE_MissingPartition "u16 list"
  | PE_PrimaryLocation
  | PE_SecondaryLocation
  | PE_FirstUsableBlock
  | PE_LastUsableBlock
  | PE_PartitionTableSize
  | PE_PartitionTableSpace
  | PE_PartitionStart
  | PE_PartitionEnd
  | PE_NegativePartitionSize
  | PE_CompareHeaderLocation
  | PE_ComparePartitionEntryCount
  | PE_ComparePartitionEntrySize
  | PE_IncorrectPartitions
  | PE_LabelRedundancy

record GptGuid =
  gg_time_low :: u32
  gg_time_mid :: u16
  gg_time_high :: u16
  gg_node :: "u8 list"

definition guid_default :: GptGuid where
  "guid_default = \<lparr> gg_time_low = 0, gg_time_mid = 0, gg_time_high = 0, gg_node = replicate 8 0 \<rparr>"

record GptHeader =
  gh_signature :: "u8 list"
  gh_revision :: "u8 list"
  gh_header_size :: u32
  gh_self_checksum :: u32
  gh_reserved :: "u8 list"
  gh_lba_self :: u64
  gh_lba_alt :: u64
  gh_lba_start :: u64
  gh_lba_end :: u64
  gh_guid :: GptGuid
  gh_lba_table :: u64
  gh_num_entries :: u32
  gh_entry_size :: u32
  gh_table_crc :: u32

text \<open>A partition name is held as its UTF-16 code units.\<close>

record GptEntry =
  ge_type :: GptGuid
  ge_guid :: GptGuid
  ge_start :: u64
  ge_end :: u64
  ge_attr :: u64
  ge_name :: "u16 list"

definition entry_default :: GptEntry where
  "entry_default = \<lparr> ge_type = guid_default, ge_guid = guid_default, ge_start = 0, ge_end = 0,
     ge_attr = 0, ge_name = [] \<rparr>"

record MbrEntry =
  me_attributes :: u8
  me_chs_start :: "u8 list"
  me_ent_type :: u8
  me_chs_last :: "u8 list"
  me_lba_start :: u32
  me_num_sectors :: u32

record Pmbr =
  pm_disk_signature :: u32
  pm_reserved :: u16
  pm_entries :: "MbrEntry list"
  pm_signature :: "u8 list"

datatype LabelStatus = LsBoth | LsPrimary | LsSecondary | LsNeither

record GptLabel =
  gl_status :: LabelStatus
  gl_block_size :: u64
  gl_mbr :: Pmbr
  gl_primary :: GptHeader
  gl_partitions :: "GptEntry list"
  gl_secondary :: GptHeader

text \<open>The associated constants of \<open>GptHeader\<close> and \<open>Pmbr\<close>.\<close>

definition PARTITION_TABLE_SIZE :: u64 where "PARTITION_TABLE_SIZE = 128 * 128"
definition DATA_OFFSET :: u64 where "DATA_OFFSET = 1024 * 1024"
definition HEADER_SIZE :: u32 where "HEADER_SIZE = 92"
definition HEADER_REVISION :: "u8 list" where "HEADER_REVISION = [0, 0, 1, 0]"
definition HEADER_SIGNATURE :: "u8 list" where
  "HEADER_SIGNATURE = [0x45, 0x46, 0x49, 0x20, 0x50, 0x41, 0x52, 0x54]"
definition PMBR_SIGNATURE :: "u8 list" where "PMBR_SIGNATURE = [0x55, 0xaa]"

text \<open>The encoding library. \<open>gc_ser_entry\<close> and \<open>gc_de_entry\<close> handle the fields of an entry up to
  its name, whose elements go through \<open>gc_ser_u16\<close> and \<open>gc_de_u16\<close>; a decoder returns the rest of
  its input, as a cursor does.\<close>

record gpt_codec =
  gc_crc32 :: "u8 list \<Rightarrow> u32"
  gc_ser_header :: "GptHeader \<Rightarrow> string + u8 list"
  gc_de_header :: "u8 list \<Rightarrow> string + GptHeader"
  gc_ser_entry :: "GptEntry \<Rightarrow> string + u8 list"
  gc_de_entry :: "u8 list \<Rightarrow> string + (GptEntry \<times> u8 list)"
  gc_ser_u16 :: "u16 \<Rightarrow> u8 list"
  gc_de_u16 :: "u8 list \<Rightarrow> string + (u16 \<times> u8 list)"
  gc_ser_mbr :: "Pmbr \<Rightarrow> string + u8 list"
  gc_de_mbr :: "u8 list \<Rightarrow> string + Pmbr"

record gpt_disk =
  gd_block_size :: u64
  gd_num_blocks :: u64
  gd_buffer_alloc :: "u64 \<Rightarrow> string + u8 list"
  gd_read_at :: "u64 \<Rightarrow> u64 \<Rightarrow> CoreError + u8 list"

section \<open>Primitives\<close>

text \<open>\<open>Aligned::get_blocks\<close> for a block size that is not zero; its callers divide by the block
  size first and panic when it is.\<close>

definition get_blocks :: "u64 \<Rightarrow> u64 \<Rightarrow> u64" where
  "get_blocks sz block_size =
     (let blocks = sz div block_size
      in if sz mod block_size = 0 then blocks else blocks + 1)"

text \<open>\<open>GptHeader::checksum\<close> stores the checksum, computed over the header with a zero checksum.\<close>

definition header_checksum :: "gpt_codec \<Rightarrow> GptHeader \<Rightarrow> string + (u32 \<times> GptHeader)" where
  "header_checksum cd h =
     try_bind (gc_ser_header cd (h\<lparr>gh_self_checksum := 0\<rparr>)) (\<lambda>bytes.
       let c = gc_crc32 cd bytes in Inr (c, h\<lparr>gh_self_checksum := c\<rparr>))"

definition header_from_slice :: "gpt_codec \<Rightarrow> u8 list \<Rightarrow> ProbeError + GptHeader" where
  "header_from_slice cd bs =
     try_bind (map_err PE_DeserializeError (gc_de_header cd bs)) (\<lambda>header.
       if gh_header_size header \<noteq> HEADER_SIZE
         then Inl (PE_GptHeaderSize (gh_header_size header) HEADER_SIZE)
       else if gh_signature header \<noteq> HEADER_SIGNATURE then Inl PE_GptSignature
       else if gh_revision header \<noteq> HEADER_REVISION then Inl PE_GptRevision
       else try_bind (map_err PE_ChecksumSerializeError (header_checksum cd header)) (\<lambda>(c, header').
         if gh_self_checksum header \<noteq> c then Inl PE_GptChecksum else Inr header'))"

definition header_new :: "GptGuid \<Rightarrow> u64 \<Rightarrow> u64 \<Rightarrow> GptHeader" where
  "header_new guid block_size num_blocks =
     \<lparr> gh_signature = HEADER_SIGNATURE, gh_revision = HEADER_REVISION,
       gh_header_size = HEADER_SIZE, gh_self_checksum = 0, gh_reserved = replicate 4 0,
       gh_lba_self = 1, gh_lba_alt = num_blocks - 1,
       gh_lba_start = get_blocks DATA_OFFSET block_size,
       gh_lba_end = num_blocks - get_blocks PARTITION_TABLE_SIZE block_size - 2,
       gh_guid = guid, gh_lba_table = 2, gh_num_entries = 128, gh_entry_size = 128,
       gh_table_crc = 0 \<rparr>"

definition as_secondary :: "gpt_codec \<Rightarrow> GptHeader \<Rightarrow> string + GptHeader" where
  "as_secondary cd h =
     map_sum id snd (header_checksum cd
       (h\<lparr>gh_lba_self := gh_lba_alt h, gh_lba_alt := gh_lba_self h, gh_lba_table := gh_lba_end h + 1\<rparr>))"

definition as_primary :: "gpt_codec \<Rightarrow> GptHeader \<Rightarrow> string + GptHeader" where
  "as_primary cd h =
     map_sum id snd (header_checksum cd
       (h\<lparr>gh_lba_self := gh_lba_alt h, gh_lba_alt := gh_lba_self h, gh_lba_table := gh_lba_alt h + 1\<rparr>))"

text \<open>\<open>GptName::serialize\<close>: 36 code units, cut or padded with zeroes.\<close>

definition name_units :: "u16 list \<Rightarrow> u16 list" where
  "name_units name = take 36 name @ replicate (36 - length name) 0"

text \<open>\<open>String::from_utf16_lossy\<close>: a surrogate without its partner becomes the replacement character.\<close>

fun from_utf16_lossy :: "u16 list \<Rightarrow> u16 list" where
  "from_utf16_lossy [] = []"
| "from_utf16_lossy (u # us) =
     (if u < 0xd800 \<or> u > 0xdfff then u # from_utf16_lossy us
      else case us of
        [] \<Rightarrow> [0xfffd]
      | v # vs \<Rightarrow>
          if u \<le> 0xdbff \<and> 0xdc00 \<le> v \<and> v \<le> 0xdfff then u # v # from_utf16_lossy vs
          else 0xfffd # from_utf16_lossy us)"

text \<open>The loop of \<open>GpEntryNameVisitor::visit_seq\<close> over the \<open>n\<close> elements that are left: the units
  kept, whether a terminator was met, and the input after the last element that was read.\<close>

primrec visit_loop ::
  "gpt_codec \<Rightarrow> nat \<Rightarrow> u8 list \<Rightarrow> u16 list \<Rightarrow> bool \<Rightarrow> string + (u16 list \<times> bool \<times> u8 list)" where
  "visit_loop cd 0 bs out en = Inr (out, en, bs)"
| "visit_loop cd (Suc n) bs out en =
     try_bind (gc_de_u16 cd bs) (\<lambda>(e, bs').
       if e = 0 then visit_loop cd n bs' out True
       else if \<not> en then visit_loop cd n bs' (out @ [e]) en
       else Inr (out, en, bs'))"

definition visit_seq :: "gpt_codec \<Rightarrow> u8 list \<Rightarrow> string + (u16 list \<times> u8 list)" where
  "visit_seq cd bs =
     try_bind (visit_loop cd 36 bs [] False) (\<lambda>(out, en, bs').
       if en then Inr (from_utf16_lossy out, bs') else Inl ''Invalid GPT partition name'')"

text \<open>The serialisation that is derived for \<open>GptEntry\<close>: its fields in order.\<close>

definition ser_entry :: "gpt_codec \<Rightarrow> GptEntry \<Rightarrow> string + u8 list" where
  "ser_entry cd e =
     try_bind (gc_ser_entry cd e) (\<lambda>bs. Inr (bs @ concat (map (gc_ser_u16 cd) (name_units (ge_name e)))))"

definition de_entry :: "gpt_codec \<Rightarrow> u8 list \<Rightarrow> string + (GptEntry \<times> u8 list)" where
  "de_entry cd bs =
     try_bind (gc_de_entry cd bs) (\<lambda>(e, bs').
     try_bind (visit_seq cd bs') (\<lambda>(name, bs''). Inr (e\<lparr>ge_name := name\<rparr>, bs'')))"

text \<open>\<open>GptEntry::from_slice\<close>: \<open>count\<close> entries, one after the other.\<close>

primrec de_entries :: "gpt_codec \<Rightarrow> nat \<Rightarrow> u8 list \<Rightarrow> string + GptEntry list" where
  "de_entries cd 0 bs = Inr []"
| "de_entries cd (Suc n) bs =
     try_bind (de_entry cd bs) (\<lambda>(e, bs'). try_bind (de_entries cd n bs') (\<lambda>es. Inr (e # es)))"

definition entries_from_slice :: "gpt_codec \<Rightarrow> u8 list \<Rightarrow> u32 \<Rightarrow> ProbeError + GptEntry list" where
  "entries_from_slice cd bs count =
     map_err PE_DeserializeError (de_entries cd (unat count) bs)"

text \<open>\<open>GptEntry::checksum\<close>: the entries, padded with default entries up to the size of the table.\<close>

primrec ser_entries :: "gpt_codec \<Rightarrow> GptEntry list \<Rightarrow> string + u8 list" where
  "ser_entries cd [] = Inr []"
| "ser_entries cd (e # es) =
     try_bind (ser_entry cd e) (\<lambda>b. try_bind (ser_entries cd es) (\<lambda>bs. Inr (b @ bs)))"

definition table_checksum :: "gpt_codec \<Rightarrow> GptEntry list \<Rightarrow> u32 \<Rightarrow> string + u32" where
  "table_checksum cd partitions sz =
     (let count = of_nat (length partitions) :: u32
      in try_bind (ser_entries cd partitions) (\<lambda>bytes.
           if count < sz then
             try_bind (ser_entry cd entry_default) (\<lambda>pad.
               Inr (gc_crc32 cd (bytes @ concat (replicate (unat sz - unat count) pad))))
           else Inr (gc_crc32 cd bytes)))"

definition is_unused :: "GptEntry \<Rightarrow> bool" where
  "is_unused e \<longleftrightarrow> ge_guid e = guid_default"

definition mbr_entry_default :: MbrEntry where
  "mbr_entry_default = \<lparr> me_attributes = 0, me_chs_start = [0, 0, 0], me_ent_type = 0,
     me_chs_last = [0, 0, 0], me_lba_start = 0, me_num_sectors = 0 \<rparr>"

definition pmbr_default :: Pmbr where
  "pmbr_default = \<lparr> pm_disk_signature = 0, pm_reserved = 0,
     pm_entries = replicate 4 mbr_entry_default, pm_signature = PMBR_SIGNATURE \<rparr>"

definition mbr_protect :: "u64 \<Rightarrow> MbrEntry \<Rightarrow> MbrEntry" where
  "mbr_protect num_blocks e =
     e\<lparr>me_attributes := 0, me_ent_type := 0xee, me_chs_start := [0x00, 0x02, 0x00],
       me_chs_last := [0xff, 0xff, 0xff], me_lba_start := 1,
       me_num_sectors := (if num_blocks > 0xffffffff then 0xffffffff else ucast (num_blocks - 1))\<rparr>"

definition pmbr_from_slice :: "gpt_codec \<Rightarrow> u8 list \<Rightarrow> ProbeError + Pmbr" where
  "pmbr_from_slice cd bs =
     try_bind (map_err PE_DeserializeError (gc_de_mbr cd bs)) (\<lambda>mbr.
       if pm_signature mbr \<noteq> PMBR_SIGNATURE then Inl PE_MbrSignature else Inr mbr)"

text \<open>\<open>GptLabel::new\<close>.\<close>

definition label_new ::
  "gpt_codec \<Rightarrow> GptGuid \<Rightarrow> u64 \<Rightarrow> u64 \<Rightarrow> GptEntry list \<Rightarrow> LabelError + GptLabel" where
  "label_new cd guid block_size num_blocks partitions =
     (let pmbr = pmbr_default\<lparr>pm_entries :=
            (pm_entries pmbr_default)[0 := mbr_protect num_blocks (pm_entries pmbr_default ! 0)]\<rparr>;
          header = header_new guid block_size num_blocks
      in try_bind (map_err LE_SerializeError (table_checksum cd partitions (gh_num_entries header))) (\<lambda>crc.
         try_bind (map_err LE_SerializeError (header_checksum cd (header\<lparr>gh_table_crc := crc\<rparr>))) (\<lambda>(_, h).
         try_bind (map_err LE_SerializeError (as_secondary cd h)) (\<lambda>secondary.
           Inr \<lparr> gl_status = LsNeither, gl_block_size = block_size, gl_mbr = pmbr, gl_primary = h,
                 gl_partitions = partitions, gl_secondary = secondary \<rparr>))))"

definition label_partition :: "GptLabel \<Rightarrow> u16 list \<Rightarrow> GptEntry option" where
  "label_partition l name = List.find (\<lambda>e. ge_name e = name) (gl_partitions l)"

definition partition_offset :: "GptLabel \<Rightarrow> u16 list \<Rightarrow> ProbeError + u64" where
  "partition_offset l name =
     (case label_partition l name of
        Some e \<Rightarrow> Inr (ge_start e * gl_block_size l)
      | None \<Rightarrow> Inl (PE_MissingPartition name))"

definition partition_size :: "GptLabel \<Rightarrow> u16 list \<Rightarrow> ProbeError + u64" where
  "partition_size l name =
     (case label_partition l name of
        Some e \<Rightarrow> Inr ((ge_end e - ge_start e + 1) * gl_block_size l)
      | None \<Rightarrow> Inl (PE_MissingPartition name))"

section \<open>Validation\<close>

text \<open>The product of two \<open>u32\<close> wraps before it is widened.\<close>

definition validate_primary_header :: "GptHeader \<Rightarrow> u64 \<Rightarrow> u64 \<Rightarrow> ProbeError + unit" where
  "validate_primary_header p block_size num_blocks =
     (if gh_lba_self p \<noteq> 1 then Inl PE_PrimaryLocation
      else if gh_lba_alt p + 1 \<noteq> num_blocks then Inl PE_SecondaryLocation
      else if gh_lba_end p \<ge> gh_lba_alt p then Inl PE_LastUsableBlock
      else if gh_lba_table p \<noteq> gh_lba_self p + 1 then Inl PE_PartitionTableLocation
      else if ucast (gh_num_entries p * gh_entry_size p) > PARTITION_TABLE_SIZE
        then Inl PE_PartitionTableSize
      else if gh_lba_table p + get_blocks PARTITION_TABLE_SIZE block_size > gh_lba_start p
        then Inl PE_PartitionTableSpace
      else Inr ())"

definition validate_secondary_header :: "GptHeader \<Rightarrow> u64 \<Rightarrow> u64 \<Rightarrow> ProbeError + unit" where
  "validate_secondary_header s block_size num_blocks =
     (if gh_lba_alt s \<noteq> 1 then Inl PE_PrimaryLocation
      else if gh_lba_self s + 1 \<noteq> num_blocks then Inl PE_SecondaryLocation
      else if gh_lba_alt s \<ge> gh_lba_start s then Inl PE_FirstUsableBlock
      else if gh_lba_table s \<noteq> gh_lba_end s + 1 then Inl PE_PartitionTableLocation
      else if ucast (gh_num_entries s * gh_entry_size s) > PARTITION_TABLE_SIZE
        then Inl PE_PartitionTableSize
      else if gh_lba_table s + get_blocks PARTITION_TABLE_SIZE block_size > gh_lba_self s
        then Inl PE_PartitionTableSpace
      else Inr ())"

text \<open>The loop of \<open>validate_partitions\<close>.\<close>

primrec validate_entries :: "GptEntry list \<Rightarrow> GptHeader \<Rightarrow> ProbeError + unit" where
  "validate_entries [] h = Inr ()"
| "validate_entries (e # es) h =
     (if 0 < ge_start e \<and> ge_start e < gh_lba_start h then Inl PE_PartitionStart
      else if ge_start e > ge_end e then Inl PE_NegativePartitionSize
      else if ge_end e > gh_lba_end h then Inl PE_PartitionEnd
      else validate_entries es h)"

definition validate_partitions :: "gpt_codec \<Rightarrow> GptEntry list \<Rightarrow> GptHeader \<Rightarrow> ProbeError + unit" where
  "validate_partitions cd partitions h =
     try_bind (validate_entries partitions h) (\<lambda>_.
     try_bind (map_err PE_ChecksumSerializeError (table_checksum cd partitions (gh_num_entries h))) (\<lambda>c.
       if gh_table_crc h \<noteq> c then Inl PE_PartitionTableChecksum else Inr ()))"

definition consistency_check :: "GptHeader \<Rightarrow> GptHeader \<Rightarrow> ProbeError + unit" where
  "consistency_check p s =
     (if gh_lba_self p \<noteq> gh_lba_alt s then Inl PE_CompareHeaderLocation
      else if gh_lba_alt p \<noteq> gh_lba_self s then Inl PE_CompareHeaderLocation
      else if gh_lba_start p \<noteq> gh_lba_start s then Inl PE_FirstUsableBlock
      else if gh_lba_end p \<noteq> gh_lba_end s then Inl PE_LastUsableBlock
      else if gh_guid p \<noteq> gh_guid s then Inl PE_CompareDiskGuid
      else if gh_num_entries p \<noteq> gh_num_entries s then Inl PE_ComparePartitionEntryCount
      else if gh_entry_size p \<noteq> gh_entry_size s then Inl PE_ComparePartitionEntrySize
      else if gh_table_crc p \<noteq> gh_table_crc s then Inl PE_ComparePartitionTableChecksum
      else Inr ())"

section \<open>Probing\<close>

text \<open>\<open>read_mbr\<close> slices its buffer; a buffer shorter than 512 bytes is a panic.\<close>

definition read_mbr :: "gpt_codec \<Rightarrow> u8 list \<Rightarrow> (ProbeError + Pmbr) option" where
  "read_mbr cd buf = (if length buf < 512 then None else Some (pmbr_from_slice cd (take 72 (drop 440 buf))))"

definition read_primary_header ::
  "gpt_codec \<Rightarrow> u8 list \<Rightarrow> u64 \<Rightarrow> u64 \<Rightarrow> ProbeError + GptHeader" where
  "read_primary_header cd buf block_size num_blocks =
     try_bind (header_from_slice cd buf) (\<lambda>h.
     try_bind (validate_primary_header h block_size num_blocks) (\<lambda>_. Inr h))"

definition read_secondary_header ::
  "gpt_codec \<Rightarrow> u8 list \<Rightarrow> u64 \<Rightarrow> u64 \<Rightarrow> ProbeError + GptHeader" where
  "read_secondary_header cd buf block_size num_blocks =
     try_bind (header_from_slice cd buf) (\<lambda>h.
     try_bind (validate_secondary_header h block_size num_blocks) (\<lambda>_. Inr h))"

definition read_partitions :: "gpt_codec \<Rightarrow> u8 list \<Rightarrow> GptHeader \<Rightarrow> ProbeError + GptEntry list" where
  "read_partitions cd buf h =
     try_bind (entries_from_slice cd buf (gh_num_entries h)) (\<lambda>ps.
     try_bind (validate_partitions cd ps h) (\<lambda>_. Inr ps))"

text \<open>The part of \<open>probe_label\<close> that reads the two headers and chooses between them: the status,
  the primary, the secondary and the active header.\<close>

definition probe_headers ::
  "gpt_codec \<Rightarrow> gpt_disk \<Rightarrow> LabelError + (LabelStatus \<times> GptHeader \<times> GptHeader \<times> GptHeader)" where
  "probe_headers cd d =
     (let block_size = gd_block_size d; num_blocks = gd_num_blocks d;
          offset = (num_blocks - 1) * block_size;
          read2 = map_err (\<lambda>e. LE_ReadError e ''secondary GPT header'') (gd_read_at d offset block_size)
      in try_bind (map_err (\<lambda>e. LE_ReadError e ''primary GPT header'')
                    (gd_read_at d block_size block_size)) (\<lambda>buf1.
         case read_primary_header cd buf1 block_size num_blocks of
           Inr primary \<Rightarrow>
             try_bind read2 (\<lambda>buf2.
               case read_secondary_header cd buf2 block_size num_blocks of
                 Inr header \<Rightarrow>
                   try_bind (map_err LE_InvalidLabel (consistency_check primary header)) (\<lambda>_.
                     Inr (LsBoth, primary, header, primary))
               | Inl _ \<Rightarrow>
                   try_bind (map_err LE_SerializeError (as_secondary cd primary)) (\<lambda>secondary.
                     Inr (LsPrimary, primary, secondary, primary)))
         | Inl error \<Rightarrow>
             try_bind read2 (\<lambda>buf2.
               case read_secondary_header cd buf2 block_size num_blocks of
                 Inr secondary \<Rightarrow>
                   try_bind (map_err LE_SerializeError (as_primary cd secondary)) (\<lambda>primary.
                     Inr (LsSecondary, primary, secondary, secondary))
               | Inl _ \<Rightarrow> Inl (LE_InvalidLabel error))))"

text \<open>The rest of \<open>probe_label\<close>: the size recorded in the MBR and the partition table.\<close>

definition probe_table ::
  "gpt_codec \<Rightarrow> gpt_disk \<Rightarrow> Pmbr \<Rightarrow> LabelStatus \<times> GptHeader \<times> GptHeader \<times> GptHeader \<Rightarrow>
   LabelError + GptLabel" where
  "probe_table cd d mbr hs =
     (case hs of (status, primary, secondary, active) \<Rightarrow>
        let block_size = gd_block_size d; sectors = me_num_sectors (pm_entries mbr ! 0);
            blocks = get_blocks (ucast (gh_entry_size active * gh_num_entries active)) block_size
        in if sectors \<noteq> 0xffffffff \<and> ucast sectors \<noteq> gh_lba_alt primary
             then Inl (LE_InvalidLabel PE_MbrSize)
           else try_bind (map_err (\<lambda>e. LE_ReadAlloc e ''partition table'') (gd_buffer_alloc d (blocks * block_size))) (\<lambda>_.
             try_bind (map_err (\<lambda>e. LE_ReadError e ''partition table'')
                        (gd_read_at d (gh_lba_table active * block_size) (blocks * block_size))) (\<lambda>buf.
             try_bind (map_err LE_InvalidLabel (read_partitions cd buf active)) (\<lambda>partitions.
               Inr \<lparr> gl_status = status, gl_block_size = block_size, gl_mbr = mbr,
                     gl_primary = primary,
                     gl_partitions = filter (\<lambda>e. ge_start e > 0 \<or> ge_end e > 0) partitions,
                     gl_secondary = secondary \<rparr>))))"

definition probe_label :: "gpt_codec \<Rightarrow> gpt_disk \<Rightarrow> (LabelError + GptLabel) option" where
  "probe_label cd d =
     (case try_bind (map_err (\<lambda>e. LE_ReadAlloc e ''MBR'') (gd_buffer_alloc d (gd_block_size d))) (\<lambda>_.
             map_err (\<lambda>e. LE_ReadError e ''MBR'') (gd_read_at d 0 (gd_block_size d))) of
        Inl e \<Rightarrow> Some (Inl e)
      | Inr buf \<Rightarrow>
          map_option (\<lambda>r. try_bind (map_err LE_InvalidLabel r) (\<lambda>mbr.
              try_bind (probe_headers cd d) (probe_table cd d mbr)))
            (read_mbr cd buf))"

section \<open>Writing\<close>

text \<open>\<open>serialize_into\<close> a cursor over a buffer: the bytes must fit.\<close>

definition buf_write :: "nat \<Rightarrow> u8 list \<Rightarrow> u8 list \<Rightarrow> string + u8 list" where
  "buf_write pos bytes buf =
     (if pos + length bytes \<le> length buf
      then Inr (take pos buf @ bytes @ drop (pos + length bytes) buf)
      else Inl ''failed to write whole buffer'')"

text \<open>The table is written entry by entry from a position on.\<close>

primrec write_entries :: "gpt_codec \<Rightarrow> nat \<Rightarrow> GptEntry list \<Rightarrow> u8 list \<Rightarrow> string + u8 list" where
  "write_entries cd pos [] buf = Inr buf"
| "write_entries cd pos (e # es) buf =
     try_bind (ser_entry cd e) (\<lambda>bytes.
     try_bind (buf_write pos bytes buf) (\<lambda>buf'. write_entries cd (pos + length bytes) es buf'))"

definition primary_data :: "gpt_codec \<Rightarrow> gpt_disk \<Rightarrow> GptLabel \<Rightarrow> LabelError + (u64 \<times> u8 list)" where
  "primary_data cd d l =
     try_bind (map_err (\<lambda>e. LE_WriteAlloc e ''primary'') (gd_buffer_alloc d (gh_lba_start (gl_primary l) * gl_block_size l))) (\<lambda>buf.
     map_err LE_SerializeError (
       try_bind (gc_ser_mbr cd (gl_mbr l)) (\<lambda>m.
       try_bind (buf_write 440 m buf) (\<lambda>buf.
       try_bind (gc_ser_header cd (gl_primary l)) (\<lambda>h.
       try_bind (buf_write (unat (gh_lba_self (gl_primary l) * gl_block_size l)) h buf) (\<lambda>buf.
       try_bind (write_entries cd (unat (gh_lba_table (gl_primary l) * gl_block_size l))
                  (gl_partitions l) buf) (\<lambda>buf. Inr (0, buf))))))))"

definition secondary_data :: "gpt_codec \<Rightarrow> gpt_disk \<Rightarrow> GptLabel \<Rightarrow> LabelError + (u64 \<times> u8 list)" where
  "secondary_data cd d l =
     (let s = gl_secondary l
      in try_bind (map_err (\<lambda>e. LE_WriteAlloc e ''secondary'')
             (gd_buffer_alloc d ((gh_lba_self s - gh_lba_table s + 1) * gl_block_size l))) (\<lambda>buf.
         map_err LE_SerializeError (
           try_bind (write_entries cd 0 (gl_partitions l) buf) (\<lambda>buf.
           try_bind (gc_ser_header cd s) (\<lambda>h.
           try_bind (buf_write (unat ((gh_lba_self s - gh_lba_table s) * gl_block_size l)) h buf) (\<lambda>buf.
             Inr (gh_lba_table s * gl_block_size l, buf)))))))"

end
