(* ===== verification/Gpt_Layout.thy ===== *)
theory Gpt_Layout
  imports Gpt_Label
begin

text \<open>
  The two versions of the MayaMeta/MayaData layout (\<open>core/gpt/maya.rs\<close>) and the version dispatch
  (\<open>core/gpt/label.rs\<close>): where the data partition of a child lies, the label generated for it and
  the recognition of a label found on a disk. The locale \<open>maya_layout\<close> states what the code relies
  on of a layout; it is interpreted for both versions.
\<close>

section \<open>Layouts\<close>

definition align_down :: "u64 \<Rightarrow> u64 \<Rightarrow> u64" where
  "align_down v algn = v - v mod algn"

text \<open>\<open>u64::saturating_add\<close>.\<close>

definition saturating_add :: "u64 \<Rightarrow> u64 \<Rightarrow> u64" where
  "saturating_add a b = (if a + b < a then -1 else a + b)"

definition align_up :: "u64 \<Rightarrow> u64 \<Rightarrow> u64" where
  "align_up v algn =
     (let rem = v mod algn in if rem = 0 then v else saturating_add v (algn - rem))"

datatype LabelVersion = V1 | V2

record Layout =
  ly_META_SIZE :: u64
  ly_DATA_START_OFFSET :: u64
  ly_DATA_ALIGN_SIZE :: u64
  ly_TRAILING_VOID_SIZE :: u64
  ly_VERSION :: LabelVersion

definition layout_v1 :: Layout where
  "layout_v1 = \<lparr> ly_META_SIZE = 4 * 1024 * 1024, ly_DATA_START_OFFSET = 5 * 1024 * 1024,
     ly_DATA_ALIGN_SIZE = 0, ly_TRAILING_VOID_SIZE = 0, ly_VERSION = V1 \<rparr>"

definition layout_v2 :: Layout where
  "layout_v2 = \<lparr> ly_META_SIZE = 3 * 1024 * 1024, ly_DATA_START_OFFSET = 4 * 1024 * 1024,
     ly_DATA_ALIGN_SIZE = 1024 * 1024, ly_TRAILING_VOID_SIZE = 4 * 1024 * 1024, ly_VERSION = V2 \<rparr>"

definition META_TYPE_GUID :: GptGuid where
  "META_TYPE_GUID = \<lparr> gg_time_low = 0x27663382, gg_time_mid = 0xe5e6, gg_time_high = 0x11e9,
     gg_node = [0x81, 0xb4, 0xca, 0x5c, 0xa5, 0xca, 0x5c, 0xa5] \<rparr>"

definition DATA_TYPE_GUID :: GptGuid where
  "DATA_TYPE_GUID = \<lparr> gg_time_low = 0x6527994e, gg_time_mid = 0x2c5a, gg_time_high = 0x4eec,
     gg_node = [0x96, 0x13, 0x8f, 0x59, 0x44, 0x07, 0x4e, 0x8b] \<rparr>"

text \<open>\<open>"MayaMeta"\<close> and \<open>"MayaData"\<close> in UTF-16.\<close>

definition META_NAME :: "u16 list" where
  "META_NAME = [0x4d, 0x61, 0x79, 0x61, 0x4d, 0x65, 0x74, 0x61]"

definition DATA_NAME :: "u16 list" where
  "DATA_NAME = [0x4d, 0x61, 0x79, 0x61, 0x44, 0x61, 0x74, 0x61]"

record DataExtent =
  de_start :: u64
  de_end :: u64

definition de_size :: "DataExtent \<Rightarrow> u64" where
  "de_size x = de_end x - de_start x + 1"

text \<open>\<open>data_extent\<close>. A zero block size makes the first division panic; the \<open>assert!\<close> is kept.\<close>

definition data_extent :: "Layout \<Rightarrow> u64 \<Rightarrow> u64 \<Rightarrow> u64 \<Rightarrow> (LabelError + DataExtent) option" where
  "data_extent L req_size num_blocks block_size =
     (if block_size = 0 then None else
      let too_small = Inl (LE_DeviceTooSmall num_blocks block_size);
          table_blocks = get_blocks PARTITION_TABLE_SIZE block_size;
          header_blocks = get_blocks (ucast HEADER_SIZE) block_size;
          last_usable = num_blocks - table_blocks - header_blocks - 1;
          first_usable_block = get_blocks DATA_OFFSET block_size;
          lba_start = get_blocks (1024 * 1024) block_size
      in if \<not> lba_start \<ge> first_usable_block then None else
      Some (
      let meta_blocks = get_blocks (ly_META_SIZE L) block_size;
          data_start = lba_start + meta_blocks
      in if data_start > last_usable then too_small else
      let trailing_blocks = get_blocks (ly_TRAILING_VOID_SIZE L) block_size
      in if trailing_blocks > 0 \<and> trailing_blocks + data_start \<ge> num_blocks then too_small else
      let usable_end = (if trailing_blocks > 0 then num_blocks - trailing_blocks - 1 else last_usable);
          max_blocks = usable_end - data_start + 1;
          req_blocks = get_blocks req_size block_size;
          data_blocks =
            (if ly_DATA_ALIGN_SIZE L > 0 then
               let cluster_blocks = get_blocks (ly_DATA_ALIGN_SIZE L) block_size
               in min (align_up req_blocks cluster_blocks) (align_down max_blocks cluster_blocks)
             else min req_blocks max_blocks)
      in if data_blocks = 0 then too_small else
      let data_end = data_start + data_blocks - 1
      in if data_end > usable_end \<or> data_end < data_start then too_small
      else Inr \<lparr> de_start = data_start, de_end = data_end \<rparr>))"

text \<open>The random GUID of the metadata partition is an argument.\<close>

definition build_partitions ::
  "Layout \<Rightarrow> GptGuid \<Rightarrow> GptHeader \<Rightarrow> u64 \<Rightarrow> u64 \<Rightarrow> (LabelError + GptEntry list) option" where
  "build_partitions L rnd header block_size req_size =
     map_option (\<lambda>r. try_bind r (\<lambda>ext. Inr
       [\<lparr> ge_type = META_TYPE_GUID, ge_guid = rnd, ge_start = gh_lba_start header,
          ge_end = de_start ext - 1, ge_attr = 0, ge_name = META_NAME \<rparr>,
        \<lparr> ge_type = DATA_TYPE_GUID, ge_guid = gh_guid header, ge_start = de_start ext,
          ge_end = de_end ext, ge_attr = 0, ge_name = DATA_NAME \<rparr>]))
       (data_extent L req_size (gh_lba_alt header + 1) block_size)"

record VersionedLabel =
  vl_version :: LabelVersion
  vl_gpt :: GptLabel

definition layout_generate ::
  "gpt_codec \<Rightarrow> Layout \<Rightarrow> GptGuid \<Rightarrow> GptGuid \<Rightarrow> u64 \<Rightarrow> u64 \<Rightarrow> u64 \<Rightarrow>
   (LabelError + VersionedLabel) option" where
  "layout_generate cd L rnd guid block_size num_blocks req_size =
     (if block_size = 0 then None else
      map_option (\<lambda>r. try_bind r (\<lambda>partitions.
          try_bind (label_new cd guid block_size num_blocks partitions) (\<lambda>gpt.
            Inr \<lparr> vl_version = ly_VERSION L, vl_gpt = gpt \<rparr>)))
        (build_partitions L rnd (header_new guid block_size num_blocks) block_size req_size))"

definition layout_check :: "Layout \<Rightarrow> GptLabel \<Rightarrow> bool" where
  "layout_check L l =
     (let meta_blocks = get_blocks (ly_META_SIZE L) (gl_block_size l)
      in case label_partition l META_NAME of
           None \<Rightarrow> False
         | Some meta \<Rightarrow>
             if ge_type meta \<noteq> META_TYPE_GUID \<or> ge_end meta - ge_start meta + 1 \<noteq> meta_blocks
             then False
             else (case label_partition l DATA_NAME of
                     Some data \<Rightarrow> ge_type data = DATA_TYPE_GUID \<and> ge_start data = ge_end meta + 1
                   | None \<Rightarrow> False))"

section \<open>Versions\<close>

primrec variant :: "LabelVersion \<Rightarrow> Layout" where
  "variant V1 = layout_v1"
| "variant V2 = layout_v2"

definition version_ALL :: "LabelVersion list" where
  "version_ALL = [V1, V2]"

definition version_detect :: "GptLabel \<Rightarrow> LabelVersion option" where
  "version_detect l = List.find (\<lambda>v. layout_check (variant v) l) version_ALL"

definition version_data_extent ::
  "LabelVersion \<Rightarrow> u64 \<Rightarrow> u64 \<Rightarrow> u64 \<Rightarrow> (LabelError + DataExtent) option" where
  "version_data_extent v req_size num_blocks block_size =
     data_extent (variant v) req_size num_blocks block_size"

definition version_generate ::
  "gpt_codec \<Rightarrow> LabelVersion \<Rightarrow> GptGuid \<Rightarrow> GptGuid \<Rightarrow> u64 \<Rightarrow> u64 \<Rightarrow> u64 \<Rightarrow>
   (LabelError + VersionedLabel) option" where
  "version_generate cd v rnd guid block_size num_blocks req_size =
     layout_generate cd (variant v) rnd guid block_size num_blocks req_size"

definition data_start_blks :: "LabelVersion \<Rightarrow> u64 \<Rightarrow> u64 option" where
  "data_start_blks v block_size =
     (if block_size = 0 then None else Some (ly_DATA_START_OFFSET (variant v) div block_size))"

definition versioned_probe :: "gpt_codec \<Rightarrow> gpt_disk \<Rightarrow> (LabelError + VersionedLabel) option" where
  "versioned_probe cd d =
     map_option (\<lambda>r. try_bind r (\<lambda>gpt.
       case version_detect gpt of
         None \<Rightarrow> Inl (LE_InvalidLabel PE_IncorrectPartitions)
       | Some version \<Rightarrow> Inr \<lparr> vl_version = version, vl_gpt = gpt \<rparr>))
       (probe_label cd d)"

definition versioned_check :: "VersionedLabel \<Rightarrow> bool" where
  "versioned_check vl = layout_check (variant (vl_version vl)) (vl_gpt vl)"

section \<open>Geometry of the layouts\<close>

lemma get_blocks_div_ceil: "b \<noteq> 0 \<Longrightarrow> div_ceil a b = Some (get_blocks a b)"
  by (auto simp: div_ceil_def get_blocks_def Let_def word_gt_0)

lemma get_blocks_nat:
  "b \<noteq> 0 \<Longrightarrow> unat (get_blocks a b) = (unat a + unat b - 1) div unat b"
  by (rule div_ceil_nat [OF get_blocks_div_ceil])

text \<open>The block sizes the layouts are meant for: at least a sector, and a divisor of 256 KiB, so that
  the MBR, the header and the table fit before the first mebibyte.\<close>

definition blk_ok :: "u64 \<Rightarrow> bool" where
  "blk_ok bs \<longleftrightarrow> 512 \<le> unat bs \<and> unat bs dvd 262144"

definition mib :: "u64 \<Rightarrow> nat" where "mib bs = 1048576 div unat bs"

definition table_blks :: "u64 \<Rightarrow> nat" where "table_blks bs = (16384 + unat bs - 1) div unat bs"

lemma blk_ok_pos: "blk_ok bs \<Longrightarrow> bs \<noteq> 0"
  by (auto simp: blk_ok_def)

lemma mib_mult: assumes "blk_ok bs" shows "mib bs * unat bs = 1048576"
proof -
  have "unat bs dvd 262144 * 4" by (rule dvd_mult2) (use assms in \<open>simp add: blk_ok_def\<close>)
  thus ?thesis by (simp add: mib_def)
qed

lemma mib_bounds: assumes "blk_ok bs" shows "1 \<le> mib bs" "4 \<le> mib bs" "mib bs \<le> 2048"
proof -
  have "unat bs \<le> 262144" using assms by (auto simp: blk_ok_def intro: dvd_imp_le)
  hence "4 * unat bs \<le> mib bs * unat bs" using mib_mult [OF assms] by simp
  thus "4 \<le> mib bs" "1 \<le> mib bs" using assms by (simp_all add: blk_ok_def)
  have "mib bs * 512 \<le> mib bs * unat bs" using assms by (simp add: blk_ok_def)
  thus "mib bs \<le> 2048" using mib_mult [OF assms] by simp
qed

lemma get_blocks_mib:
  assumes "blk_ok bs" "unat a = k * 1048576"
  shows "unat (get_blocks a bs) = k * mib bs"
proof -
  have p: "0 < unat bs" using assms(1) by (simp add: blk_ok_def)
  have "k * 1048576 + unat bs - 1 = k * mib bs * unat bs + (unat bs - 1)"
    using mib_mult [OF assms(1)] p by (simp add: mult.assoc)
  moreover have "(k * mib bs * unat bs + (unat bs - 1)) div unat bs = k * mib bs"
    using p by (intro div_nat_eqI) (simp_all add: mult.commute)
  ultimately show ?thesis
    by (simp only: get_blocks_nat [OF blk_ok_pos [OF assms(1)]] assms(2))
qed

lemma get_blocks_table: "blk_ok bs \<Longrightarrow> unat (get_blocks PARTITION_TABLE_SIZE bs) = table_blks bs"
  by (simp add: get_blocks_nat blk_ok_pos table_blks_def PARTITION_TABLE_SIZE_def)

lemma get_blocks_header: "blk_ok bs \<Longrightarrow> get_blocks (ucast HEADER_SIZE) bs = 1"
  by (rule word_unat_eq_iff [THEN iffD2])
     (simp add: get_blocks_nat blk_ok_pos HEADER_SIZE_def blk_ok_def div_nat_eqI)

text \<open>The table and its header fit into the first mebibyte.\<close>

lemma table_blks_mib: assumes "blk_ok bs" shows "1 \<le> table_blks bs" "table_blks bs + 2 \<le> mib bs"
proof -
  have p: "0 < unat bs" using assms by (simp add: blk_ok_def)
  show "1 \<le> table_blks bs" using p by (simp add: table_blks_def less_eq_div_iff_mult_less_eq)
  have m: "mib bs * unat bs = 1048576" by (rule mib_mult [OF assms])
  have "unat bs \<le> 262144" using assms by (auto simp: blk_ok_def intro: dvd_imp_le)
  hence "16384 + unat bs + 2 * unat bs \<le> mib bs * unat bs" using m by simp
  hence "16384 + unat bs - 1 < (mib bs - 1) * unat bs" using p by (simp add: diff_mult_distrib)
  hence "table_blks bs < mib bs - 1"
    unfolding table_blks_def using p by (simp only: div_less_iff_less_mult)
  thus "table_blks bs + 2 \<le> mib bs" by simp
qed

text \<open>Rounding to a multiple.\<close>

lemma align_down_nat: "unat (align_down x c) = unat x div unat c * unat c"
proof -
  have "unat (x - x mod c) = unat x - unat x mod unat c" by (simp add: u64_nat)
  thus ?thesis by (simp only: align_down_def minus_mod_eq_div_mult)
qed

lemma ceil_mult_nat:
  assumes "0 < (c :: nat)"
  shows "(x + c - 1) div c * c = (if x mod c = 0 then x else x + (c - x mod c))"
proof -
  have "x div c * c = x - x mod c" "x mod c \<le> x" by (simp_all add: minus_mod_eq_div_mult)
  moreover have "(x div c + 1) * c = x div c * c + c" by simp
  ultimately show ?thesis
    unfolding ceil_div_nat [OF assms] using mod_less_divisor [OF assms, of x] by auto
qed

lemma saturating_add_nat: "unat (saturating_add a b) = min 18446744073709551615 (unat a + unat b)"
proof (cases "unat a + unat b < 18446744073709551616")
  case True
  thus ?thesis by (simp add: saturating_add_def u64_nat)
next
  case False
  have "unat (a + b) = unat a + unat b - 18446744073709551616"
    using False unat_lt_64 [of a] unat_lt_64 [of b] by (simp add: unat_word_ariths mod_if)
  moreover have "unat (- 1 :: u64) = 18446744073709551615" by (simp add: unsigned_minus_1_eq_mask mask_eq_exp_minus_1)
  ultimately show ?thesis
    using False unat_lt_64 [of b] by (simp add: saturating_add_def u64_less_nat)
qed

lemma align_up_nat:
  assumes "c \<noteq> 0"
  shows "unat (align_up x c) = min 18446744073709551615 ((unat x + unat c - 1) div unat c * unat c)"
proof -
  have p: "0 < unat c" using assms by (simp add: unat_gt_0)
  have z: "x mod c = 0 \<longleftrightarrow> unat x mod unat c = 0" by (simp add: u64_eq_nat u64_nat)
  have "unat (c - x mod c) = unat c - unat x mod unat c"
    using p by (simp add: u64_nat less_imp_le)
  hence "unat (align_up x c) =
      (if unat x mod unat c = 0 then unat x
       else min 18446744073709551615 (unat x + (unat c - unat x mod unat c)))"
    by (simp only: align_up_def Let_def z saturating_add_nat if_distrib [of unat])
  moreover have "unat x \<le> 18446744073709551615" using unat_lt_64 [of x] by simp
  ultimately show ?thesis by (simp only: ceil_mult_nat [OF p] min_absorb2 split: if_split) simp
qed

text \<open>The placement of the data partition on the integers: \<open>m\<close> mebibytes of metadata after the first
  one, the length a multiple of \<open>a\<close> mebibytes (any length when \<open>a\<close> is zero), \<open>v\<close> mebibytes left
  free at the end (up to the backup table when \<open>v\<close> is zero).\<close>

definition spec_blocks :: "nat \<Rightarrow> nat \<Rightarrow> nat \<Rightarrow> nat" where
  "spec_blocks c r x = (if c = 0 then min r x else min ((r + c - 1) div c * c) (x div c * c))"

definition spec_end :: "nat \<Rightarrow> nat \<Rightarrow> u64 \<Rightarrow> nat" where
  "spec_end v nb bs = (if v = 0 then nb - table_blks bs - 2 else nb - v * mib bs - 1)"

definition spec_extent :: "nat \<Rightarrow> nat \<Rightarrow> nat \<Rightarrow> nat \<Rightarrow> nat \<Rightarrow> u64 \<Rightarrow> (nat \<times> nat) option" where
  "spec_extent m a v r nb bs =
     (let s = (m + 1) * mib bs;
          d = spec_blocks (a * mib bs) r (spec_end v nb bs - s + 1)
      in if nb - table_blks bs - 2 < s \<or> v \<noteq> 0 \<and> nb \<le> v * mib bs + s \<or> d = 0 then None
         else Some (s, s + d - 1))"

lemma spec_blocks_le: "spec_blocks c r x \<le> x"
  by (auto simp: spec_blocks_def min_le_iff_disj div_times_less_eq_dividend)

section \<open>The interface of a layout\<close>

text \<open>What the code relies on of a layout: its sizes are whole mebibytes (\<open>m\<close> for the metadata,
  \<open>a\<close> for the alignment, \<open>v\<close> for the trailing void), and the data starts after the metadata.\<close>

locale maya_layout =
  fixes L :: Layout and m a v :: nat
  assumes meta: "unat (ly_META_SIZE L) = m * 1048576"
    and start: "unat (ly_DATA_START_OFFSET L) = (m + 1) * 1048576"
    and align: "unat (ly_DATA_ALIGN_SIZE L) = a * 1048576"
    and void: "unat (ly_TRAILING_VOID_SIZE L) = v * 1048576"
    and bounds: "1 \<le> m" "m \<le> 1024" "a \<le> 1024" "v \<le> 1024" "v \<noteq> 1"
begin

lemma small: assumes "blk_ok bs" "k \<le> 2048" shows "k * mib bs \<le> 4194304"
  using mult_mono [OF assms(2) mib_bounds(3) [OF assms(1)]] by simp

lemma data_start_nat:
  assumes "blk_ok bs"
  shows "unat (get_blocks (1024 * 1024) bs + get_blocks (ly_META_SIZE L) bs) = (m + 1) * mib bs"
proof -
  have "unat (get_blocks (1024 * 1024) bs) = 1 * mib bs"
    by (rule get_blocks_mib [OF assms]) simp
  moreover have "unat (get_blocks (ly_META_SIZE L) bs) = m * mib bs"
    by (rule get_blocks_mib [OF assms meta])
  ultimately show ?thesis
    using small [OF assms, of "m + 1"] bounds by (subst unat_add_64) (auto simp: algebra_simps)
qed

lemma last_usable_nat:
  assumes "blk_ok bs" "table_blks bs + 2 \<le> unat nb"
  shows "unat (nb - get_blocks PARTITION_TABLE_SIZE bs - get_blocks (ucast HEADER_SIZE) bs - 1) =
    unat nb - table_blks bs - 2"
  using assms by (simp add: get_blocks_header get_blocks_table u64_nat)

lemma data_blocks_nat:
  assumes "blk_ok bs"
  shows "unat (if ly_DATA_ALIGN_SIZE L > 0 then
             let c = get_blocks (ly_DATA_ALIGN_SIZE L) bs in min (align_up r c) (align_down x c)
           else min r x) = spec_blocks (a * mib bs) (unat r) (unat x)"
proof (cases "a = 0")
  case True
  hence "\<not> ly_DATA_ALIGN_SIZE L > 0" using align by (simp add: word_less_nat_alt)
  thus ?thesis using True by (simp add: spec_blocks_def unat_min_64)
next
  case False
  hence g: "ly_DATA_ALIGN_SIZE L > 0" using align by (simp add: word_less_nat_alt)
  define c where "c = get_blocks (ly_DATA_ALIGN_SIZE L) bs"
  have c: "unat c = a * mib bs" unfolding c_def by (rule get_blocks_mib [OF assms align])
  have c0: "a * mib bs \<noteq> 0" using False mib_bounds(1) [OF assms] by simp
  hence cn: "c \<noteq> 0" using c by auto
  have "unat (min (align_up r c) (align_down x c)) =
      min (min 18446744073709551615 ((unat r + a * mib bs - 1) div (a * mib bs) * (a * mib bs)))
          (unat x div (a * mib bs) * (a * mib bs))"
    by (simp only: unat_min_64 align_up_nat [OF cn] align_down_nat c)
  moreover have "unat x div (a * mib bs) * (a * mib bs) \<le> 18446744073709551615"
    using div_times_less_eq_dividend [of "unat x" "a * mib bs"] unat_lt_64 [of x] by linarith
  ultimately have "unat (min (align_up r c) (align_down x c)) = spec_blocks (a * mib bs) (unat r) (unat x)"
    using c0 unfolding spec_blocks_def by (simp only: if_False)
  thus ?thesis using g by (simp add: c_def Let_def)
qed

lemma data_extent_unfold:
  fixes nb req bs :: u64
  assumes "blk_ok bs"
  defines "s \<equiv> get_blocks (1024 * 1024) bs + get_blocks (ly_META_SIZE L) bs"
    and "l \<equiv> nb - get_blocks PARTITION_TABLE_SIZE bs - get_blocks (ucast HEADER_SIZE) bs - 1"
    and "t \<equiv> get_blocks (ly_TRAILING_VOID_SIZE L) bs"
  defines "u \<equiv> if t > 0 then nb - t - 1 else l"
  defines "d \<equiv> (if ly_DATA_ALIGN_SIZE L > 0 then
             let c = get_blocks (ly_DATA_ALIGN_SIZE L) bs
             in min (align_up (get_blocks req bs) c) (align_down (u - s + 1) c)
           else min (get_blocks req bs) (u - s + 1))"
  shows "data_extent L req nb bs =
    Some (if s > l \<or> t > 0 \<and> t + s \<ge> nb \<or> d = 0 \<or> s + d - 1 > u \<or> s + d - 1 < s
          then Inl (LE_DeviceTooSmall nb bs) else Inr \<lparr> de_start = s, de_end = s + d - 1 \<rparr>)"
  using blk_ok_pos [OF assms(1)]
  by (simp add: data_extent_def DATA_OFFSET_def Let_def s_def l_def t_def u_def d_def)

lemma data_extent_spec:
  assumes ok: "blk_ok bs" and big: "table_blks bs + 2 \<le> unat nb"
  shows "data_extent L req nb bs =
    Some (case spec_extent m a v (unat (get_blocks req bs)) (unat nb) bs of
            None \<Rightarrow> Inl (LE_DeviceTooSmall nb bs)
          | Some (s, e) \<Rightarrow> Inr \<lparr> de_start = of_nat s, de_end = of_nat e \<rparr>)"
proof -
  define s where "s = get_blocks (1024 * 1024) bs + get_blocks (ly_META_SIZE L) bs"
  define l where "l = nb - get_blocks PARTITION_TABLE_SIZE bs - get_blocks (ucast HEADER_SIZE) bs - 1"
  define t where "t = get_blocks (ly_TRAILING_VOID_SIZE L) bs"
  define u where "u = (if t > 0 then nb - t - 1 else l)"
  define d where "d = (if ly_DATA_ALIGN_SIZE L > 0 then
             let c = get_blocks (ly_DATA_ALIGN_SIZE L) bs
             in min (align_up (get_blocks req bs) c) (align_down (u - s + 1) c)
           else min (get_blocks req bs) (u - s + 1))"
  note U = data_extent_unfold [OF ok, of req nb, folded s_def l_def t_def, folded u_def, folded d_def]
  have s: "unat s = (m + 1) * mib bs" unfolding s_def by (rule data_start_nat [OF ok])
  have l: "unat l = unat nb - table_blks bs - 2" unfolding l_def by (rule last_usable_nat [OF ok big])
  have t: "unat t = v * mib bs" unfolding t_def by (rule get_blocks_mib [OF ok void])
  have t0: "t > 0 \<longleftrightarrow> v \<noteq> 0" using t mib_bounds(1) [OF ok] by (simp add: word_less_nat_alt)
  have ts: "unat (t + s) = v * mib bs + unat s"
    using small [OF ok, of v] small [OF ok, of "m + 1"] bounds s t by (simp add: unat_add_64)
  show ?thesis
  proof (cases "s > l \<or> t > 0 \<and> t + s \<ge> nb")
    case True
    hence "unat nb - table_blks bs - 2 < (m + 1) * mib bs \<or> v \<noteq> 0 \<and> unat nb \<le> v * mib bs + (m + 1) * mib bs"
      using t0 by (simp only: u64_le_nat u64_less_nat l s ts)
    thus ?thesis using True U by (auto simp: spec_extent_def Let_def)
  next
    case nt: False
    hence n: "(m + 1) * mib bs \<le> unat nb - table_blks bs - 2"
        "v \<noteq> 0 \<Longrightarrow> v * mib bs + (m + 1) * mib bs < unat nb"
      using t0 by (auto simp only: u64_le_nat u64_less_nat l s ts not_less not_le de_Morgan_disj de_Morgan_conj)
    have u: "unat u = spec_end v (unat nb) bs" "unat s \<le> unat u"
      using n t t0 l s by (auto simp: u_def spec_end_def u64_nat)
    have "unat (u - s + 1) = spec_end v (unat nb) bs - (m + 1) * mib bs + 1"
      using u s unat_lt_64 [of u] mib_bounds(1) [OF ok] by (subst unat_add_64) (auto simp: u64_nat)
    hence d: "unat d = spec_blocks (a * mib bs) (unat (get_blocks req bs)) (spec_end v (unat nb) bs - (m + 1) * mib bs + 1)"
      unfolding d_def data_blocks_nat [OF ok] by simp
    show ?thesis
    proof (cases "d = 0")
      case True
      thus ?thesis using U d by (simp add: spec_extent_def Let_def)
    next
      case False
      hence d0: "unat d \<noteq> 0" by (simp add: unat_eq_0)
      have le: "unat s + unat d - 1 \<le> unat u"
        using d u s spec_blocks_le [of "a * mib bs" "unat (get_blocks req bs)" "spec_end v (unat nb) bs - (m + 1) * mib bs + 1"]
        by linarith
      have e: "unat (s + d - 1) = unat s + unat d - 1"
      proof -
        have "unat (d - 1) = unat d - 1" using d0 by (simp add: unat_sub_64)
        moreover from this have "unat (s + (d - 1)) = unat s + (unat d - 1)"
          using le d0 unat_lt_64 [of u] by (subst unat_add_64) simp_all
        ultimately show ?thesis using d0 by (simp add: add_diff_eq)
      qed
      have "of_nat ((m + 1) * mib bs) = s" unfolding s [symmetric] by simp
      moreover have "of_nat ((m + 1) * mib bs + unat d - 1) = s + d - 1"
        unfolding s [symmetric] e [symmetric] by simp
      moreover have "\<not> s + d - 1 > u" "\<not> s + d - 1 < s"
        using le e d0 by (simp_all add: u64_less_nat)
      moreover have "spec_extent m a v (unat (get_blocks req bs)) (unat nb) bs =
          Some ((m + 1) * mib bs, (m + 1) * mib bs + unat d - 1)"
        using n d d0 by (auto simp: spec_extent_def Let_def)
      ultimately show ?thesis using U False nt by simp
    qed
  qed
qed

lemma void_covers: assumes "blk_ok bs" "v \<noteq> 0" shows "table_blks bs + 2 \<le> v * mib bs"
  using table_blks_mib(2) [OF assms(1)] assms(2) le_trans [of _ "mib bs" "v * mib bs"] by simp

text \<open>The data partition starts where the layout says, ends before the backup table and the trailing
  void, and has the alignment of the layout.\<close>

lemma data_extent_ok:
  assumes ok: "blk_ok bs" and big: "table_blks bs + 2 \<le> unat nb"
    and x: "data_extent L req nb bs = Some (Inr x)"
  shows "unat (de_start x) = (m + 1) * mib bs" "de_start x \<le> de_end x"
    "unat (de_end x) \<le> unat nb - table_blks bs - 2"
    "v \<noteq> 0 \<Longrightarrow> unat (de_end x) + v * mib bs < unat nb"
    "unat (de_size x) = spec_blocks (a * mib bs) (unat (get_blocks req bs))
       (spec_end v (unat nb) bs - (m + 1) * mib bs + 1)"
proof -
  define d where "d = spec_blocks (a * mib bs) (unat (get_blocks req bs))
       (spec_end v (unat nb) bs - (m + 1) * mib bs + 1)"
  define s where "s = (m + 1) * mib bs"
  have "spec_extent m a v (unat (get_blocks req bs)) (unat nb) bs \<noteq> None"
    using data_extent_spec [OF ok big, of req] x by (auto split: option.splits)
  hence n: "s \<le> unat nb - table_blks bs - 2" "v \<noteq> 0 \<Longrightarrow> v * mib bs + s < unat nb" "d \<noteq> 0"
    and e: "spec_extent m a v (unat (get_blocks req bs)) (unat nb) bs = Some (s, s + d - 1)"
    by (auto simp: spec_extent_def Let_def s_def d_def split: if_splits)
  have s1: "1 \<le> s" using mib_bounds(1) [OF ok] by (simp add: s_def)
  have se: "s \<le> spec_end v (unat nb) bs" using n by (auto simp: spec_end_def)
  have ud: "s + d - 1 \<le> spec_end v (unat nb) bs"
    using spec_blocks_le [of "a * mib bs" "unat (get_blocks req bs)" "spec_end v (unat nb) bs - s + 1"] se
    unfolding d_def s_def by linarith
  have le: "spec_end v (unat nb) bs \<le> unat nb - table_blks bs - 2"
    using void_covers [OF ok] big by (auto simp: spec_end_def)
  have lt: "s + d - 1 < 18446744073709551616" "s < 18446744073709551616"
    using ud le n unat_lt_64 [of nb] by linarith+
  have x': "x = \<lparr> de_start = of_nat s, de_end = of_nat (s + d - 1) \<rparr>"
    using data_extent_spec [OF ok big, of req] x e by simp
  have u: "unat (de_start x) = s" "unat (de_end x) = s + d - 1"
    using lt unfolding x' by (simp_all add: unat_of_nat_64)
  show "unat (de_start x) = (m + 1) * mib bs" using u(1) s_def by simp
  show "de_start x \<le> de_end x" using u n(3) by (simp add: u64_le_nat)
  show "unat (de_end x) \<le> unat nb - table_blks bs - 2" using u ud le by simp
  show "unat (de_end x) + v * mib bs < unat nb" if "v \<noteq> 0"
    using u ud n(2) [OF that] that by (simp add: spec_end_def)
  have "unat (de_end x - de_start x) = d - 1" using u n(3) by (simp add: unat_sub_64)
  thus "unat (de_size x) = spec_blocks (a * mib bs) (unat (get_blocks req bs))
       (spec_end v (unat nb) bs - (m + 1) * mib bs + 1)"
    unfolding de_size_def d_def [symmetric] using lt n(3) s1 by (subst unat_add_64) auto
qed

end

interpretation v1: maya_layout layout_v1 4 0 0
  by unfold_locales (simp_all add: layout_v1_def)

interpretation v2: maya_layout layout_v2 3 1 4
  by unfold_locales (simp_all add: layout_v2_def)

section \<open>Generated labels\<close>

text \<open>What the two versions have in common, over the interpretations: the parameters of a version.\<close>

primrec meta_mib :: "LabelVersion \<Rightarrow> nat" where "meta_mib V1 = 4" | "meta_mib V2 = 3"
primrec align_mib :: "LabelVersion \<Rightarrow> nat" where "align_mib V1 = 0" | "align_mib V2 = 1"
primrec void_mib :: "LabelVersion \<Rightarrow> nat" where "void_mib V1 = 0" | "void_mib V2 = 4"

lemma variant_layout: "maya_layout (variant w) (meta_mib w) (align_mib w) (void_mib w)"
  by (cases w) (simp_all add: v1.maya_layout_axioms v2.maya_layout_axioms [simplified])

lemma variant_version [simp]: "ly_VERSION (variant w) = w"
  by (cases w) (simp_all add: layout_v1_def layout_v2_def)

lemmas version_extent_spec = maya_layout.data_extent_spec [OF variant_layout]
lemmas version_extent_ok = maya_layout.data_extent_ok [OF variant_layout]

text \<open>A device with a data partition has room for the primary label before it and for the secondary
  label after it.\<close>

lemma version_extent_room:
  assumes "blk_ok bs" "table_blks bs + 2 \<le> unat nb" "version_data_extent w req nb bs = Some (Inr x)"
  shows "2 * mib bs + table_blks bs + 2 \<le> unat nb" "2 * mib bs \<le> unat (de_start x)"
    "unat (de_end x) + table_blks bs + 2 \<le> unat nb"
proof -
  note e = version_extent_ok [OF assms(1,2) assms(3) [unfolded version_data_extent_def]]
  have "1 \<le> meta_mib w" by (cases w) auto
  hence "mib bs \<le> meta_mib w * mib bs" by simp
  thus s: "2 * mib bs \<le> unat (de_start x)" using e(1) by simp
  have "unat (de_start x) \<le> unat (de_end x)" using e(2) by (simp add: u64_le_nat)
  thus "2 * mib bs + table_blks bs + 2 \<le> unat nb" "unat (de_end x) + table_blks bs + 2 \<le> unat nb"
    using s e(3) assms(2) by linarith+
qed

lemma header_new_nat:
  assumes "blk_ok bs" "table_blks bs + 2 \<le> unat nb"
  shows "unat (gh_lba_start (header_new g bs nb)) = mib bs"
    "unat (gh_lba_end (header_new g bs nb)) = unat nb - table_blks bs - 2"
    "unat (gh_lba_alt (header_new g bs nb)) = unat nb - 1"
    "gh_lba_alt (header_new g bs nb) + 1 = nb"
proof -
  show "unat (gh_lba_start (header_new g bs nb)) = mib bs"
    using get_blocks_mib [OF assms(1), of DATA_OFFSET 1] by (simp add: header_new_def DATA_OFFSET_def)
  show "unat (gh_lba_end (header_new g bs nb)) = unat nb - table_blks bs - 2"
    using assms by (simp add: header_new_def get_blocks_table unat_sub_64)
  show "unat (gh_lba_alt (header_new g bs nb)) = unat nb - 1"
    using assms by (simp add: header_new_def unat_sub_64)
  show "gh_lba_alt (header_new g bs nb) + 1 = nb" by (simp add: header_new_def)
qed

definition meta_entry :: "GptGuid \<Rightarrow> GptHeader \<Rightarrow> DataExtent \<Rightarrow> GptEntry" where
  "meta_entry rnd h x = \<lparr> ge_type = META_TYPE_GUID, ge_guid = rnd, ge_start = gh_lba_start h,
     ge_end = de_start x - 1, ge_attr = 0, ge_name = META_NAME \<rparr>"

definition data_entry :: "GptHeader \<Rightarrow> DataExtent \<Rightarrow> GptEntry" where
  "data_entry h x = \<lparr> ge_type = DATA_TYPE_GUID, ge_guid = gh_guid h, ge_start = de_start x,
     ge_end = de_end x, ge_attr = 0, ge_name = DATA_NAME \<rparr>"

lemma header_checksum_Inr:
  "header_checksum cd h = Inr (c, h') \<longleftrightarrow>
     (\<exists>b. gc_ser_header cd (h\<lparr>gh_self_checksum := 0\<rparr>) = Inr b \<and> c = gc_crc32 cd b \<and>
          h' = h\<lparr>gh_self_checksum := c\<rparr>)"
  by (auto simp: header_checksum_def try_bind_Inr Let_def)

lemma as_secondary_Inr:
  assumes "as_secondary cd h = Inr s"
  shows "\<exists>c. s = h\<lparr>gh_lba_self := gh_lba_alt h, gh_lba_alt := gh_lba_self h,
    gh_lba_table := gh_lba_end h + 1, gh_self_checksum := c\<rparr>"
  using assms unfolding as_secondary_def
  by (cases "header_checksum cd
       (h\<lparr>gh_lba_self := gh_lba_alt h, gh_lba_alt := gh_lba_self h, gh_lba_table := gh_lba_end h + 1\<rparr>)")
     (auto simp: header_checksum_Inr)

text \<open>The shape of a generated label.\<close>

lemma version_generate_shape:
  assumes "version_generate cd w rnd g bs nb req = Some (Inr vl)" and bs: "bs \<noteq> 0"
  shows "\<exists>x crc c h c2. version_data_extent w req nb bs = Some (Inr x) \<and> vl_version vl = w \<and>
    gl_status (vl_gpt vl) = LsNeither \<and> gl_block_size (vl_gpt vl) = bs \<and>
    h = (header_new g bs nb)\<lparr>gh_table_crc := crc, gh_self_checksum := c\<rparr> \<and>
    gl_primary (vl_gpt vl) = h \<and>
    gl_partitions (vl_gpt vl) = [meta_entry rnd h x, data_entry h x] \<and>
    table_checksum cd (gl_partitions (vl_gpt vl)) 128 = Inr crc \<and>
    gl_secondary (vl_gpt vl) = h\<lparr>gh_lba_self := gh_lba_alt h, gh_lba_alt := gh_lba_self h,
      gh_lba_table := gh_lba_end h + 1, gh_self_checksum := c2\<rparr>"
proof -
  have nb: "gh_lba_alt (header_new g bs nb) + 1 = nb" by (simp add: header_new_def)
  obtain x where x: "data_extent (variant w) req nb bs = Some (Inr x)"
    and l: "try_bind (label_new cd g bs nb [meta_entry rnd (header_new g bs nb) x, data_entry (header_new g bs nb) x])
          (\<lambda>gpt. Inr \<lparr> vl_version = w, vl_gpt = gpt \<rparr>) = Inr vl"
    using assms nb
    by (auto simp: version_generate_def layout_generate_def build_partitions_def try_bind_Inr
        meta_entry_def data_entry_def)
  let ?ps = "[meta_entry rnd (header_new g bs nb) x, data_entry (header_new g bs nb) x]"
  obtain gpt where g: "label_new cd g bs nb ?ps = Inr gpt" and vl: "vl = \<lparr> vl_version = w, vl_gpt = gpt \<rparr>"
    using l by (auto simp: try_bind_Inr)
  have n: "gh_num_entries (header_new g bs nb) = 128" by (simp add: header_new_def)
  obtain crc c h sec where
    crc: "table_checksum cd ?ps 128 = Inr crc" and
    h: "header_checksum cd ((header_new g bs nb)\<lparr>gh_table_crc := crc\<rparr>) = Inr (c, h)" and
    sec: "as_secondary cd h = Inr sec" and
    gpt: "gl_status gpt = LsNeither" "gl_block_size gpt = bs" "gl_primary gpt = h"
      "gl_partitions gpt = ?ps" "gl_secondary gpt = sec"
    using g unfolding label_new_def Let_def n
    by (auto simp: try_bind_Inr map_err_Inr)
  have h': "h = (header_new g bs nb)\<lparr>gh_table_crc := crc, gh_self_checksum := c\<rparr>"
    using h by (auto simp: header_checksum_Inr)
  have "?ps = [meta_entry rnd h x, data_entry h x]"
    by (simp add: h' meta_entry_def data_entry_def)
  thus ?thesis
    using x crc gpt vl h' as_secondary_Inr [OF sec] by (auto simp: version_data_extent_def)
qed

text \<open>The headers, the table and the layout of a generated label pass the checks.\<close>

lemma gen_primary_valid:
  assumes "blk_ok bs" "table_blks bs + 2 \<le> unat nb"
  shows "validate_primary_header ((header_new g bs nb)\<lparr>gh_table_crc := t, gh_self_checksum := c\<rparr>) bs nb = Inr ()"
proof -
  note n = header_new_nat [OF assms, of g]
  have "\<not> gh_lba_end (header_new g bs nb) \<ge> gh_lba_alt (header_new g bs nb)"
    using n assms(2) by (simp add: u64_le_nat)
  moreover have "unat (2 + get_blocks PARTITION_TABLE_SIZE bs) = 2 + table_blks bs"
    using get_blocks_table [OF assms(1)] table_blks_mib(2) [OF assms(1)] mib_bounds(3) [OF assms(1)]
    by (simp add: unat_add_64)
  hence "\<not> 2 + get_blocks PARTITION_TABLE_SIZE bs > gh_lba_start (header_new g bs nb)"
    using n table_blks_mib(2) [OF assms(1)] by (simp add: u64_less_nat)
  ultimately show ?thesis
    using n(4) by (simp add: validate_primary_header_def header_new_def PARTITION_TABLE_SIZE_def)
qed

lemma gen_secondary_valid:
  assumes "blk_ok bs" "table_blks bs + 2 \<le> unat nb"
    and h_def: "h = (header_new g bs nb)\<lparr>gh_table_crc := t, gh_self_checksum := c\<rparr>"
  shows "validate_secondary_header (h\<lparr>gh_lba_self := gh_lba_alt h, gh_lba_alt := gh_lba_self h,
      gh_lba_table := gh_lba_end h + 1, gh_self_checksum := c2\<rparr>) bs nb = Inr ()"
proof -
  note n = header_new_nat [OF assms(1,2), of g]
  have "\<not> 1 \<ge> gh_lba_start (header_new g bs nb)"
    using n(1) mib_bounds(2) [OF assms(1)] by (simp add: u64_le_nat)
  moreover have "gh_lba_end (header_new g bs nb) + 1 + get_blocks PARTITION_TABLE_SIZE bs =
      gh_lba_alt (header_new g bs nb)"
    by (simp add: header_new_def)
  ultimately show ?thesis
    using n(4) unfolding h_def
    by (simp add: validate_secondary_header_def header_new_def PARTITION_TABLE_SIZE_def)
qed

lemma gen_entries_valid:
  assumes ok: "blk_ok bs" "table_blks bs + 2 \<le> unat nb"
    and x: "version_data_extent w req nb bs = Some (Inr x)"
    and h_def: "h = (header_new g bs nb)\<lparr>gh_table_crc := t, gh_self_checksum := c\<rparr>"
  shows "validate_entries [meta_entry rnd h x, data_entry h x] h = Inr ()"
    "0 < ge_start (meta_entry rnd h x)" "0 < ge_start (data_entry h x)"
proof -
  note n = header_new_nat [OF ok, of g] and e = version_extent_ok [OF ok x [unfolded version_data_extent_def]]
  have m: "1 \<le> meta_mib w" by (cases w) auto
  have "mib bs \<le> meta_mib w * mib bs" using m by simp
  hence s: "2 * mib bs \<le> unat (de_start x)" using e(1) by simp
  hence p: "unat (de_start x - 1) = unat (de_start x) - 1"
    using mib_bounds(1) [OF ok(1)] by (simp add: unat_sub_64)
  have hs: "gh_lba_start h = gh_lba_start (header_new g bs nb)" "gh_lba_end h = gh_lba_end (header_new g bs nb)"
    by (simp_all add: h_def)
  show "validate_entries [meta_entry rnd h x, data_entry h x] h = Inr ()"
  proof -
    have i: "unat (de_start x) \<le> unat (de_end x)" "unat (de_end x) \<le> unat (gh_lba_end h)"
      using e(2,3) n(2) hs by (simp_all add: u64_le_nat)
    hence "unat (de_start x - 1) \<le> unat (gh_lba_end h)" "mib bs \<le> unat (de_start x - 1)"
      using p s mib_bounds(1) [OF ok(1)] by linarith+
    moreover have "unat (gh_lba_start h) = mib bs" using n(1) hs by simp
    ultimately show ?thesis
      using i s
      by (simp add: meta_entry_def data_entry_def u64_less_nat)
  qed
  show "0 < ge_start (meta_entry rnd h x)" "0 < ge_start (data_entry h x)"
    using n s mib_bounds(1) [OF ok(1)] by (simp_all add: meta_entry_def data_entry_def hs u64_less_nat)
qed

lemma gen_layout_check:
  assumes ok: "blk_ok bs" "table_blks bs + 2 \<le> unat nb"
    and x: "version_data_extent w req nb bs = Some (Inr x)"
    and l: "gl_block_size l = bs" "gl_partitions l = [meta_entry rnd h x, data_entry h x]"
      "gh_lba_start h = gh_lba_start (header_new g bs nb)"
  shows "layout_check (variant w') l \<longleftrightarrow> w' = w"
proof -
  note n = header_new_nat [OF ok, of g] and e = version_extent_ok [OF ok x [unfolded version_data_extent_def]]
  have p: "label_partition l META_NAME = Some (meta_entry rnd h x)"
      "label_partition l DATA_NAME = Some (data_entry h x)"
    by (simp_all add: label_partition_def l meta_entry_def data_entry_def META_NAME_def DATA_NAME_def)
  have g: "unat (get_blocks (ly_META_SIZE (variant w')) bs) = meta_mib w' * mib bs"
    by (rule get_blocks_mib [OF ok(1) maya_layout.meta [OF variant_layout]])
  have "unat (de_start x - gh_lba_start h) = meta_mib w * mib bs"
    using e(1) n(1) l(3) by (simp add: unat_sub_64)
  hence "de_start x - 1 - gh_lba_start h + 1 = get_blocks (ly_META_SIZE (variant w')) bs \<longleftrightarrow>
      meta_mib w * mib bs = meta_mib w' * mib bs"
    using g by (simp add: u64_eq_nat [of "de_start x - gh_lba_start h"])
  moreover have "meta_mib w * mib bs = meta_mib w' * mib bs \<longleftrightarrow> w' = w"
    using mib_bounds(1) [OF ok(1)] by (cases w; cases w') auto
  ultimately show ?thesis
    by (simp add: layout_check_def p l(1)) (simp add: meta_entry_def data_entry_def)
qed

text \<open>A sample device of 16 MiB, and a partition for 5000000 bytes on it.\<close>

lemma sample_device: "blk_ok 512" "table_blks 512 + 2 \<le> unat (32768 :: u64)"
  by (simp_all add: blk_ok_def table_blks_def)

lemma sample_extent:
  "version_data_extent V2 5000000 32768 512 = Some (Inr \<lparr> de_start = 8192, de_end = 18431 \<rparr>)"
  by code_simp

text \<open>C11: On a device that holds at least the two GPT tables, the data partition of both label
  versions starts at the version's data offset, is not empty, ends at or before the last usable
  block recorded in the GPT header, and for version 2 its length is a multiple of 1 MiB and the last
  4 MiB of the device stay free.\<close>

theorem data_extent_placement:
  assumes "blk_ok bs" "table_blks bs + 2 \<le> unat nb"
    and "version_data_extent w req nb bs = Some (Inr x)"
  shows "data_start_blks w bs = Some (de_start x) \<and> de_start x \<le> de_end x \<and>
    de_end x \<le> gh_lba_end (header_new g bs nb) \<and>
    (w = V2 \<longrightarrow> mib bs dvd unat (de_size x) \<and> unat (de_end x) + 4 * mib bs < unat nb)"
proof -
  note x = version_extent_ok [OF assms(1,2) assms(3) [unfolded version_data_extent_def]]
  have "unat (ly_DATA_START_OFFSET (variant w)) = (meta_mib w + 1) * mib bs * unat bs"
    unfolding maya_layout.start [OF variant_layout] using mib_mult [OF assms(1)]
    by (simp only: mult.assoc)
  hence "unat (ly_DATA_START_OFFSET (variant w) div bs) = (meta_mib w + 1) * mib bs"
    using blk_ok_pos [OF assms(1)] by (simp only: unat_div_64) (simp add: unat_eq_0)
  hence "data_start_blks w bs = Some (de_start x)"
    using x(1) blk_ok_pos [OF assms(1)] by (simp add: data_start_blks_def u64_eq_nat)
  moreover have "de_end x \<le> gh_lba_end (header_new g bs nb)"
    using x(3) header_new_nat(2) [OF assms(1,2)] by (simp add: u64_le_nat)
  moreover have "mib bs dvd unat (de_size x)" if "w = V2"
    using that mib_bounds(1) [OF assms(1)] by (auto simp: x(5) spec_blocks_def min_def)
  ultimately show ?thesis using x(2,4) by auto
qed

theorem data_extent_placement_witness:
  "version_data_extent V2 5000000 32768 512 = Some (Inr \<lparr> de_start = 8192, de_end = 18431 \<rparr>) \<and>
   data_start_blks V2 512 = Some 8192 \<and> (18431 :: u64) \<le> gh_lba_end (header_new guid_default 512 32768) \<and>
   mib 512 dvd unat (de_size \<lparr> de_start = 8192, de_end = 18431 \<rparr>)"
  using data_extent_placement [OF sample_device sample_extent, of guid_default] sample_extent by simp

text \<open>C19: On the same devices \<open>data_extent\<close> computes exactly the placement of the integer
  specification for every requested size, without overflow and without panic: it fails only when
  the device is too small for a non-empty data partition.\<close>

theorem data_extent_refines:
  assumes "blk_ok bs" "table_blks bs + 2 \<le> unat nb"
  shows "version_data_extent w req nb bs =
    Some (case spec_extent (meta_mib w) (align_mib w) (void_mib w) (unat (get_blocks req bs)) (unat nb) bs of
            None \<Rightarrow> Inl (LE_DeviceTooSmall nb bs)
          | Some (s, e) \<Rightarrow> Inr \<lparr> de_start = of_nat s, de_end = of_nat e \<rparr>)"
  unfolding version_data_extent_def by (rule version_extent_spec [OF assms])

theorem data_extent_refines_witness:
  "version_data_extent V1 (- 1) 32768 512 =
    Some (case spec_extent 4 0 0 (unat (get_blocks (- 1) 512)) 32768 512 of
            None \<Rightarrow> Inl (LE_DeviceTooSmall 32768 512)
          | Some (s, e) \<Rightarrow> Inr \<lparr> de_start = of_nat s, de_end = of_nat e \<rparr>)"
  using data_extent_refines [OF sample_device, of V1 "- 1"] by simp

text \<open>On a device smaller than the two GPT tables the computation of the last usable block wraps
  around, and a version 1 data partition is placed beyond the end of the device.\<close>

theorem data_extent_tiny_device:
  "version_data_extent V1 512 33 512 = Some (Inr \<lparr> de_start = 10240, de_end = 10240 \<rparr>)"
  by code_simp

end
