(* ===== verification/Gpt_Codec.thy ===== *)
theory Gpt_Codec
  imports Gpt_Label
begin

text \<open>
  The laws of the encoding library that the GPT code relies on (\<open>codec_ok\<close>), the round trip of
  partition entries and their names under them, and the little-endian fixed-size encoding of the
  structures, which satisfies them.
\<close>

section \<open>The laws of the encoding\<close>

lemma ser_entries_append:
  "ser_entries cd xs = Inr a \<Longrightarrow> ser_entries cd ys = Inr b \<Longrightarrow> ser_entries cd (xs @ ys) = Inr (a @ b)"
  by (induction xs arbitrary: a) (auto simp: try_bind_Inr)

text \<open>Fixed-size arrays have their size.\<close>

definition guid_ok :: "GptGuid \<Rightarrow> bool" where "guid_ok g \<longleftrightarrow> length (gg_node g) = 8"

definition header_ok :: "GptHeader \<Rightarrow> bool" where
  "header_ok h \<longleftrightarrow> length (gh_signature h) = 8 \<and> length (gh_revision h) = 4 \<and>
     length (gh_reserved h) = 4 \<and> guid_ok (gh_guid h)"

definition mbr_ok :: "Pmbr \<Rightarrow> bool" where
  "mbr_ok m \<longleftrightarrow> length (pm_entries m) = 4 \<and> length (pm_signature m) = 2 \<and>
     (\<forall>e \<in> set (pm_entries m). length (me_chs_start e) = 3 \<and> length (me_chs_last e) = 3)"

text \<open>A name that survives: shorter than 36 units, without a terminator inside, well-formed UTF-16.\<close>

definition name_ok :: "u16 list \<Rightarrow> bool" where
  "name_ok n \<longleftrightarrow> length n < 36 \<and> 0 \<notin> set n \<and> from_utf16_lossy n = n"

definition entry_ok :: "GptEntry \<Rightarrow> bool" where
  "entry_ok e \<longleftrightarrow> guid_ok (ge_type e) \<and> guid_ok (ge_guid e) \<and> name_ok (ge_name e)"

text \<open>Decoding is the inverse of encoding, the sizes are those of the GPT structures, and an unused
  entry is encoded as zeroes.\<close>

definition codec_ok :: "gpt_codec \<Rightarrow> bool" where
  "codec_ok cd \<longleftrightarrow>
     (\<forall>h. header_ok h \<longrightarrow> (\<exists>b. gc_ser_header cd h = Inr b \<and> length b = 92 \<and>
        (\<forall>r. gc_de_header cd (b @ r) = Inr h))) \<and>
     (\<forall>m. mbr_ok m \<longrightarrow> (\<exists>b. gc_ser_mbr cd m = Inr b \<and> length b = 72 \<and> gc_de_mbr cd b = Inr m)) \<and>
     (\<forall>e. guid_ok (ge_type e) \<and> guid_ok (ge_guid e) \<longrightarrow> (\<exists>b. gc_ser_entry cd e = Inr b \<and> length b = 56 \<and>
        (\<forall>r. gc_de_entry cd (b @ r) = Inr (e\<lparr>ge_name := []\<rparr>, r)))) \<and>
     (\<forall>u. length (gc_ser_u16 cd u) = 2 \<and> (\<forall>r. gc_de_u16 cd (gc_ser_u16 cd u @ r) = Inr (u, r))) \<and>
     gc_ser_entry cd entry_default = Inr (replicate 56 0) \<and> gc_ser_u16 cd 0 = [0, 0]"

lemma codec_headerD: "codec_ok cd \<Longrightarrow> header_ok h \<Longrightarrow> \<exists>b. gc_ser_header cd h = Inr b \<and> length b = 92 \<and>
    (\<forall>r. gc_de_header cd (b @ r) = Inr h)"
  by (simp add: codec_ok_def)

lemma codec_mbrD: "codec_ok cd \<Longrightarrow> mbr_ok m \<Longrightarrow>
    \<exists>b. gc_ser_mbr cd m = Inr b \<and> length b = 72 \<and> gc_de_mbr cd b = Inr m"
  by (simp add: codec_ok_def)

lemma codec_entryD: "codec_ok cd \<Longrightarrow> guid_ok (ge_type e) \<Longrightarrow> guid_ok (ge_guid e) \<Longrightarrow>
    \<exists>b. gc_ser_entry cd e = Inr b \<and> length b = 56 \<and> (\<forall>r. gc_de_entry cd (b @ r) = Inr (e\<lparr>ge_name := []\<rparr>, r))"
  by (simp add: codec_ok_def)

lemma codec_u16D:
  assumes "codec_ok cd"
  shows "length (gc_ser_u16 cd u) = 2" "gc_de_u16 cd (gc_ser_u16 cd u @ r) = Inr (u, r)"
    "gc_ser_u16 cd 0 = [0, 0]" "gc_ser_entry cd entry_default = Inr (replicate 56 0)"
  using assms by (simp_all add: codec_ok_def)

text \<open>The visitor keeps the units before the terminator and reads through the padding.\<close>

lemma visit_loop_units:
  assumes "codec_ok cd" "0 \<notin> set us"
  shows "visit_loop cd (length us + k) (concat (map (gc_ser_u16 cd) us) @ bs) out False =
    visit_loop cd k bs (out @ us) False"
  using assms(2)
proof (induction us arbitrary: out)
  case (Cons u us)
  thus ?case using Cons.IH [of "out @ [u]"] by (simp add: codec_u16D [OF assms(1)])
qed simp

lemma visit_loop_zeroes:
  assumes "codec_ok cd"
  shows "visit_loop cd k (concat (replicate k (gc_ser_u16 cd 0)) @ r) out en = Inr (out, en \<or> 0 < k, r)"
  by (induction k arbitrary: en) (simp_all add: codec_u16D(2) [OF assms])

lemma visit_seq_name:
  assumes "codec_ok cd" "name_ok n"
  shows "visit_seq cd (concat (map (gc_ser_u16 cd) (name_units n)) @ r) = Inr (n, r)"
proof -
  have l: "length n < 36" and z: "0 \<notin> set n" using assms(2) by (simp_all add: name_ok_def)
  have "visit_loop cd (length n + (36 - length n))
      (concat (map (gc_ser_u16 cd) n) @ concat (replicate (36 - length n) (gc_ser_u16 cd 0)) @ r) [] False =
      Inr (n, True, r)"
    unfolding visit_loop_units [OF assms(1) z] using l by (simp add: visit_loop_zeroes [OF assms(1)])
  thus ?thesis
    using l assms(2) by (simp add: visit_seq_def name_units_def name_ok_def)
qed

lemma entry_roundtrip:
  assumes "codec_ok cd" "entry_ok e"
  shows "\<exists>b. ser_entry cd e = Inr b \<and> length b = 128 \<and> (\<forall>r. de_entry cd (b @ r) = Inr (e, r))"
proof -
  obtain b where b: "gc_ser_entry cd e = Inr b" "length b = 56"
      "\<And>r. gc_de_entry cd (b @ r) = Inr (e\<lparr>ge_name := []\<rparr>, r)"
    using codec_entryD [OF assms(1), of e] assms(2) by (auto simp: entry_ok_def)
  let ?n = "concat (map (gc_ser_u16 cd) (name_units (ge_name e)))"
  have "length (concat (map (gc_ser_u16 cd) us)) = 2 * length us" for us
    by (induction us) (simp_all add: codec_u16D(1) [OF assms(1)])
  moreover have "length (name_units (ge_name e)) = 36" by (simp add: name_units_def)
  ultimately have "length (b @ ?n) = 128" using b(2) by simp
  moreover have "de_entry cd ((b @ ?n) @ r) = Inr (e, r)" for r
    using assms b(3) by (simp add: de_entry_def visit_seq_name entry_ok_def)
  moreover have "ser_entry cd e = Inr (b @ ?n)" using b(1) by (simp add: ser_entry_def)
  ultimately show ?thesis by blast
qed

lemma entry_default_ok: "entry_ok entry_default"
  by (simp add: entry_ok_def entry_default_def guid_ok_def guid_default_def name_ok_def)

lemma ser_entry_default:
  assumes "codec_ok cd" shows "ser_entry cd entry_default = Inr (replicate 128 0)"
proof -
  have "concat (map (gc_ser_u16 cd) (replicate n 0)) = replicate (2 * n) 0" for n
    by (induction n) (simp_all add: codec_u16D(3) [OF assms])
  moreover have "ge_name entry_default = []" by (simp add: entry_default_def)
  ultimately show ?thesis
    by (simp add: ser_entry_def codec_u16D(4) [OF assms] name_units_def flip: replicate_add)
qed

lemma entries_roundtrip:
  assumes "codec_ok cd" "\<forall>e \<in> set es. entry_ok e"
  shows "\<exists>b. ser_entries cd es = Inr b \<and> length b = 128 * length es \<and>
    (\<forall>r. de_entries cd (length es) (b @ r) = Inr es)"
  using assms(2)
proof (induction es)
  case (Cons e es)
  then obtain b c where "ser_entry cd e = Inr b" "length b = 128" "\<And>r. de_entry cd (b @ r) = Inr (e, r)"
    "ser_entries cd es = Inr c" "length c = 128 * length es" "\<And>r. de_entries cd (length es) (c @ r) = Inr es"
    using entry_roundtrip [OF assms(1), of e] by auto
  thus ?case by simp
qed simp

lemma ser_entries_default:
  assumes "codec_ok cd"
  shows "ser_entries cd (replicate n entry_default) = Inr (replicate (128 * n) 0)"
  by (induction n) (simp_all add: ser_entry_default [OF assms] flip: replicate_add)

section \<open>The little-endian encoding\<close>

primrec le_bytes :: "nat \<Rightarrow> nat \<Rightarrow> u8 list" where
  "le_bytes 0 x = []"
| "le_bytes (Suc n) x = of_nat (x mod 256) # le_bytes n (x div 256)"

primrec le_val :: "u8 list \<Rightarrow> nat" where
  "le_val [] = 0"
| "le_val (b # bs) = unat b + 256 * le_val bs"

definition de_arr :: "nat \<Rightarrow> u8 list \<Rightarrow> string + (u8 list \<times> u8 list)" where
  "de_arr n bs = (if length bs < n then Inl ''unexpected end of file'' else Inr (take n bs, drop n bs))"

definition de_le :: "nat \<Rightarrow> u8 list \<Rightarrow> string + (nat \<times> u8 list)" where
  "de_le n bs = try_bind (de_arr n bs) (\<lambda>(a, r). Inr (le_val a, r))"

definition en_guid :: "GptGuid \<Rightarrow> u8 list" where
  "en_guid g = le_bytes 4 (unat (gg_time_low g)) @ le_bytes 2 (unat (gg_time_mid g)) @
     le_bytes 2 (unat (gg_time_high g)) @ gg_node g"

definition de_guid :: "u8 list \<Rightarrow> string + (GptGuid \<times> u8 list)" where
  "de_guid bs = try_bind (de_le 4 bs) (\<lambda>(a, bs). try_bind (de_le 2 bs) (\<lambda>(b, bs).
     try_bind (de_le 2 bs) (\<lambda>(c, bs). try_bind (de_arr 8 bs) (\<lambda>(d, bs).
       Inr (\<lparr> gg_time_low = of_nat a, gg_time_mid = of_nat b, gg_time_high = of_nat c, gg_node = d \<rparr>, bs)))))"

definition en_header :: "GptHeader \<Rightarrow> u8 list" where
  "en_header h = gh_signature h @ gh_revision h @ le_bytes 4 (unat (gh_header_size h)) @
     le_bytes 4 (unat (gh_self_checksum h)) @ gh_reserved h @ le_bytes 8 (unat (gh_lba_self h)) @
     le_bytes 8 (unat (gh_lba_alt h)) @ le_bytes 8 (unat (gh_lba_start h)) @ le_bytes 8 (unat (gh_lba_end h)) @
     en_guid (gh_guid h) @ le_bytes 8 (unat (gh_lba_table h)) @ le_bytes 4 (unat (gh_num_entries h)) @
     le_bytes 4 (unat (gh_entry_size h)) @ le_bytes 4 (unat (gh_table_crc h))"

definition de_header :: "u8 list \<Rightarrow> string + GptHeader" where
  "de_header bs =
     try_bind (de_arr 8 bs) (\<lambda>(sig, bs). try_bind (de_arr 4 bs) (\<lambda>(rev, bs).
     try_bind (de_le 4 bs) (\<lambda>(hs, bs). try_bind (de_le 4 bs) (\<lambda>(sc, bs). try_bind (de_arr 4 bs) (\<lambda>(rs, bs).
     try_bind (de_le 8 bs) (\<lambda>(l1, bs). try_bind (de_le 8 bs) (\<lambda>(l2, bs). try_bind (de_le 8 bs) (\<lambda>(l3, bs).
     try_bind (de_le 8 bs) (\<lambda>(l4, bs). try_bind (de_guid bs) (\<lambda>(g, bs). try_bind (de_le 8 bs) (\<lambda>(l5, bs).
     try_bind (de_le 4 bs) (\<lambda>(ne, bs). try_bind (de_le 4 bs) (\<lambda>(es, bs). try_bind (de_le 4 bs) (\<lambda>(tc, bs).
       Inr \<lparr> gh_signature = sig, gh_revision = rev, gh_header_size = of_nat hs, gh_self_checksum = of_nat sc,
             gh_reserved = rs, gh_lba_self = of_nat l1, gh_lba_alt = of_nat l2, gh_lba_start = of_nat l3,
             gh_lba_end = of_nat l4, gh_guid = g, gh_lba_table = of_nat l5, gh_num_entries = of_nat ne,
             gh_entry_size = of_nat es, gh_table_crc = of_nat tc \<rparr>))))))))))))))"

definition en_entry :: "GptEntry \<Rightarrow> u8 list" where
  "en_entry e = en_guid (ge_type e) @ en_guid (ge_guid e) @ le_bytes 8 (unat (ge_start e)) @
     le_bytes 8 (unat (ge_end e)) @ le_bytes 8 (unat (ge_attr e))"

definition de_entry_head :: "u8 list \<Rightarrow> string + (GptEntry \<times> u8 list)" where
  "de_entry_head bs =
     try_bind (de_guid bs) (\<lambda>(t, bs). try_bind (de_guid bs) (\<lambda>(g, bs). try_bind (de_le 8 bs) (\<lambda>(s, bs).
     try_bind (de_le 8 bs) (\<lambda>(e, bs). try_bind (de_le 8 bs) (\<lambda>(a, bs).
       Inr (\<lparr> ge_type = t, ge_guid = g, ge_start = of_nat s, ge_end = of_nat e, ge_attr = of_nat a,
              ge_name = [] \<rparr>, bs))))))"

definition en_mbr_entry :: "MbrEntry \<Rightarrow> u8 list" where
  "en_mbr_entry e = me_attributes e # me_chs_start e @ me_ent_type e # me_chs_last e @
     le_bytes 4 (unat (me_lba_start e)) @ le_bytes 4 (unat (me_num_sectors e))"

definition de_mbr_entry :: "u8 list \<Rightarrow> string + (MbrEntry \<times> u8 list)" where
  "de_mbr_entry bs =
     try_bind (de_arr 1 bs) (\<lambda>(a, bs). try_bind (de_arr 3 bs) (\<lambda>(cs, bs). try_bind (de_arr 1 bs) (\<lambda>(t, bs).
     try_bind (de_arr 3 bs) (\<lambda>(cl, bs). try_bind (de_le 4 bs) (\<lambda>(l, bs). try_bind (de_le 4 bs) (\<lambda>(n, bs).
       Inr (\<lparr> me_attributes = hd a, me_chs_start = cs, me_ent_type = hd t, me_chs_last = cl,
              me_lba_start = of_nat l, me_num_sectors = of_nat n \<rparr>, bs)))))))"

definition en_mbr :: "Pmbr \<Rightarrow> u8 list" where
  "en_mbr m = le_bytes 4 (unat (pm_disk_signature m)) @ le_bytes 2 (unat (pm_reserved m)) @
     concat (map en_mbr_entry (pm_entries m)) @ pm_signature m"

definition de_mbr :: "u8 list \<Rightarrow> string + Pmbr" where
  "de_mbr bs =
     try_bind (de_le 4 bs) (\<lambda>(d, bs). try_bind (de_le 2 bs) (\<lambda>(r, bs).
     try_bind (de_mbr_entry bs) (\<lambda>(e1, bs). try_bind (de_mbr_entry bs) (\<lambda>(e2, bs).
     try_bind (de_mbr_entry bs) (\<lambda>(e3, bs). try_bind (de_mbr_entry bs) (\<lambda>(e4, bs).
     try_bind (de_arr 2 bs) (\<lambda>(s, bs).
       Inr \<lparr> pm_disk_signature = of_nat d, pm_reserved = of_nat r, pm_entries = [e1, e2, e3, e4],
             pm_signature = s \<rparr>)))))))"

text \<open>The checksum does not matter for the laws; the sum of the bytes will do.\<close>

definition ref_codec :: gpt_codec where
  "ref_codec = \<lparr> gc_crc32 = (\<lambda>bs. sum_list (map ucast bs)),
     gc_ser_header = Inr \<circ> en_header, gc_de_header = de_header,
     gc_ser_entry = Inr \<circ> en_entry, gc_de_entry = de_entry_head,
     gc_ser_u16 = (\<lambda>u. le_bytes 2 (unat u)),
     gc_de_u16 = (\<lambda>bs. try_bind (de_le 2 bs) (\<lambda>(u, r). Inr (of_nat u, r))),
     gc_ser_mbr = Inr \<circ> en_mbr, gc_de_mbr = de_mbr \<rparr>"

lemma le_bytes_length [simp]: "length (le_bytes n x) = n"
  by (induction n arbitrary: x) simp_all

lemma le_bytes_zero [simp]: "le_bytes n 0 = replicate n 0"
  by (induction n) simp_all

lemma le_val_bytes: "x < 256 ^ n \<Longrightarrow> le_val (le_bytes n x) = x"
proof (induction n arbitrary: x)
  case (Suc n)
  have "unat (of_nat (x mod 256) :: u8) = x mod 256" by (simp add: unat_of_nat)
  moreover have "x div 256 < 256 ^ n" using Suc.prems by (simp add: div_less_iff_less_mult mult.commute)
  ultimately show ?case using Suc.IH by simp
qed simp

lemma de_arr_append: "length a = n \<Longrightarrow> de_arr n (a @ r) = Inr (a, r)"
  by (simp add: de_arr_def)

lemma de_le_append: "x < 256 ^ n \<Longrightarrow> de_le n (le_bytes n x @ r) = Inr (x, r)"
  by (simp add: de_le_def de_arr_append le_val_bytes)

lemma de_le_word:
  "de_le 2 (le_bytes 2 (unat (a :: u16)) @ r) = Inr (unat a, r)"
  "de_le 4 (le_bytes 4 (unat (b :: u32)) @ r) = Inr (unat b, r)"
  "de_le 8 (le_bytes 8 (unat (c :: u64)) @ r) = Inr (unat c, r)"
proof -
  have "unat a < 65536" "unat b < 4294967296" "unat c < 18446744073709551616"
    using unsigned_less [where ?'a = nat, of a] unsigned_less [where ?'a = nat, of b]
      unsigned_less [where ?'a = nat, of c] by simp_all
  thus "de_le 2 (le_bytes 2 (unat a) @ r) = Inr (unat a, r)" "de_le 4 (le_bytes 4 (unat b) @ r) = Inr (unat b, r)"
    "de_le 8 (le_bytes 8 (unat c) @ r) = Inr (unat c, r)"
    by (simp_all add: de_le_append)
qed

lemma de_guid_append: "guid_ok g \<Longrightarrow> de_guid (en_guid g @ r) = Inr (g, r)"
  by (simp add: de_guid_def en_guid_def de_le_word de_arr_append guid_ok_def)

lemma en_guid_length: "guid_ok g \<Longrightarrow> length (en_guid g) = 16"
  by (simp add: en_guid_def guid_ok_def)

lemma de_header_append: "header_ok h \<Longrightarrow> de_header (en_header h @ r) = Inr h"
  by (simp add: de_header_def en_header_def de_le_word de_arr_append de_guid_append header_ok_def)

lemma de_mbr_entry_append:
  assumes "length (me_chs_start e) = 3" "length (me_chs_last e) = 3"
  shows "de_mbr_entry (en_mbr_entry e @ r) = Inr (e, r)"
  using assms de_arr_append [of "[_]" 1]
  by (simp add: de_mbr_entry_def en_mbr_entry_def de_le_word de_arr_append)

lemma mbr_entries4: assumes "mbr_ok m" shows "\<exists>a b c d. pm_entries m = [a, b, c, d]"
  using assms by (auto simp: mbr_ok_def eval_nat_numeral length_Suc_conv)

lemma ref_codec_ok: "codec_ok ref_codec"
proof -
  have "de_mbr (en_mbr m) = Inr m \<and> length (en_mbr m) = 72" if ok: "mbr_ok m" for m
  proof -
    obtain a b c d where e: "pm_entries m = [a, b, c, d]" using mbr_entries4 [OF ok] by blast
    thus ?thesis
      using ok de_arr_append [of "pm_signature m" 2 "[]"]
      by (simp add: mbr_ok_def de_mbr_def en_mbr_def de_le_word de_mbr_entry_append)
         (simp add: en_mbr_entry_def)
  qed
  moreover have "header_ok h \<Longrightarrow> length (en_header h) = 92" for h
    by (simp add: header_ok_def en_header_def en_guid_length)
  moreover have "guid_ok (ge_type e) \<Longrightarrow> guid_ok (ge_guid e) \<Longrightarrow>
      length (en_entry e) = 56 \<and> de_entry_head (en_entry e @ r) = Inr (e\<lparr>ge_name := []\<rparr>, r)" for e r
    by (simp add: en_entry_def de_entry_head_def en_guid_length de_guid_append de_le_word)
  moreover have "en_entry entry_default = replicate 56 0"
    by (simp add: en_entry_def en_guid_def entry_default_def guid_default_def flip: replicate_add)
  moreover have "replicate 2 (0 :: u8) = [0, 0]" by (simp add: eval_nat_numeral)
  ultimately show ?thesis
    by (simp add: codec_ok_def ref_codec_def de_header_append de_le_word)
qed

text \<open>A block of zeroes decodes as a header of zeroes.\<close>

definition zero_header :: GptHeader where
  "zero_header = \<lparr> gh_signature = replicate 8 0, gh_revision = replicate 4 0, gh_header_size = 0,
     gh_self_checksum = 0, gh_reserved = replicate 4 0, gh_lba_self = 0, gh_lba_alt = 0, gh_lba_start = 0,
     gh_lba_end = 0, gh_guid = guid_default, gh_lba_table = 0, gh_num_entries = 0, gh_entry_size = 0,
     gh_table_crc = 0 \<rparr>"

lemma ref_de_zeroes: "gc_de_header ref_codec (replicate (92 + n) 0) = Inr zero_header"
proof -
  have "header_ok zero_header" by (simp add: header_ok_def zero_header_def guid_ok_def guid_default_def)
  moreover have "en_header zero_header = replicate 92 0"
    by (simp add: en_header_def en_guid_def zero_header_def guid_default_def flip: replicate_add)
  ultimately show ?thesis
    using de_header_append [of zero_header "replicate n 0"] by (simp add: ref_codec_def replicate_add)
qed

section \<open>Two defects of the decoding\<close>

text \<open>A partition name that has a non-zero unit after its terminator stops the visitor at that
  unit: the remaining units of the name stay unread, and the decoder of the table takes them for the
  next entry.\<close>

theorem name_garbage_desynchronises:
  assumes "codec_ok cd" "u \<noteq> 0" "v \<noteq> 0" "u < 0xd800"
  shows "visit_seq cd (concat (map (gc_ser_u16 cd) ([u, 0, v] @ rest)) @ bs) =
    Inr ([u], concat (map (gc_ser_u16 cd) rest) @ bs)"
proof -
  let ?r = "concat (map (gc_ser_u16 cd) rest) @ bs"
  have "visit_loop cd (Suc (Suc (Suc 33))) (gc_ser_u16 cd u @ gc_ser_u16 cd 0 @ gc_ser_u16 cd v @ ?r) [] False =
      Inr ([u], True, ?r)"
    unfolding visit_loop.simps using assms(2,3) by (simp add: codec_u16D(2) [OF assms(1)])
  thus ?thesis using assms(4) by (simp add: visit_seq_def)
qed

theorem name_garbage_desynchronises_witness:
  "visit_seq ref_codec (concat (map (gc_ser_u16 ref_codec) ([0x41, 0, 0x42] @ replicate 33 0x43)) @ []) =
    Inr ([0x41], concat (map (gc_ser_u16 ref_codec) (replicate 33 0x43)) @ [])"
  by (rule name_garbage_desynchronises [OF ref_codec_ok]) simp_all

text \<open>The check that bounds the partition table multiplies two 32-bit fields before widening: a
  header that claims 2147483648 entries of two bytes passes it.\<close>

theorem table_size_check_wraps:
  "validate_primary_header
     ((header_new guid_default 512 32768)\<lparr>gh_num_entries := 0x80000000, gh_entry_size := 2\<rparr>) 512 32768 = Inr ()"
  by code_simp

end
