(* ===== verification/Gpt_Tool.thy ===== *)
theory Gpt_Tool
  imports Gpt_Layout Gpt_Codec
begin

text \<open>
  The label tool (\<open>bin/gpt.rs\<close>), which writes a label to a disk file and reads it back, and the
  round trip between the two: what \<open>primary_data\<close> and \<open>secondary_data\<close> serialise is what
  \<open>probe_label\<close> finds, also when the primary header is lost.
\<close>

unbundle bit_operations_syntax

section \<open>The disk file\<close>

text \<open>A regular file is the list of its bytes. \<open>read_exact_at\<close> past the end is an error that carries
  no system error number; \<open>write_all_at\<close> past the end extends the file with zeroes.\<close>

definition file_read :: "u8 list \<Rightarrow> u64 \<Rightarrow> u64 \<Rightarrow> CoreError + u8 list" where
  "file_read f off len =
     (if unat off + unat len \<le> length f then Inr (take (unat len) (drop (unat off) f))
      else Inl (Core_ReadDispatch EIO off len))"

definition overwrite :: "nat \<Rightarrow> u8 list \<Rightarrow> u8 list \<Rightarrow> u8 list" where
  "overwrite off b buf = take off buf @ b @ drop (off + length b) buf"

definition file_write :: "u8 list \<Rightarrow> u8 list \<Rightarrow> u64 \<Rightarrow> u8 list" where
  "file_write f b off = overwrite (unat off) b (f @ replicate (unat off - length f) 0)"

definition file_disk :: "u64 \<Rightarrow> u64 \<Rightarrow> u8 list \<Rightarrow> gpt_disk" where
  "file_disk block_size num_blocks f =
     \<lparr> gd_block_size = block_size, gd_num_blocks = num_blocks,
       gd_buffer_alloc = (\<lambda>sz. Inr (replicate (unat sz) 0)),
       gd_read_at = file_read f \<rparr>"

datatype ToolError =
    TE_Label LabelError
  | TE_BadBlockSize u64
  | TE_UnalignedDiskSize u64 u64

definition is_power_of_two :: "u64 \<Rightarrow> bool" where
  "is_power_of_two x \<longleftrightarrow> x \<noteq> 0 \<and> x AND (x - 1) = 0"

text \<open>\<open>GptDisk::disk_props\<close> of a regular file: the block size and the number of blocks.\<close>

definition disk_props :: "u8 list \<Rightarrow> u64 option \<Rightarrow> ToolError + (u64 \<times> u64)" where
  "disk_props f block_size_override =
     (let disk_bytes = of_nat (length f) :: u64;
          block_size = (case block_size_override of Some b \<Rightarrow> b | None \<Rightarrow> 512)
      in if \<not> is_power_of_two block_size then Inl (TE_BadBlockSize block_size)
         else if disk_bytes mod block_size \<noteq> 0 then Inl (TE_UnalignedDiskSize block_size disk_bytes)
         else Inr (block_size, disk_bytes div block_size))"

definition TOOL_GUID :: GptGuid where
  "TOOL_GUID = \<lparr> gg_time_low = 0x978D2F99, gg_time_mid = 0xAA7C, gg_time_high = 0x4F24,
     gg_node = [0xAE, 0x22, 0x1B, 0xF9, 0x91, 0x37, 0xD7, 0xB1] \<rparr>"

text \<open>The commands \<open>write\<close> and \<open>read\<close>; opening the file is not modelled. The file after a failure is
  not of interest: both buffers are built before the first write.\<close>

definition tool_write ::
  "gpt_codec \<Rightarrow> GptGuid \<Rightarrow> u64 option \<Rightarrow> LabelVersion \<Rightarrow> u8 list \<Rightarrow> (ToolError + u8 list) option" where
  "tool_write cd rnd ov version f =
     (case disk_props f ov of
        Inl e \<Rightarrow> Some (Inl e)
      | Inr (bs, nb) \<Rightarrow>
          let d = file_disk bs nb f
          in map_option (\<lambda>r. map_err TE_Label (
               try_bind r (\<lambda>label.
               try_bind (primary_data cd d (vl_gpt label)) (\<lambda>(poff, pbuf).
               try_bind (secondary_data cd d (vl_gpt label)) (\<lambda>(soff, sbuf).
                 Inr (file_write (file_write f pbuf poff) sbuf soff))))))
             (version_generate cd version rnd TOOL_GUID bs nb (- 1)))"

definition tool_read :: "gpt_codec \<Rightarrow> u64 option \<Rightarrow> u8 list \<Rightarrow> (ToolError + VersionedLabel) option" where
  "tool_read cd ov f =
     (case disk_props f ov of
        Inl e \<Rightarrow> Some (Inl e)
      | Inr (bs, nb) \<Rightarrow>
          (case versioned_probe cd (file_disk bs nb f) of
             None \<Rightarrow> None
           | Some (Inl e) \<Rightarrow> Some (Inl (TE_Label e))
           | Some (Inr label) \<Rightarrow> if versioned_check label then Some (Inr label) else None))"

section \<open>Slices\<close>

definition sl :: "nat \<Rightarrow> nat \<Rightarrow> u8 list \<Rightarrow> u8 list" where
  "sl off len buf = take len (drop off buf)"

lemma sl_length [simp]: "off + len \<le> length buf \<Longrightarrow> length (sl off len buf) = len"
  by (simp add: sl_def)

lemma overwrite_length [simp]: "off + length b \<le> length buf \<Longrightarrow> length (overwrite off b buf) = length buf"
  by (simp add: overwrite_def)

lemma sl_overwrite_before: "off + len \<le> woff \<Longrightarrow> woff \<le> length buf \<Longrightarrow> sl off len (overwrite woff b buf) = sl off len buf"
  by (simp add: sl_def overwrite_def drop_take)

lemma sl_overwrite_after:
  "woff + length b \<le> off \<Longrightarrow> woff + length b \<le> length buf \<Longrightarrow> sl off len (overwrite woff b buf) = sl off len buf"
  by (simp add: sl_def overwrite_def)

lemma sl_overwrite_within:
  "woff \<le> off \<Longrightarrow> off + len \<le> woff + length b \<Longrightarrow> woff \<le> length buf \<Longrightarrow>
   sl off len (overwrite woff b buf) = sl (off - woff) len b"
  by (simp add: sl_def overwrite_def)

lemma sl_all [simp]: "sl 0 (length b) b = b"
  by (simp add: sl_def)

lemma sl_split: "sl off (m + n) buf = sl off m buf @ sl (off + m) n buf"
  by (simp add: sl_def take_add add.commute)

lemma sl_replicate: "off + len \<le> n \<Longrightarrow> sl off len (replicate n x) = replicate len x"
  by (simp add: sl_def)

lemma overwrite_append:
  "pos + length b + length c \<le> length buf \<Longrightarrow>
   overwrite (pos + length b) c (overwrite pos b buf) = overwrite pos (b @ c) buf"
  by (simp add: overwrite_def add.commute add.left_commute)

lemma buf_write_overwrite: "pos + length b \<le> length buf \<Longrightarrow> buf_write pos b buf = Inr (overwrite pos b buf)"
  by (simp add: buf_write_def overwrite_def)

lemma write_entries_overwrite:
  "ser_entries cd es = Inr bytes \<Longrightarrow> pos + length bytes \<le> length buf \<Longrightarrow>
   write_entries cd pos es buf = Inr (overwrite pos bytes buf)"
proof (induction es arbitrary: pos buf bytes)
  case Nil
  thus ?case by (simp add: overwrite_def)
next
  case (Cons e es)
  then obtain b bs where b: "ser_entry cd e = Inr b" "ser_entries cd es = Inr bs" "bytes = b @ bs"
    by (auto simp: try_bind_Inr)
  thus ?case
    using Cons.prems(2) Cons.IH [OF b(2), of "pos + length b" "overwrite pos b buf"]
    by (simp add: buf_write_overwrite overwrite_append)
qed

section \<open>What the probe reads back\<close>

lemma validate_entries_append:
  "validate_entries xs h = Inr () \<Longrightarrow> validate_entries ys h = Inr () \<Longrightarrow> validate_entries (xs @ ys) h = Inr ()"
  by (induction xs) (auto split: if_splits)

lemma validate_entries_cong:
  "gh_lba_start h = gh_lba_start h' \<Longrightarrow> gh_lba_end h = gh_lba_end h' \<Longrightarrow> validate_entries es h = validate_entries es h'"
  by (induction es) simp_all

lemma validate_entries_default: "validate_entries (replicate n entry_default) h = Inr ()"
  by (induction n) (simp_all add: entry_default_def)

lemma read_table:
  assumes cd: "codec_ok cd" and es: "\<forall>e \<in> set es. entry_ok e" and n: "length es < 128"
    and h: "gh_num_entries h = 128" "table_checksum cd es 128 = Inr (gh_table_crc h)"
    and v: "validate_entries es h = Inr ()" and b: "ser_entries cd es = Inr b"
  shows "read_partitions cd (b @ replicate (128 * (128 - length es)) 0 @ r) h =
    Inr (es @ replicate (128 - length es) entry_default)"
proof -
  let ?all = "es @ replicate (128 - length es) entry_default"
  let ?bytes = "b @ replicate (128 * (128 - length es)) 0"
  have s: "ser_entries cd ?all = Inr ?bytes"
    by (rule ser_entries_append [OF b ser_entries_default [OF cd]])
  have l: "length ?all = 128" using n by simp
  have "\<forall>e \<in> set ?all. entry_ok e" using es entry_default_ok by auto
  from entries_roundtrip [OF cd this] have d: "de_entries cd 128 (?bytes @ r) = Inr ?all"
    using s l by auto
  have c: "of_nat (length es) < (128 :: u32)" "unat (of_nat (length es) :: u32) = length es"
    using n by (simp_all add: word_less_nat_alt unat_of_nat)
  have "concat (replicate k (replicate 128 (0 :: u8))) = replicate (128 * k) 0" for k
    by (induction k) (simp_all flip: replicate_add)
  hence "table_checksum cd es 128 = Inr (gc_crc32 cd ?bytes)"
    using c by (simp add: table_checksum_def b ser_entry_default [OF cd])
  moreover have "table_checksum cd ?all 128 = Inr (gc_crc32 cd ?bytes)"
    unfolding table_checksum_def l s by simp
  ultimately have t: "table_checksum cd ?all 128 = Inr (gh_table_crc h)" using h(2) by simp
  have "validate_entries ?all h = Inr ()"
    by (rule validate_entries_append [OF v validate_entries_default])
  thus ?thesis
    using d t h(1) by (simp add: read_partitions_def entries_from_slice_def validate_partitions_def)
qed

text \<open>A header whose checksum is its own is read back as it was written.\<close>

lemma read_header:
  assumes "gc_ser_header cd h = Inr b" "\<forall>r. gc_de_header cd (b @ r) = Inr h"
    and "header_checksum cd h = Inr (gh_self_checksum h, h)"
    and "gh_header_size h = HEADER_SIZE" "gh_signature h = HEADER_SIGNATURE" "gh_revision h = HEADER_REVISION"
  shows "header_from_slice cd (b @ r) = Inr h"
  using assms by (simp add: header_from_slice_def)

lemma header_checksum_stable:
  assumes "header_checksum cd h = Inr (c, h')"
  shows "header_checksum cd h' = Inr (gh_self_checksum h', h')"
  using assms by (auto simp: header_checksum_Inr)

lemma as_secondary_stable:
  assumes "as_secondary cd h = Inr s"
  shows "header_checksum cd s = Inr (gh_self_checksum s, s)"
  using assms unfolding as_secondary_def
  by (cases "header_checksum cd
       (h\<lparr>gh_lba_self := gh_lba_alt h, gh_lba_alt := gh_lba_self h, gh_lba_table := gh_lba_end h + 1\<rparr>)")
     (auto dest: header_checksum_stable)

lemma file_read_sl:
  "unat off + unat len \<le> length f \<Longrightarrow> file_read f off len = Inr (sl (unat off) (unat len) f)"
  by (simp add: file_read_def sl_def)

text \<open>Reading whole blocks of a file of \<open>nb\<close> blocks.\<close>

lemma file_read_blocks:
  assumes "length f = unat nb * unat bs" "unat nb * unat bs < 18446744073709551616" "unat k + unat c \<le> unat nb"
  shows "file_read f (k * bs) (c * bs) = Inr (sl (unat k * unat bs) (unat c * unat bs) f)"
proof -
  have le: "unat k * unat bs + unat c * unat bs \<le> length f"
    using mult_le_mono1 [OF assms(3), of "unat bs"] assms(1) by (simp only: add_mult_distrib)
  hence "unat (k * bs) = unat k * unat bs" "unat (c * bs) = unat c * unat bs"
    using assms(1,2) by (auto intro!: unat_mult_64)
  thus ?thesis using le by (simp add: file_read_def sl_def)
qed

text \<open>A disk whose parts can be read as the parts of a label is probed as that label, with the status
  given by the headers that are valid.\<close>

lemma probe_label_found:
  assumes ok: "blk_ok bs" and big: "table_blks bs + 2 \<le> unat nb"
    and len: "length f = unat nb * unat bs" and lim: "unat nb * unat bs < 18446744073709551616"
    and m: "pmbr_from_slice cd (sl 440 72 f) = Inr m"
      "me_num_sectors (pm_entries m ! 0) = 0xffffffff \<or> ucast (me_num_sectors (pm_entries m ! 0)) = gh_lba_alt p"
    and h: "probe_headers cd (file_disk bs nb f) = Inr (st, p, s, act)"
    and n: "unat (gh_lba_table act) + table_blks bs \<le> unat nb" "gh_num_entries act = 128" "gh_entry_size act = 128"
    and t: "read_partitions cd (sl (unat (gh_lba_table act) * unat bs) (table_blks bs * unat bs) f) act = Inr ps"
  shows "probe_label cd (file_disk bs nb f) = Some (Inr \<lparr> gl_status = st, gl_block_size = bs,
      gl_mbr = m, gl_primary = p, gl_partitions = filter (\<lambda>e. ge_start e > 0 \<or> ge_end e > 0) ps,
      gl_secondary = s \<rparr>)"
proof -
  have b: "512 \<le> unat bs" using ok by (simp add: blk_ok_def)
  have g: "get_blocks (ucast (128 * 128 :: u32)) bs = get_blocks PARTITION_TABLE_SIZE bs"
    by (simp add: PARTITION_TABLE_SIZE_def)
  have r0: "file_read f 0 bs = Inr (sl 0 (unat bs) f)"
    using file_read_blocks [OF len lim, of 0 1] big by simp
  have r3: "file_read f (gh_lba_table act * bs) (get_blocks PARTITION_TABLE_SIZE bs * bs) =
      Inr (sl (unat (gh_lba_table act) * unat bs) (table_blks bs * unat bs) f)"
    using file_read_blocks [OF len lim, of "gh_lba_table act" "get_blocks PARTITION_TABLE_SIZE bs"] n(1)
    by (simp add: get_blocks_table [OF ok])
  have "1 * unat bs \<le> unat nb * unat bs" using big by (intro mult_le_mono1) simp
  hence "take 72 (drop 440 (sl 0 (unat bs) f)) = sl 440 72 f" "\<not> length (sl 0 (unat bs) f) < 512"
    using b len by (simp_all add: sl_def drop_take)
  hence "read_mbr cd (sl 0 (unat bs) f) = Some (Inr m)" using m(1) by (simp add: read_mbr_def)
  moreover have "probe_table cd (file_disk bs nb f) m (st, p, s, act) = Inr \<lparr> gl_status = st,
      gl_block_size = bs, gl_mbr = m, gl_primary = p,
      gl_partitions = filter (\<lambda>e. ge_start e > 0 \<or> ge_end e > 0) ps, gl_secondary = s \<rparr>"
    unfolding probe_table_def file_disk_def Let_def prod.case n g
    using m(2) t r3 [unfolded PARTITION_TABLE_SIZE_def] by auto
  ultimately show ?thesis using r0 h unfolding probe_label_def by (simp add: file_disk_def)
qed

lemma probe_headers_reads:
  assumes "length f = unat nb * unat bs" "unat nb * unat bs < 18446744073709551616" "2 \<le> unat nb"
  shows "file_read f bs bs = Inr (sl (unat bs) (unat bs) f)"
    "file_read f ((nb - 1) * bs) bs = Inr (sl ((unat nb - 1) * unat bs) (unat bs) f)"
proof -
  show "file_read f bs bs = Inr (sl (unat bs) (unat bs) f)"
    using file_read_blocks [OF assms(1,2), of 1 1] assms(3) by simp
  have "unat (nb - 1) = unat nb - 1" using assms(3) by (simp add: unat_sub_64)
  thus "file_read f ((nb - 1) * bs) bs = Inr (sl ((unat nb - 1) * unat bs) (unat bs) f)"
    using file_read_blocks [OF assms(1,2), of "nb - 1" 1] assms(3) by simp
qed

lemma probe_headers_both:
  assumes "length f = unat nb * unat bs" "unat nb * unat bs < 18446744073709551616" "2 \<le> unat nb"
    and "header_from_slice cd (sl (unat bs) (unat bs) f) = Inr p" "validate_primary_header p bs nb = Inr ()"
    and "header_from_slice cd (sl ((unat nb - 1) * unat bs) (unat bs) f) = Inr s"
      "validate_secondary_header s bs nb = Inr ()" "consistency_check p s = Inr ()"
  shows "probe_headers cd (file_disk bs nb f) = Inr (LsBoth, p, s, p)"
  using assms(4-) by (simp add: probe_headers_def file_disk_def Let_def probe_headers_reads [OF assms(1-3)]
      read_primary_header_def read_secondary_header_def)

lemma probe_headers_secondary:
  assumes "length f = unat nb * unat bs" "unat nb * unat bs < 18446744073709551616" "2 \<le> unat nb"
    and "read_primary_header cd (sl (unat bs) (unat bs) f) bs nb = Inl e"
    and "header_from_slice cd (sl ((unat nb - 1) * unat bs) (unat bs) f) = Inr s"
      "validate_secondary_header s bs nb = Inr ()" "as_primary cd s = Inr p"
  shows "probe_headers cd (file_disk bs nb f) = Inr (LsSecondary, p, s, s)"
  using assms(4-) by (simp add: probe_headers_def file_disk_def Let_def probe_headers_reads [OF assms(1-3)]
      read_secondary_header_def)

text \<open>The primary header is rebuilt from the secondary one.\<close>

lemma as_primary_as_secondary:
  assumes "header_checksum cd p = Inr (gh_self_checksum p, p)" "gh_lba_table p = gh_lba_self p + 1"
    and "as_secondary cd p = Inr s"
  shows "as_primary cd s = Inr p"
proof -
  obtain c where s: "s = p\<lparr>gh_lba_self := gh_lba_alt p, gh_lba_alt := gh_lba_self p,
    gh_lba_table := gh_lba_end p + 1, gh_self_checksum := c\<rparr>" using as_secondary_Inr [OF assms(3)] by blast
  obtain b where b: "gc_ser_header cd (p\<lparr>gh_self_checksum := 0\<rparr>) = Inr b" "gh_self_checksum p = gc_crc32 cd b"
    using assms(1) by (auto simp: header_checksum_Inr)
  have z: "s\<lparr>gh_lba_self := gh_lba_alt s, gh_lba_alt := gh_lba_self s, gh_lba_table := gh_lba_alt s + 1,
      gh_self_checksum := k\<rparr> = p\<lparr>gh_self_checksum := k\<rparr>" for k
    using assms(2) by (cases p) (simp add: s)
  have e: "p\<lparr>gh_self_checksum := gc_crc32 cd b\<rparr> = p" using b(2) by (cases p) simp
  show ?thesis using b(1) by (simp add: as_primary_def header_checksum_def Let_def z e)
qed

section \<open>The label that is written\<close>

definition gen_mbr :: "u64 \<Rightarrow> Pmbr" where
  "gen_mbr nb = pmbr_default\<lparr>pm_entries :=
     (pm_entries pmbr_default)[0 := mbr_protect nb (pm_entries pmbr_default ! 0)]\<rparr>"

lemma gen_mbr_facts:
  "mbr_ok (gen_mbr nb)" "pm_signature (gen_mbr nb) = PMBR_SIGNATURE"
  "me_num_sectors (pm_entries (gen_mbr nb) ! 0) = 0xffffffff \<or>
   ucast (me_num_sectors (pm_entries (gen_mbr nb) ! 0)) = nb - 1 \<or> nb = 0"
proof -
  show "mbr_ok (gen_mbr nb)" "pm_signature (gen_mbr nb) = PMBR_SIGNATURE"
    by (auto simp: gen_mbr_def pmbr_default_def mbr_ok_def mbr_protect_def mbr_entry_default_def
        PMBR_SIGNATURE_def eval_nat_numeral)
  have e: "pm_entries (gen_mbr nb) ! 0 = mbr_protect nb mbr_entry_default"
    by (simp add: gen_mbr_def pmbr_default_def)
  have "ucast (ucast (nb - 1) :: u32) = nb - 1" if "\<not> nb > 0xffffffff" "nb \<noteq> 0"
  proof -
    have "unat nb \<le> 4294967295" "unat nb \<noteq> 0"
      using that by (simp_all add: u64_less_nat unat_eq_0)
    hence "unat (nb - 1) < 4294967296" by (simp add: unat_sub_64)
    thus ?thesis by (simp add: word_unat_eq_iff unsigned_ucast_eq unsigned_take_bit_eq take_bit_nat_eq_self)
  qed
  thus "me_num_sectors (pm_entries (gen_mbr nb) ! 0) = 0xffffffff \<or>
      ucast (me_num_sectors (pm_entries (gen_mbr nb) ! 0)) = nb - 1 \<or> nb = 0"
    unfolding e by (auto simp: mbr_protect_def)
qed

lemma header_new_ok: "guid_ok g \<Longrightarrow> header_ok (header_new g bs nb)"
  by (simp add: header_ok_def header_new_def HEADER_SIGNATURE_def HEADER_REVISION_def)

lemma header_checksum_total:
  assumes "codec_ok cd" "header_ok h"
  shows "\<exists>c. header_checksum cd h = Inr (c, h\<lparr>gh_self_checksum := c\<rparr>)"
proof -
  have "header_ok (h\<lparr>gh_self_checksum := 0\<rparr>)" using assms(2) by (simp add: header_ok_def)
  from codec_headerD [OF assms(1) this] show ?thesis by (auto simp: header_checksum_Inr)
qed

lemma gen_entry_ok:
  assumes "guid_ok rnd" "guid_ok (gh_guid h)"
  shows "\<forall>e \<in> set [meta_entry rnd h x, data_entry h x]. entry_ok e"
  using assms
  by (simp add: entry_ok_def meta_entry_def data_entry_def guid_ok_def META_TYPE_GUID_def DATA_TYPE_GUID_def
      name_ok_def META_NAME_def DATA_NAME_def)

lemma generate_total:
  assumes cd: "codec_ok cd" and g: "guid_ok rnd" "guid_ok g" and bs: "bs \<noteq> 0"
    and x: "version_data_extent w req nb bs = Some (Inr x)"
  shows "\<exists>vl crc c h s. version_generate cd w rnd g bs nb req = Some (Inr vl) \<and>
    h = (header_new g bs nb)\<lparr>gh_table_crc := crc, gh_self_checksum := c\<rparr> \<and>
    header_checksum cd h = Inr (gh_self_checksum h, h) \<and> as_secondary cd h = Inr s \<and>
    table_checksum cd [meta_entry rnd h x, data_entry h x] 128 = Inr crc \<and>
    vl = \<lparr> vl_version = w, vl_gpt = \<lparr> gl_status = LsNeither, gl_block_size = bs, gl_mbr = gen_mbr nb,
      gl_primary = h, gl_partitions = [meta_entry rnd h x, data_entry h x], gl_secondary = s \<rparr>\<rparr>"
proof -
  let ?n = "header_new g bs nb" and ?ps = "[meta_entry rnd (header_new g bs nb) x, data_entry (header_new g bs nb) x]"
  have nb: "gh_lba_alt ?n + 1 = nb" and ne: "gh_num_entries ?n = 128" and ng: "gh_guid ?n = g"
    by (simp_all add: header_new_def)
  obtain b where "ser_entries cd ?ps = Inr b"
    using entries_roundtrip [OF cd gen_entry_ok [OF g(1)], of ?n x] g(2) ng by auto
  hence "\<exists>crc. table_checksum cd ?ps 128 = Inr crc"
    by (simp add: table_checksum_def ser_entry_default [OF cd])
  then obtain crc where crc: "table_checksum cd ?ps 128 = Inr crc" by blast
  have ok: "header_ok (?n\<lparr>gh_table_crc := crc\<rparr>)" using header_new_ok [OF g(2)] by (simp add: header_ok_def)
  then obtain c where c: "header_checksum cd (?n\<lparr>gh_table_crc := crc\<rparr>) =
      Inr (c, ?n\<lparr>gh_table_crc := crc, gh_self_checksum := c\<rparr>)"
    using header_checksum_total [OF cd] by blast
  define h where "h = ?n\<lparr>gh_table_crc := crc, gh_self_checksum := c\<rparr>"
  have "header_ok (h\<lparr>gh_lba_self := gh_lba_alt h, gh_lba_alt := gh_lba_self h, gh_lba_table := gh_lba_end h + 1\<rparr>)"
    using ok by (simp add: h_def header_ok_def)
  then obtain s where s: "as_secondary cd h = Inr s"
    using header_checksum_total [OF cd] unfolding as_secondary_def by fastforce
  have ps: "?ps = [meta_entry rnd h x, data_entry h x]"
    by (simp add: h_def meta_entry_def data_entry_def)
  have "label_new cd g bs nb ?ps = Inr \<lparr> gl_status = LsNeither, gl_block_size = bs, gl_mbr = gen_mbr nb,
      gl_primary = h, gl_partitions = ?ps, gl_secondary = s \<rparr>"
    by (simp add: label_new_def Let_def ne crc c s h_def [symmetric] gen_mbr_def)
  hence "version_generate cd w rnd g bs nb req = Some (Inr \<lparr> vl_version = w, vl_gpt =
      \<lparr> gl_status = LsNeither, gl_block_size = bs, gl_mbr = gen_mbr nb,
      gl_primary = h, gl_partitions = ?ps, gl_secondary = s \<rparr>\<rparr>)"
    using x bs
    by (simp add: version_generate_def layout_generate_def build_partitions_def nb version_data_extent_def
        meta_entry_def [symmetric] data_entry_def [symmetric])
  thus ?thesis using crc c s header_checksum_stable [OF c] ps h_def by auto
qed

text \<open>The bytes of the label on the file: \<open>b\<close> is the block size, \<open>q\<close> the length of the primary label,
  \<open>t\<close> that of a table, \<open>s\<close> the offset of the secondary label.\<close>

definition primary_bytes :: "nat \<Rightarrow> nat \<Rightarrow> u8 list \<Rightarrow> u8 list \<Rightarrow> u8 list \<Rightarrow> u8 list" where
  "primary_bytes b q mb hb eb = overwrite (2 * b) eb (overwrite b hb (overwrite 440 mb (replicate q 0)))"

definition secondary_bytes :: "nat \<Rightarrow> nat \<Rightarrow> u8 list \<Rightarrow> u8 list \<Rightarrow> u8 list" where
  "secondary_bytes b t sb eb = overwrite t sb (overwrite 0 eb (replicate (t + b) 0))"

definition labelled_file ::
  "nat \<Rightarrow> nat \<Rightarrow> nat \<Rightarrow> nat \<Rightarrow> u8 list \<Rightarrow> u8 list \<Rightarrow> u8 list \<Rightarrow> u8 list \<Rightarrow> u8 list \<Rightarrow> u8 list" where
  "labelled_file b q t s mb hb sb eb f =
     overwrite s (secondary_bytes b t sb eb) (overwrite 0 (primary_bytes b q mb hb eb) f)"

lemma labelled_file_slices:
  assumes b: "512 \<le> b" and q: "t + 2 * b \<le> q" "4 * b \<le> q" "q \<le> s" and f: "length f = s + t + b"
    and l: "length mb = 72" "length hb = 92" "length sb = 92" "length eb = 256" and t: "16384 \<le> t"
    and f': "f' = labelled_file b q t s mb hb sb eb f"
  shows "length f' = length f" "sl 440 72 f' = mb" "sl b 92 f' = hb" "sl (2 * b) 256 f' = eb"
    "sl (2 * b + 256) 16128 f' = replicate 16128 0" "sl (s + t) 92 f' = sb"
    "sl s 256 f' = eb" "sl (s + 256) 16128 f' = replicate 16128 0"
    "q \<le> off \<Longrightarrow> off + len \<le> s \<Longrightarrow> sl off len f' = sl off len f"
proof -
  let ?p1 = "overwrite 440 mb (replicate q 0)" and ?p = "primary_bytes b q mb hb eb"
  let ?p2 = "overwrite b hb ?p1" and ?s = "secondary_bytes b t sb eb"
  have lp: "length ?p1 = q" "length ?p2 = q" "length ?p = q"
    using b q l by (simp_all add: primary_bytes_def)
  have ls: "length (overwrite 0 eb (replicate (t + b) 0)) = t + b" "length ?s = t + b"
    using b t l by (simp_all add: secondary_bytes_def)
  let ?f1 = "overwrite 0 ?p f"
  have lf: "length ?f1 = length f" using lp(3) q f by simp
  show "length f' = length f" unfolding f' labelled_file_def using lf ls f by simp
  have pre: "sl off len f' = sl off len ?p" if "off + len \<le> q" for off len
  proof -
    have "sl off len f' = sl off len ?f1"
      unfolding f' labelled_file_def using that q f lf by (intro sl_overwrite_before) simp_all
    also have "\<dots> = sl (off - 0) len ?p" using that lp by (intro sl_overwrite_within) simp_all
    finally show ?thesis by simp
  qed
  have "sl 440 72 ?p = sl 440 72 ?p2"
    unfolding primary_bytes_def using b lp q by (intro sl_overwrite_before) simp_all
  also have "\<dots> = sl 440 72 ?p1" using b lp q by (intro sl_overwrite_before) simp_all
  also have "\<dots> = sl (440 - 440) 72 mb" using b q l by (intro sl_overwrite_within) simp_all
  finally show "sl 440 72 f' = mb" using pre [of 440 72] b q l sl_all [of mb] by simp
  have "sl b 92 ?p = sl b 92 ?p2"
    unfolding primary_bytes_def using b lp q by (intro sl_overwrite_before) simp_all
  also have "\<dots> = sl (b - b) 92 hb" using b lp q l by (intro sl_overwrite_within) simp_all
  finally show "sl b 92 f' = hb" using pre [of b 92] b q l sl_all [of hb] by simp
  have "sl (2 * b) 256 ?p = sl (2 * b - 2 * b) 256 eb"
    unfolding primary_bytes_def using b lp q l by (intro sl_overwrite_within) simp_all
  thus "sl (2 * b) 256 f' = eb" using pre [of "2 * b" 256] b q l sl_all [of eb] by simp
  have tz: "2 * b + 256 + 16128 \<le> q" using t q by simp
  have "sl (2 * b + 256) 16128 ?p = sl (2 * b + 256) 16128 ?p2"
    unfolding primary_bytes_def using b lp q l by (intro sl_overwrite_after) simp_all
  also have "\<dots> = sl (2 * b + 256) 16128 ?p1" using b lp q l by (intro sl_overwrite_after) simp_all
  also have "\<dots> = sl (2 * b + 256) 16128 (replicate q 0)"
    using b q l by (intro sl_overwrite_after) simp_all
  also have "\<dots> = replicate 16128 0" using tz by (intro sl_replicate)
  finally show "sl (2 * b + 256) 16128 f' = replicate 16128 0" using pre [OF tz] by simp
  have "sl (s + t) 92 f' = sl (s + t - s) 92 ?s"
    unfolding f' labelled_file_def using b f ls lf by (intro sl_overwrite_within) simp_all
  also have "\<dots> = sl (t - t) 92 sb"
    unfolding secondary_bytes_def diff_add_inverse using l b ls by (intro sl_overwrite_within) simp_all
  finally show "sl (s + t) 92 f' = sb" using l sl_all [of sb] by simp
  have sec: "sl (s + off) len f' = sl off len (overwrite 0 eb (replicate (t + b) 0))" if "off + len \<le> t" for off len
  proof -
    have "sl (s + off) len f' = sl (s + off - s) len ?s"
      unfolding f' labelled_file_def using that f ls lf by (intro sl_overwrite_within) simp_all
    also have "\<dots> = sl off len (overwrite 0 eb (replicate (t + b) 0))"
      unfolding secondary_bytes_def diff_add_inverse using that ls l by (intro sl_overwrite_before) simp_all
    finally show ?thesis .
  qed
  have "sl 0 256 (overwrite 0 eb (replicate (t + b) 0)) = sl (0 - 0) 256 eb" using l by (intro sl_overwrite_within) simp_all
  thus "sl s 256 f' = eb" using sec [of 0 256] t l sl_all [of eb] by simp
  have "sl 256 16128 (overwrite 0 eb (replicate (t + b) 0)) = sl 256 16128 (replicate (t + b) 0)"
    using l t by (intro sl_overwrite_after) simp_all
  also have "\<dots> = replicate 16128 0" using t by (intro sl_replicate) simp
  finally show "sl (s + 256) 16128 f' = replicate 16128 0" using sec [of 256 16128] t by simp
  show "sl off len f' = sl off len f" if "q \<le> off" "off + len \<le> s"
  proof -
    have "sl off len f' = sl off len ?f1"
      unfolding f' labelled_file_def using that f lf by (intro sl_overwrite_before) simp_all
    also have "\<dots> = sl off len f" using that lp q f by (intro sl_overwrite_after) simp_all
    finally show ?thesis .
  qed
qed

lemma primary_data_bytes:
  assumes ok: "blk_ok bs"
    and l: "gl_mbr l = m" "gl_primary l = h" "gl_block_size l = bs" "gl_partitions l = ps"
    and h: "unat (gh_lba_start h) = mib bs" "gh_lba_self h = 1" "gh_lba_table h = 2"
    and b: "gc_ser_mbr cd m = Inr mb" "gc_ser_header cd h = Inr hb" "ser_entries cd ps = Inr eb"
      "length mb = 72" "length hb = 92" "length eb = 256"
  shows "primary_data cd (file_disk bs nb f) l = Inr (0, primary_bytes (unat bs) 1048576 mb hb eb)"
proof -
  have b5: "512 \<le> unat bs" "unat bs \<le> 262144" using ok by (auto simp: blk_ok_def dest: dvd_imp_le)
  have q: "unat (gh_lba_start h * bs) = 1048576"
    using mib_mult [OF ok] h(1) by (subst unat_mult_64) simp_all
  have o: "unat (2 * bs) = 2 * unat bs" using b5 by (subst unat_mult_64) simp_all
  show ?thesis
    using b b5
    by (simp add: primary_data_def l h q o file_disk_def buf_write_overwrite write_entries_overwrite primary_bytes_def)
qed

lemma secondary_data_bytes:
  assumes ok: "blk_ok bs" and lim: "unat nb * unat bs < 18446744073709551616"
    and big: "table_blks bs + 2 \<le> unat nb"
    and l: "gl_secondary l = s" "gl_block_size l = bs" "gl_partitions l = ps"
    and s: "gh_lba_self s = gh_lba_alt (header_new g bs nb)" "gh_lba_table s = gh_lba_end (header_new g bs nb) + 1"
    and b: "gc_ser_header cd s = Inr sb" "ser_entries cd ps = Inr eb" "length sb = 92" "length eb = 256"
  shows "secondary_data cd (file_disk bs nb f) l =
      Inr (gh_lba_table s * bs, secondary_bytes (unat bs) (table_blks bs * unat bs) sb eb)"
    "unat (gh_lba_table s * bs) = (unat nb - table_blks bs - 1) * unat bs"
proof -
  have b5: "512 \<le> unat bs" "unat bs \<le> 262144" using ok by (auto simp: blk_ok_def dest: dvd_imp_le)
  have t: "unat (gh_lba_table s) = unat nb - table_blks bs - 1"
    using header_new_nat(2) [OF ok big, of g] big unat_lt_64 [of nb] unfolding s(2)
    by (subst unat_add_64) simp_all
  have d: "unat (gh_lba_self s - gh_lba_table s) = table_blks bs"
    using header_new_nat(3) [OF ok big, of g] t s(1) big by (subst unat_sub_64) simp_all
  have tm: "table_blks bs \<le> 2048" using table_blks_mib(2) [OF ok] mib_bounds(3) [OF ok] by simp
  have tb: "table_blks bs * unat bs \<le> 2048 * 262144" using tm b5(2) by (rule mult_le_mono)
  have d1: "unat (gh_lba_self s - gh_lba_table s + 1) = table_blks bs + 1"
    using d tm by (subst unat_add_64) simp_all
  have q: "unat ((gh_lba_self s - gh_lba_table s + 1) * bs) = table_blks bs * unat bs + unat bs"
    using tb b5 d1 by (subst unat_mult_64) simp_all
  have o: "unat ((gh_lba_self s - gh_lba_table s) * bs) = table_blks bs * unat bs"
    using tb d by (subst unat_mult_64) simp_all
  have e: "256 \<le> table_blks bs * unat bs + unat bs" "92 \<le> unat bs" using b5 by simp_all
  show "secondary_data cd (file_disk bs nb f) l =
      Inr (gh_lba_table s * bs, secondary_bytes (unat bs) (table_blks bs * unat bs) sb eb)"
    using b e by (simp add: secondary_data_def Let_def l q o file_disk_def buf_write_overwrite write_entries_overwrite
        secondary_bytes_def)
  have "(unat nb - table_blks bs - 1) * unat bs < 18446744073709551616"
    by (rule le_less_trans [OF _ lim]) simp
  thus "unat (gh_lba_table s * bs) = (unat nb - table_blks bs - 1) * unat bs"
    using t by (subst unat_mult_64) simp_all
qed

lemma disk_props_file:
  assumes "is_power_of_two bs" "length f = unat nb * unat bs" "unat nb * unat bs < 18446744073709551616"
  shows "disk_props f (Some bs) = Inr (bs, nb)"
proof -
  have b: "bs \<noteq> 0" using assms(1) by (simp add: is_power_of_two_def)
  have "unat (of_nat (length f) :: u64) = unat nb * unat bs" using unat_of_nat_64 [of "length f"] assms(2,3) by (simp only:)
  hence "unat (of_nat (length f) mod bs) = 0" "unat (of_nat (length f) div bs) = unat nb"
    using b by (simp_all only: unat_mod_64 unat_div_64) (simp_all add: unat_eq_0)
  hence "of_nat (length f) mod bs = 0" "of_nat (length f) div bs = nb"
    by (simp_all only: u64_eq_nat unsigned_0)
  thus ?thesis using assms(1) by (simp add: disk_props_def Let_def)
qed

lemma table_blks_bytes: assumes "blk_ok bs" shows "16384 \<le> table_blks bs * unat bs"
proof -
  have p: "0 < unat bs" using assms by (simp add: blk_ok_def)
  have "(16384 + unat bs - 1) mod unat bs < unat bs" using p by simp
  moreover have "table_blks bs * unat bs + (16384 + unat bs - 1) mod unat bs = 16384 + unat bs - 1"
    unfolding table_blks_def by (rule div_mult_mod_eq)
  ultimately show ?thesis by linarith
qed

lemma gen_header_facts:
  assumes "h = (header_new g bs nb)\<lparr>gh_table_crc := crc, gh_self_checksum := c\<rparr>"
  shows "gh_lba_self h = 1" "gh_lba_table h = 2" "gh_num_entries h = 128" "gh_entry_size h = 128"
    "gh_table_crc h = crc" "gh_guid h = g" "gh_header_size h = HEADER_SIZE"
    "gh_signature h = HEADER_SIGNATURE" "gh_revision h = HEADER_REVISION"
    "gh_lba_start h = gh_lba_start (header_new g bs nb)" "gh_lba_alt h = gh_lba_alt (header_new g bs nb)"
    "gh_lba_end h = gh_lba_end (header_new g bs nb)" "guid_ok g \<Longrightarrow> header_ok h"
  using assms header_new_ok [of g bs nb] by (simp_all add: header_new_def header_ok_def)

text \<open>The file that the tool writes.\<close>

lemma tool_write_file:
  assumes cd: "codec_ok cd" and g: "guid_ok rnd" and bs: "blk_ok bs" "is_power_of_two bs"
    and f: "length f = unat nb * unat bs" "unat nb * unat bs < 18446744073709551616"
    and big: "table_blks bs + 2 \<le> unat nb" and x: "version_data_extent w (- 1) nb bs = Some (Inr x)"
  shows "\<exists>h s crc c mb hb sb eb.
    h = (header_new TOOL_GUID bs nb)\<lparr>gh_table_crc := crc, gh_self_checksum := c\<rparr> \<and>
    header_checksum cd h = Inr (gh_self_checksum h, h) \<and> as_secondary cd h = Inr s \<and>
    table_checksum cd [meta_entry rnd h x, data_entry h x] 128 = Inr crc \<and>
    gc_ser_mbr cd (gen_mbr nb) = Inr mb \<and> length mb = 72 \<and> gc_de_mbr cd mb = Inr (gen_mbr nb) \<and>
    gc_ser_header cd h = Inr hb \<and> length hb = 92 \<and> (\<forall>r. gc_de_header cd (hb @ r) = Inr h) \<and>
    gc_ser_header cd s = Inr sb \<and> length sb = 92 \<and> (\<forall>r. gc_de_header cd (sb @ r) = Inr s) \<and>
    ser_entries cd [meta_entry rnd h x, data_entry h x] = Inr eb \<and> length eb = 256 \<and>
    tool_write cd rnd (Some bs) w f = Some (Inr (labelled_file (unat bs) 1048576
      (table_blks bs * unat bs) ((unat nb - table_blks bs - 1) * unat bs) mb hb sb eb f))"
proof -
  have tg: "guid_ok TOOL_GUID" by (simp add: guid_ok_def TOOL_GUID_def)
  obtain vl crc c h s where
    vl: "version_generate cd w rnd TOOL_GUID bs nb (- 1) = Some (Inr vl)" and
    h: "h = (header_new TOOL_GUID bs nb)\<lparr>gh_table_crc := crc, gh_self_checksum := c\<rparr>" and
    hc: "header_checksum cd h = Inr (gh_self_checksum h, h)" and s: "as_secondary cd h = Inr s" and
    t: "table_checksum cd [meta_entry rnd h x, data_entry h x] 128 = Inr crc" and
    l: "vl = \<lparr> vl_version = w, vl_gpt = \<lparr> gl_status = LsNeither, gl_block_size = bs, gl_mbr = gen_mbr nb,
      gl_primary = h, gl_partitions = [meta_entry rnd h x, data_entry h x], gl_secondary = s \<rparr>\<rparr>"
    using generate_total [OF cd g tg blk_ok_pos [OF bs(1)] x] by blast
  note hf = gen_header_facts [OF h]
  obtain c2 where s': "s = h\<lparr>gh_lba_self := gh_lba_alt h, gh_lba_alt := gh_lba_self h,
    gh_lba_table := gh_lba_end h + 1, gh_self_checksum := c2\<rparr>" using as_secondary_Inr [OF s] by blast
  have sok: "header_ok s" using hf(13) [OF tg] by (simp add: s' header_ok_def)
  have sf: "gh_lba_self s = gh_lba_alt (header_new TOOL_GUID bs nb)"
    "gh_lba_table s = gh_lba_end (header_new TOOL_GUID bs nb) + 1" using hf by (simp_all add: s')
  obtain mb where mb: "gc_ser_mbr cd (gen_mbr nb) = Inr mb" "length mb = 72" "gc_de_mbr cd mb = Inr (gen_mbr nb)"
    using codec_mbrD [OF cd gen_mbr_facts(1)] by blast
  obtain hb where hb: "gc_ser_header cd h = Inr hb" "length hb = 92" "\<forall>r. gc_de_header cd (hb @ r) = Inr h"
    using codec_headerD [OF cd hf(13) [OF tg]] by blast
  obtain sb where sb: "gc_ser_header cd s = Inr sb" "length sb = 92" "\<forall>r. gc_de_header cd (sb @ r) = Inr s"
    using codec_headerD [OF cd sok] by blast
  have "\<forall>e \<in> set [meta_entry rnd h x, data_entry h x]. entry_ok e"
    by (rule gen_entry_ok [OF g]) (simp add: hf(6) tg)
  from entries_roundtrip [OF cd this] obtain eb where
    eb: "ser_entries cd [meta_entry rnd h x, data_entry h x] = Inr eb" "length eb = 256" by auto
  have hs: "unat (gh_lba_start h) = mib bs" using header_new_nat(1) [OF bs(1) big] hf(10) by simp
  have P: "primary_data cd (file_disk bs nb f) (vl_gpt vl) = Inr (0, primary_bytes (unat bs) 1048576 mb hb eb)"
    by (rule primary_data_bytes [OF bs(1) _ _ _ _ hs hf(1,2) mb(1) hb(1) eb(1) mb(2) hb(2) eb(2)]) (simp_all add: l)
  have S1: "secondary_data cd (file_disk bs nb f) (vl_gpt vl) =
      Inr (gh_lba_table s * bs, secondary_bytes (unat bs) (table_blks bs * unat bs) sb eb)"
    and S2: "unat (gh_lba_table s * bs) = (unat nb - table_blks bs - 1) * unat bs"
    by (rule secondary_data_bytes [where l = "vl_gpt vl", OF bs(1) f(2) big _ _ _ sf sb(1) eb(1) sb(2) eb(2)];
        simp add: l)+
  let ?o = "(unat nb - table_blks bs - 1) * unat bs"
  have o: "?o \<le> length f" unfolding f(1) by simp
  have lp: "length (primary_bytes (unat bs) 1048576 mb hb eb) = 1048576"
    using bs(1) mb(2) hb(2) eb(2) by (auto simp: primary_bytes_def blk_ok_def dest: dvd_imp_le)
  have "mib bs * unat bs \<le> unat nb * unat bs"
    using version_extent_room(1) [OF bs(1) big x] by (intro mult_le_mono1) simp
  hence lf: "1048576 \<le> length f" unfolding f(1) mib_mult [OF bs(1)] .
  have "tool_write cd rnd (Some bs) w f = Some (Inr (file_write (file_write f (primary_bytes (unat bs) 1048576 mb hb eb) 0)
      (secondary_bytes (unat bs) (table_blks bs * unat bs) sb eb) (gh_lba_table s * bs)))"
    unfolding tool_write_def disk_props_file [OF bs(2) f] by (simp add: Let_def vl P S1)
  also have "file_write (file_write f (primary_bytes (unat bs) 1048576 mb hb eb) 0)
      (secondary_bytes (unat bs) (table_blks bs * unat bs) sb eb) (gh_lba_table s * bs) =
      labelled_file (unat bs) 1048576 (table_blks bs * unat bs) ?o mb hb sb eb f"
    using o lp lf unfolding file_write_def labelled_file_def S2 by simp
  finally show ?thesis using h hc s t mb hb sb eb by blast
qed

text \<open>What is found on the file afterwards.\<close>

definition label_found ::
  "gpt_codec \<Rightarrow> u64 \<Rightarrow> u64 \<Rightarrow> u8 list \<Rightarrow> GptHeader \<Rightarrow> GptHeader \<Rightarrow> GptEntry list \<Rightarrow> bool" where
  "label_found cd bs nb f h s es \<longleftrightarrow>
     pmbr_from_slice cd (sl 440 72 f) = Inr (gen_mbr nb) \<and>
     header_from_slice cd (sl (unat bs) (unat bs) f) = Inr h \<and>
     header_from_slice cd (sl ((unat nb - 1) * unat bs) (unat bs) f) = Inr s \<and>
     read_partitions cd (sl (2 * unat bs) (table_blks bs * unat bs) f) h =
       Inr (es @ replicate (128 - length es) entry_default) \<and>
     read_partitions cd (sl ((unat nb - table_blks bs - 1) * unat bs) (table_blks bs * unat bs) f) s =
       Inr (es @ replicate (128 - length es) entry_default)"

lemma sl_table:
  assumes "sl o1 256 f = eb" "sl (o1 + 256) 16128 f = replicate 16128 0" "16384 \<le> len"
  shows "sl o1 len f = eb @ replicate (128 * (128 - 2)) 0 @ sl (o1 + 16384) (len - 16384) f"
proof -
  have "sl o1 (256 + (16128 + (len - 16384))) f =
      sl o1 256 f @ sl (o1 + 256) 16128 f @ sl (o1 + 256 + 16128) (len - 16384) f"
    unfolding sl_split ..
  moreover have "o1 + 256 + 16128 = o1 + 16384" "256 + (16128 + (len - 16384)) = len" "128 * (128 - 2) = (16128 :: nat)"
    using assms(3) by simp_all
  ultimately show ?thesis using assms(1,2) by (simp only:)
qed

lemma tool_written:
  assumes cd: "codec_ok cd" and g: "guid_ok rnd" and bs: "blk_ok bs" "is_power_of_two bs"
    and f: "length f = unat nb * unat bs" "unat nb * unat bs < 18446744073709551616"
    and big: "table_blks bs + 2 \<le> unat nb" and x: "version_data_extent w (- 1) nb bs = Some (Inr x)"
  shows "\<exists>f' h s crc c. tool_write cd rnd (Some bs) w f = Some (Inr f') \<and> length f' = length f \<and>
    h = (header_new TOOL_GUID bs nb)\<lparr>gh_table_crc := crc, gh_self_checksum := c\<rparr> \<and>
    header_checksum cd h = Inr (gh_self_checksum h, h) \<and> as_secondary cd h = Inr s \<and>
    label_found cd bs nb f' h s [meta_entry rnd h x, data_entry h x] \<and>
    (\<forall>off len. 1048576 \<le> off \<longrightarrow> off + len \<le> (unat nb - table_blks bs - 1) * unat bs \<longrightarrow>
       sl off len f' = sl off len f)"
proof -
  let ?b = "unat bs" and ?t = "table_blks bs" and ?n = "unat nb"
  obtain h s crc c mb hb sb eb where
    h: "h = (header_new TOOL_GUID bs nb)\<lparr>gh_table_crc := crc, gh_self_checksum := c\<rparr>" and
    hc: "header_checksum cd h = Inr (gh_self_checksum h, h)" and s: "as_secondary cd h = Inr s" and
    t: "table_checksum cd [meta_entry rnd h x, data_entry h x] 128 = Inr crc" and
    mb: "length mb = 72" "gc_de_mbr cd mb = Inr (gen_mbr nb)" and
    hb: "gc_ser_header cd h = Inr hb" "length hb = 92" "\<forall>r. gc_de_header cd (hb @ r) = Inr h" and
    sb: "gc_ser_header cd s = Inr sb" "length sb = 92" "\<forall>r. gc_de_header cd (sb @ r) = Inr s" and
    eb: "ser_entries cd [meta_entry rnd h x, data_entry h x] = Inr eb" "length eb = 256" and
    w: "tool_write cd rnd (Some bs) w f = Some (Inr (labelled_file ?b 1048576 (?t * ?b) ((?n - ?t - 1) * ?b) mb hb sb eb f))"
    using tool_write_file [OF cd g bs f big x] by blast
  note hf = gen_header_facts [OF h] and room = version_extent_room [OF bs(1) big x]
  let ?es = "[meta_entry rnd h x, data_entry h x]"
  obtain c2 where s': "s = h\<lparr>gh_lba_self := gh_lba_alt h, gh_lba_alt := gh_lba_self h,
    gh_lba_table := gh_lba_end h + 1, gh_self_checksum := c2\<rparr>" using as_secondary_Inr [OF s] by blast
  define f' where "f' = labelled_file ?b 1048576 (?t * ?b) ((?n - ?t - 1) * ?b) mb hb sb eb f"
  have b5: "512 \<le> ?b" "4 * ?b \<le> 1048576" using bs(1) by (auto simp: blk_ok_def dest: dvd_imp_le)
  have q: "?t * ?b + 2 * ?b \<le> 1048576"
    using mult_le_mono1 [OF table_blks_mib(2) [OF bs(1)], of ?b] mib_mult [OF bs(1)] by simp
  have "mib bs * ?b \<le> (?n - ?t - 1) * ?b" using room(1) by (intro mult_le_mono1) simp
  hence qs: "1048576 \<le> (?n - ?t - 1) * ?b" unfolding mib_mult [OF bs(1)] .
  have "((?n - ?t - 1) + ?t + 1) * ?b = ?n * ?b" using big by simp
  hence nn: "(?n - ?t - 1) * ?b + ?t * ?b + ?b = ?n * ?b" by (simp only: add_mult_distrib mult_1)
  have n1: "(?n - 1) * ?b = (?n - ?t - 1) * ?b + ?t * ?b"
    using big by (simp flip: add_mult_distrib)
  note sl = labelled_file_slices [OF b5(1) q b5(2) qs f(1) [folded nn] mb(1) hb(2) sb(2) eb(2)
      table_blks_bytes [OF bs(1)] f'_def]
  have p: "header_from_slice cd (sl ?b ?b f') = Inr h"
    using sl_split [of ?b 92 "?b - 92" f'] b5(1) read_header [OF hb(1,3) hc hf(7,8,9)] sl(3) by simp
  have sv: "header_from_slice cd (sl ((?n - 1) * ?b) ?b f') = Inr s"
    using sl_split [of "(?n - 1) * ?b" 92 "?b - 92" f'] b5(1) sl(6) [folded n1]
      read_header [OF sb(1,3) as_secondary_stable [OF s]] hf by (simp add: s')
  note ev = gen_entries_valid(1) [OF bs(1) big x h, of rnd]
  have "guid_ok (gh_guid h)" by (simp add: hf(6) guid_ok_def TOOL_GUID_def)
  note eok = gen_entry_ok [OF g this, of x]
  have evs: "validate_entries ?es s = Inr ()"
    using ev validate_entries_cong [of s h ?es] by (simp add: s')
  have l2: "length ?es = 2" by simp
  have tc: "table_checksum cd ?es 128 = Inr (gh_table_crc h)" "table_checksum cd ?es 128 = Inr (gh_table_crc s)"
      "gh_num_entries s = 128"
    using t hf(3,5) by (simp_all add: s')
  have ps: "read_partitions cd (eb @ replicate (128 * (128 - 2)) 0 @ r) h = Inr (?es @ replicate (128 - length ?es) entry_default)"
    "read_partitions cd (eb @ replicate (128 * (128 - 2)) 0 @ r) s = Inr (?es @ replicate (128 - length ?es) entry_default)" for r
    using read_table [OF cd eok _ hf(3) tc(1) ev eb(1), of r] read_table [OF cd eok _ tc(3,2) evs eb(1), of r]
    unfolding l2 by simp_all
  have "label_found cd bs nb f' h s ?es"
    unfolding label_found_def sl_table [OF sl(4,5) table_blks_bytes [OF bs(1)]]
      sl_table [OF sl(7,8) table_blks_bytes [OF bs(1)]] ps
    using p sv by (simp add: pmbr_from_slice_def sl(2) mb(2) gen_mbr_facts(2))
  thus ?thesis using w [folded f'_def] sl(1,9) h hc s by blast
qed

lemma data_untouched:
  assumes ok: "blk_ok bs" and big: "table_blks bs + 2 \<le> unat nb"
    and x: "version_data_extent w req nb bs = Some (Inr x)"
  shows "1048576 \<le> unat (de_start x) * unat bs"
    "unat (de_start x) * unat bs + (unat (de_end x) + 1 - unat (de_start x)) * unat bs
       \<le> (unat nb - table_blks bs - 1) * unat bs"
proof -
  note room = version_extent_room [OF ok big x]
  have "mib bs * unat bs \<le> unat (de_start x) * unat bs" using room(2) by (intro mult_le_mono1) simp
  thus "1048576 \<le> unat (de_start x) * unat bs" unfolding mib_mult [OF ok] .
  have "de_start x \<le> de_end x" using version_extent_ok(2) [OF ok big x [unfolded version_data_extent_def]] .
  hence "unat (de_start x) + (unat (de_end x) + 1 - unat (de_start x)) \<le> unat nb - table_blks bs - 1"
    using room(3) by (simp add: u64_le_nat)
  from mult_le_mono1 [OF this, of "unat bs"]
  show "unat (de_start x) * unat bs + (unat (de_end x) + 1 - unat (de_start x)) * unat bs
       \<le> (unat nb - table_blks bs - 1) * unat bs" by (simp only: add_mult_distrib)
qed

lemma filter_table:
  assumes "0 < ge_start a" "0 < ge_start b"
  shows "filter (\<lambda>e. ge_start e > 0 \<or> ge_end e > 0) ([a, b] @ replicate k entry_default) = [a, b]"
  using assms by (induction k) (simp_all add: entry_default_def)

text \<open>Reading back a label whose parts are those of a generated one.\<close>

lemma tool_read_found:
  assumes bs: "blk_ok bs" "is_power_of_two bs"
    and f: "length f = unat nb * unat bs" "unat nb * unat bs < 18446744073709551616"
    and big: "table_blks bs + 2 \<le> unat nb" and x: "version_data_extent w req nb bs = Some (Inr x)"
    and h: "h = (header_new g bs nb)\<lparr>gh_table_crc := crc, gh_self_checksum := c\<rparr>"
    and p: "pmbr_from_slice cd (sl 440 72 f) = Inr (gen_mbr nb)"
      "probe_headers cd (file_disk bs nb f) = Inr (st, h, s, act)"
    and n: "unat (gh_lba_table act) + table_blks bs \<le> unat nb" "gh_num_entries act = 128" "gh_entry_size act = 128"
    and t: "read_partitions cd (sl (unat (gh_lba_table act) * unat bs) (table_blks bs * unat bs) f) act =
      Inr ([meta_entry rnd h x, data_entry h x] @ replicate k entry_default)"
  defines "l \<equiv> \<lparr> gl_status = st, gl_block_size = bs, gl_mbr = gen_mbr nb, gl_primary = h,
      gl_partitions = [meta_entry rnd h x, data_entry h x], gl_secondary = s \<rparr>"
  shows "tool_read cd (Some bs) f = Some (Inr \<lparr> vl_version = w, vl_gpt = l \<rparr>)"
    "partition_offset l DATA_NAME = Inr (de_start x * bs)" "partition_size l DATA_NAME = Inr (de_size x * bs)"
proof -
  note hf = gen_header_facts [OF h]
  have "nb \<noteq> 0" using big by auto
  hence "me_num_sectors (pm_entries (gen_mbr nb) ! 0) = 0xffffffff \<or>
      ucast (me_num_sectors (pm_entries (gen_mbr nb) ! 0)) = gh_lba_alt h"
    using gen_mbr_facts(3) [of nb] hf(11) by (simp add: header_new_def)
  from probe_label_found [OF bs(1) big f p(1) this p(2) n t]
  have pl: "probe_label cd (file_disk bs nb f) = Some (Inr l)"
    using filter_table [OF gen_entries_valid(2,3) [OF bs(1) big x h]] by (simp only: l_def)
  have k: "layout_check (variant w') l \<longleftrightarrow> w' = w" for w'
    by (rule gen_layout_check [OF bs(1) big x _ _ hf(10)]) (simp_all add: l_def)
  have vd: "version_detect l = Some w" by (cases w) (simp_all add: version_detect_def version_ALL_def k)
  show "tool_read cd (Some bs) f = Some (Inr \<lparr> vl_version = w, vl_gpt = l \<rparr>)"
    unfolding tool_read_def disk_props_file [OF bs(2) f]
    by (simp add: versioned_probe_def versioned_check_def k pl vd)
  have "label_partition l DATA_NAME = Some (data_entry h x)"
    by (simp add: label_partition_def l_def meta_entry_def data_entry_def META_NAME_def DATA_NAME_def)
  thus "partition_offset l DATA_NAME = Inr (de_start x * bs)" "partition_size l DATA_NAME = Inr (de_size x * bs)"
    by (simp_all add: partition_offset_def partition_size_def) (simp_all add: l_def data_entry_def de_size_def)
qed

text \<open>The state after a write, as the two reads need it.\<close>

lemma tool_written_headers:
  assumes ok: "blk_ok bs" and big: "table_blks bs + 2 \<le> unat nb"
    and h: "h = (header_new g bs nb)\<lparr>gh_table_crc := crc, gh_self_checksum := c\<rparr>"
    and hc: "header_checksum cd h = Inr (gh_self_checksum h, h)" and s: "as_secondary cd h = Inr s"
  shows "validate_primary_header h bs nb = Inr ()" "validate_secondary_header s bs nb = Inr ()"
    "consistency_check h s = Inr ()" "as_primary cd s = Inr h" "gh_num_entries s = 128" "gh_entry_size s = 128"
    "unat (gh_lba_table s) = unat nb - table_blks bs - 1"
proof -
  note hf = gen_header_facts [OF h]
  obtain c2 where s': "s = h\<lparr>gh_lba_self := gh_lba_alt h, gh_lba_alt := gh_lba_self h,
    gh_lba_table := gh_lba_end h + 1, gh_self_checksum := c2\<rparr>" using as_secondary_Inr [OF s] by blast
  show "validate_primary_header h bs nb = Inr ()" unfolding h by (rule gen_primary_valid [OF ok big])
  show "validate_secondary_header s bs nb = Inr ()" unfolding s' by (rule gen_secondary_valid [OF ok big h])
  show "consistency_check h s = Inr ()" by (simp add: consistency_check_def s')
  show "as_primary cd s = Inr h" by (rule as_primary_as_secondary [OF hc _ s]) (simp add: hf)
  show "gh_num_entries s = 128" "gh_entry_size s = 128" using hf by (simp_all add: s')
  have "gh_lba_table s = gh_lba_end (header_new g bs nb) + 1" using hf by (simp add: s')
  thus "unat (gh_lba_table s) = unat nb - table_blks bs - 1"
    using header_new_nat(2) [OF ok big, of g] big unat_lt_64 [of nb] by (subst \<open>_ = _ + 1\<close>, subst unat_add_64) simp_all
qed

text \<open>C20: A label generated for a device passes every check the probe performs: both headers and
  the partition table are valid, the headers are consistent with each other, and the layout is
  recognised as the version that generated it and as no other.\<close>

theorem generated_label_valid:
  assumes ok: "blk_ok bs" "table_blks bs + 2 \<le> unat nb"
    and "version_generate cd w rnd g bs nb req = Some (Inr vl)"
  shows "validate_primary_header (gl_primary (vl_gpt vl)) bs nb = Inr () \<and>
    validate_secondary_header (gl_secondary (vl_gpt vl)) bs nb = Inr () \<and>
    consistency_check (gl_primary (vl_gpt vl)) (gl_secondary (vl_gpt vl)) = Inr () \<and>
    validate_partitions cd (gl_partitions (vl_gpt vl)) (gl_primary (vl_gpt vl)) = Inr () \<and>
    vl_version vl = w \<and> versioned_check vl \<and> version_detect (vl_gpt vl) = Some w"
proof -
  obtain x crc c h c2 where s: "version_data_extent w req nb bs = Some (Inr x)" "vl_version vl = w"
    "gl_block_size (vl_gpt vl) = bs" and h: "h = (header_new g bs nb)\<lparr>gh_table_crc := crc, gh_self_checksum := c\<rparr>"
    and l: "gl_primary (vl_gpt vl) = h" "gl_partitions (vl_gpt vl) = [meta_entry rnd h x, data_entry h x]"
      "table_checksum cd (gl_partitions (vl_gpt vl)) 128 = Inr crc"
      "gl_secondary (vl_gpt vl) = h\<lparr>gh_lba_self := gh_lba_alt h, gh_lba_alt := gh_lba_self h,
        gh_lba_table := gh_lba_end h + 1, gh_self_checksum := c2\<rparr>"
    using version_generate_shape [OF assms(3) blk_ok_pos [OF ok(1)]] by blast
  have n: "gh_num_entries h = 128" "gh_table_crc h = crc" by (simp_all add: h header_new_def)
  have k: "layout_check (variant w') (vl_gpt vl) \<longleftrightarrow> w' = w" for w'
    by (rule gen_layout_check [OF ok s(1,3) l(2)]) (simp add: h)
  have "version_detect (vl_gpt vl) = Some w"
    by (cases w) (simp_all add: version_detect_def version_ALL_def k)
  moreover have "consistency_check h (gl_secondary (vl_gpt vl)) = Inr ()"
    by (simp add: consistency_check_def l(4))
  ultimately show ?thesis
    using gen_primary_valid [OF ok] gen_secondary_valid [OF ok refl] gen_entries_valid(1) [OF ok s(1) refl] l(3) s(2) k
    by (simp add: l(1,2,4) h validate_partitions_def versioned_check_def n [unfolded h])
qed

theorem generated_label_valid_witness:
  "\<exists>vl. version_generate ref_codec V2 guid_default guid_default 512 32768 5000000 = Some (Inr vl) \<and>
     validate_partitions ref_codec (gl_partitions (vl_gpt vl)) (gl_primary (vl_gpt vl)) = Inr () \<and>
     version_detect (vl_gpt vl) = Some V2"
proof -
  have g: "guid_ok guid_default" by (simp add: guid_ok_def guid_default_def)
  obtain vl where v: "version_generate ref_codec V2 guid_default guid_default 512 32768 5000000 = Some (Inr vl)"
    using generate_total [OF ref_codec_ok g g blk_ok_pos [OF sample_device(1)] sample_extent] by blast
  show ?thesis using v generated_label_valid [OF sample_device v] by blast
qed

text \<open>Writing and reading back.\<close>

lemma tool_roundtrip:
  assumes cd: "codec_ok cd" and g: "guid_ok rnd" and bs: "blk_ok bs" "is_power_of_two bs"
    and f: "length f = unat nb * unat bs" "unat nb * unat bs < 18446744073709551616"
    and big: "table_blks bs + 2 \<le> unat nb" and x: "version_data_extent w (- 1) nb bs = Some (Inr x)"
  shows "\<exists>f' vl. tool_write cd rnd (Some bs) w f = Some (Inr f') \<and> length f' = length f \<and>
    sl (unat (de_start x) * unat bs) ((unat (de_end x) + 1 - unat (de_start x)) * unat bs) f' =
      sl (unat (de_start x) * unat bs) ((unat (de_end x) + 1 - unat (de_start x)) * unat bs) f \<and>
    tool_read cd (Some bs) f' = Some (Inr vl) \<and> vl_version vl = w \<and> gl_status (vl_gpt vl) = LsBoth \<and>
    partition_offset (vl_gpt vl) DATA_NAME = Inr (de_start x * bs) \<and>
    partition_size (vl_gpt vl) DATA_NAME = Inr (de_size x * bs)"
proof -
  obtain f' h s crc c where w: "tool_write cd rnd (Some bs) w f = Some (Inr f')" "length f' = length f" and
    h: "h = (header_new TOOL_GUID bs nb)\<lparr>gh_table_crc := crc, gh_self_checksum := c\<rparr>" and
    s: "header_checksum cd h = Inr (gh_self_checksum h, h)" "as_secondary cd h = Inr s" and
    l: "label_found cd bs nb f' h s [meta_entry rnd h x, data_entry h x]" and
    d: "\<And>off len. 1048576 \<le> off \<Longrightarrow> off + len \<le> (unat nb - table_blks bs - 1) * unat bs \<Longrightarrow> sl off len f' = sl off len f"
    using tool_written [OF cd g bs f big x] by blast
  note l = l [unfolded label_found_def] and f' = trans [OF w(2) f(1)]
  have "probe_headers cd (file_disk bs nb f') = Inr (LsBoth, h, s, h)"
    using l big tool_written_headers [OF bs(1) big h s] by (intro probe_headers_both [OF f' f(2)]) simp_all
  from tool_read_found [OF bs f' f(2) big x h _ this, of rnd "128 - length [meta_entry rnd h x, data_entry h x]"]
  show ?thesis
    using l w d [OF data_untouched [OF bs(1) big x]] big gen_header_facts(2,3,4) [OF h] by simp
qed

text \<open>C7: Writing a label to a disk file that is large enough for it succeeds, keeps the size of the
  file and the contents of the data partition, and reading the label back finds both copies valid,
  recognises the version that was written, and gives the placement of the data partition.\<close>

theorem tool_write_read:
  assumes cd: "codec_ok cd" and g: "guid_ok rnd" and bs: "blk_ok bs" "is_power_of_two bs"
    and f: "length f = unat nb * unat bs" "unat nb * unat bs < 18446744073709551616"
    and big: "table_blks bs + 2 \<le> unat nb" and x: "version_data_extent w (- 1) nb bs = Some (Inr x)"
  shows "\<exists>f' vl. tool_write cd rnd (Some bs) w f = Some (Inr f') \<and> length f' = length f \<and>
    sl (unat (de_start x) * unat bs) ((unat (de_end x) + 1 - unat (de_start x)) * unat bs) f' =
      sl (unat (de_start x) * unat bs) ((unat (de_end x) + 1 - unat (de_start x)) * unat bs) f \<and>
    tool_read cd (Some bs) f' = Some (Inr vl) \<and> vl_version vl = w \<and> gl_status (vl_gpt vl) = LsBoth \<and>
    partition_offset (vl_gpt vl) DATA_NAME = Inr (de_start x * bs) \<and>
    partition_size (vl_gpt vl) DATA_NAME = Inr (de_size x * bs)"
  by (rule tool_roundtrip [OF assms])

text \<open>A sample file of 16 MiB.\<close>

lemma sample_file:
  "length (replicate 16777216 (0 :: u8)) = unat (32768 :: u64) * unat (512 :: u64)"
  "unat (32768 :: u64) * unat (512 :: u64) < 18446744073709551616" "is_power_of_two 512" "guid_ok guid_default"
  by (simp_all add: is_power_of_two_def guid_ok_def guid_default_def)

lemma sample_full_extent:
  "version_data_extent V1 (- 1) 32768 512 = Some (Inr \<lparr> de_start = 10240, de_end = 32734 \<rparr>)"
  by code_simp

theorem tool_write_read_witness:
  "\<exists>f' vl. tool_write ref_codec guid_default (Some 512) V1 (replicate 16777216 0) = Some (Inr f') \<and>
     tool_read ref_codec (Some 512) f' = Some (Inr vl) \<and> gl_status (vl_gpt vl) = LsBoth \<and>
     partition_offset (vl_gpt vl) DATA_NAME = Inr 5242880"
  using tool_write_read [OF ref_codec_ok sample_file(4) sample_device(1) sample_file(3) sample_file(1,2)
      sample_device(2) sample_full_extent] by auto

text \<open>C18: The two copies of the label are redundant: when the block of the primary header is
  overwritten by anything that is not a valid primary header, reading the label from the written
  file rebuilds the primary header from the secondary one and gives the same version and the same
  placement.\<close>

theorem tool_read_recovers:
  assumes cd: "codec_ok cd" and g: "guid_ok rnd" and bs: "blk_ok bs" "is_power_of_two bs"
    and f: "length f = unat nb * unat bs" "unat nb * unat bs < 18446744073709551616"
    and big: "table_blks bs + 2 \<le> unat nb" and x: "version_data_extent w (- 1) nb bs = Some (Inr x)"
    and w: "tool_write cd rnd (Some bs) w f = Some (Inr f')" "tool_read cd (Some bs) f' = Some (Inr vl)"
    and junk: "length junk = unat bs" "read_primary_header cd junk bs nb = Inl e"
  shows "\<exists>vl'. tool_read cd (Some bs) (file_write f' junk bs) = Some (Inr vl') \<and>
    vl_version vl' = w \<and> vl_gpt vl' = (vl_gpt vl)\<lparr>gl_status := LsSecondary\<rparr>"
proof -
  obtain h s crc c where w': "length f' = length f" and
    h: "h = (header_new TOOL_GUID bs nb)\<lparr>gh_table_crc := crc, gh_self_checksum := c\<rparr>" and
    s: "header_checksum cd h = Inr (gh_self_checksum h, h)" "as_secondary cd h = Inr s" and
    l: "label_found cd bs nb f' h s [meta_entry rnd h x, data_entry h x]"
    using tool_written [OF cd g bs f big x] w(1) by auto
  note l = l [unfolded label_found_def] and f' = trans [OF w' f(1)] and hs = tool_written_headers [OF bs(1) big h s]
  note hf = gen_header_facts [OF h]
  let ?k = "128 - length [meta_entry rnd h x, data_entry h x]" and ?b = "unat bs"
  have "probe_headers cd (file_disk bs nb f') = Inr (LsBoth, h, s, h)"
    using l big hs by (intro probe_headers_both [OF f' f(2)]) simp_all
  from tool_read_found(1) [OF bs f' f(2) big x h _ this, of rnd ?k]
  have vl: "vl = \<lparr> vl_version = w, vl_gpt = \<lparr> gl_status = LsBoth, gl_block_size = bs, gl_mbr = gen_mbr nb,
      gl_primary = h, gl_partitions = [meta_entry rnd h x, data_entry h x], gl_secondary = s \<rparr>\<rparr>"
    using l w(2) big hf(2,3,4) by simp
  have b5: "512 \<le> ?b" using bs(1) by (simp add: blk_ok_def)
  have le: "2 * ?b \<le> length f'" unfolding f' using big by (intro mult_le_mono1) simp
  define f2 where "f2 = overwrite ?b junk f'"
  have "length f2 = length f'" "file_write f' junk bs = f2"
    using le junk(1) by (simp_all add: file_write_def f2_def)
  hence f2: "file_write f' junk bs = f2" "length f2 = unat nb * ?b" using f' by simp_all
  have same: "sl off len f2 = sl off len f'" if "off + len \<le> ?b \<or> 2 * ?b \<le> off" for off len
    using that le junk(1) unfolding f2_def
    by (elim disjE) (simp add: sl_overwrite_before, simp add: sl_overwrite_after)
  have "sl ?b ?b f2 = sl (?b - ?b) ?b junk"
    unfolding f2_def using le junk(1) by (intro sl_overwrite_within) simp_all
  hence j: "sl ?b ?b f2 = junk" using junk(1) sl_all [of junk] by simp
  have t2: "4 \<le> unat nb - table_blks bs - 1" "4 \<le> unat nb - 1"
    using version_extent_room(1) [OF bs(1) big x] mib_bounds(2) [OF bs(1)] by linarith+
  hence "2 * ?b \<le> (unat nb - table_blks bs - 1) * ?b" "2 * ?b \<le> (unat nb - 1) * ?b"
    by (intro mult_le_mono1; simp)+
  note same' = same [OF disjI2, OF this(1)] same [OF disjI2, OF this(2)]
  have p2: "probe_headers cd (file_disk bs nb f2) = Inr (LsSecondary, h, s, s)"
    using l big hs junk(2) j same'(2) by (intro probe_headers_secondary [OF f2(2) f(2)]) simp_all
  have "unat (gh_lba_table s) + table_blks bs \<le> unat nb" using hs(7) big by simp
  from tool_read_found(1) [OF bs f2(2) f(2) big x h _ p2 this hs(5,6), of rnd ?k]
  show ?thesis
    using l same [of 440 72] b5 same'(1) hs(7) f2(1) by (simp add: vl)
qed

theorem tool_read_recovers_witness:
  "\<exists>f' vl vl'. tool_write ref_codec guid_default (Some 512) V1 (replicate 16777216 0) = Some (Inr f') \<and>
     tool_read ref_codec (Some 512) f' = Some (Inr vl) \<and>
     tool_read ref_codec (Some 512) (file_write f' (replicate 512 0) 512) = Some (Inr vl') \<and>
     vl_gpt vl' = (vl_gpt vl)\<lparr>gl_status := LsSecondary\<rparr>"
proof -
  note sample = ref_codec_ok sample_file(4) sample_device(1) sample_file(3) sample_file(1,2)
      sample_device(2) sample_full_extent
  obtain f' vl where w: "tool_write ref_codec guid_default (Some 512) V1 (replicate 16777216 0) = Some (Inr f')"
    "tool_read ref_codec (Some 512) f' = Some (Inr vl)"
    using tool_roundtrip [OF sample] by blast
  have "read_primary_header ref_codec (replicate 512 0) 512 32768 = Inl (PE_GptHeaderSize 0 92)"
    using ref_de_zeroes [of 420]
    by (simp add: read_primary_header_def header_from_slice_def HEADER_SIZE_def zero_header_def)
  thus ?thesis
    using w tool_read_recovers [OF sample w, of "replicate 512 0"] by auto
qed

end
