(* ===== verification/Nexus_Child.thy ===== *)
theory Nexus_Child
  imports Core_Types Io_Log
begin

text \<open>
  A child of the nexus (\<open>bdev/nexus/nexus_child.rs\<close>): one replica with its state, its
  synchronisation state, its block device and descriptor, and its I/O log. The theory models
  opening, bringing online, closing, unplugging and logging, and the NVMe reservations a child
  takes on its device, and proves what the rest of the nexus relies on: the invariant of a
  child, that a child brought online is never taken for a healthy one, that closing ends, and
  that a reservation reported as acquired is one the device reports.

  The block device layer (creating, opening and destroying devices, the NVMe commands of a
  device handle) is a parameter of the definitions.
\<close>

section \<open>Errors and states\<close>

datatype (plugins only: code size) ChildError =
    Child_PermanentlyFaulted
  | Child_ChildFaulted
  | Child_ChildBeingDestroyed
  | Child_ChildTooSmall u64 u64
  | Child_OpenChild CoreError
  | Child_ClaimChild Errno
  | Child_ChildInaccessible
  | Child_CannotOnlineChild
  | Child_HandleCreate CoreError
  | Child_HandleOpen CoreError
  | Child_HandleDmaMalloc string
  | Child_ResvRegisterKey CoreError
  | Child_ResvAcquire CoreError
  | Child_ResvRelease CoreError
  | Child_ResvReport CoreError
  | Child_ResvType u8
  | Child_ResvNoHolder u8
  | Child_Holder "u8 list" u8 u64
  | Child_NvmeHostId CoreError
  | Child_ChildBdevCreate string BdevError

definition child_to_errno :: "ChildError \<Rightarrow> Errno" where
  "child_to_errno e =
     (case e of
        Child_PermanentlyFaulted \<Rightarrow> EFAULT
      | Child_ChildFaulted \<Rightarrow> EFAULT
      | Child_ChildBeingDestroyed \<Rightarrow> EBUSY
      | Child_ChildTooSmall _ _ \<Rightarrow> EINVAL
      | Child_ChildInaccessible \<Rightarrow> ENXIO
      | Child_CannotOnlineChild \<Rightarrow> ERFKILL
      | Child_ResvType _ \<Rightarrow> EINVAL
      | Child_ResvNoHolder _ \<Rightarrow> EPERM
      | Child_Holder _ _ _ \<Rightarrow> EPERM
      | Child_ClaimChild source \<Rightarrow> source
      | Child_OpenChild source \<Rightarrow> core_to_errno source
      | Child_HandleCreate source \<Rightarrow> core_to_errno source
      | Child_HandleOpen source \<Rightarrow> core_to_errno source
      | Child_HandleDmaMalloc _ \<Rightarrow> ENOMEM
      | Child_ResvRegisterKey source \<Rightarrow> core_to_errno source
      | Child_ResvAcquire source \<Rightarrow> core_to_errno source
      | Child_ResvRelease source \<Rightarrow> core_to_errno source
      | Child_ResvReport source \<Rightarrow> core_to_errno source
      | Child_NvmeHostId source \<Rightarrow> core_to_errno source
      | Child_ChildBdevCreate _ source \<Rightarrow> bdev_to_errno source)"

datatype FaultReason =
    FR_Unknown | FR_CantOpen | FR_NoSpace | FR_TimedOut | FR_IoError | FR_RebuildFailed
  | FR_AdminCommandFailed | FR_Offline | FR_OfflinePermanent | FR_HotRemove

fun fault_reason_to_string :: "FaultReason \<Rightarrow> string" where
  "fault_reason_to_string FR_Unknown = ''unknown''"
| "fault_reason_to_string FR_CantOpen = ''cannot open''"
| "fault_reason_to_string FR_NoSpace = ''no space''"
| "fault_reason_to_string FR_TimedOut = ''timed out''"
| "fault_reason_to_string FR_IoError = ''I/O error''"
| "fault_reason_to_string FR_RebuildFailed = ''rebuild failed''"
| "fault_reason_to_string FR_AdminCommandFailed = ''admin command failed''"
| "fault_reason_to_string FR_Offline = ''offline''"
| "fault_reason_to_string FR_OfflinePermanent = ''offline permanent''"
| "fault_reason_to_string FR_HotRemove = ''hot-remove''"

definition reason_is_recoverable :: "FaultReason \<Rightarrow> bool" where
  "reason_is_recoverable r \<longleftrightarrow>
     r \<in> {FR_NoSpace, FR_TimedOut, FR_IoError, FR_Offline, FR_AdminCommandFailed,
          FR_RebuildFailed, FR_HotRemove}"

datatype ChildState = CS_Init | CS_ConfigInvalid | CS_Open | CS_Closed | CS_Faulted FaultReason

datatype ChildStateClient =
    CC_Init | CC_ConfigInvalid | CC_Open | CC_Closed | CC_Faulted FaultReason
  | CC_Faulting FaultReason | CC_OutOfSync

fun child_state_to_string :: "ChildState \<Rightarrow> string" where
  "child_state_to_string CS_Init = ''init''"
| "child_state_to_string CS_ConfigInvalid = ''config invalid''"
| "child_state_to_string CS_Open = ''open''"
| "child_state_to_string CS_Closed = ''closed''"
| "child_state_to_string (CS_Faulted r) = ''faulted ('' @ fault_reason_to_string r @ '')''"

definition state_is_open_or_init :: "ChildState \<Rightarrow> bool" where
  "state_is_open_or_init s \<longleftrightarrow> s \<in> {CS_Open, CS_Init, CS_ConfigInvalid}"

definition state_is_recoverable :: "ChildState \<Rightarrow> bool" where
  "state_is_recoverable s =
     (case s of CS_Faulted reason \<Rightarrow> reason_is_recoverable reason | CS_Closed \<Rightarrow> True | _ \<Rightarrow> False)"

definition state_is_enospc :: "ChildState \<Rightarrow> bool" where
  "state_is_enospc s \<longleftrightarrow> s = CS_Faulted FR_NoSpace"

datatype ChildSyncState = Synced | OutOfSync

datatype ChildDestroyState = Destroy_None | Destroying

section \<open>The child\<close>

text \<open>The block device of a child: the methods of \<open>BlockDevice\<close> that the nexus calls.\<close>

record ChildDevice = BlockDevice +
  cd_driver_name :: string
  cd_alignment :: u64
  cd_io_types :: "IoType list"

text \<open>A descriptor is named after the device it opens. The channel \<open>remove_channel\<close> is the queue
  of the messages sent and not yet received.\<close>

record NexusChild =
  nc_parent :: string
  nc_state :: ChildState
  nc_sync_state :: ChildSyncState
  nc_destroy_state :: ChildDestroyState
  nc_faulted_at :: "nat option"
  nc_remove_channel :: "bool list"
  nc_name :: string
  nc_device :: "ChildDevice option"
  nc_device_descriptor :: "string option"
  nc_io_log :: "IOLog option"

definition child_set_state :: "ChildState \<Rightarrow> NexusChild \<Rightarrow> NexusChild" where
  "child_set_state s c = c\<lparr>nc_state := s\<rparr>"

definition set_fault_timestamp :: "nat \<Rightarrow> NexusChild \<Rightarrow> NexusChild" where
  "set_fault_timestamp now c = c\<lparr>nc_faulted_at := Some now\<rparr>"

definition set_faulted_state :: "nat \<Rightarrow> FaultReason \<Rightarrow> NexusChild \<Rightarrow> NexusChild" where
  "set_faulted_state now reason c =
     set_fault_timestamp now (child_set_state (CS_Faulted reason) c)"

definition set_sync_state :: "ChildSyncState \<Rightarrow> NexusChild \<Rightarrow> NexusChild" where
  "set_sync_state s c = c\<lparr>nc_sync_state := s\<rparr>"

definition set_destroy_state :: "ChildDestroyState \<Rightarrow> NexusChild \<Rightarrow> NexusChild" where
  "set_destroy_state s c = c\<lparr>nc_destroy_state := s\<rparr>"

definition is_destroying :: "NexusChild \<Rightarrow> bool" where
  "is_destroying c \<longleftrightarrow> nc_destroy_state c = Destroying"

definition is_opened :: "NexusChild \<Rightarrow> bool" where
  "is_opened c \<longleftrightarrow> nc_state c = CS_Open"

definition is_opened_unsync :: "NexusChild \<Rightarrow> bool" where
  "is_opened_unsync c \<longleftrightarrow> nc_state c = CS_Open \<and> nc_sync_state c = OutOfSync"

definition is_healthy :: "NexusChild \<Rightarrow> bool" where
  "is_healthy c \<longleftrightarrow> nc_state c = CS_Open \<and> nc_sync_state c = Synced"

definition is_faulted :: "NexusChild \<Rightarrow> bool" where
  "is_faulted c = (case nc_state c of CS_Faulted _ \<Rightarrow> True | _ \<Rightarrow> False)"

text \<open>Whether a rebuild job for a child exists is a lookup in the registry of the jobs.\<close>

definition is_rebuilding :: "(string \<Rightarrow> bool) \<Rightarrow> NexusChild \<Rightarrow> bool" where
  "is_rebuilding job_exists c \<longleftrightarrow> job_exists (nc_name c) \<and> is_opened_unsync c"

definition state_client :: "NexusChild \<Rightarrow> ChildStateClient" where
  "state_client c =
     (if is_opened_unsync c then CC_OutOfSync
      else case nc_state c of
             CS_Init \<Rightarrow> CC_Init
           | CS_ConfigInvalid \<Rightarrow> CC_ConfigInvalid
           | CS_Open \<Rightarrow> CC_Open
           | CS_Closed \<Rightarrow> CC_Closed
           | CS_Faulted r \<Rightarrow>
               (if is_destroying c \<or> nc_device_descriptor c \<noteq> None then CC_Faulting r
                else CC_Faulted r))"

text \<open>The UUID of a child is the first query parameter \<open>uuid\<close> of its URI; \<open>query_pairs\<close> is the URL
  parser, whose failure is a panic.\<close>

type_synonym url_parser = "string \<Rightarrow> (string \<times> string) list option"

definition child_uuid :: "url_parser \<Rightarrow> string \<Rightarrow> string option option" where
  "child_uuid query_pairs uri =
     do { pairs \<leftarrow> query_pairs uri; Some (map_of pairs ''uuid'') }"

definition child_new ::
  "bool \<Rightarrow> url_parser \<Rightarrow> string \<Rightarrow> string \<Rightarrow> ChildDevice option \<Rightarrow> NexusChild option" where
  "child_new pstore_enabled query_pairs name parent device =
     do {
       _ \<leftarrow> (if pstore_enabled then
                do { u \<leftarrow> child_uuid query_pairs name; if u = None then None else Some () }
              else Some ());
       Some \<lparr> nc_parent = parent, nc_state = CS_Init, nc_sync_state = Synced,
              nc_destroy_state = Destroy_None, nc_faulted_at = None, nc_remove_channel = [],
              nc_name = name, nc_device = device, nc_device_descriptor = None,
              nc_io_log = None \<rparr>
     }"

definition get_device :: "NexusChild \<Rightarrow> ChildError + ChildDevice" where
  "get_device c = (case nc_device c of Some d \<Rightarrow> Inr d | None \<Rightarrow> Inl Child_ChildInaccessible)"

definition is_local :: "NexusChild \<Rightarrow> bool option" where
  "is_local c = map_option (\<lambda>d. cd_driver_name d \<noteq> ''nvme'') (nc_device c)"

definition get_device_name :: "NexusChild \<Rightarrow> string option" where
  "get_device_name c = map_option bd_device_name (nc_device c)"

definition match_device_name :: "string \<Rightarrow> NexusChild \<Rightarrow> bool" where
  "match_device_name bdev_name c =
     (case get_device_name c of Some n \<Rightarrow> n = bdev_name | None \<Rightarrow> False)"

text \<open>A handle is named after the device of its descriptor; \<open>open_handle\<close> is the descriptor's
  \<open>get_io_handle\<close>.\<close>

definition get_io_handle :: "(string \<Rightarrow> CoreError + string) \<Rightarrow> NexusChild \<Rightarrow> CoreError + string" where
  "get_io_handle open_handle c =
     (case nc_device_descriptor c of
        Some desc \<Rightarrow> open_handle desc
      | None \<Rightarrow> Inl (Core_InvalidDescriptor (nc_name c)))"

subsection \<open>Opening\<close>

text \<open>\<open>open\<close>. The device's own \<open>open\<close> is the parameter \<open>dev_open\<close>; the time is \<open>now\<close>. The two
  assertions on an open child and the \<open>unwrap\<close> of the device are panics.\<close>

definition child_open ::
  "(ChildDevice \<Rightarrow> CoreError + string) \<Rightarrow> nat \<Rightarrow> u64 \<Rightarrow> ChildSyncState \<Rightarrow> NexusChild \<Rightarrow>
   ((ChildError + string) \<times> NexusChild) option" where
  "child_open dev_open now parent_size sync_state c =
     (if is_destroying c then Some (Inl Child_ChildBeingDestroyed, c)
      else
        let body =
          (case nc_device c of
             None \<Rightarrow> None
           | Some dev \<Rightarrow>
               let child_size = bd_size_in_bytes dev in
               if parent_size > child_size then
                 Some (Inl (Child_ChildTooSmall child_size parent_size),
                       child_set_state CS_ConfigInvalid c)
               else
                 (case dev_open dev of
                    Inl source \<Rightarrow>
                      Some (Inl (Child_OpenChild source), set_faulted_state now FR_CantOpen c)
                  | Inr desc \<Rightarrow>
                      Some (Inr (nc_name c),
                            set_sync_state sync_state
                              (child_set_state CS_Open (c\<lparr>nc_device_descriptor := Some desc\<rparr>)))))
        in
        case nc_state c of
          CS_Faulted s \<Rightarrow>
            (if \<not> reason_is_recoverable s then Some (Inl Child_ChildFaulted, c) else body)
        | CS_Open \<Rightarrow>
            (if nc_device c \<noteq> None \<and> nc_device_descriptor c \<noteq> None then Some (Inr (nc_name c), c)
             else None)
        | _ \<Rightarrow> body)"

text \<open>\<open>online\<close>. Creating and looking up the device are the parameters \<open>device_create\<close> and
  \<open>device_lookup\<close>.\<close>

record bdev_env =
  be_device_create :: "string \<Rightarrow> BdevError + string"
  be_device_lookup :: "string \<Rightarrow> ChildDevice option"
  be_dev_open :: "ChildDevice \<Rightarrow> CoreError + string"

definition child_online ::
  "bdev_env \<Rightarrow> nat \<Rightarrow> u64 \<Rightarrow> NexusChild \<Rightarrow> ((ChildError + string) \<times> NexusChild) option" where
  "child_online env now parent_size c =
     (if state_is_open_or_init (nc_state c) then Some (Inl Child_CannotOnlineChild, c)
      else if is_destroying c then Some (Inl Child_ChildBeingDestroyed, c)
      else if \<not> state_is_recoverable (nc_state c) then Some (Inl Child_PermanentlyFaulted, c)
      else
        case be_device_create env (nc_name c) of
          Inl source \<Rightarrow> Some (Inl (Child_ChildBdevCreate (nc_name c) source), c)
        | Inr name \<Rightarrow>
            let c' = c\<lparr>nc_device := be_device_lookup env name\<rparr> in
            if nc_device c' = None then Some (Inl Child_ChildInaccessible, c')
            else child_open (be_dev_open env) now parent_size OutOfSync c')"

subsection \<open>Closing and unplugging\<close>

text \<open>\<open>hot_removed\<close>, \<open>unplug\<close> and \<open>unplug_complete\<close>. Reconfiguring the channels of the nexus, in the
  middle of \<open>unplug\<close>, is the parameter \<open>reconfigure\<close>: what it does to this child.\<close>

definition hot_removed :: "NexusChild \<Rightarrow> bool" where
  "hot_removed c \<longleftrightarrow> nc_state c = CS_Open \<and> \<not> is_destroying c"

definition unplug_complete :: "NexusChild \<Rightarrow> NexusChild" where
  "unplug_complete c =
     c\<lparr>nc_remove_channel := nc_remove_channel c @ [nc_device_descriptor c = None]\<rparr>"

definition unplug :: "(NexusChild \<Rightarrow> NexusChild) \<Rightarrow> NexusChild \<Rightarrow> NexusChild" where
  "unplug reconfigure c =
     (let state = nc_state c;
          destroying = is_destroying c;
          c1 = (if destroying then c\<lparr>nc_device := None\<rparr> else c);
          c2 = (if state = CS_Open then child_set_state CS_Closed c1 else c1);
          c3 = (if state \<noteq> CS_Faulted FR_IoError then reconfigure c2 else c2);
          c4 = (if destroying then c3\<lparr>nc_device_descriptor := None\<rparr> else c3)
      in unplug_complete c4)"

text \<open>\<open>close\<close>. What happens to the child while \<open>close\<close> awaits is an input: \<open>ce_destroy\<close> is the
  result of \<open>device_destroy\<close>, \<open>ce_until_recv\<close> what the other tasks do to the child until the first
  message can be received, and \<open>ce_sleeps\<close> what they do during each of the sleeps of the waiting
  loop. A first message that never comes is \<^const>\<open>None\<close>: the call does not return.\<close>

record close_env =
  ce_destroy :: "string \<Rightarrow> BdevError + unit"
  ce_until_recv :: "NexusChild \<Rightarrow> NexusChild"
  ce_sleeps :: "(NexusChild \<Rightarrow> NexusChild) list"

definition child_recv :: "NexusChild \<Rightarrow> (bool \<times> NexusChild) option" where
  "child_recv c =
     (case nc_remove_channel c of
        [] \<Rightarrow> None
      | b # bs \<Rightarrow> Some (b, c\<lparr>nc_remove_channel := bs\<rparr>))"

function close_wait ::
  "(NexusChild \<Rightarrow> NexusChild) list \<Rightarrow> nat \<Rightarrow> bool \<Rightarrow> NexusChild \<Rightarrow> bool \<times> NexusChild" where
  "close_wait sleeps tries destroyed c =
     (if \<not> destroyed \<and> tries < 20 then
        case nc_remove_channel c of
          [] \<Rightarrow>
            (case sleeps of
               [] \<Rightarrow> close_wait [] (tries + 1) destroyed c
             | s # ss \<Rightarrow> close_wait ss (tries + 1) destroyed (s c))
        | b # bs \<Rightarrow> close_wait sleeps tries b (c\<lparr>nc_remove_channel := bs\<rparr>)
      else (destroyed, c))"
  by pat_completeness auto
termination
  by (relation "measures [\<lambda>(sleeps, tries, destroyed, c). 20 - tries,
                          \<lambda>(sleeps, tries, destroyed, c). length (nc_remove_channel c)]") auto

definition child_close :: "close_env \<Rightarrow> NexusChild \<Rightarrow> ((BdevError + unit) \<times> NexusChild) option" where
  "child_close env c =
     (if nc_destroy_state c \<noteq> Destroy_None then Some (Inr (), c)
      else
        let c1 = set_destroy_state Destroying c in
        if nc_device c1 = None then Some (Inr (), set_destroy_state Destroy_None c1)
        else
          let c2 = ce_until_recv env c1 in
          case ce_destroy env (nc_name c) of
            Inr _ \<Rightarrow>
              do {
                c3 \<leftarrow> (if nc_state c2 \<noteq> CS_Init then
                          do {
                            (destroyed, c3) \<leftarrow> child_recv c2;
                            Some (snd (close_wait (ce_sleeps env) 0 destroyed c3))
                          }
                        else Some c2);
                Some (Inr (), set_destroy_state Destroy_None c3)
              }
          | Inl e \<Rightarrow> Some (Inl e, set_destroy_state Destroy_None c2))"

definition close_faulted :: "close_env \<Rightarrow> nat \<Rightarrow> FaultReason \<Rightarrow> NexusChild \<Rightarrow> NexusChild option" where
  "close_faulted env now reason c =
     do { (_, c') \<leftarrow> child_close env c; Some (set_faulted_state now reason c') }"

subsection \<open>The I/O log of a child\<close>

record log_env =
  le_partial_rebuild :: bool
  le_segment_size :: u64
  le_cores :: "u32 list"

definition has_io_log :: "NexusChild \<Rightarrow> bool" where
  "has_io_log c \<longleftrightarrow> nc_io_log c \<noteq> None"

definition start_io_log :: "log_env \<Rightarrow> NexusChild \<Rightarrow> (bool \<times> NexusChild) option" where
  "start_io_log env c =
     (if \<not> le_partial_rebuild env then Some (False, c)
      else if nc_sync_state c = OutOfSync then
        (if nc_io_log c = None then Some (False, c) else None)
      else
        do {
          c' \<leftarrow> (case nc_io_log c of
                   Some _ \<Rightarrow> Some c
                 | None \<Rightarrow>
                     (case nc_device c of
                        None \<Rightarrow> Some c
                      | Some d \<Rightarrow>
                          do {
                            log \<leftarrow> io_log_new (le_segment_size env) (le_cores env)
                                    (bd_device_name d) (bd_num_blocks d) (bd_block_len d);
                            Some (c\<lparr>nc_io_log := Some log\<rparr>)
                          }));
          Some (has_io_log c', c')
        })"

definition stop_io_log :: "NexusChild \<Rightarrow> (RebuildMap option \<times> NexusChild) option" where
  "stop_io_log c =
     (case nc_io_log c of
        None \<Rightarrow> Some (None, c)
      | Some log \<Rightarrow> do { m \<leftarrow> io_log_finalize log; Some (Some m, c\<lparr>nc_io_log := None\<rparr>) })"

text \<open>The log channel of core \<open>current\<close>; a core without a channel is a panic.\<close>

definition io_log_channel :: "u32 \<Rightarrow> NexusChild \<Rightarrow> IOLogChannel option option" where
  "io_log_channel current c =
     (case nc_io_log c of
        None \<Rightarrow> Some None
      | Some log \<Rightarrow> map_option Some (current_channel log current))"

section \<open>NVMe reservations\<close>

datatype NvmeReservation =
    Resv_Reserved | Resv_WriteExclusive | Resv_ExclusiveAccess | Resv_WriteExclusiveRegsOnly
  | Resv_ExclusiveAccessRegsOnly | Resv_WriteExclusiveAllRegs | Resv_ExclusiveAccessAllRegs

fun resv_as_u8 :: "NvmeReservation \<Rightarrow> u8" where
  "resv_as_u8 Resv_Reserved = 0"
| "resv_as_u8 Resv_WriteExclusive = 1"
| "resv_as_u8 Resv_ExclusiveAccess = 2"
| "resv_as_u8 Resv_WriteExclusiveRegsOnly = 3"
| "resv_as_u8 Resv_ExclusiveAccessRegsOnly = 4"
| "resv_as_u8 Resv_WriteExclusiveAllRegs = 5"
| "resv_as_u8 Resv_ExclusiveAccessAllRegs = 6"

text \<open>\<open>TryFrom<u8>\<close>; the error carries the value.\<close>

definition resv_try_from :: "u8 \<Rightarrow> u8 + NvmeReservation" where
  "resv_try_from v =
     (if v = 0 then Inr Resv_Reserved
      else if v = 1 then Inr Resv_WriteExclusive
      else if v = 2 then Inr Resv_ExclusiveAccess
      else if v = 3 then Inr Resv_WriteExclusiveRegsOnly
      else if v = 4 then Inr Resv_ExclusiveAccessRegsOnly
      else if v = 5 then Inr Resv_WriteExclusiveAllRegs
      else if v = 6 then Inr Resv_ExclusiveAccessAllRegs
      else Inl v)"

datatype NexusNvmePreemption = Preempt_ArgKey | Preempt_Holder

text \<open>The preempt key is a \<open>NonZeroU64\<close> or absent.\<close>

record NexusNvmeParams =
  np_min_cntlid :: u16
  np_max_cntlid :: u16
  np_resv_key :: u64
  np_preempt_key :: "u64 option"
  np_resv_type :: NvmeReservation
  np_preempt_policy :: NexusNvmePreemption

definition reservations_enabled :: "NexusNvmeParams \<Rightarrow> bool" where
  "reservations_enabled p \<longleftrightarrow>
     np_resv_key p \<noteq> 0 \<or> np_preempt_key p \<noteq> None \<or> np_preempt_policy p \<noteq> Preempt_ArgKey"

definition reservations_valid :: "NexusNvmeParams \<Rightarrow> bool" where
  "reservations_valid p \<longleftrightarrow>
     \<not> (np_resv_key p = 0 \<or> (np_preempt_policy p = Preempt_Holder \<and> np_preempt_key p \<noteq> None))"

text \<open>The reservation report as the child reads it out of the 4096 byte buffer: the type, the
  number of registered controllers the device claims, whether the controller entries are aligned
  in the buffer, and the entries that fit.\<close>

record resv_ctrlr =
  rc_cntlid :: u16
  rc_status :: u8
  rc_rkey :: u64
  rc_hostid :: "u8 list"

record resv_report =
  rr_rtype :: u8
  rr_regctl :: u16
  rr_aligned :: bool
  rr_ctrlrs :: "resv_ctrlr list"

datatype resv_register_action = Register_REPLACE_KEY
datatype resv_cptpl = Cptpl_PERSIST_POWER_LOSS | Cptpl_CLEAR_POWER_ON
datatype resv_acquire_action = Acquire_ACQUIRE | Acquire_PREEMPT

text \<open>A device handle: its NVMe commands act on the state \<open>'t\<close> of the device. \<open>nh_ptpl_dir\<close> and
  \<open>nh_resv_enable\<close> are the configuration of the process.\<close>

record 't nvme_handle =
  nh_open :: "string \<Rightarrow> 't \<Rightarrow> (CoreError + unit) \<times> 't"
  nh_dma_malloc :: "u64 \<Rightarrow> string + unit"
  nh_resv_register :: "u64 \<Rightarrow> u64 \<Rightarrow> resv_register_action \<Rightarrow> resv_cptpl \<Rightarrow> 't \<Rightarrow> (CoreError + unit) \<times> 't"
  nh_resv_acquire :: "u64 \<Rightarrow> u64 \<Rightarrow> resv_acquire_action \<Rightarrow> u8 \<Rightarrow> 't \<Rightarrow> (CoreError + unit) \<times> 't"
  nh_resv_release :: "u64 \<Rightarrow> u8 \<Rightarrow> u8 \<Rightarrow> 't \<Rightarrow> (CoreError + unit) \<times> 't"
  nh_resv_report :: "'t \<Rightarrow> (CoreError + resv_report) \<times> 't"
  nh_host_id :: "'t \<Rightarrow> (CoreError + u8 list) \<times> 't"
  nh_ptpl_dir :: bool
  nh_resv_enable :: bool

text \<open>Commands in sequence, the \<open>?\<close> operator on a device state.\<close>

definition cmd_bind ::
  "('t \<Rightarrow> ('e + 'a) \<times> 't) \<Rightarrow> ('a \<Rightarrow> 't \<Rightarrow> ('e + 'b) \<times> 't) \<Rightarrow> 't \<Rightarrow> ('e + 'b) \<times> 't" where
  "cmd_bind m f t = (case m t of (Inl e, t') \<Rightarrow> (Inl e, t') | (Inr x, t') \<Rightarrow> f x t')"

definition cmd_map_err :: "('e \<Rightarrow> 'f) \<Rightarrow> ('t \<Rightarrow> ('e + 'a) \<times> 't) \<Rightarrow> 't \<Rightarrow> ('f + 'a) \<times> 't" where
  "cmd_map_err g m t = (map_err g (fst (m t)), snd (m t))"

definition get_io_handle_nonblock ::
  "'t nvme_handle \<Rightarrow> NexusChild \<Rightarrow> 't \<Rightarrow> (CoreError + unit) \<times> 't" where
  "get_io_handle_nonblock h c t =
     (case nc_device_descriptor c of
        Some desc \<Rightarrow> nh_open h desc t
      | None \<Rightarrow> (Inl (Core_InvalidDescriptor (nc_name c)), t))"

definition resv_register :: "'t nvme_handle \<Rightarrow> u64 \<Rightarrow> 't \<Rightarrow> (CoreError + unit) \<times> 't" where
  "resv_register h new_key =
     nh_resv_register h 0 new_key Register_REPLACE_KEY
       (if nh_ptpl_dir h then Cptpl_PERSIST_POWER_LOSS else Cptpl_CLEAR_POWER_ON)"

definition resv_acquire ::
  "'t nvme_handle \<Rightarrow> u64 \<Rightarrow> u64 option \<Rightarrow> NvmeReservation \<Rightarrow> 't \<Rightarrow> (ChildError + unit) \<times> 't" where
  "resv_acquire h current_key preempt_key resv_type =
     (let acquire_action = (case preempt_key of Some _ \<Rightarrow> Acquire_PREEMPT | None \<Rightarrow> Acquire_ACQUIRE);
          pkey = (case preempt_key of Some k \<Rightarrow> k | None \<Rightarrow> 0)
      in cmd_map_err Child_ResvAcquire
           (nh_resv_acquire h current_key pkey acquire_action (resv_as_u8 resv_type)))"

definition resv_release ::
  "'t nvme_handle \<Rightarrow> u64 \<Rightarrow> NvmeReservation \<Rightarrow> u8 \<Rightarrow> 't \<Rightarrow> (CoreError + unit) \<times> 't" where
  "resv_release h current_key resv_type release_action =
     nh_resv_release h current_key (resv_as_u8 resv_type) release_action"

text \<open>The entries of a report that are looked at, and the first of them that holds the
  reservation.\<close>

definition report_holder :: "resv_report \<Rightarrow> resv_ctrlr option" where
  "report_holder r =
     (let regctl = unat (rr_regctl r);
          numctrlr = (if regctl > length (rr_ctrlrs r) then length (rr_ctrlrs r) else regctl)
      in List.find (\<lambda>c. rc_status c = 1) (take numctrlr (rr_ctrlrs r)))"

definition resv_holder ::
  "'t nvme_handle \<Rightarrow> 't \<Rightarrow> (ChildError + (u8 \<times> u64 \<times> u8 list) option) \<times> 't" where
  "resv_holder h t =
     (case nh_dma_malloc h 4096 of
        Inl e \<Rightarrow> (Inl (Child_HandleDmaMalloc e), t)
      | Inr _ \<Rightarrow>
          cmd_bind (cmd_map_err Child_ResvReport (nh_resv_report h)) (\<lambda>r t.
            if \<not> rr_aligned r then (Inr None, t)
            else (case report_holder r of
                    Some c \<Rightarrow> (Inr (Some (rr_rtype r, rc_rkey c, rc_hostid c)), t)
                  | None \<Rightarrow> (Inr None, t))) t)"

definition resv_shared :: "NvmeReservation \<Rightarrow> bool" where
  "resv_shared t \<longleftrightarrow> t \<in> {Resv_ExclusiveAccessAllRegs, Resv_WriteExclusiveAllRegs}"

text \<open>The checks of \<open>resv_check_holder\<close> on a report it received.\<close>

definition check_report ::
  "'t nvme_handle \<Rightarrow> NexusNvmeParams \<Rightarrow> resv_report \<Rightarrow> 't \<Rightarrow> (ChildError + unit) \<times> 't" where
  "check_report h args r t =
     (let type_ok =
        (if resv_as_u8 (np_resv_type args) \<noteq> rr_rtype r then
           try_bind (map_err (\<lambda>_. Child_ResvType (rr_rtype r)) (resv_try_from (rr_rtype r))) (\<lambda>rtype.
             if \<not> resv_shared (np_resv_type args) \<or> \<not> resv_shared rtype then
               Inl (Child_ResvType (rr_rtype r))
             else Inr ())
         else Inr ())
      in case type_ok of
           Inl e \<Rightarrow> (Inl e, t)
         | Inr _ \<Rightarrow>
             if np_resv_type args \<in> {Resv_ExclusiveAccessAllRegs, Resv_WriteExclusiveAllRegs} then
               (Inr (), t)
             else if \<not> rr_aligned r then (Inl (Child_ResvNoHolder (rr_rtype r)), t)
             else
               (case report_holder r of
                  Some owner \<Rightarrow>
                    cmd_bind (cmd_map_err Child_NvmeHostId (nh_host_id h)) (\<lambda>my_hostid t.
                      if rc_rkey owner \<noteq> np_resv_key args \<or> rc_hostid owner \<noteq> my_hostid then
                        (Inl (Child_Holder (rc_hostid owner) (rr_rtype r) (rc_rkey owner)), t)
                      else (Inr (), t)) t
                | None \<Rightarrow> (Inl (Child_ResvNoHolder (rr_rtype r)), t)))"

definition is_not_supported :: "CoreError \<Rightarrow> bool" where
  "is_not_supported e = (case e of Core_NotSupported _ \<Rightarrow> True | _ \<Rightarrow> False)"

definition resv_check_holder ::
  "'t nvme_handle \<Rightarrow> NexusChild \<Rightarrow> NexusNvmeParams \<Rightarrow> 't \<Rightarrow> (ChildError + unit) \<times> 't" where
  "resv_check_holder h c args =
     cmd_bind (cmd_map_err Child_HandleOpen (get_io_handle_nonblock h c)) (\<lambda>_ t.
       case nh_dma_malloc h 4096 of
         Inl e \<Rightarrow> (Inl (Child_HandleDmaMalloc e), t)
       | Inr _ \<Rightarrow>
           (case nh_resv_report h t of
              (Inl e, t') \<Rightarrow>
                (if is_not_supported e then (Inr (), t') else (Inl (Child_ResvReport e), t'))
            | (Inr r, t') \<Rightarrow> check_report h args r t'))"

definition reservation_acquire_argkey ::
  "'t nvme_handle \<Rightarrow> NexusChild \<Rightarrow> NexusNvmeParams \<Rightarrow> 't \<Rightarrow> (ChildError + unit) \<times> 't" where
  "reservation_acquire_argkey h c params =
     cmd_bind (cmd_map_err Child_HandleOpen (get_io_handle_nonblock h c)) (\<lambda>_ t.
       case resv_register h (np_resv_key params) t of
         (Inl e, t') \<Rightarrow>
           (if is_not_supported e then (Inr (), t') else (Inl (Child_ResvRegisterKey e), t'))
       | (Inr _, t') \<Rightarrow>
           resv_acquire h (np_resv_key params) (np_preempt_key params) (np_resv_type params) t')"

text \<open>\<open>reservation_preempt_holder\<close>, from the point where a holder other than this child is known.\<close>

definition preempt_existing ::
  "'t nvme_handle \<Rightarrow> NexusNvmeParams \<Rightarrow> NvmeReservation \<Rightarrow> u64 \<Rightarrow> u8 list \<Rightarrow> u8 list \<Rightarrow>
   't \<Rightarrow> (ChildError + unit) \<times> 't" where
  "preempt_existing h args rtype pkey hostid my_hostid =
     (let acquire = (\<lambda>p. resv_acquire h (np_resv_key args) p (np_resv_type args)) in
      if \<not> resv_shared rtype then
        cmd_bind (acquire (Some pkey)) (\<lambda>_.
          if \<not> (rtype \<noteq> np_resv_type args \<and> hostid = my_hostid) then acquire None
          else
            cmd_bind (cmd_map_err Child_ResvRegisterKey (resv_register h (np_resv_key args))) (\<lambda>_.
              acquire None))
      else if np_resv_type args \<in> {Resv_WriteExclusive, Resv_ExclusiveAccess,
                Resv_WriteExclusiveRegsOnly, Resv_ExclusiveAccessRegsOnly} then
        cmd_bind (cmd_map_err Child_ResvRelease (resv_release h (np_resv_key args) rtype 0)) (\<lambda>_.
          acquire None)
      else (\<lambda>t. (Inr (), t)))"

definition reservation_preempt_holder ::
  "'t nvme_handle \<Rightarrow> NexusChild \<Rightarrow> NexusNvmeParams \<Rightarrow> 't \<Rightarrow> (ChildError + unit) \<times> 't" where
  "reservation_preempt_holder h c args =
     cmd_bind (cmd_map_err Child_HandleOpen (get_io_handle_nonblock h c)) (\<lambda>_ t.
       case resv_register h (np_resv_key args) t of
         (Inl e, t') \<Rightarrow>
           (if is_not_supported e then (Inr (), t') else (Inl (Child_ResvRegisterKey e), t'))
       | (Inr _, t') \<Rightarrow>
           cmd_bind (resv_holder h) (\<lambda>holder.
             case holder of
               None \<Rightarrow> resv_acquire h (np_resv_key args) None (np_resv_type args)
             | Some (rtype, pkey, hostid) \<Rightarrow>
                 cmd_bind (cmd_map_err Child_NvmeHostId (nh_host_id h)) (\<lambda>my_hostid.
                   case resv_try_from rtype of
                     Inl _ \<Rightarrow> (\<lambda>t. (Inl (Child_ResvType rtype), t))
                   | Inr rt \<Rightarrow>
                       if rt = np_resv_type args \<and> hostid = my_hostid \<and> pkey = np_resv_key args then
                         (\<lambda>t. (Inr (), t))
                       else preempt_existing h args rt pkey hostid my_hostid)) t')"

definition reservation_acquire ::
  "'t nvme_handle \<Rightarrow> NexusChild \<Rightarrow> NexusNvmeParams \<Rightarrow> 't \<Rightarrow> (ChildError + unit) \<times> 't" where
  "reservation_acquire h c params =
     (if \<not> nh_resv_enable h then (\<lambda>t. (Inr (), t))
      else if \<not> reservations_enabled params then (\<lambda>t. (Inr (), t))
      else
        cmd_bind
          (case np_preempt_policy params of
             Preempt_ArgKey \<Rightarrow> reservation_acquire_argkey h c params
           | Preempt_Holder \<Rightarrow> reservation_preempt_holder h c params)
          (\<lambda>_. resv_check_holder h c params))"

section \<open>The invariant of a child\<close>

text \<open>An open child has a device and a descriptor.\<close>

definition child_wf :: "NexusChild \<Rightarrow> bool" where
  "child_wf c \<longleftrightarrow> (nc_state c = CS_Open \<longrightarrow> nc_device c \<noteq> None \<and> nc_device_descriptor c \<noteq> None)"

text \<open>Everything that happens to a child. Closing is cut where it awaits: marking the child as
  being destroyed, unplugging, receiving the message, clearing the mark.\<close>

inductive child_step :: "bdev_env \<Rightarrow> log_env \<Rightarrow> NexusChild \<Rightarrow> NexusChild \<Rightarrow> bool" for env lenv where
  step_open: "child_open (be_dev_open env) now psize sync c = Some (r, c') \<Longrightarrow> child_step env lenv c c'"
| step_online: "child_online env now psize c = Some (r, c') \<Longrightarrow> child_step env lenv c c'"
| step_fault: "child_step env lenv c (set_faulted_state now reason c)"
| step_sync: "child_step env lenv c (set_sync_state s c)"
| step_start_log: "start_io_log lenv c = Some (b, c') \<Longrightarrow> child_step env lenv c c'"
| step_stop_log: "stop_io_log c = Some (m, c') \<Longrightarrow> child_step env lenv c c'"
| step_destroy: "child_step env lenv c (set_destroy_state s c)"
| step_unplug: "child_step env lenv c (unplug id c)"
| step_recv: "child_recv c = Some (b, c') \<Longrightarrow> child_step env lenv c c'"

lemmas child_field_defs [simp] =
  child_set_state_def set_fault_timestamp_def set_faulted_state_def set_sync_state_def
  set_destroy_state_def

lemma child_open_wf:
  "child_open dev_open now psize sync c = Some (r, c') \<Longrightarrow> child_wf c \<Longrightarrow> child_wf c'"
  by (auto simp: child_open_def child_wf_def Let_def split: if_splits option.splits ChildState.splits
      sum.splits)

lemma not_open_wf: "nc_state c \<noteq> CS_Open \<Longrightarrow> child_wf c"
  by (simp add: child_wf_def)

lemma child_online_wf:
  assumes "child_online env now psize c = Some (r, c')" and "child_wf c"
  shows "child_wf c'"
proof (cases "nc_state c = CS_Open")
  case True
  then show ?thesis using assms by (simp add: child_online_def state_is_open_or_init_def)
next
  case False
  then have "child_wf (c\<lparr>nc_device := d\<rparr>)" for d by (simp add: not_open_wf)
  with assms show ?thesis
    by (auto simp: child_online_def Let_def split: if_splits sum.splits dest: child_open_wf)
qed

text \<open>Starting and stopping the log touches nothing else of the child.\<close>

lemma start_io_log_fields:
  assumes "start_io_log env c = Some (b, c')"
  shows "nc_state c' = nc_state c" and "nc_sync_state c' = nc_sync_state c"
    and "nc_device c' = nc_device c" and "nc_device_descriptor c' = nc_device_descriptor c"
    and "nc_destroy_state c' = nc_destroy_state c" and "nc_name c' = nc_name c"
    and "b \<longrightarrow> has_io_log c'"
  using assms
  by (auto simp: start_io_log_def split: if_splits option.splits Option.bind_splits)

lemma stop_io_log_fields:
  assumes "stop_io_log c = Some (m, c')"
  shows "nc_state c' = nc_state c" and "nc_sync_state c' = nc_sync_state c"
    and "nc_device c' = nc_device c" and "nc_device_descriptor c' = nc_device_descriptor c"
    and "nc_destroy_state c' = nc_destroy_state c" and "nc_name c' = nc_name c"
    and "\<not> has_io_log c'"
  using assms
  by (auto simp: stop_io_log_def has_io_log_def split: option.splits Option.bind_splits)

lemma child_step_wf: "child_step env lenv c c' \<Longrightarrow> child_wf c \<Longrightarrow> child_wf c'"
proof (induction rule: child_step.induct)
  case (step_start_log c b c')
  then show ?case by (simp add: child_wf_def start_io_log_fields [OF step_start_log(1)])
next
  case (step_stop_log c m c')
  then show ?case by (simp add: child_wf_def stop_io_log_fields [OF step_stop_log(1)])
next
  case (step_unplug c)
  then show ?case by (auto simp: unplug_def unplug_complete_def child_wf_def Let_def)
next
  case (step_recv c b c')
  then show ?case by (auto simp: child_recv_def child_wf_def split: list.splits)
qed (auto intro: child_open_wf child_online_wf not_open_wf, auto simp: child_wf_def)

lemma child_new_wf: "child_new enabled qp name parent device = Some c \<Longrightarrow> child_wf c"
  by (auto simp: child_new_def child_wf_def split: if_splits Option.bind_splits)


text \<open>A device and a child for the concrete instances below.\<close>

definition sample_child_device :: "string \<Rightarrow> ChildDevice" where
  "sample_child_device name = \<lparr> bd_device_name = name, bd_num_blocks = 64, bd_block_len = 512,
     bd_size_in_bytes = 32768, cd_driver_name = ''nvme'', cd_alignment = 512,
     cd_io_types = [IoRead, IoWrite] \<rparr>"

definition sample_bdev_env :: bdev_env where
  "sample_bdev_env = \<lparr> be_device_create = Inr, be_device_lookup = (\<lambda>n. Some (sample_child_device n)),
     be_dev_open = (\<lambda>d. Inr (bd_device_name d)) \<rparr>"

definition sample_child :: "ChildState \<Rightarrow> NexusChild" where
  "sample_child s = \<lparr> nc_parent = ''nexus'', nc_state = s, nc_sync_state = Synced,
     nc_destroy_state = Destroy_None, nc_faulted_at = None, nc_remove_channel = [],
     nc_name = ''child'', nc_device = Some (sample_child_device ''child''), nc_device_descriptor = None,
     nc_io_log = None \<rparr>"


section \<open>Bringing a child online\<close>

lemma child_online_ok:
  "child_online env now psize c = Some (Inr n, c') \<longleftrightarrow>
     (nc_state c = CS_Closed \<or> (\<exists>r. nc_state c = CS_Faulted r \<and> reason_is_recoverable r)) \<and>
     \<not> is_destroying c \<and>
     (\<exists>name d desc.
        be_device_create env (nc_name c) = Inr name \<and> be_device_lookup env name = Some d \<and>
        psize \<le> bd_size_in_bytes d \<and> be_dev_open env d = Inr desc \<and>
        c' = c\<lparr>nc_device := Some d, nc_device_descriptor := Some desc, nc_state := CS_Open,
               nc_sync_state := OutOfSync\<rparr>) \<and>
     n = nc_name c"
  by (cases "nc_state c")
    (auto simp: child_online_def child_open_def state_is_open_or_init_def state_is_recoverable_def
      is_destroying_def Let_def split: if_splits sum.splits option.splits)

text \<open>C22: Bringing a child online succeeds exactly when the child is closed or faulted for a
  recoverable reason, is not being destroyed, and its device can be created, found and opened and
  is not smaller than the nexus. The child is then open but out of sync: clients see it as such, and
  it is not healthy, so it serves no reads before it has been rebuilt.\<close>

theorem online_child_unsynced:
  "child_online env now psize c = Some (Inr n, c') \<longleftrightarrow>
     (nc_state c = CS_Closed \<or> (\<exists>r. nc_state c = CS_Faulted r \<and> reason_is_recoverable r)) \<and>
     \<not> is_destroying c \<and>
     (\<exists>name d desc.
        be_device_create env (nc_name c) = Inr name \<and> be_device_lookup env name = Some d \<and>
        psize \<le> bd_size_in_bytes d \<and> be_dev_open env d = Inr desc \<and>
        c' = c\<lparr>nc_device := Some d, nc_device_descriptor := Some desc, nc_state := CS_Open,
               nc_sync_state := OutOfSync\<rparr>) \<and>
     n = nc_name c \<and> state_client c' = CC_OutOfSync \<and> \<not> is_healthy c'"
  by (auto simp: child_online_ok state_client_def is_opened_unsync_def is_healthy_def)

text \<open>C39: A child that was faulted while its missed writes were being logged keeps that log when it
  is brought online, where the child becomes out of sync. Until the rebuild takes the log, faulting
  the child again runs \<open>start_io_log\<close>, whose assertion that an unsynchronised child has no log then
  fails: the process panics.\<close>

theorem online_with_log_panics:
  assumes "child_online env now psize c = Some (Inr n, c')"
    and "has_io_log c" and "le_partial_rebuild lenv"
  shows "start_io_log lenv c' = None"
  using assms
  by (auto simp: start_io_log_def has_io_log_def child_online_ok)

theorem online_with_log_panics_witness:
  "\<exists>c'. child_online sample_bdev_env 0 32768
          (sample_child (CS_Faulted FR_IoError)\<lparr>nc_io_log := Some \<lparr>il_device_name = ''child'',
             il_channels = []\<rparr>\<rparr>) = Some (Inr ''child'', c') \<and>
        start_io_log \<lparr>le_partial_rebuild = True, le_segment_size = 65536, le_cores = [1]\<rparr> c' = None"
proof -
  let ?c = "sample_child (CS_Faulted FR_IoError)\<lparr>nc_io_log := Some \<lparr>il_device_name = ''child'',
              il_channels = []\<rparr>\<rparr>"
  obtain c' where on: "child_online sample_bdev_env 0 32768 ?c = Some (Inr ''child'', c')"
    by (simp add: child_online_def child_open_def sample_child_def sample_bdev_env_def
        sample_child_device_def is_destroying_def state_is_open_or_init_def state_is_recoverable_def
        reason_is_recoverable_def Let_def)
  show ?thesis
    using on online_with_log_panics [OF on, of "\<lparr>le_partial_rebuild = True,
        le_segment_size = 65536, le_cores = [1]\<rparr>"]
    by (simp add: has_io_log_def)
qed

section \<open>Closing a child\<close>

declare close_wait.simps [simp del]

lemma close_wait_done [simp]: "close_wait sleeps tries True c = (True, c)"
  by (subst close_wait.simps) simp

lemma close_wait_msg:
  "tries < 20 \<Longrightarrow> close_wait sleeps tries False (c\<lparr>nc_remove_channel := b # bs\<rparr>) =
     close_wait sleeps tries b (c\<lparr>nc_remove_channel := bs\<rparr>)"
  by (subst close_wait.simps) simp

lemma close_wait_sleep:
  "nc_remove_channel c = [] \<Longrightarrow> tries < 20 \<Longrightarrow>
     close_wait (f # sleeps) tries False c = close_wait sleeps (Suc tries) False (f c)"
  by (subst close_wait.simps) simp

lemma close_wait_stale:
  assumes "\<forall>b \<in> set fs. \<not> b" and "tries < 20"
  shows "close_wait sleeps tries False (c\<lparr>nc_remove_channel := fs @ ms\<rparr>) =
         close_wait sleeps tries False (c\<lparr>nc_remove_channel := ms\<rparr>)"
  using assms by (induction fs) (auto simp: close_wait_msg)

lemma close_wait_true:
  assumes "\<forall>b \<in> set fs. \<not> b" and "tries < 20" and "nc_remove_channel c = fs @ [True]"
  shows "close_wait sleeps tries False c = (True, c\<lparr>nc_remove_channel := []\<rparr>)"
proof -
  have "c = c\<lparr>nc_remove_channel := fs @ [True]\<rparr>"
    using assms(3) by simp
  then show ?thesis
    using close_wait_stale [OF assms(1,2), where c = c and ms = "[True]" and sleeps = sleeps]
      close_wait_msg [OF assms(2), where c = c and b = True and bs = "[]" and sleeps = sleeps]
    by simp
qed

lemma close_wait_sleeps:
  assumes "nc_remove_channel c = []" and "tries + k < 20"
  shows "close_wait (replicate k id @ sleeps) tries False c = close_wait sleeps (tries + k) False c"
  using assms(2)
proof (induction k arbitrary: tries)
  case (Suc k)
  then show ?case using Suc.IH [of "Suc tries"] assms(1) by (simp add: close_wait_sleep)
qed simp

text \<open>What unplugging leaves of a child that is being destroyed.\<close>

definition unplugged :: "NexusChild \<Rightarrow> NexusChild" where
  "unplugged c = c\<lparr>nc_device := None, nc_device_descriptor := None,
     nc_state := (if nc_state c = CS_Open then CS_Closed else nc_state c)\<rparr>"

lemma unplug_destroying:
  assumes "is_destroying c"
  shows "unplug id c = unplugged c\<lparr>nc_remove_channel := nc_remove_channel c @ [True]\<rparr>"
  using assms by (simp add: unplug_def unplug_complete_def unplugged_def Let_def)

lemma child_close_destroyed:
  assumes "nc_destroy_state c = Destroy_None" and "nc_device c \<noteq> None"
    and "ce_destroy env (nc_name c) = Inr ()"
    and "ce_until_recv env (set_destroy_state Destroying c) = c2" and "nc_state c2 \<noteq> CS_Init"
    and "nc_remove_channel c2 = b # bs"
  shows "child_close env c =
    Some (Inr (), set_destroy_state Destroy_None
      (snd (close_wait (ce_sleeps env) 0 b (c2\<lparr>nc_remove_channel := bs\<rparr>))))"
  using assms by (auto simp: child_close_def child_recv_def Let_def)

text \<open>C23: Closing a child waits for the removal of its device even when earlier removal events have
  left messages behind. Whether the event of this removal arrives before the first message is
  received or only during one of the first nineteen sleeps of the waiting loop, \<open>close\<close> returns
  successfully and the child is left without device and descriptor, closed unless it was faulted
  before, and no longer marked as being destroyed.\<close>

theorem close_releases_device:
  assumes "nc_destroy_state c = Destroy_None" and "nc_device c \<noteq> None"
    and "nc_state c \<noteq> CS_Init" and "\<forall>b \<in> set (nc_remove_channel c). \<not> b"
    and "ce_destroy env (nc_name c) = Inr ()"
    and "ce_until_recv env = unplug id \<or>
         ce_until_recv env = id \<and> nc_remove_channel c \<noteq> [] \<and>
         ce_sleeps env = replicate k id @ unplug id # sleeps \<and> k < 19"
  shows "\<exists>c'. child_close env c = Some (Inr (), c') \<and> nc_device c' = None \<and>
           nc_device_descriptor c' = None \<and> nc_destroy_state c' = Destroy_None \<and>
           nc_state c' = (if nc_state c = CS_Open then CS_Closed else nc_state c)"
  using assms(6)
proof
  let ?c1 = "set_destroy_state Destroying c"
  assume now: "ce_until_recv env = unplug id"
  let ?c2 = "unplugged ?c1\<lparr>nc_remove_channel := nc_remove_channel c @ [True]\<rparr>"
  have c2: "ce_until_recv env ?c1 = ?c2"
    using now unplug_destroying [of ?c1] by (simp add: is_destroying_def)
  show ?thesis
  proof (cases "nc_remove_channel c")
    case Nil
    then show ?thesis
      using child_close_destroyed [OF assms(1,2,5) c2] assms(3) by (simp add: unplugged_def)
  next
    case (Cons b bs)
    then have b: "\<not> b" and bs: "\<forall>b \<in> set bs. \<not> b" using assms(4) by auto
    then show ?thesis
      using child_close_destroyed [OF assms(1,2,5) c2] assms(3) Cons
        close_wait_true [OF bs, where tries = 0 and c = "?c2\<lparr>nc_remove_channel := bs @ [True]\<rparr>"]
      by (simp add: unplugged_def)
  qed
next
  let ?c1 = "set_destroy_state Destroying c"
  assume late: "ce_until_recv env = id \<and> nc_remove_channel c \<noteq> [] \<and>
    ce_sleeps env = replicate k id @ unplug id # sleeps \<and> k < 19"
  then obtain b bs where ch: "nc_remove_channel c = b # bs" by (cases "nc_remove_channel c") auto
  then have b: "\<not> b" and bs: "\<forall>b \<in> set bs. \<not> b" using assms(4) by auto
  let ?e = "?c1\<lparr>nc_remove_channel := []\<rparr>"
  have wait: "close_wait (ce_sleeps env) 0 False (?c1\<lparr>nc_remove_channel := bs\<rparr>) =
      close_wait (unplug id # sleeps) k False ?e"
    using close_wait_stale [OF bs, where tries = 0 and sleeps = "ce_sleeps env" and c = ?c1 and ms = "[]"]
      close_wait_sleeps [where c = ?e and tries = 0 and k = k and sleeps = "unplug id # sleeps"] late
    by simp
  have "close_wait (unplug id # sleeps) k False ?e =
      close_wait sleeps (Suc k) False (unplug id ?e)"
    using late by (simp add: close_wait_sleep)
  also have "\<dots> = (True, unplugged ?e)"
    using close_wait_true [where fs = "[]" and tries = "Suc k" and c = "unplug id ?e" and sleeps = sleeps] late unplug_destroying [of ?e]
    by (simp add: is_destroying_def unplugged_def)
  finally show ?thesis
    using child_close_destroyed [OF assms(1,2,5), of ?c1 b bs] assms(3) late ch wait b
    by (simp add: unplugged_def)
qed

theorem close_releases_device_witness:
  "\<exists>c'. child_close \<lparr> ce_destroy = (\<lambda>_. Inr ()), ce_until_recv = id,
           ce_sleeps = [id, unplug id] \<rparr>
          (sample_child CS_Open\<lparr>nc_device_descriptor := Some ''child'',
             nc_remove_channel := [False]\<rparr>) = Some (Inr (), c') \<and>
        nc_device c' = None \<and> nc_state c' = CS_Closed"
  using close_releases_device [of "sample_child CS_Open\<lparr>nc_device_descriptor := Some ''child'',
      nc_remove_channel := [False]\<rparr>" "\<lparr> ce_destroy = (\<lambda>_. Inr ()), ce_until_recv = id,
      ce_sleeps = [id, unplug id] \<rparr>" 1 "[]"]
  by (auto simp: sample_child_def)

text \<open>Closing returns in all cases but one: it hangs only if the device was destroyed, the child
  had been opened before, and no removal event for the device is ever sent.\<close>

theorem close_returns:
  "child_close env c = None \<longleftrightarrow>
     nc_destroy_state c = Destroy_None \<and> nc_device c \<noteq> None \<and>
     is_ok (ce_destroy env (nc_name c)) \<and>
     nc_state (ce_until_recv env (set_destroy_state Destroying c)) \<noteq> CS_Init \<and>
     nc_remove_channel (ce_until_recv env (set_destroy_state Destroying c)) = []"
  by (auto simp: child_close_def child_recv_def Let_def split: sum.splits list.splits
      Option.bind_splits)

section \<open>Reservations\<close>

lemma cmd_bind_ok:
  "cmd_bind m f t = (Inr y, t') \<longleftrightarrow> (\<exists>x t1. m t = (Inr x, t1) \<and> f x t1 = (Inr y, t'))"
  by (auto simp: cmd_bind_def split: prod.splits sum.splits)

lemma cmd_map_err_ok: "cmd_map_err g m t = (Inr y, t') \<longleftrightarrow> m t = (Inr y, t')"
  by (cases "m t") (auto simp: cmd_map_err_def map_err_Inr)

lemma check_report_ok:
  assumes "check_report h args r t = (Inr (), t')"
  shows "resv_as_u8 (np_resv_type args) = rr_rtype r \<or>
         resv_shared (np_resv_type args) \<and>
         (\<exists>rt. resv_try_from (rr_rtype r) = Inr rt \<and> resv_shared rt)"
    and "\<not> resv_shared (np_resv_type args) \<longrightarrow>
         (\<exists>owner. report_holder r = Some owner \<and> rc_rkey owner = np_resv_key args \<and>
            nh_host_id h t = (Inr (rc_hostid owner), t'))"
  using assms
  by (auto simp: check_report_def Let_def cmd_bind_ok cmd_map_err_ok try_bind_Inr map_err_Inr
      resv_shared_def split: if_splits sum.splits option.splits)

lemma resv_check_holder_ok:
  assumes "resv_check_holder h c args t = (Inr (), t')"
  shows "(\<exists>t1 r t2. nh_resv_report h t1 = (Inr r, t2) \<and> check_report h args r t2 = (Inr (), t')) \<or>
         (\<exists>t1 e t2. nh_resv_report h t1 = (Inl e, t2) \<and> is_not_supported e)"
proof -
  obtain t1 where "(case nh_dma_malloc h 4096 of
         Inl e \<Rightarrow> (Inl (Child_HandleDmaMalloc e), t1)
       | Inr _ \<Rightarrow>
           (case nh_resv_report h t1 of
              (Inl e, t') \<Rightarrow>
                (if is_not_supported e then (Inr (), t') else (Inl (Child_ResvReport e), t'))
            | (Inr r, t') \<Rightarrow> check_report h args r t')) = (Inr (), t')"
    using assms by (auto simp: resv_check_holder_def cmd_bind_ok)
  then show ?thesis
    by (cases "nh_dma_malloc h 4096"; cases "nh_resv_report h t1"; cases "fst (nh_resv_report h t1)")
      (simp_all split: if_splits, metis+)
qed

text \<open>C24: A child reports a reservation as acquired only after the device has confirmed it: on a
  device that supports reservations, the last report the child read shows the requested type (or, in
  the shared modes, another shared type), and unless the requested mode is a shared one it shows as
  holder a controller with the key of the nexus and the host identifier of this node.\<close>

theorem reservation_confirmed:
  assumes "reservation_acquire h c p t = (Inr (), t')"
    and "nh_resv_enable h" and "reservations_enabled p"
    and "\<forall>t e t'. nh_resv_report h t = (Inl e, t') \<longrightarrow> \<not> is_not_supported e"
  shows "\<exists>t1 r t2. nh_resv_report h t1 = (Inr r, t2) \<and>
     (resv_as_u8 (np_resv_type p) = rr_rtype r \<or>
      resv_shared (np_resv_type p) \<and>
      (\<exists>rt. resv_try_from (rr_rtype r) = Inr rt \<and> resv_shared rt)) \<and>
     (\<not> resv_shared (np_resv_type p) \<longrightarrow>
      (\<exists>owner. report_holder r = Some owner \<and> rc_rkey owner = np_resv_key p \<and>
         nh_host_id h t2 = (Inr (rc_hostid owner), t')))"
proof -
  obtain t0 where "resv_check_holder h c p t0 = (Inr (), t')"
    using assms(1-3) by (auto simp: reservation_acquire_def cmd_bind_ok)
  then obtain t1 r t2 where "nh_resv_report h t1 = (Inr r, t2)"
      and "check_report h p r t2 = (Inr (), t')"
    using assms(4) by (metis resv_check_holder_ok)
  then show ?thesis using check_report_ok [of h p r t2 t'] by (intro exI conjI) simp_all
qed

text \<open>A device with reservations: the registered hosts with their keys, the holder and the type.
  The node itself is the host \<open>[1]\<close>.\<close>

type_synonym resv_target = "(u8 list \<times> u64) list \<times> u8 list option \<times> u8"

definition target_report :: "resv_target \<Rightarrow> resv_report" where
  "target_report = (\<lambda>(regs, holder, ty).
     \<lparr> rr_rtype = ty, rr_regctl = of_nat (length regs), rr_aligned = True,
       rr_ctrlrs = map (\<lambda>(host, key). \<lparr> rc_cntlid = 1,
         rc_status = (if holder = Some host then 1 else 0), rc_rkey = key, rc_hostid = host \<rparr>) regs \<rparr>)"

definition target_acquire ::
  "u64 \<Rightarrow> u64 \<Rightarrow> resv_acquire_action \<Rightarrow> u8 \<Rightarrow> resv_target \<Rightarrow> (CoreError + unit) \<times> resv_target" where
  "target_acquire key pkey action ty = (\<lambda>(regs, holder, ty0).
     (case action of
        Acquire_PREEMPT \<Rightarrow> (Inr (), (filter (\<lambda>(_, k). k \<noteq> pkey) regs, Some [1], ty))
      | Acquire_ACQUIRE \<Rightarrow>
          (if holder \<in> {None, Some [1]} then (Inr (), (regs, Some [1], ty))
           else (Inl (Core_NvmeIoPassthruFailed 0), (regs, holder, ty0)))))"

definition sample_target :: "resv_target nvme_handle" where
  "sample_target = \<lparr> nh_open = (\<lambda>_ t. (Inr (), t)), nh_dma_malloc = (\<lambda>_. Inr ()),
     nh_resv_register = (\<lambda>_ key _ _ (regs, holder, ty).
       (Inr (), (([1], key) # filter (\<lambda>(h, _). h \<noteq> [1]) regs, holder, ty))),
     nh_resv_acquire = target_acquire,
     nh_resv_release = (\<lambda>_ _ _ (regs, holder, ty). (Inr (), (regs, None, 0))),
     nh_resv_report = (\<lambda>t. (Inr (target_report t), t)),
     nh_host_id = (\<lambda>t. (Inr [1], t)), nh_ptpl_dir = True, nh_resv_enable = True \<rparr>"

text \<open>The reservation of another host, host \<open>[2]\<close> with key 9, is preempted.\<close>

theorem reservation_confirmed_witness:
  "\<exists>t1 r t2. nh_resv_report sample_target t1 = (Inr r, t2) \<and>
     (\<exists>owner. report_holder r = Some owner \<and> rc_rkey owner = 5 \<and> rc_hostid owner = [1])"
proof -
  let ?p = "\<lparr> np_min_cntlid = 1, np_max_cntlid = 65519, np_resv_key = 5, np_preempt_key = None,
     np_resv_type = Resv_WriteExclusiveRegsOnly, np_preempt_policy = Preempt_Holder \<rparr>"
  let ?c = "sample_child CS_Open\<lparr>nc_device_descriptor := Some ''child''\<rparr>"
  have "reservation_acquire sample_target ?c ?p ([([2], 9)], Some [2], 1) =
      (Inr (), ([([1], 5)], Some [1], 3))"
    by code_simp
  from reservation_confirmed [OF this] show ?thesis
    by (simp add: sample_target_def reservations_enabled_def resv_shared_def) metis
qed

end
