(* ===== verification/Nexus_Error.thy ===== *)
theory Nexus_Error
  imports Nexus_Child Rebuild_State
begin

text \<open>
  The errors of the nexus (\<open>bdev/nexus/nexus_bdev_error.rs\<close>) and of the persistent store
  (\<open>store/store_defs.rs\<close>), their error numbers and the gRPC status a client gets for them.
\<close>

section \<open>Errors of the persistent store\<close>

text \<open>The errors of the etcd client and of the JSON library are given by their texts.\<close>

datatype (plugins only: code size) StoreError =
    Store_Connect string
  | Store_Put string string string
  | Store_PutWait string string
  | Store_Get string string
  | Store_GetWait string
  | Store_MissingEntry string
  | Store_Delete string string
  | Store_DeleteWait string
  | Store_Txn string string
  | Store_TxnWait string
  | Store_Watch string string
  | Store_KeyString string
  | Store_ValueString string
  | Store_DeserialiseValue string string
  | Store_SerialiseValue string
  | Store_OpTimeout

section \<open>Errors of the nexus\<close>

text \<open>The fields stand in the order of the source.\<close>

datatype (plugins only: code size) NexusError =
    Nexus_NexusNotFound string
  | Nexus_NexusInitialising string
  | Nexus_InvalidUuid string
  | Nexus_UuidExists string string
  | Nexus_NameExists string
  | Nexus_InvalidKey
  | Nexus_AlreadyShared string
  | Nexus_NotShared string
  | Nexus_NotSharedNvmf string
  | Nexus_ShareNbdNexus string string
  | Nexus_ShareNvmfNexus CoreError string
  | Nexus_UnshareNexus CoreError string
  | Nexus_RegisterNexus Errno string
  | Nexus_CreateChild BdevError string
  | Nexus_NexusIncomplete string string
  | Nexus_ChildTooSmall string string u64 u64 u64
  | Nexus_MixedBlockSizes string
  | Nexus_ChildGeometry string string
  | Nexus_ChildMissing string string
  | Nexus_ChildWriteExclusiveResvFailed ChildError string string
  | Nexus_OpenChild ChildError string string
  | Nexus_OnlineChild ChildError string string
  | Nexus_CloseChild BdevError string string
  | Nexus_RemoveLastChild string string
  | Nexus_RemoveLastHealthyChild string string
  | Nexus_ChildNotFound string string
  | Nexus_ChildDeviceNotOpen string string
  | Nexus_ChildAlreadyExists string string
  | Nexus_NoRebuildSource string
  | Nexus_CreateRebuild RebuildError string string
  | Nexus_RebuildJobNotFound string string
  | Nexus_RebuildJobAlreadyExists string string
  | Nexus_RebuildOperation string string RebuildError
  | Nexus_InvalidShareProtocol int
  | Nexus_InvalidNvmeAnaState int
  | Nexus_InvalidArguments string string
  | Nexus_NexusCreate string string
  | Nexus_NexusDestroy string
  | Nexus_NexusResize Errno string
  | Nexus_ChildNotDegraded string string string
  | Nexus_FailedCreateSnapshot string string
  | Nexus_SubsysNvmf string
  | Nexus_OperationNotAllowed string
  | Nexus_InvalidReservation u8
  | Nexus_UpdateShareProperties CoreError string
  | Nexus_SaveStateFailed StoreError string
  | Nexus_NexusSizeUnmatched string u64 u64

definition nexus_to_errno :: "NexusError \<Rightarrow> Errno" where
  "nexus_to_errno e =
     (case e of
        Nexus_ShareNvmfNexus source _ \<Rightarrow> core_to_errno source
      | Nexus_UnshareNexus source _ \<Rightarrow> core_to_errno source
      | Nexus_RegisterNexus source _ \<Rightarrow> source
      | Nexus_CreateChild source _ \<Rightarrow> bdev_to_errno source
      | Nexus_ChildWriteExclusiveResvFailed _ _ _ \<Rightarrow> EKEYREJECTED
      | Nexus_OpenChild source _ _ \<Rightarrow> child_to_errno source
      | Nexus_OnlineChild source _ _ \<Rightarrow> child_to_errno source
      | Nexus_CloseChild source _ _ \<Rightarrow> bdev_to_errno source
      | Nexus_CreateRebuild _ _ _ \<Rightarrow> EPIPE
      | Nexus_RebuildOperation _ _ _ \<Rightarrow> EPIPE
      | Nexus_NexusResize source _ \<Rightarrow> source
      | Nexus_UpdateShareProperties source _ \<Rightarrow> core_to_errno source
      | Nexus_SaveStateFailed _ _ \<Rightarrow> ENODATA
      | Nexus_ShareNbdNexus _ _ \<Rightarrow> ENOTSUP
      | Nexus_NexusNotFound _ \<Rightarrow> ENOENT
      | Nexus_ChildMissing _ _ \<Rightarrow> ENOENT
      | Nexus_ChildNotFound _ _ \<Rightarrow> ENOENT
      | Nexus_RebuildJobNotFound _ _ \<Rightarrow> ENOENT
      | Nexus_UuidExists _ _ \<Rightarrow> EEXIST
      | Nexus_NameExists _ \<Rightarrow> EEXIST
      | Nexus_ChildAlreadyExists _ _ \<Rightarrow> EEXIST
      | Nexus_RebuildJobAlreadyExists _ _ \<Rightarrow> EEXIST
      | Nexus_InvalidUuid _ \<Rightarrow> EINVAL
      | Nexus_InvalidKey \<Rightarrow> EINVAL
      | Nexus_InvalidShareProtocol _ \<Rightarrow> EINVAL
      | Nexus_InvalidNvmeAnaState _ \<Rightarrow> EINVAL
      | Nexus_InvalidArguments _ _ \<Rightarrow> EINVAL
      | Nexus_InvalidReservation _ \<Rightarrow> EINVAL
      | Nexus_NexusInitialising _ \<Rightarrow> EBUSY
      | Nexus_AlreadyShared _ \<Rightarrow> EPERM
      | Nexus_NotShared _ \<Rightarrow> EPERM
      | Nexus_NotSharedNvmf _ \<Rightarrow> EPERM
      | Nexus_OperationNotAllowed _ \<Rightarrow> EPERM
      | Nexus_RemoveLastChild _ _ \<Rightarrow> EPERM
      | Nexus_RemoveLastHealthyChild _ _ \<Rightarrow> EPERM
      | Nexus_ChildNotDegraded _ _ _ \<Rightarrow> EPERM
      | Nexus_ChildDeviceNotOpen _ _ \<Rightarrow> EIO
      | Nexus_ChildGeometry _ _ \<Rightarrow> EIO
      | Nexus_ChildTooSmall _ _ _ _ _ \<Rightarrow> EIO
      | Nexus_SubsysNvmf _ \<Rightarrow> EIO
      | Nexus_NexusIncomplete _ _ \<Rightarrow> EFAULT
      | Nexus_NexusCreate _ _ \<Rightarrow> EFAULT
      | Nexus_NexusDestroy _ \<Rightarrow> EFAULT
      | Nexus_FailedCreateSnapshot _ _ \<Rightarrow> EFAULT
      | Nexus_NoRebuildSource _ \<Rightarrow> EFAULT
      | Nexus_MixedBlockSizes _ \<Rightarrow> EINVAL
      | Nexus_NexusSizeUnmatched _ _ _ \<Rightarrow> EINVAL)"

text \<open>The status a gRPC client gets: the code and the error number in the metadata. The message is
  the text of the error and is not modelled.\<close>

datatype rpc_code =
    Rpc_invalid_argument | Rpc_failed_precondition | Rpc_not_found | Rpc_already_exists
  | Rpc_out_of_range | Rpc_internal | Rpc_data_loss

definition nexus_error_code :: "NexusError \<Rightarrow> rpc_code" where
  "nexus_error_code e =
     (case e of
        Nexus_InvalidUuid _ \<Rightarrow> Rpc_invalid_argument
      | Nexus_InvalidKey \<Rightarrow> Rpc_invalid_argument
      | Nexus_InvalidShareProtocol _ \<Rightarrow> Rpc_invalid_argument
      | Nexus_InvalidReservation _ \<Rightarrow> Rpc_invalid_argument
      | Nexus_AlreadyShared _ \<Rightarrow> Rpc_invalid_argument
      | Nexus_NotShared _ \<Rightarrow> Rpc_invalid_argument
      | Nexus_NotSharedNvmf _ \<Rightarrow> Rpc_invalid_argument
      | Nexus_CreateChild _ _ \<Rightarrow> Rpc_invalid_argument
      | Nexus_MixedBlockSizes _ \<Rightarrow> Rpc_invalid_argument
      | Nexus_ChildGeometry _ _ \<Rightarrow> Rpc_invalid_argument
      | Nexus_ChildTooSmall _ _ _ _ _ \<Rightarrow> Rpc_invalid_argument
      | Nexus_OpenChild _ _ _ \<Rightarrow> Rpc_invalid_argument
      | Nexus_OperationNotAllowed _ \<Rightarrow> Rpc_failed_precondition
      | Nexus_RemoveLastChild _ _ \<Rightarrow> Rpc_failed_precondition
      | Nexus_RemoveLastHealthyChild _ _ \<Rightarrow> Rpc_failed_precondition
      | Nexus_ChildNotFound _ _ \<Rightarrow> Rpc_not_found
      | Nexus_RebuildJobNotFound _ _ \<Rightarrow> Rpc_not_found
      | Nexus_NexusIncomplete _ _ \<Rightarrow> Rpc_failed_precondition
      | Nexus_NexusResize _ _ \<Rightarrow> Rpc_failed_precondition
      | Nexus_NexusNotFound _ \<Rightarrow> Rpc_not_found
      | Nexus_ChildAlreadyExists _ _ \<Rightarrow> Rpc_already_exists
      | Nexus_NameExists _ \<Rightarrow> Rpc_already_exists
      | Nexus_InvalidArguments _ _ \<Rightarrow> Rpc_invalid_argument
      | Nexus_ShareNvmfNexus source _ \<Rightarrow>
          (if core_to_errno source = EMLINK then Rpc_out_of_range else Rpc_internal)
      | Nexus_NexusInitialising _ \<Rightarrow> Rpc_internal
      | Nexus_UuidExists _ _ \<Rightarrow> Rpc_internal
      | Nexus_ShareNbdNexus _ _ \<Rightarrow> Rpc_internal
      | Nexus_UnshareNexus _ _ \<Rightarrow> Rpc_internal
      | Nexus_RegisterNexus _ _ \<Rightarrow> Rpc_internal
      | Nexus_ChildMissing _ _ \<Rightarrow> Rpc_internal
      | Nexus_ChildWriteExclusiveResvFailed _ _ _ \<Rightarrow> Rpc_internal
      | Nexus_OnlineChild _ _ _ \<Rightarrow> Rpc_internal
      | Nexus_CloseChild _ _ _ \<Rightarrow> Rpc_internal
      | Nexus_ChildDeviceNotOpen _ _ \<Rightarrow> Rpc_failed_precondition
      | Nexus_NoRebuildSource _ \<Rightarrow> Rpc_failed_precondition
      | Nexus_CreateRebuild _ _ _ \<Rightarrow> Rpc_already_exists
      | Nexus_RebuildJobAlreadyExists _ _ \<Rightarrow> Rpc_already_exists
      | Nexus_RebuildOperation _ _ _ \<Rightarrow> Rpc_internal
      | Nexus_InvalidNvmeAnaState _ \<Rightarrow> Rpc_invalid_argument
      | Nexus_NexusCreate _ _ \<Rightarrow> Rpc_internal
      | Nexus_NexusDestroy _ \<Rightarrow> Rpc_internal
      | Nexus_ChildNotDegraded _ _ _ \<Rightarrow> Rpc_failed_precondition
      | Nexus_FailedCreateSnapshot _ _ \<Rightarrow> Rpc_internal
      | Nexus_SubsysNvmf _ \<Rightarrow> Rpc_internal
      | Nexus_UpdateShareProperties _ _ \<Rightarrow> Rpc_internal
      | Nexus_SaveStateFailed _ _ \<Rightarrow> Rpc_data_loss
      | Nexus_NexusSizeUnmatched _ _ _ \<Rightarrow> Rpc_invalid_argument)"

definition nexus_status :: "NexusError \<Rightarrow> rpc_code \<times> Errno" where
  "nexus_status e = (nexus_error_code e, nexus_to_errno e)"

end
