(* ===== verification/Nexus_Persist.thy ===== *)
theory Nexus_Persist
  imports Nexus_Error
begin

text \<open>
  What the nexus records in the persistent store: the operations of \<open>store/etcd.rs\<close> and
  \<open>persistent_store.rs\<close>, the record \<open>NexusInfo\<close> and its updates, the retry loops that save it, and
  \<open>persist\<close> (\<open>bdev/nexus/nexus_persistence.rs\<close>). The record tells the control plane which replicas
  are healthy, so what matters is what reaches the store: the theory proves that retiring replicas
  never removes the last healthy one, that the compare-and-swap of a retirement is applied at most
  once and never over a foreign value, how often a save is tried, and what an operation leaves
  behind when it fails.

  The etcd client, the JSON library and the URL parser are parameters. What is used of etcd (a put
  or a transaction is atomic, and a failed call may or may not have been applied) is the hypothesis
  \<open>etcd_ok\<close>.
\<close>

section \<open>The store\<close>

datatype txn_op_resp = Resp_Put | Resp_Get "(string \<times> u8 list) list"

record txn_resp =
  tr_succeeded :: bool
  tr_op_responses :: "txn_op_resp list"

text \<open>The etcd client on the state \<open>'s\<close> of the cluster; its errors are given by their texts.\<close>

record 's etcd_client =
  ec_put :: "string \<Rightarrow> u8 list \<Rightarrow> 's \<Rightarrow> (string + unit) \<times> 's"
  ec_txn :: "string \<Rightarrow> u8 list \<Rightarrow> u8 list \<Rightarrow> 's \<Rightarrow> (string + txn_resp) \<times> 's"
  ec_get :: "string \<Rightarrow> 's \<Rightarrow> (string + (string \<times> u8 list) list) \<times> 's"
  ec_delete :: "string \<Rightarrow> 's \<Rightarrow> (string + unit) \<times> 's"

definition put_kv ::
  "'s etcd_client \<Rightarrow> string \<Rightarrow> u8 list \<Rightarrow> 's \<Rightarrow> (StoreError + unit) \<times> 's" where
  "put_kv client key vec_value s =
     (case ec_put client key vec_value s of
        (Inl source, s') \<Rightarrow> (Inl (Store_Put key (map (\<lambda>b. char_of (unat b)) vec_value) source), s')
      | (Inr _, s') \<Rightarrow> (Inr (), s'))"

definition put_kv_cas ::
  "'s etcd_client \<Rightarrow> string \<Rightarrow> u8 list \<Rightarrow> u8 list \<Rightarrow> 's \<Rightarrow> (StoreError + u8 list option) \<times> 's" where
  "put_kv_cas client key new_value expected_value s =
     (case ec_txn client key expected_value new_value s of
        (Inl source, s') \<Rightarrow> (Inl (Store_Txn key source), s')
      | (Inr resp, s') \<Rightarrow>
          (if \<not> tr_succeeded resp then
             (case tr_op_responses resp of
                Resp_Get kvs # _ \<Rightarrow>
                  (case kvs of
                     kv # _ \<Rightarrow> (Inr (Some (snd kv)), s')
                   | [] \<Rightarrow> (Inr None, s'))
              | _ \<Rightarrow> (Inl (Store_Txn key ''Requested TxnOpResponse::Get not found''), s'))
           else (Inr None, s')))"

definition get_kv ::
  "(u8 list \<Rightarrow> string + 'v) \<Rightarrow> 's etcd_client \<Rightarrow> string \<Rightarrow> 's \<Rightarrow>
   (StoreError + 'v) \<times> 's" where
  "get_kv from_slice client key s =
     (case ec_get client key s of
        (Inl source, s') \<Rightarrow> (Inl (Store_Get key source), s')
      | (Inr kvs, s') \<Rightarrow>
          (case kvs of
             kv # _ \<Rightarrow>
               (map_err (Store_DeserialiseValue (map (\<lambda>b. char_of (unat b)) (snd kv)))
                  (from_slice (snd kv)), s')
           | [] \<Rightarrow> (Inl (Store_MissingEntry key), s')))"

definition delete_kv :: "'s etcd_client \<Rightarrow> string \<Rightarrow> 's \<Rightarrow> (StoreError + unit) \<times> 's" where
  "delete_kv client key s =
     (case ec_delete client key s of
        (Inl source, s') \<Rightarrow> (Inl (Store_Delete key source), s')
      | (Inr _, s') \<Rightarrow> (Inr (), s'))"

text \<open>\<open>execute_store_op\<close> runs an operation under a timeout on another runtime. An operation that
  times out, or whose answer is lost, may have been applied or not; the fate of a call is an
  input.\<close>

datatype op_fate = Op_Done | Op_TimedOut bool | Op_Canceled bool

definition execute_store_op ::
  "op_fate \<Rightarrow> StoreError \<Rightarrow> ('s \<Rightarrow> (StoreError + 'a) \<times> 's) \<Rightarrow> 's \<Rightarrow> (StoreError + 'a) \<times> 's" where
  "execute_store_op fate wait_error f s =
     (case fate of
        Op_Done \<Rightarrow> f s
      | Op_TimedOut applied \<Rightarrow> (Inl Store_OpTimeout, if applied then snd (f s) else s)
      | Op_Canceled applied \<Rightarrow> (Inl wait_error, if applied then snd (f s) else s))"

definition store_put ::
  "'s etcd_client \<Rightarrow> op_fate \<Rightarrow> string \<Rightarrow> u8 list \<Rightarrow> 's \<Rightarrow> (StoreError + unit) \<times> 's" where
  "store_put client fate key v =
     execute_store_op fate (Store_PutWait key (map (\<lambda>b. char_of (unat b)) v)) (put_kv client key v)"

definition txn_create_execute ::
  "'s etcd_client \<Rightarrow> op_fate \<Rightarrow> string \<Rightarrow> u8 list \<Rightarrow> u8 list \<Rightarrow> 's \<Rightarrow>
   (StoreError + u8 list option) \<times> 's" where
  "txn_create_execute client fate key new_value expected_value =
     execute_store_op fate (Store_TxnWait key) (put_kv_cas client key new_value expected_value)"

definition store_get ::
  "(u8 list \<Rightarrow> string + 'v) \<Rightarrow> 's etcd_client \<Rightarrow> op_fate \<Rightarrow> string \<Rightarrow> 's \<Rightarrow> (StoreError + 'v) \<times> 's" where
  "store_get from_slice client fate key =
     execute_store_op fate (Store_GetWait key) (get_kv from_slice client key)"

definition store_delete :: "'s etcd_client \<Rightarrow> op_fate \<Rightarrow> string \<Rightarrow> 's \<Rightarrow> (StoreError + unit) \<times> 's" where
  "store_delete client fate key =
     execute_store_op fate (Store_DeleteWait key) (delete_kv client key)"

section \<open>The nexus information\<close>

record ChildInfo =
  ci_uuid :: string
  ci_healthy :: bool

record NexusInfo =
  ni_clean_shutdown :: bool
  ni_do_self_shutdown :: bool
  ni_children :: "ChildInfo list"
  ni_shared :: "bool option"

definition info_default :: NexusInfo where
  "info_default = \<lparr> ni_clean_shutdown = False, ni_do_self_shutdown = False, ni_children = [],
     ni_shared = None \<rparr>"

definition info_shared :: "NexusInfo \<Rightarrow> bool" where
  "info_shared i = (case ni_shared i of Some b \<Rightarrow> b | None \<Rightarrow> True)"

record PersistentNexusInfo =
  pi_inner :: NexusInfo
  pi_key :: "string option"

definition persistent_info_new :: "string option \<Rightarrow> PersistentNexusInfo" where
  "persistent_info_new key = \<lparr> pi_inner = info_default, pi_key = key \<rparr>"

datatype PersistOp =
    PO_Create
  | PO_AddChild string bool
  | PO_RemoveChild string
  | PO_Update string bool
  | PO_UpdateCond string bool "NexusInfo \<Rightarrow> bool"
  | PO_Shutdown
  | PO_SetShared bool

text \<open>Where the information is saved, how the libraries behave and what the other clients of the
  store do before each attempt: the parameters of saving.\<close>

record 's store_env =
  se_client :: "'s etcd_client"
  se_fate :: "nat \<Rightarrow> op_fate"
  se_others :: "nat \<Rightarrow> 's \<Rightarrow> 's"
  se_retries :: u16
  se_enabled :: bool
  se_to_json :: "NexusInfo \<Rightarrow> u8 list"
  se_from_json :: "u8 list \<Rightarrow> NexusInfo option"
  se_query_pairs :: url_parser
  se_name :: string
  se_uuid :: string

definition info_key :: "'s store_env \<Rightarrow> PersistentNexusInfo \<Rightarrow> string" where
  "info_key env info = (case pi_key info of Some k \<Rightarrow> k | None \<Rightarrow> se_uuid env)"

subsection \<open>Saving\<close>

lemma retry_decreases: "retry - 1 \<noteq> (0 :: u16) \<Longrightarrow> unat (retry - 1 - 1) < unat (retry - 1)"
  using unat_minus_one [of "retry - 1"] unat_gt_0 [of "retry - 1"] by linarith

text \<open>The loop of \<open>save\<close>: \<open>retry\<close> is the counter of the source, \<open>i\<close> numbers the attempts. The
  decrement wraps around.\<close>

function save_loop ::
  "'s store_env \<Rightarrow> string \<Rightarrow> u8 list \<Rightarrow> u16 \<Rightarrow> nat \<Rightarrow> 's \<Rightarrow> (NexusError + unit) \<times> 's" where
  "save_loop env key v retry i s =
     (case store_put (se_client env) (se_fate env i) key v (se_others env i s) of
        (Inr _, s') \<Rightarrow> (Inr (), s')
      | (Inl err, s') \<Rightarrow>
          (if retry - 1 = 0 then (Inl (Nexus_SaveStateFailed err (se_name env)), s')
           else save_loop env key v (retry - 1) (i + 1) s'))"
  by pat_completeness auto
termination
proof (relation "measure (\<lambda>(env, key, v, retry, i, s). unat (retry - 1))", simp)
  fix retry :: u16
  assume "retry - 1 \<noteq> 0"
  from retry_decreases [OF this] show "((env, key, v, retry - 1, i + 1, s'), (env, key, v, retry, i, s))
      \<in> measure (\<lambda>(env, key, v, retry, i, s). unat (retry - 1))" for env key v i s s'
    by simp
qed

definition save :: "'s store_env \<Rightarrow> PersistentNexusInfo \<Rightarrow> 's \<Rightarrow> (NexusError + unit) \<times> 's" where
  "save env info =
     save_loop env (info_key env info) (se_to_json env (pi_inner info)) (se_retries env) 0"

text \<open>The loop of \<open>save_txn\<close>. A value that the JSON library cannot read is a panic. On a foreign value
  the marker \<open>do_self_shutdown\<close> found there is copied into the information in memory.\<close>

function save_txn_loop ::
  "'s store_env \<Rightarrow> string \<Rightarrow> u8 list \<Rightarrow> u8 list \<Rightarrow> u16 \<Rightarrow> nat \<Rightarrow> PersistentNexusInfo \<Rightarrow> 's \<Rightarrow>
   ((NexusError + unit) \<times> PersistentNexusInfo \<times> 's) option" where
  "save_txn_loop env key new_value expected_value retry i info s =
     (case txn_create_execute (se_client env) (se_fate env i) key new_value expected_value
             (se_others env i s) of
        (Inr None, s') \<Rightarrow> Some (Inr (), info, s')
      | (Inr (Some current_value), s') \<Rightarrow>
          (case se_from_json env current_value of
             None \<Rightarrow> None
           | Some val \<Rightarrow>
               if current_value = new_value then Some (Inr (), info, s')
               else
                 Some (Inl (Nexus_SaveStateFailed (Store_Txn key ''Txn CompareOp failed'')
                              (se_name env)),
                       info\<lparr>pi_inner := (pi_inner info)\<lparr>ni_do_self_shutdown :=
                                           ni_do_self_shutdown val\<rparr>\<rparr>, s'))
      | (Inl err, s') \<Rightarrow>
          (if retry - 1 = 0 then Some (Inl (Nexus_SaveStateFailed err (se_name env)), info, s')
           else save_txn_loop env key new_value expected_value (retry - 1) (i + 1) info s'))"
  by pat_completeness auto
termination
proof (relation "measure (\<lambda>(env, key, n, e, retry, i, info, s). unat (retry - 1))", simp)
  fix retry :: u16
  assume "retry - 1 \<noteq> 0"
  from retry_decreases [OF this] show "((env, key, n, e, retry - 1, i + 1, info, s'), (env, key, n, e, retry, i, info, s))
      \<in> measure (\<lambda>(env, key, n, e, retry, i, info, s). unat (retry - 1))"
    for env key n e i info s s'
    by simp
qed

definition save_txn ::
  "'s store_env \<Rightarrow> PersistentNexusInfo \<Rightarrow> NexusInfo \<Rightarrow> 's \<Rightarrow>
   ((NexusError + unit) \<times> PersistentNexusInfo \<times> 's) option" where
  "save_txn env info expected s =
     save_txn_loop env (info_key env info) (se_to_json env (pi_inner info))
       (se_to_json env expected) (se_retries env) 0 info s"

subsection \<open>Persisting an operation\<close>

datatype IoMode = Io_Normal | Io_Freeze

text \<open>What \<open>persist\<close> does to the nexus besides the record, in order.\<close>

datatype persist_effect = PE_io_mode IoMode | PE_self_shutdown

definition expect_uuid :: "'s store_env \<Rightarrow> string \<Rightarrow> string option" where
  "expect_uuid env uri = do { u \<leftarrow> child_uuid (se_query_pairs env) uri; u }"

definition update_child_info :: "string \<Rightarrow> bool \<Rightarrow> NexusInfo \<Rightarrow> NexusInfo" where
  "update_child_info uuid healthy info =
     info\<lparr>ni_children :=
       map (\<lambda>c. if ci_uuid c = uuid then c\<lparr>ci_healthy := healthy\<rparr> else c) (ni_children info)\<rparr>"

text \<open>The child records of a new nexus, and the replacement of the first record with the same UUID.\<close>

primrec child_infos :: "'s store_env \<Rightarrow> NexusChild list \<Rightarrow> ChildInfo list option" where
  "child_infos env [] = Some []"
| "child_infos env (c # cs) =
     do {
       u \<leftarrow> expect_uuid env (nc_name c);
       is \<leftarrow> child_infos env cs;
       Some (\<lparr> ci_uuid = u, ci_healthy = is_healthy c \<rparr> # is)
     }"

fun add_child_info :: "ChildInfo \<Rightarrow> ChildInfo list \<Rightarrow> ChildInfo list" where
  "add_child_info ci [] = [ci]"
| "add_child_info ci (r # rs) =
     (if ci_uuid r = ci_uuid ci then ci # rs else r # add_child_info ci rs)"

text \<open>The match of \<open>persist\<close> for the operations that end in \<open>save\<close>: the new information, or the error
  of \<open>Create\<close> with the information it leaves.\<close>

definition persist_update ::
  "'s store_env \<Rightarrow> NexusChild list \<Rightarrow> PersistOp \<Rightarrow> NexusInfo \<Rightarrow>
   (NexusError \<times> NexusInfo + NexusInfo) option" where
  "persist_update env children op info =
     (case op of
        PO_Create \<Rightarrow>
          (if ni_children info = [] \<and> \<not> ni_clean_shutdown info \<and> \<not> ni_do_self_shutdown info then
             do {
               is \<leftarrow> child_infos env children;
               let info' = info\<lparr>ni_children := is\<rparr>;
               if length is = 1 \<and> \<not> ci_healthy (hd is) then
                 Some (Inl (Nexus_NexusCreate (se_name env) ''only child is unhealthy'', info'))
               else Some (Inr (info'\<lparr>ni_clean_shutdown := False, ni_shared := Some False\<rparr>))
             }
           else None)
      | PO_AddChild uri healthy \<Rightarrow>
          do {
            u \<leftarrow> expect_uuid env uri;
            Some (Inr (info\<lparr>ni_children :=
              add_child_info \<lparr> ci_uuid = u, ci_healthy = healthy \<rparr> (ni_children info)\<rparr>))
          }
      | PO_RemoveChild uri \<Rightarrow>
          do {
            u \<leftarrow> expect_uuid env uri;
            Some (Inr (info\<lparr>ni_children := filter (\<lambda>c. ci_uuid c \<noteq> u) (ni_children info)\<rparr>))
          }
      | PO_Update uri healthy \<Rightarrow>
          do { u \<leftarrow> expect_uuid env uri; Some (Inr (update_child_info u healthy info)) }
      | PO_UpdateCond uri healthy _ \<Rightarrow>
          do { u \<leftarrow> expect_uuid env uri; Some (Inr (update_child_info u healthy info)) }
      | PO_Shutdown \<Rightarrow> Some (Inr (info\<lparr>ni_clean_shutdown := True\<rparr>))
      | PO_SetShared shared \<Rightarrow> Some (Inr (info\<lparr>ni_shared := Some shared\<rparr>)))"

text \<open>\<open>persist\<close>: the result, the information in memory, what is done to the nexus, and the store.\<close>

definition persist ::
  "'s store_env \<Rightarrow> NexusChild list \<Rightarrow> PersistOp \<Rightarrow> PersistentNexusInfo \<Rightarrow> 's \<Rightarrow>
   ((NexusError + unit) \<times> PersistentNexusInfo \<times> persist_effect list \<times> 's) option" where
  "persist env children op pinfo s =
     (if \<not> se_enabled env then Some (Inr (), pinfo, [], s)
      else
        let freeze = PE_io_mode Io_Freeze; normal = PE_io_mode Io_Normal in
        case op of
          PO_UpdateCond uri healthy predicate \<Rightarrow>
            (if \<not> predicate (pi_inner pinfo) then Some (Inr (), pinfo, [freeze, normal], s)
             else
               do {
                 u \<leftarrow> expect_uuid env uri;
                 let pinfo' = pinfo\<lparr>pi_inner := update_child_info u healthy (pi_inner pinfo)\<rparr>;
                 (r, pinfo'', s') \<leftarrow> save_txn env pinfo' (pi_inner pinfo) s;
                 Some (case r of
                         Inr _ \<Rightarrow> (Inr (), pinfo'', [freeze, normal], s')
                       | Inl e \<Rightarrow> (Inl e, pinfo'', [freeze, PE_self_shutdown], s'))
               })
        | _ \<Rightarrow>
            do {
              r \<leftarrow> persist_update env children op (pi_inner pinfo);
              case r of
                Inl (e, info') \<Rightarrow> Some (Inl e, pinfo\<lparr>pi_inner := info'\<rparr>, [freeze], s)
              | Inr info' \<Rightarrow>
                  let pinfo' = pinfo\<lparr>pi_inner := info'\<rparr> in
                  Some (case save env pinfo' s of
                          (Inr _, s') \<Rightarrow> (Inr (), pinfo', [freeze, normal], s')
                        | (Inl e, s') \<Rightarrow>
                            (Inl e, pinfo',
                             [freeze] @ (case op of PO_Shutdown \<Rightarrow> [] | _ \<Rightarrow> [PE_self_shutdown]), s'))
            })"

text \<open>The predicate with which \<open>child_retire_persist\<close> guards a retirement.\<close>

definition num_healthy :: "NexusInfo \<Rightarrow> nat" where
  "num_healthy info = length (filter ci_healthy (ni_children info))"

definition retire_predicate :: "NexusInfo \<Rightarrow> bool" where
  "retire_predicate info =
     (if num_healthy info = 0 then False else if num_healthy info = 1 then False else True)"

section \<open>What is used of etcd\<close>

text \<open>\<open>lk s\<close> is the content of the cluster. A put or a transaction that is answered has been applied
  atomically; one that fails may have been applied or not. A transaction compares the value of the
  key, which fails when the key does not exist, and otherwise answers with what it found.\<close>

definition put_call_ok ::
  "('s \<Rightarrow> string \<Rightarrow> u8 list option) \<Rightarrow> 's \<Rightarrow> string \<Rightarrow> u8 list \<Rightarrow> (string + unit) \<times> 's \<Rightarrow> bool" where
  "put_call_ok lk s k v res =
     (case res of
        (Inr _, s') \<Rightarrow> lk s' = (lk s)(k \<mapsto> v)
      | (Inl _, s') \<Rightarrow> lk s' = lk s \<or> lk s' = (lk s)(k \<mapsto> v))"

definition txn_call_ok ::
  "('s \<Rightarrow> string \<Rightarrow> u8 list option) \<Rightarrow> 's \<Rightarrow> string \<Rightarrow> u8 list \<Rightarrow> u8 list \<Rightarrow>
   (string + txn_resp) \<times> 's \<Rightarrow> bool" where
  "txn_call_ok lk s k e n res =
     (case res of
        (Inr r, s') \<Rightarrow>
          (if lk s k = Some e then tr_succeeded r \<and> lk s' = (lk s)(k \<mapsto> n)
           else \<not> tr_succeeded r \<and> lk s' = lk s \<and>
                tr_op_responses r =
                  [Resp_Get (case lk s k of None \<Rightarrow> [] | Some v \<Rightarrow> [(k, v)])])
      | (Inl _, s') \<Rightarrow> lk s' = lk s \<or> lk s k = Some e \<and> lk s' = (lk s)(k \<mapsto> n))"

definition etcd_ok :: "('s \<Rightarrow> string \<Rightarrow> u8 list option) \<Rightarrow> 's etcd_client \<Rightarrow> bool" where
  "etcd_ok lk client \<longleftrightarrow>
     (\<forall>k v s. put_call_ok lk s k v (ec_put client k v s)) \<and>
     (\<forall>k e n s. txn_call_ok lk s k e n (ec_txn client k e n s))"

text \<open>The other clients of the store leave the key of this nexus alone.\<close>

definition others_keep :: "('s \<Rightarrow> string \<Rightarrow> u8 list option) \<Rightarrow> string \<Rightarrow> 's store_env \<Rightarrow> bool" where
  "others_keep lk key env \<longleftrightarrow> (\<forall>i s. lk (se_others env i s) key = lk s key)"

text \<open>One attempt of a transaction, seen from the key.\<close>

lemma put_kv_cas_cases:
  assumes "etcd_ok lk client" and "put_kv_cas client key n e s = (r, s')"
  shows "(\<exists>err. r = Inl err) \<and> (lk s' key = lk s key \<or> lk s key = Some e \<and> lk s' key = Some n) \<or>
         r = Inr None \<and> lk s key = Some e \<and> lk s' key = Some n \<or>
         r = Inr None \<and> lk s key = None \<and> lk s' key = None \<or>
         (\<exists>v. r = Inr (Some v) \<and> lk s key = Some v \<and> v \<noteq> e \<and> lk s' key = Some v)"
proof -
  obtain a s1 where t: "ec_txn client key e n s = (a, s1)" by fastforce
  have "txn_call_ok lk s key e n (a, s1)"
    using assms(1) unfolding etcd_ok_def t [symmetric] by blast
  then show ?thesis using assms(2) t
    by (cases a; cases "lk s key")
      (auto simp: put_kv_cas_def txn_call_ok_def split: if_splits)
qed

lemma txn_attempt_cases:
  assumes "etcd_ok lk client" and "txn_create_execute client fate key n e s = (r, s')"
  shows "(\<exists>err. r = Inl err) \<and> (lk s' key = lk s key \<or> lk s key = Some e \<and> lk s' key = Some n) \<or>
         r = Inr None \<and> lk s key = Some e \<and> lk s' key = Some n \<or>
         r = Inr None \<and> lk s key = None \<and> lk s' key = None \<or>
         (\<exists>v. r = Inr (Some v) \<and> lk s key = Some v \<and> v \<noteq> e \<and> lk s' key = Some v)"
proof -
  obtain r1 s1 where c: "put_kv_cas client key n e s = (r1, s1)" by fastforce
  show ?thesis
    using put_kv_cas_cases [OF assms(1) c] assms(2) c
    by (cases fate) (auto simp: txn_create_execute_def execute_store_op_def split: if_splits)
qed

text \<open>The whole loop: a transaction starting from the expected value, or from the new one, stays
  within these two and ends in success only with the new one; starting from any other value it
  changes nothing and does not succeed.\<close>

declare save_loop.simps [simp del] save_txn_loop.simps [simp del]

lemma save_txn_loop_own:
  assumes "save_txn_loop env key n e retry i info s = Some (r, info', s')"
    and "etcd_ok lk (se_client env)" and "others_keep lk key env"
    and "lk s key = Some e \<or> lk s key = Some n"
  shows "(lk s' key = Some e \<or> lk s' key = Some n) \<and> (is_ok r \<longrightarrow> lk s' key = Some n)"
  using assms(1,4)
proof (induction "unat (retry - 1)" arbitrary: retry i s rule: less_induct)
  case less
  obtain a s1 where t: "txn_create_execute (se_client env) (se_fate env i) key n e
      (se_others env i s) = (a, s1)" by fastforce
  have k: "lk (se_others env i s) key = lk s key"
    using assms(3) by (simp add: others_keep_def)
  note c = txn_attempt_cases [OF assms(2) t, unfolded k]
  show ?case
  proof (cases a)
    case (Inl err)
    then have own: "lk s1 key = Some e \<or> lk s1 key = Some n"
      using c less.prems(2) by auto
    show ?thesis
    proof (cases "retry - 1 = 0")
      case True
      then show ?thesis
        using less.prems(1) t Inl own by (subst (asm) save_txn_loop.simps) auto
    next
      case False
      have "save_txn_loop env key n e (retry - 1) (i + 1) info s1 = Some (r, info', s')"
        using less.prems(1) t Inl False by (subst (asm) save_txn_loop.simps) simp
      then show ?thesis using less.hyps [OF retry_decreases [OF False]] own by blast
    qed
  next
    case (Inr o)
    then show ?thesis
      using less.prems t c
      by (subst (asm) save_txn_loop.simps) (auto split: option.splits if_splits)
  qed
qed

lemma save_txn_loop_foreign:
  assumes "save_txn_loop env key n e retry i info s = Some (r, info', s')"
    and "etcd_ok lk (se_client env)" and "others_keep lk key env"
    and "lk s key = Some v" and "v \<noteq> e" and "v \<noteq> n"
  shows "lk s' key = Some v \<and> \<not> is_ok r"
  using assms(1,4)
proof (induction "unat (retry - 1)" arbitrary: retry i s rule: less_induct)
  case less
  obtain a s1 where t: "txn_create_execute (se_client env) (se_fate env i) key n e
      (se_others env i s) = (a, s1)" by fastforce
  have k: "lk (se_others env i s) key = lk s key"
    using assms(3) by (simp add: others_keep_def)
  note c = txn_attempt_cases [OF assms(2) t, unfolded k]
  show ?case
  proof (cases a)
    case (Inl err)
    then have own: "lk s1 key = Some v" using c less.prems(2) assms(5) by auto
    show ?thesis
    proof (cases "retry - 1 = 0")
      case True
      then show ?thesis
        using less.prems(1) t Inl own by (subst (asm) save_txn_loop.simps) auto
    next
      case False
      have "save_txn_loop env key n e (retry - 1) (i + 1) info s1 = Some (r, info', s')"
        using less.prems(1) t Inl False by (subst (asm) save_txn_loop.simps) simp
      then show ?thesis using less.hyps [OF retry_decreases [OF False]] own by blast
    qed
  next
    case (Inr o)
    then show ?thesis
      using less.prems t c assms(5,6)
      by (subst (asm) save_txn_loop.simps) (auto split: option.splits if_splits)
  qed
qed

lemma txn_answered:
  assumes "etcd_ok lk client" and "is_ok (fst (ec_txn client key e n s))"
  shows "is_ok (fst (txn_create_execute client Op_Done key n e s))"
proof -
  obtain a s1 where t: "ec_txn client key e n s = (a, s1)" by fastforce
  have "txn_call_ok lk s key e n (a, s1)"
    using assms(1) unfolding etcd_ok_def t [symmetric] by blast
  then show ?thesis using assms(2) t
    by (cases a; cases "lk s key")
      (auto simp: txn_create_execute_def execute_store_op_def put_kv_cas_def txn_call_ok_def
        split: if_splits)
qed

lemma save_txn_loop_live:
  assumes "etcd_ok lk (se_client env)" and "others_keep lk key env"
    and "\<And>e n s. is_ok (fst (ec_txn (se_client env) key e n s))" and "se_from_json env n \<noteq> None"
    and "lk s key = Some e \<or> lk s key = Some n"
    and "se_fate env (i + j) = Op_Done" and "j \<le> unat (retry - 1)"
  shows "\<exists>info' s'. save_txn_loop env key n e retry i info s = Some (Inr (), info', s')"
  using assms(5-7)
proof (induction "unat (retry - 1)" arbitrary: retry i j s rule: less_induct)
  case less
  obtain a s1 where t: "txn_create_execute (se_client env) (se_fate env i) key n e
      (se_others env i s) = (a, s1)" by fastforce
  have k: "lk (se_others env i s) key = lk s key"
    using assms(2) by (simp add: others_keep_def)
  note c = txn_attempt_cases [OF assms(1) t, unfolded k]
  show ?case
  proof (cases a)
    case (Inl err)
    have "se_fate env i \<noteq> Op_Done"
      using txn_answered [OF assms(1), where key = key and e = e and n = n] assms(3) t Inl
      by (metis fst_conv is_ok.simps(1))
    then obtain j' where j: "j = Suc j'" using less.prems(2) by (cases j) auto
    then have ne: "retry - 1 \<noteq> 0" using less.prems(3) by auto
    then have "unat (retry - 1 - 1) = unat (retry - 1) - 1" by (rule unat_minus_one)
    then have "\<exists>info' s'. save_txn_loop env key n e (retry - 1) (i + 1) info s1 =
        Some (Inr (), info', s')"
      using less.hyps [OF retry_decreases [OF ne], of s1 "i + 1" j'] less.prems c Inl j by auto
    then show ?thesis using t Inl ne by (subst save_txn_loop.simps) simp
  next
    case (Inr o)
    then show ?thesis
      using less.prems t c assms(4)
      by (subst save_txn_loop.simps) (auto split: option.splits if_splits)
  qed
qed

text \<open>C9: The transaction that records a retirement is applied at most once and its outcome is known.
  Started on the information this nexus expects in the store, whatever the fate of the attempts, the
  store holds afterwards either that information or the new one; success is reported only with the
  new one in the store; and if etcd itself never fails, one answered attempt among the tries the
  configuration allows is enough for success, even when an earlier attempt was applied and its
  answer lost.\<close>

theorem retire_txn_applied_once:
  assumes "etcd_ok lk (se_client env)" and "others_keep lk (info_key env info) env"
    and "lk s (info_key env info) = Some (se_to_json env expected)"
  shows "(\<forall>r info' s'. save_txn env info expected s = Some (r, info', s') \<longrightarrow>
            (lk s' (info_key env info) = Some (se_to_json env expected) \<or>
             lk s' (info_key env info) = Some (se_to_json env (pi_inner info))) \<and>
            (is_ok r \<longrightarrow> lk s' (info_key env info) = Some (se_to_json env (pi_inner info)))) \<and>
         ((\<forall>e n s. is_ok (fst (ec_txn (se_client env) (info_key env info) e n s))) \<and>
          se_from_json env (se_to_json env (pi_inner info)) \<noteq> None \<and>
          (\<exists>j \<le> unat (se_retries env - 1). se_fate env j = Op_Done) \<longrightarrow>
          (\<exists>info' s'. save_txn env info expected s = Some (Inr (), info', s')))"
  using save_txn_loop_own [OF _ assms(1,2)] assms(3)
    save_txn_loop_live [OF assms(1,2), where i = 0 and retry = "se_retries env"]
  by (auto simp: save_txn_def)


text \<open>C38: When the record of the nexus has been deleted from the store, the transaction finds no value
  to compare with, writes nothing, and is nevertheless reported as a success: the retirement is
  taken for recorded, the I/O resumes and the replica is disconnected although the store knows
  nothing of it.\<close>

theorem missing_record_reported_saved:
  assumes "etcd_ok lk (se_client env)" and "others_keep lk (info_key env pinfo) env"
    and "se_enabled env" and "predicate (pi_inner pinfo)" and "expect_uuid env uri = Some u"
    and "lk s (info_key env pinfo) = None" and "se_fate env 0 = Op_Done"
    and "\<forall>e n s. is_ok (fst (ec_txn (se_client env) (info_key env pinfo) e n s))"
  shows "\<exists>pinfo' s'. persist env children (PO_UpdateCond uri healthy predicate) pinfo s =
           Some (Inr (), pinfo', [PE_io_mode Io_Freeze, PE_io_mode Io_Normal], s') \<and>
         lk s' (info_key env pinfo) = None"
proof -
  let ?p = "pinfo\<lparr>pi_inner := update_child_info u healthy (pi_inner pinfo)\<rparr>"
  let ?key = "info_key env pinfo" and ?n = "se_to_json env (pi_inner ?p)"
    and ?e = "se_to_json env (pi_inner pinfo)"
  have k: "info_key env ?p = ?key" by (simp add: info_key_def)
  have o: "lk (se_others env 0 s) ?key = None" using assms(2,6) by (simp add: others_keep_def)
  obtain a s1 where t: "txn_create_execute (se_client env) Op_Done ?key ?n ?e (se_others env 0 s) =
      (a, s1)" by fastforce
  have "is_ok a" using txn_answered [OF assms(1)] assms(8) t by (metis fst_conv)
  then have a: "a = Inr None" and s1: "lk s1 ?key = None"
    using txn_attempt_cases [OF assms(1) t] o by auto
  have "save_txn env ?p (pi_inner pinfo) s = Some (Inr (), ?p, s1)"
    using t a assms(7) by (simp add: save_txn_def k) (subst save_txn_loop.simps, simp)
  then show ?thesis using assms(3-5) s1 by (auto simp: persist_def Let_def)
qed

section \<open>The last healthy replica\<close>

text \<open>No two records of the information carry the same UUID.\<close>

definition info_wf :: "NexusInfo \<Rightarrow> bool" where
  "info_wf info \<longleftrightarrow> distinct (map ci_uuid (ni_children info))"

lemma update_child_info_uuids:
  "map ci_uuid (ni_children (update_child_info u h info)) = map ci_uuid (ni_children info)"
  by (simp add: update_child_info_def)

lemma add_child_info_uuids:
  "set (map ci_uuid (add_child_info ci rs)) = insert (ci_uuid ci) (set (map ci_uuid rs))"
  by (induction ci rs rule: add_child_info.induct) auto

lemma add_child_info_distinct:
  "distinct (map ci_uuid rs) \<Longrightarrow> distinct (map ci_uuid (add_child_info ci rs))"
proof (induction ci rs rule: add_child_info.induct)
  case (2 ci r rs)
  then show ?case using add_child_info_uuids [of ci rs] by auto
qed simp

text \<open>Updating one record costs at most one healthy replica.\<close>

lemma filter_update_other:
  "u \<notin> set (map ci_uuid is) \<Longrightarrow>
     map (\<lambda>c. if ci_uuid c = u then c\<lparr>ci_healthy := h\<rparr> else c) is = is"
  by (rule map_idI) auto

lemma num_healthy_update:
  assumes "info_wf info"
  shows "num_healthy info \<le> Suc (num_healthy (update_child_info u h info))"
proof -
  have "length (filter ci_healthy is) \<le>
      Suc (length (filter ci_healthy (map (\<lambda>c. if ci_uuid c = u then c\<lparr>ci_healthy := h\<rparr> else c) is)))"
    if "distinct (map ci_uuid is)" for "is"
    using that
  proof (induction "is")
    case (Cons c cs)
    then show ?case
      using filter_update_other [of "ci_uuid c" cs h] by (auto simp del: length_filter_map)
  qed simp
  then show ?thesis using assms by (simp add: info_wf_def num_healthy_def update_child_info_def)
qed

text \<open>The retirements of a nexus, one after the other. The attempts, the other clients and the answers
  may differ from one to the next; a retirement may also be refused or fail.\<close>

inductive retired ::
  "('s \<Rightarrow> string \<Rightarrow> u8 list option) \<Rightarrow> (NexusInfo \<Rightarrow> u8 list) \<Rightarrow> string \<Rightarrow>
   PersistentNexusInfo \<times> 's \<Rightarrow> PersistentNexusInfo \<times> 's \<Rightarrow> bool" for lk enc key where
  "etcd_ok lk (se_client env) \<Longrightarrow> se_to_json env = enc \<Longrightarrow> info_key env pinfo = key \<Longrightarrow>
   others_keep lk key env \<Longrightarrow>
   persist env children (PO_UpdateCond uri healthy retire_predicate) pinfo s =
     Some (r, pinfo', effects, s') \<Longrightarrow>
   retired lk enc key (pinfo, s) (pinfo', s')"

definition healthy_on_record ::
  "('s \<Rightarrow> string \<Rightarrow> u8 list option) \<Rightarrow> (NexusInfo \<Rightarrow> u8 list) \<Rightarrow> string \<Rightarrow>
   PersistentNexusInfo \<times> 's \<Rightarrow> bool" where
  "healthy_on_record lk enc key = (\<lambda>(pinfo, s).
     info_wf (pi_inner pinfo) \<and> 0 < num_healthy (pi_inner pinfo) \<and>
     (\<exists>info. lk s key = Some (enc info) \<and> 0 < num_healthy info))"

lemma save_txn_info:
  assumes "save_txn_loop env key n e retry i info s = Some (r, info', s')"
  shows "ni_children (pi_inner info') = ni_children (pi_inner info)"
  using assms
proof (induction "unat (retry - 1)" arbitrary: retry i s rule: less_induct)
  case less
  obtain a s1 where t: "txn_create_execute (se_client env) (se_fate env i) key n e
      (se_others env i s) = (a, s1)" by fastforce
  show ?case
  proof (cases a)
    case (Inl err)
    show ?thesis
    proof (cases "retry - 1 = 0")
      case True
      then show ?thesis
        using less.prems t Inl by (subst (asm) save_txn_loop.simps) auto
    next
      case False
      have "save_txn_loop env key n e (retry - 1) (i + 1) info s1 = Some (r, info', s')"
        using less.prems t Inl False by (subst (asm) save_txn_loop.simps) simp
      then show ?thesis using less.hyps [OF retry_decreases [OF False]] by blast
    qed
  next
    case (Inr o)
    then show ?thesis
      using less.prems t
      by (subst (asm) save_txn_loop.simps) (auto split: option.splits if_splits)
  qed
qed

lemma retired_keeps_healthy:
  assumes "retired lk enc key x y" and "healthy_on_record lk enc key x"
  shows "healthy_on_record lk enc key y"
  using assms
proof (induction rule: retired.induct)
  case (1 env pinfo children uri healthy s r pinfo' effects s')
  show ?case
  proof (cases "se_enabled env \<and> retire_predicate (pi_inner pinfo)")
    case False
    then show ?thesis using 1(5,6) by (auto simp: persist_def Let_def split: if_splits)
  next
    case True
    then obtain u r1 p1 s1 where u: "expect_uuid env uri = Some u"
      and t: "save_txn env (pinfo\<lparr>pi_inner := update_child_info u healthy (pi_inner pinfo)\<rparr>)
                (pi_inner pinfo) s = Some (r1, p1, s1)" and p1: "pinfo' = p1" and s1: "s' = s1"
      using 1(5) by (auto simp: persist_def Let_def split: Option.bind_splits sum.splits)
    let ?p = "pinfo\<lparr>pi_inner := update_child_info u healthy (pi_inner pinfo)\<rparr>"
    have wf: "info_wf (pi_inner pinfo)" using 1(6) by (simp add: healthy_on_record_def)
    have two: "2 \<le> num_healthy (pi_inner pinfo)"
      using True by (auto simp: retire_predicate_def split: if_splits)
    then have new: "0 < num_healthy (pi_inner ?p)"
      using num_healthy_update [OF wf, of u healthy] by simp
    have loop: "save_txn_loop env key (enc (pi_inner ?p)) (enc (pi_inner pinfo)) (se_retries env) 0
        ?p s = Some (r1, p1, s1)"
      using t 1(2,3) by (simp add: save_txn_def info_key_def)
    have "info_wf (pi_inner p1) \<and> 0 < num_healthy (pi_inner p1)"
      using save_txn_info [OF loop] wf new
      by (simp add: info_wf_def num_healthy_def update_child_info_uuids)
    moreover have "\<exists>info. lk s1 key = Some (enc info) \<and> 0 < num_healthy info"
    proof -
      obtain i0 where i0: "lk s key = Some (enc i0)" "0 < num_healthy i0"
        using 1(6) by (auto simp: healthy_on_record_def)
      show ?thesis
      proof (cases "enc i0 = enc (pi_inner pinfo) \<or> enc i0 = enc (pi_inner ?p)")
        case True
        then have "lk s1 key = Some (enc (pi_inner pinfo)) \<or> lk s1 key = Some (enc (pi_inner ?p))"
          using save_txn_loop_own [OF loop 1(1,4)] i0 by auto
        then show ?thesis using new two by fastforce
      next
        case False
        then show ?thesis using save_txn_loop_foreign [OF loop 1(1,4) i0(1)] i0(2) by auto
      qed
    qed
    ultimately show ?thesis using p1 s1 by (simp add: healthy_on_record_def)
  qed
qed

text \<open>C6: However many replicas of a nexus are retired, in whatever order and whatever becomes of the
  attempts to record them, the record in the store always names at least one healthy replica, from
  which the volume can be reconstructed.\<close>

theorem record_keeps_healthy_replica:
  assumes "(retired lk enc key)\<^sup>*\<^sup>* (pinfo, s) (pinfo', s')"
    and "info_wf (pi_inner pinfo)" and "0 < num_healthy (pi_inner pinfo)"
    and "lk s key = Some (enc (pi_inner pinfo))"
  shows "\<exists>info. lk s' key = Some (enc info) \<and> 0 < num_healthy info"
proof -
  have "healthy_on_record lk enc key (pinfo, s)"
    using assms(2-4) by (auto simp: healthy_on_record_def)
  with assms(1) have "healthy_on_record lk enc key (pinfo', s')"
    by (induction rule: rtranclp_induct) (auto intro: retired_keeps_healthy)
  then show ?thesis by (simp add: healthy_on_record_def)
qed

section \<open>The outcome of an operation\<close>

lemma persist_update_wf:
  assumes "persist_update env children op info = Some (Inr info')" and "info_wf info"
    and "op = PO_Create \<longrightarrow> distinct (map (\<lambda>c. expect_uuid env (nc_name c)) children)"
  shows "info_wf info'"
proof -
  have create: "map (\<lambda>c. expect_uuid env (nc_name c)) cs = map (Some \<circ> ci_uuid) is"
    if "child_infos env cs = Some is" for cs "is"
    using that by (induction cs arbitrary: "is") (auto split: Option.bind_splits)
  show ?thesis
  proof (cases op)
    case PO_Create
    then obtain "is" where "is": "child_infos env children = Some is"
      and i: "ni_children info' = is"
      using assms(1) by (auto simp: persist_update_def Let_def split: if_splits Option.bind_splits)
    have "distinct (map Some (map ci_uuid is))"
      using create [OF "is"] assms(3) PO_Create by (simp add: comp_def)
    then show ?thesis using i by (simp add: info_wf_def distinct_map inj_on_def)
  next
    case (PO_AddChild uri h)
    then show ?thesis using assms(1,2) add_child_info_distinct
      by (auto simp: persist_update_def info_wf_def split: Option.bind_splits)
  next
    case (PO_RemoveChild uri)
    then show ?thesis using assms(1,2)
      by (auto simp: persist_update_def info_wf_def distinct_map_filter split: Option.bind_splits)
  qed (use assms(1,2) in \<open>auto simp: persist_update_def info_wf_def update_child_info_uuids
         split: Option.bind_splits\<close>)
qed

lemma store_put_ok:
  assumes "etcd_ok lk client" and "store_put client fate key v s = (Inr (), s')"
  shows "lk s' key = Some v"
proof -
  obtain a s1 where t: "ec_put client key v s = (a, s1)" by fastforce
  have "put_call_ok lk s key v (a, s1)"
    using assms(1) unfolding etcd_ok_def t [symmetric] by blast
  then show ?thesis using assms(2) t
    by (cases a; cases fate)
      (auto simp: store_put_def execute_store_op_def put_kv_def put_call_ok_def)
qed

lemma save_loop_ok:
  assumes "save_loop env key v retry i s = (Inr (), s')" and "etcd_ok lk (se_client env)"
  shows "lk s' key = Some v"
  using assms(1)
proof (induction "unat (retry - 1)" arbitrary: retry i s rule: less_induct)
  case less
  obtain a s1 where t: "store_put (se_client env) (se_fate env i) key v (se_others env i s) =
      (a, s1)" by fastforce
  show ?case
  proof (cases a)
    case (Inl err)
    then have "save_loop env key v retry i s =
        (if retry - 1 = 0 then (Inl (Nexus_SaveStateFailed err (se_name env)), s1)
         else save_loop env key v (retry - 1) (i + 1) s1)"
      using t by (subst save_loop.simps) simp
    then show ?thesis
      using less.prems less.hyps [OF retry_decreases] by (auto split: if_splits)
  next
    case (Inr o)
    then show ?thesis
      using less.prems t store_put_ok [OF assms(2)] by (subst (asm) save_loop.simps) auto
  qed
qed

text \<open>C25: What an operation on the record leaves behind. When it succeeds, I/O is frozen and resumed,
  and for every operation but the conditional one the store holds exactly the information in memory.
  When it fails, I/O stays frozen, and the nexus requests its own shutdown unless it was being
  created with an unhealthy only child or is shutting down already.\<close>

theorem persist_outcome:
  assumes "etcd_ok lk (se_client env)" and "se_enabled env"
    and "persist env children op pinfo s = Some (r, pinfo', effects, s')"
  shows "(is_ok r \<longleftrightarrow> effects = [PE_io_mode Io_Freeze, PE_io_mode Io_Normal]) \<and>
         (is_ok r \<and> (\<forall>uri h p. op \<noteq> PO_UpdateCond uri h p) \<longrightarrow>
            lk s' (info_key env pinfo') = Some (se_to_json env (pi_inner pinfo'))) \<and>
         (\<not> is_ok r \<longrightarrow> effects = [PE_io_mode Io_Freeze, PE_self_shutdown] \<or>
            effects = [PE_io_mode Io_Freeze] \<and> (op = PO_Shutdown \<or> op = PO_Create))"
proof (cases "\<exists>uri h p. op = PO_UpdateCond uri h p")
  case True
  then show ?thesis
    using assms(2,3) by (auto simp: persist_def Let_def split: if_splits Option.bind_splits sum.splits)
next
  case False
  then obtain u where u: "persist_update env children op (pi_inner pinfo) = Some u"
    using assms(2,3) by (cases op) (auto simp: persist_def Let_def split: Option.bind_splits)
  show ?thesis
  proof (cases u)
    case (Inl e)
    then have "op = PO_Create"
      using u False
      by (cases op) (auto simp: persist_update_def split: if_splits Option.bind_splits)
    then show ?thesis using assms(2,3) u Inl by (cases e) (auto simp: persist_def Let_def)
  next
    case (Inr info')
    let ?p = "pinfo\<lparr>pi_inner := info'\<rparr>"
    have ok: "lk s1 (info_key env ?p) = Some (se_to_json env info')"
      if "save env ?p s = (Inr (), s1)" for s1
      using save_loop_ok [OF _ assms(1)] that by (simp add: save_def)
    show ?thesis
      using assms(2,3) u Inr False ok
      by (cases op; cases "save env ?p s"; cases "fst (save env ?p s)")
        (auto simp: persist_def Let_def)
  qed
qed

section \<open>How often a save is tried\<close>

lemma store_put_answered:
  assumes "\<And>k v s. is_ok (fst (ec_put client k v s))"
  shows "is_ok (fst (store_put client fate key v s)) \<longleftrightarrow> fate = Op_Done"
  using assms [of key v s]
  by (cases fate)
    (auto simp: store_put_def execute_store_op_def put_kv_def split: prod.splits sum.splits)

lemma save_loop_tries:
  assumes "\<And>k v s. is_ok (fst (ec_put (se_client env) k v s))"
  shows "is_ok (fst (save_loop env key v retry i s)) \<longleftrightarrow>
         (\<exists>j \<le> unat (retry - 1). se_fate env (i + j) = Op_Done)"
proof (induction "unat (retry - 1)" arbitrary: retry i s rule: less_induct)
  case less
  obtain a s1 where t: "store_put (se_client env) (se_fate env i) key v (se_others env i s) =
      (a, s1)" by fastforce
  have a: "is_ok a \<longleftrightarrow> se_fate env i = Op_Done"
    using store_put_answered [OF assms] t by (metis fst_conv)
  show ?case
  proof (cases a)
    case (Inl err)
    then have nd: "se_fate env i \<noteq> Op_Done" using a by simp
    show ?thesis
    proof (cases "retry - 1 = 0")
      case True
      then show ?thesis using t Inl nd by (subst save_loop.simps) simp
    next
      case False
      then have pred: "unat (retry - 1) = Suc (unat (retry - 1 - 1))"
        using unat_minus_one [OF False] unat_gt_0 [of "retry - 1"] by simp
      have "is_ok (fst (save_loop env key v retry i s)) \<longleftrightarrow>
          is_ok (fst (save_loop env key v (retry - 1) (i + 1) s1))"
        using t Inl False by (subst save_loop.simps) simp
      also have "\<dots> \<longleftrightarrow> (\<exists>j \<le> unat (retry - 1 - 1). se_fate env (i + 1 + j) = Op_Done)"
        using less.hyps [OF retry_decreases [OF False]] by simp
      also have "\<dots> \<longleftrightarrow> (\<exists>j \<le> unat (retry - 1). se_fate env (i + j) = Op_Done)"
      proof
        assume "\<exists>j \<le> unat (retry - 1 - 1). se_fate env (i + 1 + j) = Op_Done"
        then obtain j where "j \<le> unat (retry - 1 - 1)" and "se_fate env (i + Suc j) = Op_Done"
          by auto
        then show "\<exists>j \<le> unat (retry - 1). se_fate env (i + j) = Op_Done"
          unfolding pred by (intro exI [of _ "Suc j"]) simp
      next
        assume "\<exists>j \<le> unat (retry - 1). se_fate env (i + j) = Op_Done"
        then obtain j where "j \<le> Suc (unat (retry - 1 - 1))" and "se_fate env (i + j) = Op_Done"
          unfolding pred by auto
        then show "\<exists>j \<le> unat (retry - 1 - 1). se_fate env (i + 1 + j) = Op_Done"
          using nd by (cases j) auto
      qed
      finally show ?thesis .
    qed
  next
    case (Inr o)
    then show ?thesis using t a by (subst save_loop.simps) auto
  qed
qed

text \<open>Saving the record always ends, after as many attempts as the configuration allows: with a
  store that answers every call it runs, saving fails exactly if none of the first \<open>retries\<close> attempts
  is answered in time. The counter wraps around, so a configured number of 0 stands for 65536
  attempts.\<close>

theorem save_gives_up:
  assumes "\<forall>k v s. is_ok (fst (ec_put (se_client env) k v s))"
  shows "is_ok (fst (save env info s)) \<longleftrightarrow>
         (\<exists>j < (if se_retries env = 0 then 65536 else unat (se_retries env)).
            se_fate env j = Op_Done)"
proof -
  have "unat (se_retries env - 1) = (if se_retries env = 0 then 65535 else unat (se_retries env) - 1)"
    by (simp add: unat_minus_one unsigned_minus_1_eq_mask mask_eq_exp_minus_1)
  moreover have "se_retries env \<noteq> 0 \<Longrightarrow> 0 < unat (se_retries env)" by (simp add: unat_gt_0)
  ultimately have "j \<le> unat (se_retries env - 1) \<longleftrightarrow>
      j < (if se_retries env = 0 then 65536 else unat (se_retries env))" for j
    by auto
  then show ?thesis
    using save_loop_tries [of env] assms by (simp add: save_def)
qed

section \<open>Instances\<close>

text \<open>A store in memory, a naive encoding of the record and URIs that are their own UUIDs.\<close>

definition mem_client :: "(string \<Rightarrow> u8 list option) etcd_client" where
  "mem_client = \<lparr> ec_put = (\<lambda>k v s. (Inr (), s(k \<mapsto> v))),
     ec_txn = (\<lambda>k e n s.
       if s k = Some e then (Inr \<lparr> tr_succeeded = True, tr_op_responses = [Resp_Put] \<rparr>, s(k \<mapsto> n))
       else (Inr \<lparr> tr_succeeded = False, tr_op_responses =
               [Resp_Get (case s k of None \<Rightarrow> [] | Some v \<Rightarrow> [(k, v)])] \<rparr>, s)),
     ec_get = (\<lambda>k s. (Inr (case s k of None \<Rightarrow> [] | Some v \<Rightarrow> [(k, v)]), s)),
     ec_delete = (\<lambda>k s. (Inr (), s(k := None))) \<rparr>"

definition mem_json :: "NexusInfo \<Rightarrow> u8 list" where
  "mem_json i = (if ni_do_self_shutdown i then 1 else 0) #
     map (\<lambda>c. if ci_healthy c then 1 else 0) (ni_children i)"

definition mem_env :: "(nat \<Rightarrow> op_fate) \<Rightarrow> u16 \<Rightarrow> (string \<Rightarrow> u8 list option) store_env" where
  "mem_env fate retries = \<lparr> se_client = mem_client, se_fate = fate, se_others = (\<lambda>_ s. s),
     se_retries = retries, se_enabled = True, se_to_json = mem_json,
     se_from_json = (\<lambda>_. Some info_default), se_query_pairs = (\<lambda>u. Some [(''uuid'', u)]),
     se_name = ''nexus'', se_uuid = ''key'' \<rparr>"

definition two_healthy :: PersistentNexusInfo where
  "two_healthy = \<lparr> pi_inner = info_default\<lparr>ni_children :=
     [\<lparr>ci_uuid = ''a'', ci_healthy = True\<rparr>, \<lparr>ci_uuid = ''b'', ci_healthy = True\<rparr>]\<rparr>,
     pi_key = None \<rparr>"

lemma mem_client_ok: "etcd_ok id mem_client"
  by (auto simp: etcd_ok_def put_call_ok_def txn_call_ok_def mem_client_def)

lemma mem_others_keep: "others_keep id key (mem_env fate retries)"
  by (simp add: others_keep_def mem_env_def)

lemma mem_env_fields [simp]:
  "se_client (mem_env fate retries) = mem_client" "se_fate (mem_env fate retries) = fate"
  "se_retries (mem_env fate retries) = retries" "se_enabled (mem_env fate retries)"
  "se_to_json (mem_env fate retries) = mem_json" "info_key (mem_env fate retries) two_healthy = ''key''"
  "expect_uuid (mem_env fate retries) u = Some u"
  by (simp_all add: mem_env_def info_key_def two_healthy_def expect_uuid_def child_uuid_def)

lemma two_healthy_facts [simp]:
  "retire_predicate (pi_inner two_healthy)" "info_wf (pi_inner two_healthy)"
  "num_healthy (pi_inner two_healthy) = 2" "mem_json (pi_inner two_healthy) = [0, 1, 1]"
  "mem_json (update_child_info ''a'' False (pi_inner two_healthy)) = [0, 0, 1]"
  by (simp_all add: two_healthy_def info_default_def retire_predicate_def num_healthy_def
      info_wf_def mem_json_def update_child_info_def)

lemma mem_txn_answers [simp]: "is_ok (fst (ec_txn mem_client k e n s))"
  by (simp add: mem_client_def)

lemma mem_persist_returns:
  "persist (mem_env (\<lambda>_. Op_Done) 5) [] (PO_UpdateCond ''a'' False retire_predicate) two_healthy s
     \<noteq> None"
proof -
  have "save_txn_loop (mem_env (\<lambda>_. Op_Done) 5) k n e 5 0 i s \<noteq> None" for k n e i
    by (subst save_txn_loop.simps)
      (simp add: txn_create_execute_def execute_store_op_def put_kv_cas_def mem_client_def
        mem_env_def split: option.splits)
  then show ?thesis
    by (auto simp: persist_def save_txn_def Let_def split: Option.bind_splits sum.split)
qed

theorem retire_txn_applied_once_witness:
  "\<exists>info' s'. save_txn (mem_env (\<lambda>i. if i = 0 then Op_TimedOut True else Op_Done) 5) two_healthy
       info_default (\<lambda>_. Some [0]) = Some (Inr (), info', s')"
  using retire_txn_applied_once [where lk = id and info = two_healthy and expected = info_default
      and env = "mem_env (\<lambda>i. if i = 0 then Op_TimedOut True else Op_Done) 5" and s = "\<lambda>_. Some [0]"]
    mem_client_ok mem_others_keep
  by (auto simp: mem_json_def info_default_def mem_env_def intro!: exI [of _ 1])


theorem missing_record_reported_saved_witness:
  "\<exists>pinfo' s'. persist (mem_env (\<lambda>_. Op_Done) 5) [] (PO_UpdateCond ''a'' False retire_predicate)
       two_healthy Map.empty = Some (Inr (), pinfo', [PE_io_mode Io_Freeze, PE_io_mode Io_Normal], s') \<and>
     s' ''key'' = None"
  using missing_record_reported_saved [where lk = id and env = "mem_env (\<lambda>_. Op_Done) 5"
      and pinfo = two_healthy and uri = "''a''" and u = "''a''" and s = Map.empty
      and predicate = retire_predicate] mem_client_ok mem_others_keep
  by simp

theorem record_keeps_healthy_replica_witness:
  "\<exists>pinfo' s'. retired id mem_json ''key'' (two_healthy, \<lambda>_. Some [0, 1, 1]) (pinfo', s') \<and>
     (\<exists>info. s' ''key'' = Some (mem_json info) \<and> 0 < num_healthy info)"
proof -
  obtain r pinfo' effects s' where p: "persist (mem_env (\<lambda>_. Op_Done) 5) [] (PO_UpdateCond ''a''
      False retire_predicate) two_healthy (\<lambda>_. Some [0, 1, 1]) = Some (r, pinfo', effects, s')"
    using mem_persist_returns by fast
  have "retired id mem_json ''key'' (two_healthy, \<lambda>_. Some [0, 1, 1]) (pinfo', s')"
    using retired.intros [where lk = id, OF _ _ _ _ p] mem_client_ok mem_others_keep by simp
  then show ?thesis
    using record_keeps_healthy_replica [OF r_into_rtranclp] by fastforce
qed

theorem persist_outcome_witness:
  "\<exists>r pinfo' effects s'.
     persist (mem_env (\<lambda>_. Op_Done) 5) [] PO_Shutdown two_healthy Map.empty =
       Some (r, pinfo', effects, s') \<and>
     (is_ok r \<longleftrightarrow> effects = [PE_io_mode Io_Freeze, PE_io_mode Io_Normal])"
proof -
  obtain r pinfo' effects s' where p: "persist (mem_env (\<lambda>_. Op_Done) 5) [] PO_Shutdown two_healthy
      Map.empty = Some (r, pinfo', effects, s')"
    by (cases "persist (mem_env (\<lambda>_. Op_Done) 5) [] PO_Shutdown two_healthy Map.empty")
      (auto simp: persist_def persist_update_def Let_def)
  then show ?thesis
    using persist_outcome [where lk = id, OF _ _ p] mem_client_ok by simp
qed

theorem save_gives_up_witness:
  "\<not> is_ok (fst (save (mem_env (\<lambda>i. if i < 3 then Op_TimedOut False else Op_Done) 3) two_healthy
       Map.empty))"
  using save_gives_up [of "mem_env (\<lambda>i. if i < 3 then Op_TimedOut False else Op_Done) 3" two_healthy
      Map.empty]
  by (simp add: mem_client_def)

end
