(* ===== verification/Nexus_Channel.thy ===== *)
theory Nexus_Channel
  imports Nexus_Persist
begin

text \<open>
  The per-core I/O channels of the nexus (\<open>bdev/nexus/nexus_channel.rs\<close>): the readers, writers and
  detached handles of the children, the rotation between the readers, detaching and disconnecting a
  device, reconnecting after a change of the children, and freezing I/O.

  A handle is identified by the name of its device, an I/O log that a channel holds by the URI of
  its child, a nexus I/O by its number.
\<close>

datatype DrEvent = Dr_ChildUnplug | Dr_ChildRebuild

record NexusChannel =
  ch_writers :: "string list"
  ch_readers :: "string list"
  ch_detached :: "string list"
  ch_io_logs :: "string list"
  ch_previous_reader :: nat
  ch_io_mode :: IoMode
  ch_frozen_ios :: "nat list"
  ch_core :: u32
  ch_is_io_chan :: bool

text \<open>Opening handles, and the registry of the rebuild jobs by destination. A child that is connected
  gets one handle for writing and one for reading.\<close>

record chan_env =
  he_writer :: "string \<Rightarrow> CoreError + string"
  he_reader :: "string \<Rightarrow> CoreError + string"
  he_job_exists :: "string \<Rightarrow> bool"
  he_now :: nat

text \<open>\<open>Nexus::io_log_channels\<close>: the logs of the children that are not being rebuilt.\<close>

definition io_log_channels :: "(string \<Rightarrow> bool) \<Rightarrow> NexusChild list \<Rightarrow> string list" where
  "io_log_channels job_exists children =
     map nc_name (filter (\<lambda>c. \<not> is_rebuilding job_exists c \<and> has_io_log c) children)"

text \<open>\<open>connect_children\<close>. A healthy child whose handles cannot be opened is faulted; then, if there is
  a reader, the children being rebuilt are added as writers.\<close>

primrec connect_healthy ::
  "chan_env \<Rightarrow> NexusChild list \<Rightarrow> NexusChild list \<times> string list \<times> string list" where
  "connect_healthy env [] = ([], [], [])"
| "connect_healthy env (c # cs) =
     (let (cs', ws, rs) = connect_healthy env cs in
      if is_healthy c then
        (case (get_io_handle (he_writer env) c, get_io_handle (he_reader env) c) of
           (Inr w, Inr r) \<Rightarrow> (c # cs', w # ws, r # rs)
         | _ \<Rightarrow> (set_faulted_state (he_now env) FR_CantOpen c # cs', ws, rs))
      else (c # cs', ws, rs))"

primrec connect_rebuilding :: "chan_env \<Rightarrow> NexusChild list \<Rightarrow> NexusChild list \<times> string list" where
  "connect_rebuilding env [] = ([], [])"
| "connect_rebuilding env (c # cs) =
     (let (cs', ws) = connect_rebuilding env cs in
      if is_rebuilding (he_job_exists env) c then
        (case get_io_handle (he_writer env) c of
           Inr hdl \<Rightarrow> (c # cs', hdl # ws)
         | Inl _ \<Rightarrow> (set_faulted_state (he_now env) FR_CantOpen c # cs', ws))
      else (c # cs', ws))"

definition connect_children ::
  "chan_env \<Rightarrow> NexusChild list \<Rightarrow> NexusChannel \<Rightarrow> NexusChild list \<times> NexusChannel" where
  "connect_children env children ch =
     (let (cs1, ws1, rs) = connect_healthy env children;
          (cs2, ws2) = (if rs \<noteq> [] then connect_rebuilding env cs1 else (cs1, []))
      in (cs2, ch\<lparr>ch_writers := ws1 @ ws2, ch_readers := rs\<rparr>))"

definition reconnect_io_logs ::
  "(string \<Rightarrow> bool) \<Rightarrow> NexusChild list \<Rightarrow> NexusChannel \<Rightarrow> NexusChannel" where
  "reconnect_io_logs job_exists children ch =
     ch\<lparr>ch_io_logs := io_log_channels job_exists children\<rparr>"

definition channel_new ::
  "chan_env \<Rightarrow> bool \<Rightarrow> u32 \<Rightarrow> NexusChild list \<Rightarrow> NexusChild list \<times> NexusChannel" where
  "channel_new env is_io_chan core children =
     connect_children env children
       \<lparr> ch_writers = [], ch_readers = [], ch_detached = [],
         ch_io_logs = io_log_channels (he_job_exists env) children, ch_previous_reader = 0,
         ch_io_mode = Io_Normal, ch_frozen_ios = [], ch_core = core, ch_is_io_chan = is_io_chan \<rparr>"

definition channel_destroy :: "NexusChannel \<Rightarrow> NexusChannel" where
  "channel_destroy ch = ch\<lparr>ch_writers := [], ch_readers := [], ch_detached := [], ch_io_logs := []\<rparr>"

definition reconnect_all ::
  "chan_env \<Rightarrow> NexusChild list \<Rightarrow> NexusChannel \<Rightarrow> NexusChild list \<times> NexusChannel" where
  "reconnect_all env children ch =
     (let ch1 = ch\<lparr>ch_previous_reader := 0\<rparr>;
          (cs, ch2) = (if ch_is_io_chan ch1 then connect_children env children ch1
                       else (children, ch1))
      in (cs, reconnect_io_logs (he_job_exists env) cs ch2))"

text \<open>\<open>select_reader\<close>: the index moves on before it is used.\<close>

definition select_reader :: "NexusChannel \<Rightarrow> string option \<times> NexusChannel" where
  "select_reader ch =
     (if ch_readers ch = [] then (None, ch)
      else
        let idx = (if ch_previous_reader ch < length (ch_readers ch) - 1
                   then ch_previous_reader ch + 1 else 0)
        in (Some (ch_readers ch ! idx), ch\<lparr>ch_previous_reader := idx\<rparr>))"

text \<open>\<open>detach_device\<close> moves the first reader and the first writer with the name to the detached
  handles.\<close>

definition channel_detach ::
  "(string \<Rightarrow> bool) \<Rightarrow> NexusChild list \<Rightarrow> string \<Rightarrow> NexusChannel \<Rightarrow> NexusChannel" where
  "channel_detach job_exists children device_name ch =
     (let ch1 = ch\<lparr>ch_previous_reader := 0\<rparr>;
          ch2 = (if device_name \<in> set (ch_readers ch1) then
                   ch1\<lparr>ch_readers := remove1 device_name (ch_readers ch1),
                       ch_detached := ch_detached ch1 @ [device_name]\<rparr>
                 else ch1);
          ch3 = (if device_name \<in> set (ch_writers ch2) then
                   ch2\<lparr>ch_writers := remove1 device_name (ch_writers ch2),
                       ch_detached := ch_detached ch2 @ [device_name]\<rparr>
                 else ch2)
      in reconnect_io_logs job_exists children ch3)"

definition disconnect_detached :: "(string \<Rightarrow> bool) \<Rightarrow> NexusChannel \<Rightarrow> NexusChannel" where
  "disconnect_detached drop_pred ch =
     ch\<lparr>ch_detached := filter (\<lambda>h. \<not> drop_pred h) (ch_detached ch)\<rparr>"

definition is_frozen :: "NexusChannel \<Rightarrow> bool" where
  "is_frozen ch \<longleftrightarrow> ch_io_mode ch = Io_Freeze"

definition freeze_io_submission :: "nat \<Rightarrow> NexusChannel \<Rightarrow> NexusChannel" where
  "freeze_io_submission io ch = ch\<lparr>ch_frozen_ios := ch_frozen_ios ch @ [io]\<rparr>"

section \<open>Lemmas\<close>

lemma channel_detach_fields [simp]:
  "ch_writers (channel_detach j cs d ch) = remove1 d (ch_writers ch)"
  "ch_readers (channel_detach j cs d ch) = remove1 d (ch_readers ch)"
  "ch_io_mode (channel_detach j cs d ch) = ch_io_mode ch"
  "ch_frozen_ios (channel_detach j cs d ch) = ch_frozen_ios ch"
  "ch_core (channel_detach j cs d ch) = ch_core ch"
  "ch_is_io_chan (channel_detach j cs d ch) = ch_is_io_chan ch"
  by (auto simp: channel_detach_def reconnect_io_logs_def Let_def remove1_idem)

lemma reconnect_io_logs_fields [simp]:
  "ch_writers (reconnect_io_logs j cs ch) = ch_writers ch"
  "ch_readers (reconnect_io_logs j cs ch) = ch_readers ch"
  "ch_io_mode (reconnect_io_logs j cs ch) = ch_io_mode ch"
  "ch_frozen_ios (reconnect_io_logs j cs ch) = ch_frozen_ios ch"
  "ch_core (reconnect_io_logs j cs ch) = ch_core ch"
  by (simp_all add: reconnect_io_logs_def)

lemma disconnect_detached_fields [simp]:
  "ch_writers (disconnect_detached p ch) = ch_writers ch"
  "ch_readers (disconnect_detached p ch) = ch_readers ch"
  "ch_io_mode (disconnect_detached p ch) = ch_io_mode ch"
  "ch_frozen_ios (disconnect_detached p ch) = ch_frozen_ios ch"
  "ch_core (disconnect_detached p ch) = ch_core ch"
  by (simp_all add: disconnect_detached_def)

lemma connect_healthy_spec:
  assumes "connect_healthy env cs = (cs', ws, rs)"
  shows "ws = map (\<lambda>c. projr (get_io_handle (he_writer env) c)) (filter is_healthy cs')"
    and "rs = map (\<lambda>c. projr (get_io_handle (he_reader env) c)) (filter is_healthy cs')"
    and "\<forall>c \<in> set cs'. is_healthy c \<longrightarrow> c \<in> set cs \<and>
           is_ok (get_io_handle (he_writer env) c) \<and> is_ok (get_io_handle (he_reader env) c)"
    and "map nc_name cs' = map nc_name cs"
    and "map nc_sync_state cs' = map nc_sync_state cs"
  using assms
  by (induction cs arbitrary: cs' ws rs)
    (fastforce simp: Let_def is_healthy_def split: if_splits prod.splits sum.splits)+

end
