(* ===== verification/Nexus_Io.thy ===== *)
theory Nexus_Io
  imports Nexus_Channel
begin

text \<open>
  The I/O path of the nexus (\<open>bdev/nexus/nexus_io.rs\<close>) together with what it shares with the
  retirement of a device (\<open>bdev/nexus/nexus_bdev_children.rs\<close>): submitting an I/O to one reader or to
  all writers, completing, failing and resubmitting it, faulting a device, and the routine that
  records a retirement and then detaches the device from all channels.

  The state holds the children, the channels, the nexus I/Os and the child I/Os that are under way.
  Every call of \<open>traverse_io_channels\<close> sends a message to each channel; a channel handles its
  messages in order, one step each, and an awaited traversal has ended when no queue holds the
  message any more. Completions of child I/Os are steps of their own. Whether a device accepts an
  I/O at submission is an input: the devices that refuse it are given with the step.
\<close>

section \<open>State\<close>

datatype IoStatus = IoStatus_Pending | IoStatus_Success | IoStatus_Failed

text \<open>How a nexus I/O ends: \<open>ok()\<close>, \<open>fail()\<close>, an NVMe status, or \<open>no_mem()\<close>.\<close>

datatype bio_result = Bio_ok | Bio_failed | Bio_nvme NvmeStatus | Bio_no_mem

text \<open>A nexus I/O with its context \<open>NioCtx\<close>; \<open>bio_channel\<close> is the number of its channel, and
  \<open>bio_ends\<close> lists the completions that were reported to the initiator.\<close>

record NexusBio =
  bio_io_type :: IoType
  bio_offset :: u64
  bio_num_blocks :: u64
  bio_channel :: nat
  bio_in_flight :: u8
  bio_status :: IoStatus
  bio_successful :: u8
  bio_failed :: u8
  bio_resubmits :: u8
  bio_ends :: "bio_result list"

definition bio_new :: "nat \<Rightarrow> IoType \<Rightarrow> u64 \<Rightarrow> u64 \<Rightarrow> NexusBio" where
  "bio_new channel io_type off num_blocks =
     \<lparr> bio_io_type = io_type, bio_offset = off, bio_num_blocks = num_blocks,
       bio_channel = channel, bio_in_flight = 0, bio_status = IoStatus_Pending,
       bio_successful = 0, bio_failed = 0, bio_resubmits = 0, bio_ends = [] \<rparr>"

text \<open>The messages that a traversal sends to a channel.\<close>

datatype chan_msg =
    Msg_reconnect_all
  | Msg_reconnect_io_logs
  | Msg_detach string
  | Msg_disconnect "string list"
  | Msg_disconnect_all
  | Msg_io_mode IoMode
  | Msg_abort_frozen

text \<open>Futures sent to the master core: retiring a device, shutting the nexus down.\<close>

datatype nexus_task = Task_retire string bool | Task_self_shutdown

text \<open>Where the retirement that holds the lock of the nexus information stands.\<close>

datatype retire_stage = Retire_freezing | Retire_recorded

text \<open>\<open>n_child_ios\<close> are the child I/Os submitted and not completed, \<open>n_done\<close> those that the devices
  have completed successfully. \<open>n_lock\<close> is the holder of the lock of the nexus information.\<close>

record 's nio =
  n_children :: "NexusChild list"
  n_channels :: "NexusChannel list"
  n_queues :: "chan_msg list list"
  n_bios :: "NexusBio list"
  n_child_ios :: "(nat \<times> string) list"
  n_done :: "(nat \<times> string) list"
  n_last_error :: IoCompletionStatus
  n_shutdown_requested :: bool
  n_data_ent_offset :: u64
  n_tasks :: "nexus_task list"
  n_lock :: "(string \<times> retire_stage) option"
  n_info :: PersistentNexusInfo
  n_store :: 's
  n_jobs :: "string list"

text \<open>What the configuration and the device layer contribute to a step.\<close>

record io_env =
  ie_log :: log_env
  ie_chan :: chan_env
  ie_refuse :: "string list"

definition job_exists :: "'s nio \<Rightarrow> string \<Rightarrow> bool" where
  "job_exists s uri \<longleftrightarrow> uri \<in> set (n_jobs s)"

definition update_bio :: "nat \<Rightarrow> (NexusBio \<Rightarrow> NexusBio) \<Rightarrow> 's nio \<Rightarrow> 's nio" where
  "update_bio b f s = s\<lparr>n_bios := (n_bios s)[b := f (n_bios s ! b)]\<rparr>"

definition update_channel :: "nat \<Rightarrow> (NexusChannel \<Rightarrow> NexusChannel) \<Rightarrow> 's nio \<Rightarrow> 's nio" where
  "update_channel k f s = s\<lparr>n_channels := (n_channels s)[k := f (n_channels s ! k)]\<rparr>"

definition bio_chan :: "'s nio \<Rightarrow> nat \<Rightarrow> NexusChannel" where
  "bio_chan s b = n_channels s ! bio_channel (n_bios s ! b)"

text \<open>A traversal: the message is sent to every channel.\<close>

definition traverse :: "chan_msg \<Rightarrow> 's nio \<Rightarrow> 's nio" where
  "traverse m s = s\<lparr>n_queues := map (\<lambda>q. q @ [m]) (n_queues s)\<rparr>"

definition traversed :: "chan_msg \<Rightarrow> 's nio \<Rightarrow> bool" where
  "traversed m s \<longleftrightarrow> list_all (\<lambda>q. m \<notin> set q) (n_queues s)"

section \<open>Faulting a device\<close>

fun update_first :: "('a \<Rightarrow> bool) \<Rightarrow> ('a \<Rightarrow> 'a) \<Rightarrow> 'a list \<Rightarrow> 'a list" where
  "update_first P f [] = []"
| "update_first P f (x # xs) = (if P x then f x # xs else x # update_first P f xs)"

definition lookup_child_by_device :: "NexusChild list \<Rightarrow> string \<Rightarrow> NexusChild option" where
  "lookup_child_by_device children device_name =
     List.find (match_device_name device_name) children"

text \<open>\<open>Nexus::retire_child_device\<close>. The result names the child whose log is to be used. The log is
  started before the state changes; only the first fault of an open child schedules the
  retirement.\<close>

definition retire_child_device ::
  "io_env \<Rightarrow> string \<Rightarrow> FaultReason \<Rightarrow> bool \<Rightarrow> 's nio \<Rightarrow> (string option \<times> 's nio) option" where
  "retire_child_device env dev reason retry s =
     (case lookup_child_by_device (n_children s) dev of
        None \<Rightarrow> Some (None, s)
      | Some c \<Rightarrow>
          do {
            (has_log, c1) \<leftarrow> start_io_log (ie_log env) c;
            let open = (nc_state c1 = CS_Open);
            let c2 = (if open then set_fault_timestamp (he_now (ie_chan env))
                                     (child_set_state (CS_Faulted reason) c1)
                      else c1);
            let s1 = s\<lparr>n_children := update_first (match_device_name dev) (\<lambda>_. c2)
                                      (n_children s)\<rparr>;
            let s2 = (if open then s1\<lparr>n_tasks := n_tasks s1 @ [Task_retire dev retry]\<rparr>
                      else s1);
            let s3 = (if has_log then traverse Msg_reconnect_io_logs s2 else s2);
            Some (if has_log then Some (nc_name c2) else None, s3)
          })"

text \<open>\<open>NexusChannel::fault_device\<close>.\<close>

definition channel_fault_device ::
  "io_env \<Rightarrow> nat \<Rightarrow> string \<Rightarrow> FaultReason \<Rightarrow> 's nio \<Rightarrow> (string option \<times> 's nio) option" where
  "channel_fault_device env k dev reason s =
     do {
       (log, s1) \<leftarrow> retire_child_device env dev reason True s;
       Some (log,
         case log of
           None \<Rightarrow> s1
         | Some _ \<Rightarrow> update_channel k (reconnect_io_logs (job_exists s1) (n_children s1)) s1)
     }"

text \<open>\<open>NexusBio::fault_device\<close>: the reason follows from the status of the I/O.\<close>

definition fault_reason_of :: "IoCompletionStatus \<Rightarrow> FaultReason" where
  "fault_reason_of io_status =
     (case io_status of IoLvolError NoSpace \<Rightarrow> FR_NoSpace | _ \<Rightarrow> FR_IoError)"

definition bio_fault_device ::
  "io_env \<Rightarrow> nat \<Rightarrow> string \<Rightarrow> IoCompletionStatus \<Rightarrow> 's nio \<Rightarrow> (string option \<times> 's nio) option" where
  "bio_fault_device env b dev io_status s =
     channel_fault_device env (bio_channel (n_bios s ! b)) dev
       (fault_reason_of io_status) s"

section \<open>Logging\<close>

definition effective_offset :: "'s nio \<Rightarrow> nat \<Rightarrow> u64" where
  "effective_offset s b = bio_offset (n_bios s ! b) + n_data_ent_offset s"

text \<open>\<open>NexusBio::log_io\<close> into the log of the child with the given URI, on the core of the channel of
  the I/O. A channel may hold the log of a child that is gone; a log that was stopped makes the
  logging of a write panic.\<close>

definition bio_log_io :: "nat \<Rightarrow> string \<Rightarrow> 's nio \<Rightarrow> 's nio option" where
  "bio_log_io b uri s =
     (let bio = n_bios s ! b in
      case List.find (\<lambda>c. nc_name c = uri) (n_children s) of
        None \<Rightarrow> Some s
      | Some c \<Rightarrow>
          (case nc_io_log c of
             None \<Rightarrow>
               (if bio_io_type bio \<in> {IoWrite, IoWriteZeros, IoUnmap} then None else Some s)
           | Some log \<Rightarrow>
               do {
                 log' \<leftarrow> log_current_io (ch_core (bio_chan s b), bio_io_type bio,
                          effective_offset s b, bio_num_blocks bio) log;
                 Some (s\<lparr>n_children := update_first (\<lambda>c. nc_name c = uri)
                           (\<lambda>c. c\<lparr>nc_io_log := Some log'\<rparr>) (n_children s)\<rparr>)
               }))"

section \<open>Completing\<close>

definition bio_end :: "nat \<Rightarrow> bio_result \<Rightarrow> 's nio \<Rightarrow> 's nio" where
  "bio_end b r = update_bio b (\<lambda>bio. bio\<lparr>bio_ends := bio_ends bio @ [r]\<rparr>)"

text \<open>\<open>NexusBio::fail\<close>: with the last error of the nexus, if it is an NVMe or a no-space error.\<close>

definition bio_fail :: "nat \<Rightarrow> 's nio \<Rightarrow> 's nio" where
  "bio_fail b s =
     bio_end b
       (case n_last_error s of
          IoNvmeError st \<Rightarrow> Bio_nvme st
        | IoLvolError NoSpace \<Rightarrow> Bio_nvme Nvme_CAPACITY_EXCEEDED
        | _ \<Rightarrow> Bio_failed) s"

section \<open>Submitting\<close>

text \<open>\<open>for_each_writer\<close> stops at the first writer that refuses: the writers submitted to, and the one
  that refused.\<close>

fun submit_writers :: "string list \<Rightarrow> string list \<Rightarrow> string list \<times> string option" where
  "submit_writers refuse [] = ([], None)"
| "submit_writers refuse (w # ws) =
     (if w \<in> set refuse then ([], Some w)
      else let (sent, failed) = submit_writers refuse ws in (w # sent, failed))"

text \<open>What \<open>submit_all\<close> does about the writer that refused: the failure is counted, the device detached
  from this channel and its handles dropped, and the device faulted.\<close>

definition submit_failure :: "io_env \<Rightarrow> nat \<Rightarrow> string \<Rightarrow> 's nio \<Rightarrow> 's nio option" where
  "submit_failure env b device s =
     (let k = bio_channel (n_bios s ! b);
          s1 = update_bio b (\<lambda>bio. bio\<lparr>bio_failed := bio_failed bio + 1\<rparr>) s;
          s2 = update_channel k (channel_detach (job_exists s1) (n_children s1) device) s1;
          s3 = update_channel k (disconnect_detached (\<lambda>_. True)) s2
      in do {
        (log, s4) \<leftarrow> bio_fault_device env b device (IoSubmissionError SubmitWrite) s3;
        case log of None \<Rightarrow> Some s4 | Some uri \<Rightarrow> bio_log_io b uri s4
      })"

text \<open>\<open>submit_all\<close>.\<close>

definition submit_all :: "io_env \<Rightarrow> nat \<Rightarrow> 's nio \<Rightarrow> 's nio option" where
  "submit_all env b s =
     (let (sent, failed_device) = submit_writers (ie_refuse env) (ch_writers (bio_chan s b));
          inflight = (of_nat (length sent) :: u8);
          s1 = s\<lparr>n_child_ios := n_child_ios s @ map (Pair b) sent\<rparr>
      in do {
        s2 \<leftarrow> (case failed_device of
                 None \<Rightarrow> Some s1
               | Some device \<Rightarrow> submit_failure env b device s1);
        s3 \<leftarrow> foldM (bio_log_io b) (ch_io_logs (bio_chan s2 b)) s2;
        Some (if inflight > 0 then
                update_bio b (\<lambda>bio. bio\<lparr>bio_in_flight := inflight,
                                        bio_status := IoStatus_Success\<rparr>) s3
              else bio_fail b s3)
      })"

text \<open>\<open>__do_readv_one\<close>: the flag tells whether the read was submitted, or why not: the reader refused
  it, or there is no reader.\<close>

datatype readv_result = Readv_ok | Readv_refused | Readv_no_devices

definition do_readv_one :: "io_env \<Rightarrow> nat \<Rightarrow> 's nio \<Rightarrow> (readv_result \<times> 's nio) option" where
  "do_readv_one env b s =
     (let k = bio_channel (n_bios s ! b);
          (hdl, ch) = select_reader (n_channels s ! k);
          s1 = update_channel k (\<lambda>_. ch) s
      in case hdl of
           Some device \<Rightarrow>
             (if device \<in> set (ie_refuse env) then
                do {
                  (_, s2) \<leftarrow> bio_fault_device env b device (IoSubmissionError SubmitRead) s1;
                  Some (Readv_refused, s2)
                }
              else
                Some (Readv_ok, update_bio b (\<lambda>bio. bio\<lparr>bio_in_flight := 1\<rparr>)
                        (s1\<lparr>n_child_ios := n_child_ios s1 @ [(b, device)]\<rparr>)))
         | None \<Rightarrow> Some (Readv_no_devices, s1))"

text \<open>\<open>do_readv\<close>: after the first refusal, the readers that are left are tried in turn.\<close>

fun readv_loop :: "io_env \<Rightarrow> nat \<Rightarrow> nat \<Rightarrow> 's nio \<Rightarrow> (bool \<times> 's nio) option" where
  "readv_loop env b 0 s = Some (False, s)"
| "readv_loop env b (Suc n) s =
     (case do_readv_one env b s of
        None \<Rightarrow> None
      | Some (Readv_ok, s') \<Rightarrow> Some (True, s')
      | Some (_, s') \<Rightarrow> (if n = 0 then Some (False, s') else readv_loop env b n s'))"

definition do_readv :: "io_env \<Rightarrow> nat \<Rightarrow> 's nio \<Rightarrow> 's nio option" where
  "do_readv env b s =
     do {
       (r, s1) \<leftarrow> do_readv_one env b s;
       case r of
         Readv_ok \<Rightarrow> Some s1
       | Readv_no_devices \<Rightarrow> Some (bio_fail b s1)
       | Readv_refused \<Rightarrow>
           let num_readers = length (ch_readers (bio_chan s1 b)) in
           do {
             (submitted, s2) \<leftarrow> (if num_readers \<le> 1 then Some (False, s1)
                                  else readv_loop env b (num_readers - 1) s1);
             Some (if submitted then s2 else bio_fail b s2)
           }
     }"

text \<open>\<open>readv\<close>: an I/O without a buffer waits for one; \<open>nexus_get_buf_cb\<close> is the callback.\<close>

datatype buffer = Buf_present | Buf_allocated | Buf_failed

definition nexus_get_buf_cb :: "io_env \<Rightarrow> nat \<Rightarrow> bool \<Rightarrow> 's nio \<Rightarrow> 's nio option" where
  "nexus_get_buf_cb env b success s =
     (let s1 = (if \<not> success then bio_end b Bio_no_mem s else s) in do_readv env b s1)"

definition readv :: "io_env \<Rightarrow> nat \<Rightarrow> buffer \<Rightarrow> 's nio \<Rightarrow> 's nio option" where
  "readv env b buf s =
     (case buf of
        Buf_present \<Rightarrow> do_readv env b s
      | Buf_allocated \<Rightarrow> nexus_get_buf_cb env b True s
      | Buf_failed \<Rightarrow> nexus_get_buf_cb env b False s)"

definition submit_request :: "io_env \<Rightarrow> buffer \<Rightarrow> nat \<Rightarrow> 's nio \<Rightarrow> 's nio option" where
  "submit_request env buf b s =
     (if is_frozen (bio_chan s b) then
        Some (update_channel (bio_channel (n_bios s ! b)) (freeze_io_submission b) s)
      else
        case bio_io_type (n_bios s ! b) of
          IoRead \<Rightarrow> readv env b buf s
        | IoWrite \<Rightarrow> submit_all env b s
        | IoWriteZeros \<Rightarrow> submit_all env b s
        | IoReset \<Rightarrow> submit_all env b s
        | IoUnmap \<Rightarrow> submit_all env b s
        | IoFlush \<Rightarrow> submit_all env b s
        | _ \<Rightarrow> Some (bio_fail b s))"

section \<open>Child completions\<close>

text \<open>\<open>completion_error\<close>: an invalid opcode does not retire the device, a reservation conflict shuts
  the nexus down once, anything else faults the device and logs the I/O.\<close>

definition try_self_shutdown_nexus :: "'s nio \<Rightarrow> 's nio" where
  "try_self_shutdown_nexus s =
     (if \<not> n_shutdown_requested s then
        s\<lparr>n_shutdown_requested := True, n_tasks := n_tasks s @ [Task_self_shutdown]\<rparr>
      else s)"

definition completion_error ::
  "io_env \<Rightarrow> nat \<Rightarrow> string \<Rightarrow> IoCompletionStatus \<Rightarrow> 's nio \<Rightarrow> 's nio option" where
  "completion_error env b child status s =
     (if status = IoNvmeError Nvme_INVALID_OPCODE then Some s
      else if status = IoNvmeError Nvme_RESERVATION_CONFLICT then Some (try_self_shutdown_nexus s)
      else
        do {
          (log, s1) \<leftarrow> bio_fault_device env b child status s;
          case log of None \<Rightarrow> Some s1 | Some uri \<Rightarrow> bio_log_io b uri s1
        })"

definition resubmit :: "io_env \<Rightarrow> buffer \<Rightarrow> nat \<Rightarrow> 's nio \<Rightarrow> 's nio option" where
  "resubmit env buf b s =
     submit_request env buf b
       (update_bio b (\<lambda>bio. bio\<lparr>bio_status := IoStatus_Pending,
          bio_resubmits := bio_resubmits bio + 1, bio_successful := 0, bio_failed := 0\<rparr>) s)"

text \<open>\<open>complete\<close>: the child I/O \<open>(b, child)\<close> has left \<open>n_child_ios\<close>.\<close>

definition bio_complete ::
  "io_env \<Rightarrow> buffer \<Rightarrow> nat \<Rightarrow> string \<Rightarrow> IoCompletionStatus \<Rightarrow> 's nio \<Rightarrow> 's nio option" where
  "bio_complete env buf b child status s =
     (let s1 = update_bio b (\<lambda>bio. bio\<lparr>bio_in_flight := bio_in_flight bio - 1\<rparr>) s in
      do {
        s2 \<leftarrow> (if status = IoSuccess then
                 Some (update_bio b (\<lambda>bio. bio\<lparr>bio_successful := bio_successful bio + 1\<rparr>) s1)
               else
                 completion_error env b child status
                   (update_bio b (\<lambda>bio. bio\<lparr>bio_status := IoStatus_Failed,
                                            bio_failed := bio_failed bio + 1\<rparr>) s1));
        let bio = n_bios s2 ! b;
        if bio_in_flight bio > 0 then Some s2
        else if bio_failed bio = 0 then Some (bio_end b Bio_ok s2)
        else if bio_successful bio > 0 then resubmit env buf b s2
        else Some (bio_fail b (s2\<lparr>n_last_error := status\<rparr>))
      })"

section \<open>Messages to the channels\<close>

definition resubmit_frozen :: "io_env \<Rightarrow> buffer \<Rightarrow> nat \<Rightarrow> 's nio \<Rightarrow> 's nio option" where
  "resubmit_frozen env buf k s =
     foldM (submit_request env buf) (ch_frozen_ios (n_channels s ! k))
       (update_channel k (\<lambda>ch. ch\<lparr>ch_frozen_ios := []\<rparr>) s)"

definition set_io_mode :: "io_env \<Rightarrow> buffer \<Rightarrow> nat \<Rightarrow> IoMode \<Rightarrow> 's nio \<Rightarrow> 's nio option" where
  "set_io_mode env buf k io_mode s =
     (let s1 = update_channel k (\<lambda>ch. ch\<lparr>ch_io_mode := io_mode\<rparr>) s in
      case io_mode of Io_Normal \<Rightarrow> resubmit_frozen env buf k s1 | Io_Freeze \<Rightarrow> Some s1)"

definition abort_frozen :: "nat \<Rightarrow> 's nio \<Rightarrow> 's nio" where
  "abort_frozen k s =
     fold bio_fail (ch_frozen_ios (n_channels s ! k))
       (update_channel k (\<lambda>ch. ch\<lparr>ch_frozen_ios := []\<rparr>) s)"

definition handle_msg :: "io_env \<Rightarrow> buffer \<Rightarrow> nat \<Rightarrow> chan_msg \<Rightarrow> 's nio \<Rightarrow> 's nio option" where
  "handle_msg env buf k m s =
     (case m of
        Msg_reconnect_all \<Rightarrow>
          (if ch_is_io_chan (n_channels s ! k) then
             let (cs, ch) = reconnect_all (ie_chan env) (n_children s) (n_channels s ! k)
             in Some (update_channel k (\<lambda>_. ch) (s\<lparr>n_children := cs\<rparr>))
           else Some s)
      | Msg_reconnect_io_logs \<Rightarrow>
          Some (update_channel k (reconnect_io_logs (job_exists s) (n_children s)) s)
      | Msg_detach dev \<Rightarrow>
          Some (update_channel k (channel_detach (job_exists s) (n_children s) dev) s)
      | Msg_disconnect devs \<Rightarrow>
          Some (update_channel k (disconnect_detached (\<lambda>h. h \<in> set devs)) s)
      | Msg_disconnect_all \<Rightarrow> Some (update_channel k (disconnect_detached (\<lambda>_. True)) s)
      | Msg_io_mode io_mode \<Rightarrow> set_io_mode env buf k io_mode s
      | Msg_abort_frozen \<Rightarrow> Some (abort_frozen k s))"

section \<open>Retiring a device\<close>

definition reconfigure :: "'s nio \<Rightarrow> 's nio" where
  "reconfigure s = traverse Msg_reconnect_all s"

definition set_nexus_io_mode :: "IoMode \<Rightarrow> 's nio \<Rightarrow> 's nio" where
  "set_nexus_io_mode io_mode s = traverse (Msg_io_mode io_mode) s"

definition detach_device :: "string \<Rightarrow> 's nio \<Rightarrow> 's nio" where
  "detach_device dev s = traverse (Msg_detach dev) s"

declare reconfigure_def [simp] set_nexus_io_mode_def [simp] detach_device_def [simp]

text \<open>The beginning of \<open>do_child_retire\<close> up to the detachment of the device, cut where it awaits: the
  lock of the nexus information is taken and I/O frozen on all channels; once all are frozen the
  record is written and I/O resumed; once all have resumed the lock is released and the device
  detached from all channels. A child that is not found is not recorded, and a failed record ends
  the retirement with a request to shut down.\<close>

definition retire_begin :: "string \<Rightarrow> 's nio \<Rightarrow> 's nio option" where
  "retire_begin dev s =
     (if n_lock s = None \<and> (Task_retire dev True \<in> set (n_tasks s) \<or> Task_retire dev False \<in> set (n_tasks s))
      then
        let task = (if Task_retire dev True \<in> set (n_tasks s) then Task_retire dev True
                    else Task_retire dev False);
            s1 = s\<lparr>n_tasks := remove1 task (n_tasks s)\<rparr>
        in case lookup_child_by_device (n_children s1) dev of
             None \<Rightarrow> Some (detach_device dev s1)
           | Some _ \<Rightarrow>
               Some (set_nexus_io_mode Io_Freeze (s1\<lparr>n_lock := Some (dev, Retire_freezing)\<rparr>))
      else None)"

definition retire_record :: "'s store_env \<Rightarrow> 's nio \<Rightarrow> 's nio option" where
  "retire_record senv s =
     (case n_lock s of
        Some (dev, Retire_freezing) \<Rightarrow>
          (case lookup_child_by_device (n_children s) dev of
             None \<Rightarrow> None
           | Some child \<Rightarrow>
               if traversed (Msg_io_mode Io_Freeze) s then
                 do {
                   (r, info, effects, store) \<leftarrow>
                     persist senv (n_children s)
                       (PO_UpdateCond (nc_name child) (is_healthy child) retire_predicate)
                       (n_info s) (n_store s);
                   let s1 = s\<lparr>n_info := info, n_store := store\<rparr>;
                   Some (if is_ok r then
                           set_nexus_io_mode Io_Normal
                             (s1\<lparr>n_lock := Some (dev, Retire_recorded)\<rparr>)
                         else s1\<lparr>n_lock := None, n_tasks := n_tasks s1 @ [Task_self_shutdown]\<rparr>)
                 }
               else None)
      | _ \<Rightarrow> None)"

definition retire_detach :: "'s nio \<Rightarrow> 's nio option" where
  "retire_detach s =
     (case n_lock s of
        Some (dev, Retire_recorded) \<Rightarrow>
          (if traversed (Msg_io_mode Io_Normal) s then
             Some (detach_device dev (s\<lparr>n_lock := None\<rparr>))
           else None)
      | _ \<Rightarrow> None)"

section \<open>Runs\<close>

text \<open>The steps: the initiator submits an I/O on a channel, a device completes a child I/O, a channel
  handles its next message, a retirement proceeds, the channels are reconfigured. A step that is
  not possible in a state, or that panics, is \<^const>\<open>None\<close>.\<close>

datatype 's nio_label =
    L_submit nat IoType u64 u64 io_env buffer
  | L_complete nat string IoCompletionStatus io_env buffer
  | L_message nat io_env buffer
  | L_retire_begin string
  | L_retire_record "'s store_env"
  | L_retire_detach
  | L_reconfigure

definition nio_exec :: "'s nio_label \<Rightarrow> 's nio \<Rightarrow> 's nio option" where
  "nio_exec l s =
     (case l of
        L_submit k io_type off num_blocks env buf \<Rightarrow>
          (if k < length (n_channels s) then
             submit_request env buf (length (n_bios s))
               (s\<lparr>n_bios := n_bios s @ [bio_new k io_type off num_blocks]\<rparr>)
           else None)
      | L_complete b child status env buf \<Rightarrow>
          (if (b, child) \<in> set (n_child_ios s) then
             bio_complete env buf b child status
               (s\<lparr>n_child_ios := remove1 (b, child) (n_child_ios s),
                  n_done := (if status = IoSuccess then (b, child) # n_done s else n_done s)\<rparr>)
           else None)
      | L_message k env buf \<Rightarrow>
          (if k < length (n_queues s) then
             (case n_queues s ! k of
                [] \<Rightarrow> None
              | m # ms \<Rightarrow> handle_msg env buf k m (s\<lparr>n_queues := (n_queues s)[k := ms]\<rparr>))
           else None)
      | L_retire_begin dev \<Rightarrow> retire_begin dev s
      | L_retire_record senv \<Rightarrow> retire_record senv s
      | L_retire_detach \<Rightarrow> retire_detach s
      | L_reconfigure \<Rightarrow> Some (reconfigure s))"

definition nio_run :: "'s nio_label list \<Rightarrow> 's nio \<Rightarrow> 's nio option" where
  "nio_run ls s = foldM nio_exec ls s"

end
