(* ===== verification/Nexus_Io_Effects.thy ===== *)
theory Nexus_Io_Effects
  imports Nexus_Io
begin

text \<open>
  What the steps of the I/O path change, as lemmas about the parts of the state: faulting a device
  and logging an I/O leave the I/Os, the writers and the frozen I/Os alone, and a submission sends
  child I/Os, freezes the I/O or ends it.
\<close>

section \<open>Parts of the state\<close>

definition writers :: "'s nio \<Rightarrow> string list list" where
  "writers s = map ch_writers (n_channels s)"

definition frozen :: "'s nio \<Rightarrow> nat list list" where
  "frozen s = map ch_frozen_ios (n_channels s)"

definition modes :: "'s nio \<Rightarrow> IoMode list" where
  "modes s = map ch_io_mode (n_channels s)"

text \<open>The messages waiting in the queues, the reconnections of the logs aside.\<close>

definition messages :: "'s nio \<Rightarrow> chan_msg list list" where
  "messages s = map (filter (\<lambda>m. m \<noteq> Msg_reconnect_io_logs)) (n_queues s)"

text \<open>What identifies the children. Faulting is the only change of their health.\<close>

definition child_ids :: "'s nio \<Rightarrow> (string \<times> string option) list" where
  "child_ids s = map (\<lambda>c. (nc_name c, get_device_name c)) (n_children s)"

definition child_le :: "NexusChild \<Rightarrow> NexusChild \<Rightarrow> bool" where
  "child_le c c' \<longleftrightarrow> get_device_name c' = get_device_name c \<and> (is_healthy c' \<longrightarrow> is_healthy c)"

definition children_le :: "'s nio \<Rightarrow> 's nio \<Rightarrow> bool" where
  "children_le s s' \<longleftrightarrow> list_all2 child_le (n_children s) (n_children s')"

text \<open>Only devices of children that are not healthy are to be retired.\<close>

definition dev_sick :: "'s nio \<Rightarrow> string \<Rightarrow> bool" where
  "dev_sick s d \<longleftrightarrow>
     (case lookup_child_by_device (n_children s) d of None \<Rightarrow> False | Some c \<Rightarrow> \<not> is_healthy c)"

definition tasks_sick :: "'s nio \<Rightarrow> bool" where
  "tasks_sick s \<longleftrightarrow> (\<forall>d retry. Task_retire d retry \<in> set (n_tasks s) \<longrightarrow> dev_sick s d)"

text \<open>The parts that faulting a device and logging an I/O leave alone.\<close>

definition core_same :: "'s nio \<Rightarrow> 's nio \<Rightarrow> bool" where
  "core_same s s' \<longleftrightarrow>
     n_done s' = n_done s \<and> n_lock s' = n_lock s \<and> n_info s' = n_info s \<and> n_store s' = n_store s \<and>
     n_jobs s' = n_jobs s \<and> length (n_channels s') = length (n_channels s) \<and>
     length (n_queues s') = length (n_queues s) \<and> modes s' = modes s \<and>
     messages s' = messages s \<and> child_ids s' = child_ids s \<and> children_le s s' \<and>
     (tasks_sick s \<longrightarrow> tasks_sick s')"

definition framed :: "'s nio \<Rightarrow> 's nio \<Rightarrow> bool" where
  "framed s s' \<longleftrightarrow>
     core_same s s' \<and> n_bios s' = n_bios s \<and> n_child_ios s' = n_child_ios s \<and>
     writers s' = writers s \<and> frozen s' = frozen s \<and>
     map ch_readers (n_channels s') = map ch_readers (n_channels s)"

lemmas part_defs = writers_def frozen_def modes_def messages_def child_ids_def tasks_sick_def
  dev_sick_def

lemma children_le_same [simp]: "n_children s' = n_children s \<Longrightarrow> children_le s s'"
  by (simp add: children_le_def child_le_def list.rel_refl)

lemma children_le_trans: "children_le s s1 \<Longrightarrow> children_le s1 s2 \<Longrightarrow> children_le s s2"
  unfolding children_le_def
  using list_all2_trans [of child_le child_le child_le] by (auto simp: child_le_def)

lemma find_list_all2:
  "list_all2 R xs ys \<Longrightarrow> (\<And>x y. R x y \<Longrightarrow> P x = P y) \<Longrightarrow> rel_option R (List.find P xs) (List.find P ys)"
  by (induction rule: list_all2_induct) auto

lemma dev_sick_mono:
  assumes "children_le s s'" and "dev_sick s d"
  shows "dev_sick s' d"
proof -
  have "rel_option child_le (lookup_child_by_device (n_children s) d)
      (lookup_child_by_device (n_children s') d)"
    unfolding lookup_child_by_device_def
    using assms(1) by (intro find_list_all2)
      (auto simp: children_le_def child_le_def match_device_name_def)
  then show ?thesis
    using assms(2)
    by (cases "lookup_child_by_device (n_children s') d")
      (auto simp: dev_sick_def child_le_def split: option.splits)
qed

lemma tasks_sick_mono:
  "children_le s s' \<Longrightarrow> n_tasks s' = n_tasks s \<Longrightarrow> tasks_sick s \<Longrightarrow> tasks_sick s'"
  using dev_sick_mono by (auto simp: tasks_sick_def)

lemma list_all2_update_first:
  "(\<And>x. R x x) \<Longrightarrow> (\<And>x. P x \<Longrightarrow> R x (f x)) \<Longrightarrow> list_all2 R xs (update_first P f xs)"
  by (induction xs) (auto simp: list.rel_refl)

lemma core_same_refl [simp]: "core_same s s"
  by (simp add: core_same_def)

lemma core_same_trans: "core_same s s1 \<Longrightarrow> core_same s1 s2 \<Longrightarrow> core_same s s2"
  using children_le_trans by (simp add: core_same_def) blast

lemma framed_refl [simp]: "framed s s"
  by (simp add: framed_def)

lemma framed_trans: "framed s s1 \<Longrightarrow> framed s1 s2 \<Longrightarrow> framed s s2"
  using core_same_trans by (simp add: framed_def) blast

lemma update_first_map:
  "(\<And>x. x \<in> set xs \<Longrightarrow> P x \<Longrightarrow> g (f x) = g x) \<Longrightarrow> map g (update_first P f xs) = map g xs"
  by (induction xs) auto

lemma map_update_same:
  "(\<And>x. g (f x) = g x) \<Longrightarrow> map g (xs[k := f (xs ! k)]) = map g xs"
  by (cases "k < length xs") (simp_all add: map_update list_update_same_conv list_update_beyond)

lemma update_channel_framed:
  assumes "\<And>ch. ch_writers (f ch) = ch_writers ch" "\<And>ch. ch_frozen_ios (f ch) = ch_frozen_ios ch"
    "\<And>ch. ch_io_mode (f ch) = ch_io_mode ch" "\<And>ch. ch_readers (f ch) = ch_readers ch"
  shows "framed s (update_channel k f s)"
  using assms
  by (simp add: framed_def core_same_def part_defs update_channel_def map_update_same)

lemma traverse_logs_framed: "framed s (traverse Msg_reconnect_io_logs s)"
  by (simp add: framed_def core_same_def part_defs traverse_def)

lemma find_update_first:
  assumes "List.find P xs = Some x" and "g y = g x"
  shows "map g (update_first P (\<lambda>_. y) xs) = map g xs"
  using assms by (induction xs) (auto split: if_splits)

lemma find_rel_update:
  "List.find P xs = Some x \<Longrightarrow> (\<And>z. R z z) \<Longrightarrow> R x y \<Longrightarrow> list_all2 R xs (update_first P (\<lambda>_. y) xs)"
  by (induction xs) (auto simp: list.rel_refl split: if_splits)

lemma find_update_found:
  "List.find P xs = Some x \<Longrightarrow> P y \<Longrightarrow> List.find P (update_first P (\<lambda>_. y) xs) = Some y"
  by (induction xs) (auto split: if_splits)

lemma retire_child_device_framed:
  assumes "retire_child_device env dev reason retry s = Some (log, s')"
  shows "framed s s'"
proof (cases "lookup_child_by_device (n_children s) dev")
  case None
  then show ?thesis using assms by (simp add: retire_child_device_def)
next
  case (Some c)
  obtain has_log c1 where start: "start_io_log (ie_log env) c = Some (has_log, c1)"
    using assms Some by (auto simp: retire_child_device_def split: Option.bind_splits)
  define c2 where "c2 = (if nc_state c1 = CS_Open then set_fault_timestamp (he_now (ie_chan env))
     (child_set_state (CS_Faulted reason) c1) else c1)"
  define s1 where "s1 = s\<lparr>n_children := update_first (match_device_name dev) (\<lambda>_. c2) (n_children s)\<rparr>"
  define s2 where "s2 = (if nc_state c1 = CS_Open
     then s1\<lparr>n_tasks := n_tasks s1 @ [Task_retire dev retry]\<rparr> else s1)"
  have "(\<lambda>c. (nc_name c, get_device_name c)) c2 = (\<lambda>c. (nc_name c, get_device_name c)) c"
    by (simp add: c2_def start_io_log_fields [OF start] get_device_name_def)
  from find_update_first [OF Some [unfolded lookup_child_by_device_def] this]
  have ids: "child_ids s1 = child_ids s"
    by (simp add: child_ids_def s1_def)
  have sick: "\<not> is_healthy c2"
    by (auto simp: c2_def is_healthy_def set_fault_timestamp_def child_set_state_def)
  have dev: "get_device_name c2 = get_device_name c"
    by (simp add: c2_def start_io_log_fields [OF start] get_device_name_def)
  have le: "children_le s s2"
    using find_rel_update [OF Some [unfolded lookup_child_by_device_def], of child_le c2] sick dev
    by (auto simp: children_le_def child_le_def s2_def s1_def)
  have "lookup_child_by_device (n_children s2) dev = Some c2"
    using find_update_found [OF Some [unfolded lookup_child_by_device_def]] dev
      find_Some_iff [of "match_device_name dev" "n_children s" c] Some
    by (auto simp: lookup_child_by_device_def s2_def s1_def match_device_name_def)
  then have "dev_sick s2 dev" using sick by (simp add: dev_sick_def)
  then have "tasks_sick s \<longrightarrow> tasks_sick s2"
    using dev_sick_mono [OF le] by (auto simp: tasks_sick_def s2_def s1_def split: if_splits)
  then have "framed s s2"
    using ids le
    by (simp add: framed_def core_same_def writers_def frozen_def modes_def messages_def
        child_ids_def s1_def s2_def)
  moreover have "s' = (if has_log then traverse Msg_reconnect_io_logs s2 else s2)"
    using assms Some start
    by (cases has_log; cases "nc_state c1 = CS_Open")
      (auto simp: retire_child_device_def Let_def c2_def s1_def s2_def)
  ultimately show ?thesis
    using framed_trans traverse_logs_framed by metis
qed

lemma channel_fault_device_framed:
  assumes "channel_fault_device env k dev reason s = Some (log, s')"
  shows "framed s s'"
proof -
  obtain s1 where r: "retire_child_device env dev reason True s = Some (log, s1)"
    and s': "s' = (case log of None \<Rightarrow> s1
         | Some _ \<Rightarrow> update_channel k (reconnect_io_logs (job_exists s1) (n_children s1)) s1)"
    using assms by (auto simp: channel_fault_device_def split: Option.bind_splits)
  have "framed s1 s'"
    using s' by (auto split: option.splits intro: update_channel_framed)
  then show ?thesis using retire_child_device_framed [OF r] framed_trans by blast
qed

lemma bio_fault_device_framed:
  "bio_fault_device env b dev st s = Some (log, s') \<Longrightarrow> framed s s'"
  by (auto simp: bio_fault_device_def intro: channel_fault_device_framed)

lemma bio_log_io_framed:
  assumes "bio_log_io b uri s = Some s'"
  shows "framed s s'"
proof -
  consider "s' = s" | log where "s' = s\<lparr>n_children := update_first (\<lambda>c. nc_name c = uri)
                           (\<lambda>c. c\<lparr>nc_io_log := Some log\<rparr>) (n_children s)\<rparr>"
    using assms
    by (auto simp: bio_log_io_def Let_def split: option.splits if_splits Option.bind_splits)
  then show ?thesis
  proof cases
    case 2
    have "children_le s s'"
      unfolding children_le_def 2
      by (simp, intro list_all2_update_first)
        (auto simp: child_le_def get_device_name_def is_healthy_def)
    moreover have "child_ids s' = child_ids s"
      unfolding child_ids_def 2 by (simp add: update_first_map get_device_name_def)
    moreover have "n_tasks s' = n_tasks s" by (simp add: 2)
    ultimately show ?thesis
      using tasks_sick_mono [of s s']
      by (simp add: framed_def core_same_def writers_def frozen_def modes_def messages_def 2)
  qed simp
qed

lemma foldM_framed:
  "(\<And>x s s'. f x s = Some s' \<Longrightarrow> framed s s') \<Longrightarrow> foldM f xs s = Some s' \<Longrightarrow> framed s s'"
proof (induction xs arbitrary: s)
  case (Cons x xs)
  then obtain s1 where "f x s = Some s1" and "foldM f xs s1 = Some s'"
    by (auto split: option.splits)
  then show ?case using Cons.IH Cons.prems(1) framed_trans by metis
qed simp

section \<open>The effect of submitting\<close>

lemma framedD:
  assumes "framed s s'"
  shows "core_same s s'" "n_bios s' = n_bios s" "n_child_ios s' = n_child_ios s"
    "writers s' = writers s" "frozen s' = frozen s"
    "map ch_readers (n_channels s') = map ch_readers (n_channels s)"
  using assms by (simp_all add: framed_def)

lemma submit_writers_prefix:
  assumes "submit_writers refuse ws = (sent, failed)"
  shows "\<exists>rest. ws = sent @ rest \<and> (case failed of None \<Rightarrow> rest = [] | Some d \<Rightarrow> \<exists>r. rest = d # r)"
  using assms
  by (induction ws arbitrary: sent failed)
    (force split: if_splits prod.splits option.splits)+

lemma submit_writers_all [simp]: "submit_writers [] ws = (ws, None)"
  by (induction ws) auto

lemma core_same_update_bio [simp]: "core_same s (update_bio b f s)"
  by (simp add: core_same_def part_defs update_bio_def)

lemma update_bio_parts [simp]:
  "writers (update_bio b f s) = writers s" "frozen (update_bio b f s) = frozen s"
  "modes (update_bio b f s) = modes s" "n_channels (update_bio b f s) = n_channels s"
  "n_child_ios (update_bio b f s) = n_child_ios s" "n_children (update_bio b f s) = n_children s"
  "n_last_error (update_bio b f s) = n_last_error s" "n_done (update_bio b f s) = n_done s"
  "n_bios (update_bio b f s) = (n_bios s)[b := f (n_bios s ! b)]"
  "n_queues (update_bio b f s) = n_queues s"
  by (simp_all add: update_bio_def part_defs)

lemma bio_fail_eq: "\<exists>r. r \<noteq> Bio_ok \<and> bio_fail b s = bio_end b r s"
  by (auto simp: bio_fail_def split: IoCompletionStatus.splits LvolFailure.splits)

lemma update_channel_writers:
  "writers (update_channel k f s) = (writers s)[k := ch_writers (f (n_channels s ! k))]"
  by (simp add: writers_def update_channel_def map_update)

text \<open>Everything a submission may leave: the part \<open>core_same\<close> always, and for the I/O itself one of
  three outcomes.\<close>

datatype sub_outcome = Sub_frozen | Sub_sent "string list" u8 | Sub_ended bio_result

definition sub_effect :: "nat \<Rightarrow> sub_outcome \<Rightarrow> 's nio \<Rightarrow> 's nio \<Rightarrow> bool" where
  "sub_effect b out s s' \<longleftrightarrow>
     core_same s s' \<and>
     (case out of
        Sub_frozen \<Rightarrow>
          n_bios s' = n_bios s \<and> n_child_ios s' = n_child_ios s \<and> writers s' = writers s \<and>
          frozen s' = (frozen s)[bio_channel (n_bios s ! b) :=
                         frozen s ! bio_channel (n_bios s ! b) @ [b]]
      | Sub_sent ds extra \<Rightarrow>
          ds \<noteq> [] \<and> n_child_ios s' = n_child_ios s @ map (Pair b) ds \<and> frozen s' = frozen s \<and>
          (\<exists>st. n_bios s' = (n_bios s)[b := (n_bios s ! b)\<lparr>
             bio_failed := bio_failed (n_bios s ! b) + extra,
             bio_in_flight := of_nat (length ds), bio_status := st\<rparr>])
      | Sub_ended r \<Rightarrow>
          r \<noteq> Bio_ok \<and> n_child_ios s' = n_child_ios s \<and> frozen s' = frozen s \<and>
          (\<exists>f. n_bios s' = (n_bios s)[b := (n_bios s ! b)\<lparr>bio_failed := f,
             bio_ends := bio_ends (n_bios s ! b) @ [r]\<rparr>]))"

lemma core_same_child_ios [simp]:
  "core_same s (s\<lparr>n_child_ios := x\<rparr>)" "core_same s (s\<lparr>n_last_error := e\<rparr>)"
  by (simp_all add: core_same_def part_defs)

lemma u8_of_nat_pos: "0 < n \<Longrightarrow> n \<le> 255 \<Longrightarrow> (0 :: u8) < of_nat n"
  by (simp add: word_less_nat_alt unat_of_nat)

lemma detach_disconnect_parts:
  assumes s'_def:
    "s' = update_channel k (disconnect_detached p) (update_channel k (channel_detach j cs d) s)"
  shows "core_same s s'" and "n_bios s' = n_bios s" and "n_child_ios s' = n_child_ios s"
    and "frozen s' = frozen s" and "writers s' = (writers s)[k := remove1 d (writers s ! k)]"
proof -
  show "core_same s s'" and "n_bios s' = n_bios s" and "n_child_ios s' = n_child_ios s"
    by (cases "k < length (n_channels s)",
        simp_all add: s'_def core_same_def part_defs update_channel_def map_update
          list_update_beyond list_update_same_conv)
  show "frozen s' = frozen s"
    by (cases "k < length (n_channels s)")
      (simp_all add: s'_def frozen_def update_channel_def map_update list_update_beyond
        list_update_same_conv)
  show "writers s' = (writers s)[k := remove1 d (writers s ! k)]"
    by (cases "k < length (n_channels s)")
      (simp_all add: s'_def writers_def update_channel_def map_update list_update_beyond)
qed

lemma submit_failure_effect:
  assumes "submit_failure env b d s = Some s'" and "k = bio_channel (n_bios s ! b)"
  shows "core_same s s'" and "n_child_ios s' = n_child_ios s" and "frozen s' = frozen s"
    and "n_bios s' = (n_bios s)[b := (n_bios s ! b)\<lparr>bio_failed := bio_failed (n_bios s ! b) + 1\<rparr>]"
    and "writers s' = (writers s)[k := remove1 d (writers s ! k)]"
proof -
  define s1 where "s1 = update_bio b (\<lambda>bio. bio\<lparr>bio_failed := bio_failed bio + 1\<rparr>) s"
  define s3 where "s3 = update_channel k (disconnect_detached (\<lambda>_. True))
      (update_channel k (channel_detach (job_exists s1) (n_children s1) d) s1)"
  note p3 = detach_disconnect_parts [OF s3_def]
  obtain log s4 where f: "bio_fault_device env b d (IoSubmissionError SubmitWrite) s3 = Some (log, s4)"
    and l: "(case log of None \<Rightarrow> Some s4 | Some uri \<Rightarrow> bio_log_io b uri s4) = Some s'"
    using assms by (auto simp: submit_failure_def s1_def s3_def Let_def split: Option.bind_splits)
  have "framed s4 s'"
    using bio_log_io_framed l by (cases log) auto
  then have "framed s3 s'"
    using bio_fault_device_framed [OF f] framed_trans by blast
  note fr = framedD [OF this]
  have c1: "core_same s s1" by (simp add: s1_def)
  show "core_same s s'"
    using core_same_trans [OF core_same_trans [OF c1 p3(1)] fr(1)] .
  show "n_child_ios s' = n_child_ios s" and "frozen s' = frozen s"
    and "n_bios s' = (n_bios s)[b := (n_bios s ! b)\<lparr>bio_failed := bio_failed (n_bios s ! b) + 1\<rparr>]"
    and "writers s' = (writers s)[k := remove1 d (writers s ! k)]"
    using fr p3 by (simp_all add: s1_def)
qed

lemma submit_all_effect:
  assumes "submit_all env b s = Some s'" and "b < length (n_bios s)"
    and "bio_channel (n_bios s ! b) < length (n_channels s)"
    and "length (ch_writers (bio_chan s b)) \<le> 255"
    and "submit_writers (ie_refuse env) (ch_writers (bio_chan s b)) = (sent, fd)"
  shows "\<exists>out. sub_effect b out s s' \<and>
      (if sent = [] then \<exists>r. out = Sub_ended r else out = Sub_sent sent (if fd = None then 0 else 1)) \<and>
      writers s' = (writers s)[bio_channel (n_bios s ! b) :=
        (case fd of None \<Rightarrow> ch_writers (bio_chan s b) | Some d \<Rightarrow> remove1 d (ch_writers (bio_chan s b)))]"
proof -
  let ?B = "n_bios s ! b" and ?k = "bio_channel (n_bios s ! b)" and ?W = "ch_writers (bio_chan s b)"
  let ?x = "if fd = None then 0 else 1 :: u8"
  let ?ios = "n_child_ios s @ map (Pair b) sent"
  let ?ws = "(writers s)[?k := (case fd of None \<Rightarrow> ?W | Some d \<Rightarrow> remove1 d ?W)]"
  define s1 where "s1 = s\<lparr>n_child_ios := ?ios\<rparr>"
  obtain s2 s3 where
    s2: "(case fd of None \<Rightarrow> Some s1 | Some device \<Rightarrow> submit_failure env b device s1) = Some s2"
    and s3: "foldM (bio_log_io b) (ch_io_logs (bio_chan s2 b)) s2 = Some s3"
    and s': "s' = (if (0 :: u8) < of_nat (length sent) then
                update_bio b (\<lambda>bio. bio\<lparr>bio_in_flight := of_nat (length sent),
                                        bio_status := IoStatus_Success\<rparr>) s3
              else bio_fail b s3)"
    using assms(1,5) unfolding s1_def submit_all_def Let_def
    by (auto split: Option.bind_splits)
  have ws0: "writers s ! ?k = ?W"
    using assms(3) by (simp add: writers_def bio_chan_def)
  have s1: "core_same s s1" "n_bios s1 = n_bios s" "n_child_ios s1 = ?ios"
    "frozen s1 = frozen s" "writers s1 = writers s"
    by (simp_all add: s1_def frozen_def writers_def)
  have p2: "core_same s s2 \<and> n_bios s2 = (n_bios s)[b := ?B\<lparr>bio_failed := bio_failed ?B + ?x\<rparr>] \<and>
      n_child_ios s2 = ?ios \<and> frozen s2 = frozen s \<and> writers s2 = ?ws"
  proof (cases fd)
    case None
    moreover have "(writers s)[?k := ?W] = writers s" using ws0 by (metis list_update_id)
    ultimately show ?thesis using s2 s1 by simp
  next
    case (Some d)
    then have "submit_failure env b d s1 = Some s2" using s2 by simp
    from submit_failure_effect [OF this refl] show ?thesis
      using Some s1 ws0 core_same_trans by (simp, blast)
  qed
  have "framed s2 s3" using foldM_framed [OF bio_log_io_framed s3] .
  note fr = framedD [OF this]
  have c3: "core_same s s3" using p2 fr(1) core_same_trans by blast
  have b3: "n_bios s3 = (n_bios s)[b := ?B\<lparr>bio_failed := bio_failed ?B + ?x\<rparr>]"
    and i3: "n_child_ios s3 = ?ios" and f3: "frozen s3 = frozen s" and w3: "writers s3 = ?ws"
    using p2 fr by auto
  have len: "length sent \<le> 255"
    using submit_writers_prefix [OF assms(5)] assms(4) by auto
  show ?thesis
  proof (cases "sent = []")
    case True
    obtain r where r: "r \<noteq> Bio_ok" "bio_fail b s3 = bio_end b r s3"
      using bio_fail_eq by blast
    then have "s' = bio_end b r s3" using s' True by simp
    then show ?thesis
      using True r(1) b3 i3 f3 w3 assms(2) core_same_trans [OF c3]
      by (intro exI [of _ "Sub_ended r"])
        (auto simp: sub_effect_def bio_end_def intro!: exI [of _ "bio_failed ?B + ?x"])
  next
    case False
    then have "(0 :: u8) < of_nat (length sent)" using u8_of_nat_pos len by simp
    then have "s' = update_bio b (\<lambda>bio. bio\<lparr>bio_in_flight := of_nat (length sent),
        bio_status := IoStatus_Success\<rparr>) s3" using s' by simp
    then show ?thesis
      using False b3 i3 f3 w3 assms(2) core_same_trans [OF c3]
      by (intro exI [of _ "Sub_sent sent ?x"])
        (auto simp: sub_effect_def intro!: exI [of _ IoStatus_Success])
  qed
qed

lemma select_reader_fields:
  assumes "select_reader ch = (hdl, ch')"
  shows "ch_writers ch' = ch_writers ch" "ch_readers ch' = ch_readers ch"
    "ch_io_mode ch' = ch_io_mode ch" "ch_frozen_ios ch' = ch_frozen_ios ch"
    "hdl = None \<longleftrightarrow> ch_readers ch = []"
  using assms by (auto simp: select_reader_def Let_def split: if_splits)

lemma map_update_nth: "g x = g (xs ! k) \<Longrightarrow> map g (xs[k := x]) = map g xs"
  by (cases "k < length xs") (simp_all add: map_update list_update_beyond list_update_same_conv)

lemma select_reader_framed:
  assumes "select_reader (n_channels s ! k) = (hdl, ch)"
  shows "framed s (update_channel k (\<lambda>_. ch) s)"
  using select_reader_fields [OF assms]
  by (simp add: framed_def core_same_def part_defs update_channel_def map_update_nth)

lemma do_readv_one_effect:
  assumes "do_readv_one env b s = Some (r, s')" and "b < length (n_bios s)"
  shows "if r = Readv_ok
         then (\<exists>d. sub_effect b (Sub_sent [d] 0) s s') \<and> writers s' = writers s
         else framed s s'"
proof -
  let ?k = "bio_channel (n_bios s ! b)"
  obtain hdl ch where sel: "select_reader (n_channels s ! ?k) = (hdl, ch)" by fastforce
  define s1 where "s1 = update_channel ?k (\<lambda>_. ch) s"
  have "framed s s1" using select_reader_framed [OF sel] by (simp add: s1_def)
  note fr = framedD [OF this]
  show ?thesis
  proof (cases "\<exists>d. hdl = Some d \<and> d \<notin> set (ie_refuse env)")
    case True
    then obtain d where d: "hdl = Some d" "d \<notin> set (ie_refuse env)" by blast
    then have r: "r = Readv_ok" and s': "s' = update_bio b (\<lambda>bio. bio\<lparr>bio_in_flight := 1\<rparr>)
        (s1\<lparr>n_child_ios := n_child_ios s1 @ [(b, d)]\<rparr>)"
      using assms(1) sel by (auto simp: do_readv_one_def s1_def Let_def)
    have c: "core_same s1 s'"
      unfolding s' by (rule core_same_trans [OF core_same_child_ios(1) core_same_update_bio])
    then have "core_same s s'" using fr(1) core_same_trans by blast
    moreover have "frozen s' = frozen s \<and> writers s' = writers s"
      using fr unfolding s' by (simp add: frozen_def writers_def)
    moreover have "n_bios s' = (n_bios s)[b := (n_bios s ! b)\<lparr>bio_failed := bio_failed (n_bios s ! b) + 0,
        bio_in_flight := of_nat (length [d]), bio_status := bio_status (n_bios s ! b)\<rparr>]"
      using fr s' by simp
    ultimately show ?thesis
      using r fr s' unfolding sub_effect_def
      by (auto intro!: exI [of _ d] exI [of _ "bio_status (n_bios s ! b)"])
  next
    case False
    then show ?thesis
      using assms(1) sel bio_fault_device_framed framed_trans \<open>framed s s1\<close>
      by (auto simp: do_readv_one_def s1_def Let_def split: option.splits if_splits
          Option.bind_splits) blast+
  qed
qed

lemma sub_effect_after_framed:
  assumes "framed s s1" and "sub_effect b out s1 s'"
  shows "sub_effect b out s s'"
proof -
  note fr = framedD [OF assms(1)]
  have "core_same s s'"
    using assms(2) fr(1) core_same_trans by (auto simp: sub_effect_def)
  then show ?thesis
    using assms(2) fr by (auto simp: sub_effect_def split: sub_outcome.splits)
qed

lemma readv_loop_effect:
  assumes "readv_loop env b n s = Some (submitted, s')" and "b < length (n_bios s)"
  shows "if submitted then (\<exists>d. sub_effect b (Sub_sent [d] 0) s s') \<and> writers s' = writers s
         else framed s s'"
  using assms
proof (induction n arbitrary: s)
  case (Suc n)
  obtain r s1 where one: "do_readv_one env b s = Some (r, s1)"
    using Suc.prems(1) by (auto split: option.splits)
  note e = do_readv_one_effect [OF one Suc.prems(2)]
  show ?case
  proof (cases "r = Readv_ok")
    case True
    then show ?thesis using Suc.prems(1) one e by auto
  next
    case False
    then have fr: "framed s s1" using e by simp
    note fd = framedD [OF fr]
    show ?thesis
    proof (cases "n = 0")
      case True
      then show ?thesis using Suc.prems(1) one False fr by (cases r) auto
    next
      case n: False
      then have "readv_loop env b n s1 = Some (submitted, s')"
        using Suc.prems(1) one False by (cases r) auto
      from Suc.IH [OF this] show ?thesis
        using Suc.prems(2) fd sub_effect_after_framed [OF fr] framed_trans [OF fr]
        by (auto split: if_splits)
    qed
  qed
qed simp

lemma bio_fail_effect:
  assumes "b < length (n_bios s)"
  shows "\<exists>r. sub_effect b (Sub_ended r) s (bio_fail b s)" and "writers (bio_fail b s) = writers s"
proof -
  obtain r where r: "r \<noteq> Bio_ok" "bio_fail b s = bio_end b r s" using bio_fail_eq by blast
  then show "\<exists>r. sub_effect b (Sub_ended r) s (bio_fail b s)"
    by (auto simp: sub_effect_def bio_end_def intro!: exI [of _ r] exI [of _ "bio_failed (n_bios s ! b)"])
  show "writers (bio_fail b s) = writers s" using r by (simp add: bio_end_def)
qed

lemma do_readv_effect:
  assumes "do_readv env b s = Some s'" and "b < length (n_bios s)"
  shows "(\<exists>out. sub_effect b out s s' \<and> out \<noteq> Sub_frozen \<and>
           (\<forall>ds x. out = Sub_sent ds x \<longrightarrow> x = 0 \<and> length ds = 1)) \<and> writers s' = writers s"
proof -
  obtain r s1 where one: "do_readv_one env b s = Some (r, s1)"
    using assms(1) by (auto simp: do_readv_def split: Option.bind_splits)
  note e = do_readv_one_effect [OF one assms(2)]
  have fail: "(\<exists>out. sub_effect b out s (bio_fail b s2) \<and> out \<noteq> Sub_frozen \<and>
      (\<forall>ds x. out = Sub_sent ds x \<longrightarrow> x = 0 \<and> length ds = 1)) \<and> writers (bio_fail b s2) = writers s"
    if "framed s s2" for s2
  proof -
    note fd = framedD [OF that]
    obtain r where "sub_effect b (Sub_ended r) s2 (bio_fail b s2)"
      using bio_fail_effect(1) [of b s2] assms(2) fd(2) by auto
    then have "sub_effect b (Sub_ended r) s (bio_fail b s2)"
      using sub_effect_after_framed [OF that] by blast
    then show ?thesis using bio_fail_effect(2) [of b s2] assms(2) fd by auto
  qed
  show ?thesis
  proof (cases r)
    case Readv_ok
    then show ?thesis using assms(1) one e by (auto simp: do_readv_def)
  next
    case Readv_no_devices
    then show ?thesis using assms(1) one e fail by (auto simp: do_readv_def)
  next
    case Readv_refused
    then have fr: "framed s s1" using e by simp
    note fd = framedD [OF fr]
    obtain submitted s2 where l: "(if length (ch_readers (bio_chan s1 b)) \<le> 1 then Some (False, s1)
        else readv_loop env b (length (ch_readers (bio_chan s1 b)) - 1) s1) = Some (submitted, s2)"
      and s': "s' = (if submitted then s2 else bio_fail b s2)"
      using assms(1) one Readv_refused
      by (auto simp: do_readv_def Let_def split: Option.bind_splits)
    have "if submitted then (\<exists>d. sub_effect b (Sub_sent [d] 0) s1 s2) \<and> writers s2 = writers s1
          else framed s1 s2"
      using l readv_loop_effect [of env b _ s1 submitted s2] assms(2) fd(2)
      by (auto split: if_splits)
    then show ?thesis
    proof (cases submitted)
      case True
      with \<open>if submitted then _ else _\<close> obtain d where "sub_effect b (Sub_sent [d] 0) s s2"
        and "writers s2 = writers s" using sub_effect_after_framed [OF fr] fd by auto
      then show ?thesis using s' True by (auto intro!: exI [of _ "Sub_sent [d] 0"])
    next
      case False
      then show ?thesis
        using \<open>if submitted then _ else _\<close> s' fail framed_trans [OF fr] by simp
    qed
  qed
qed

lemma update_channel_freeze_parts:
  assumes "k < length (n_channels s)"
  shows "core_same s (update_channel k (freeze_io_submission b) s)"
    and "n_bios (update_channel k (freeze_io_submission b) s) = n_bios s"
    and "n_child_ios (update_channel k (freeze_io_submission b) s) = n_child_ios s"
    and "writers (update_channel k (freeze_io_submission b) s) = writers s"
    and "frozen (update_channel k (freeze_io_submission b) s) = (frozen s)[k := frozen s ! k @ [b]]"
  using assms
  by (simp_all add: core_same_def part_defs update_channel_def freeze_io_submission_def map_update
      list_update_same_conv)

text \<open>The I/Os that go to all writers.\<close>

definition to_all :: "IoType \<Rightarrow> bool" where
  "to_all t \<longleftrightarrow> t \<in> {IoWrite, IoWriteZeros, IoReset, IoUnmap, IoFlush}"

lemma submit_request_to_all:
  "to_all (bio_io_type (n_bios s ! b)) \<Longrightarrow> \<not> is_frozen (bio_chan s b) \<Longrightarrow>
     submit_request env buf b s = submit_all env b s"
  by (auto simp: submit_request_def to_all_def)

lemma submit_request_frozen:
  "is_frozen (bio_chan s b) \<Longrightarrow> submit_request env buf b s =
     Some (update_channel (bio_channel (n_bios s ! b)) (freeze_io_submission b) s)"
  by (simp add: submit_request_def)

lemma submit_request_effect:
  assumes "submit_request env buf b s = Some s'" and "b < length (n_bios s)"
    and "bio_channel (n_bios s ! b) < length (n_channels s)"
    and "length (ch_writers (bio_chan s b)) \<le> 255" and "buf \<noteq> Buf_failed"
  shows "\<exists>out. sub_effect b out s s' \<and>
      (\<forall>ds x. out = Sub_sent ds x \<longrightarrow> length ds + unat x \<le> 255) \<and>
      (writers s' = writers s \<or> (\<exists>d. writers s' = (writers s)[bio_channel (n_bios s ! b) :=
         remove1 d (writers s ! bio_channel (n_bios s ! b))]))"
proof (cases "is_frozen (bio_chan s b)")
  case True
  then show ?thesis
    using assms(1) update_channel_freeze_parts [OF assms(3), of b]
    by (intro exI [of _ Sub_frozen]) (auto simp: submit_request_frozen sub_effect_def)
next
  case nf: False
  have ws0: "writers s ! bio_channel (n_bios s ! b) = ch_writers (bio_chan s b)"
    using assms(3) by (simp add: writers_def bio_chan_def)
  show ?thesis
  proof (cases "to_all (bio_io_type (n_bios s ! b))")
    case True
    then have sa: "submit_all env b s = Some s'"
      using assms(1) nf by (simp add: submit_request_to_all)
    obtain sent fd where sw: "submit_writers (ie_refuse env) (ch_writers (bio_chan s b)) = (sent, fd)"
      by fastforce
    from submit_all_effect [OF sa assms(2-4) sw] obtain out where out: "sub_effect b out s s'"
      "if sent = [] then \<exists>r. out = Sub_ended r else out = Sub_sent sent (if fd = None then 0 else 1)"
      "writers s' = (writers s)[bio_channel (n_bios s ! b) :=
        (case fd of None \<Rightarrow> ch_writers (bio_chan s b) | Some d \<Rightarrow> remove1 d (ch_writers (bio_chan s b)))]"
      by blast
    have "length sent + (if fd = None then 0 else 1) \<le> 255"
      using submit_writers_prefix [OF sw] assms(4) by (auto split: option.splits)
    then have "\<forall>ds x. out = Sub_sent ds x \<longrightarrow> length ds + unat x \<le> 255"
      using out(2) by (auto split: if_splits)
    moreover have "writers s' = writers s \<or> (\<exists>d. writers s' = (writers s)[bio_channel (n_bios s ! b) :=
         remove1 d (writers s ! bio_channel (n_bios s ! b))])"
      using out(3) ws0 by (cases fd) (auto, metis list_update_id)
    ultimately show ?thesis using out(1) by blast
  next
    case False
    show ?thesis
    proof (cases "bio_io_type (n_bios s ! b) = IoRead")
      case True
      then have "do_readv env b s = Some s'"
        using assms(1,5) nf
        by (auto simp: submit_request_def readv_def nexus_get_buf_cb_def Let_def split: buffer.splits)
      from do_readv_effect [OF this assms(2)] show ?thesis by fastforce
    next
      case nr: False
      then have "s' = bio_fail b s"
        using assms(1) nf False by (auto simp: submit_request_def to_all_def split: IoType.splits)
      then show ?thesis using bio_fail_effect [OF assms(2)] by fastforce
    qed
  qed
qed

end
