(* ===== verification/Nexus_Io_Inv.thy ===== *)
theory Nexus_Io_Inv
  imports Nexus_Io_Effects
begin

text \<open>
  The accounting of the nexus I/Os: every nexus I/O is at any time either under way at some children,
  or frozen, or completed, and it is completed exactly once.
\<close>

section \<open>The accounting of the nexus I/Os\<close>

definition pending :: "'s nio \<Rightarrow> nat \<Rightarrow> nat" where
  "pending s b = length (filter (\<lambda>x. fst x = b) (n_child_ios s))"

definition frozen_count :: "'s nio \<Rightarrow> nat \<Rightarrow> nat" where
  "frozen_count s b = count_list (concat (frozen s)) b"

text \<open>A nexus I/O is under way, frozen, or completed once.\<close>

definition bio_inv :: "'s nio \<Rightarrow> nat \<Rightarrow> bool" where
  "bio_inv s b \<longleftrightarrow>
     (let bio = n_bios s ! b in
      0 < pending s b \<and> frozen_count s b = 0 \<and> bio_ends bio = [] \<and>
        unat (bio_in_flight bio) = pending s b \<and>
        unat (bio_successful bio) + unat (bio_failed bio) + pending s b \<le> 255 \<or>
      pending s b = 0 \<and> frozen_count s b = 1 \<and> bio_ends bio = [] \<and>
        bio_successful bio = 0 \<and> bio_failed bio = 0 \<or>
      pending s b = 0 \<and> frozen_count s b = 0 \<and> length (bio_ends bio) = 1)"

definition bio_ready :: "'s nio \<Rightarrow> nat \<Rightarrow> bool" where
  "bio_ready s b \<longleftrightarrow>
     (let bio = n_bios s ! b in
      pending s b = 0 \<and> frozen_count s b = 0 \<and> bio_ends bio = [] \<and>
      bio_successful bio = 0 \<and> bio_failed bio = 0)"

definition nio_wf :: "'s nio \<Rightarrow> bool" where
  "nio_wf s \<longleftrightarrow>
     (\<forall>b < length (n_bios s). bio_channel (n_bios s ! b) < length (n_channels s)) \<and>
     length (n_queues s) = length (n_channels s) \<and>
     (\<forall>x \<in> set (n_child_ios s). fst x < length (n_bios s)) \<and>
     (\<forall>b \<in> set (concat (frozen s)). b < length (n_bios s)) \<and>
     (\<forall>ws \<in> set (writers s). length ws \<le> 255) \<and> length (n_children s) \<le> 255"

definition nio_inv :: "'s nio \<Rightarrow> bool" where
  "nio_inv s \<longleftrightarrow> nio_wf s \<and> (\<forall>b < length (n_bios s). bio_inv s b)"

lemma count_list_concat_update:
  "k < length xs \<Longrightarrow> count_list (concat (xs[k := xs ! k @ [b]])) b' =
     count_list (concat xs) b' + (if b = b' then 1 else 0)"
  by (induction xs arbitrary: k) (auto simp: less_Suc_eq_0_disj split: nat.splits)

lemma sub_effect_bios:
  assumes "sub_effect b out s s'"
  shows "length (n_bios s') = length (n_bios s)"
    and "bio_channel (n_bios s' ! b') = bio_channel (n_bios s ! b')"
    and "bio_io_type (n_bios s' ! b') = bio_io_type (n_bios s ! b')"
    and "b' \<noteq> b \<Longrightarrow> n_bios s' ! b' = n_bios s ! b'"
proof -
  have "n_bios s' = n_bios s \<or> (\<exists>B. n_bios s' = (n_bios s)[b := B] \<and>
      bio_channel B = bio_channel (n_bios s ! b) \<and> bio_io_type B = bio_io_type (n_bios s ! b))"
    using assms by (auto simp: sub_effect_def split: sub_outcome.splits)
  then show "length (n_bios s') = length (n_bios s)"
    and "bio_channel (n_bios s' ! b') = bio_channel (n_bios s ! b')"
    and "bio_io_type (n_bios s' ! b') = bio_io_type (n_bios s ! b')"
    and "b' \<noteq> b \<Longrightarrow> n_bios s' ! b' = n_bios s ! b'"
    by (auto simp: nth_list_update list_update_beyond)
      (metis list_update_beyond not_le nth_list_update)+
qed

lemma sub_effect_other:
  assumes "sub_effect b out s s'" and "b' \<noteq> b"
    and "bio_channel (n_bios s ! b) < length (n_channels s)"
  shows "pending s' b' = pending s b'" and "frozen_count s' b' = frozen_count s b'"
    and "bio_inv s' b' = bio_inv s b'" and "bio_ready s' b' = bio_ready s b'"
proof -
  have "length (frozen s) = length (n_channels s)" by (simp add: frozen_def)
  then show p: "pending s' b' = pending s b'" and f: "frozen_count s' b' = frozen_count s b'"
    using assms
    by (auto simp: sub_effect_def pending_def frozen_count_def comp_def count_list_concat_update
        split: sub_outcome.splits)
  show "bio_inv s' b' = bio_inv s b'" and "bio_ready s' b' = bio_ready s b'"
    using p f sub_effect_bios(4) [OF assms(1,2)] by (simp_all add: bio_inv_def bio_ready_def)
qed

lemma sub_effect_inv:
  assumes "sub_effect b out s s'" and "bio_ready s b" and "b < length (n_bios s)"
    and "bio_channel (n_bios s ! b) < length (n_channels s)"
    and "\<forall>ds x. out = Sub_sent ds x \<longrightarrow> length ds + unat x \<le> 255"
  shows "bio_inv s' b"
proof -
  have l: "length (frozen s) = length (n_channels s)" by (simp add: frozen_def)
  show ?thesis
  proof (cases out)
    case Sub_frozen
    then show ?thesis
      using assms l
      by (simp add: sub_effect_def bio_inv_def bio_ready_def pending_def frozen_count_def
          count_list_concat_update Let_def)
  next
    case (Sub_sent ds x)
    then have "length ds + unat x \<le> 255" and "length ds \<noteq> 0"
      using assms(1,5) by (auto simp: sub_effect_def)
    moreover from this have "unat (of_nat (length ds) :: u8) = length ds"
      by (simp add: unat_of_nat)
    ultimately show ?thesis
      using assms(1-3) Sub_sent
      by (auto simp: sub_effect_def bio_inv_def bio_ready_def pending_def frozen_count_def comp_def
          Let_def)
  next
    case (Sub_ended r)
    then show ?thesis
      using assms(1-3)
      by (auto simp: sub_effect_def bio_inv_def bio_ready_def pending_def frozen_count_def Let_def)
  qed
qed

text \<open>The invariant while the I/Os of a set are being submitted.\<close>

definition inv_but :: "nat set \<Rightarrow> 's nio \<Rightarrow> bool" where
  "inv_but R s \<longleftrightarrow> nio_wf s \<and>
     (\<forall>b < length (n_bios s). if b \<in> R then bio_ready s b else bio_inv s b)"

lemma inv_but_empty: "inv_but {} s = nio_inv s"
  by (simp add: inv_but_def nio_inv_def)

lemma wf_writers:
  assumes "nio_wf s" and "b < length (n_bios s)"
  shows "bio_channel (n_bios s ! b) < length (n_channels s)"
    and "length (ch_writers (bio_chan s b)) \<le> 255"
  using assms by (auto simp: nio_wf_def writers_def bio_chan_def)

lemma set_concat_update:
  "k < length xs \<Longrightarrow> set (concat (xs[k := xs ! k @ [b]])) \<subseteq> insert b (set (concat xs))"
  by (induction xs arbitrary: k) (auto split: nat.splits)

lemma sub_effect_wf:
  assumes "sub_effect b out s s'" and "nio_wf s" and "b < length (n_bios s)"
    and "writers s' = writers s \<or> (\<exists>d. writers s' = (writers s)[k := remove1 d (writers s ! k)])"
    and "k < length (n_channels s)"
  shows "nio_wf s'"
proof -
  have c: "core_same s s'" using assms(1) by (simp add: sub_effect_def)
  then have "length (n_children s') = length (n_children s)"
    by (metis core_same_def child_ids_def length_map)
  moreover have "\<forall>ws \<in> set (writers s'). length ws \<le> 255"
  proof -
    have "length (remove1 d (writers s ! k)) \<le> 255" for d
    proof -
      have "writers s ! k \<in> set (writers s)" using assms(5) by (simp add: writers_def)
      then show ?thesis
        using assms(2) length_remove1 [of d "writers s ! k"] by (fastforce simp: nio_wf_def)
    qed
    then show ?thesis
      using assms(2,4) set_update_subset_insert [of "writers s" k]
      by (fastforce simp: nio_wf_def)
  qed
  moreover have "\<forall>x \<in> set (n_child_ios s'). fst x < length (n_bios s)"
    using assms(1-3) by (auto simp: sub_effect_def nio_wf_def split: sub_outcome.splits)
  moreover have "\<forall>x \<in> set (concat (frozen s')). x < length (n_bios s)"
  proof -
    let ?j = "bio_channel (n_bios s ! b)"
    have "frozen s' = frozen s \<or>
        frozen s' = (frozen s)[?j := frozen s ! ?j @ [b]] \<and> ?j < length (frozen s)"
      using assms(1) wf_writers(1) [OF assms(2,3)]
      by (simp add: sub_effect_def frozen_def split: sub_outcome.splits)
    then have "set (concat (frozen s')) \<subseteq> insert b (set (concat (frozen s)))"
      using set_concat_update by fastforce
    then show ?thesis using assms(2,3) unfolding nio_wf_def by blast
  qed
  ultimately show ?thesis
    using c assms(2) sub_effect_bios [OF assms(1)] by (simp add: nio_wf_def core_same_def)
qed

lemma sub_effect_inv_but:
  assumes "sub_effect b out s s'" and "inv_but R s" and "b \<in> R" and "b < length (n_bios s)"
    and "\<forall>ds x. out = Sub_sent ds x \<longrightarrow> length ds + unat x \<le> 255"
    and "writers s' = writers s \<or> (\<exists>d. writers s' = (writers s)[bio_channel (n_bios s ! b) :=
         remove1 d (writers s ! bio_channel (n_bios s ! b))])"
  shows "inv_but (R - {b}) s'"
proof -
  have wf: "nio_wf s" and ready: "bio_ready s b" using assms(2-4) by (auto simp: inv_but_def)
  have k: "bio_channel (n_bios s ! b) < length (n_channels s)" using wf_writers [OF wf assms(4)] by simp
  have "nio_wf s'" using sub_effect_wf [OF assms(1) wf assms(4,6) k] .
  moreover have "bio_inv s' b" using sub_effect_inv [OF assms(1) ready assms(4) k assms(5)] .
  moreover have "if a \<in> R - {b} then bio_ready s' a else bio_inv s' a"
    if "a < length (n_bios s)" for a
    using that assms(2) sub_effect_other(3,4) [OF assms(1) _ k, of a] \<open>bio_inv s' b\<close>
    by (cases "a = b") (auto simp: inv_but_def)
  ultimately show ?thesis
    using sub_effect_bios(1) [OF assms(1)] by (simp add: inv_but_def)
qed

lemma submit_inv_but:
  assumes "submit_request env buf b s = Some s'" and "inv_but R s" and "b \<in> R"
    and "b < length (n_bios s)" and "buf \<noteq> Buf_failed"
  shows "inv_but (R - {b}) s'" and "length (n_bios s') = length (n_bios s)"
proof -
  have wf: "nio_wf s" using assms(2) by (simp add: inv_but_def)
  obtain out where "sub_effect b out s s'"
    "\<forall>ds x. out = Sub_sent ds x \<longrightarrow> length ds + unat x \<le> 255"
    "writers s' = writers s \<or> (\<exists>d. writers s' = (writers s)[bio_channel (n_bios s ! b) :=
         remove1 d (writers s ! bio_channel (n_bios s ! b))])"
    using submit_request_effect [OF assms(1,4) wf_writers [OF wf assms(4)] assms(5)] by blast
  then show "inv_but (R - {b}) s'" and "length (n_bios s') = length (n_bios s)"
    using sub_effect_inv_but assms(2-4) sub_effect_bios by blast+
qed

lemma foldM_submit_inv:
  assumes "foldM (submit_request env buf) fs s = Some s'" and "inv_but (set fs) s" and "distinct fs"
    and "\<forall>b \<in> set fs. b < length (n_bios s)" and "buf \<noteq> Buf_failed"
  shows "nio_inv s'"
  using assms(1-4)
proof (induction fs arbitrary: s)
  case Nil
  then show ?case by (simp add: inv_but_empty)
next
  case (Cons b fs)
  then obtain s1 where s1: "submit_request env buf b s = Some s1"
    and "foldM (submit_request env buf) fs s1 = Some s'" by (auto split: option.splits)
  moreover have "inv_but (set fs) s1" and "length (n_bios s1) = length (n_bios s)"
    using submit_inv_but [OF s1 Cons.prems(2)] Cons.prems(3,4) assms(5) by auto
  ultimately show ?case using Cons by auto
qed

lemma fold_fail_inv:
  assumes "inv_but (set fs) s" and "distinct fs" and "\<forall>b \<in> set fs. b < length (n_bios s)"
  shows "nio_inv (fold bio_fail fs s)"
  using assms
proof (induction fs arbitrary: s)
  case Nil
  then show ?case by (simp add: inv_but_empty)
next
  case (Cons b fs)
  then have b: "b < length (n_bios s)" by simp
  obtain r where r: "sub_effect b (Sub_ended r) s (bio_fail b s)"
    using bio_fail_effect(1) [OF b] by blast
  have "inv_but (set fs) (bio_fail b s)"
    using sub_effect_inv_but [OF r Cons.prems(1)] bio_fail_effect(2) [OF b] b Cons.prems(2) by auto
  then show ?case using Cons sub_effect_bios(1) [OF r] by auto
qed

lemma framed_inv:
  assumes "framed s s'"
  shows "nio_wf s' = nio_wf s" and "bio_inv s' b = bio_inv s b" and "bio_ready s' b = bio_ready s b"
proof -
  note fr = framedD [OF assms]
  have "length (n_children s') = length (n_children s)"
    using fr(1) by (metis core_same_def child_ids_def length_map)
  then show "nio_wf s' = nio_wf s" and "bio_inv s' b = bio_inv s b"
    and "bio_ready s' b = bio_ready s b"
    using fr by (simp_all add: nio_wf_def core_same_def bio_inv_def bio_ready_def pending_def
        frozen_count_def)
qed

lemma completion_error_framed:
  assumes "completion_error env b child status s = Some s'"
  shows "framed s s'"
proof -
  consider "s' = s" | "s' = try_self_shutdown_nexus s"
    | log s1 where "bio_fault_device env b child status s = Some (log, s1)"
        "(case log of None \<Rightarrow> Some s1 | Some uri \<Rightarrow> bio_log_io b uri s1) = Some s'"
    using assms by (auto simp: completion_error_def split: if_splits Option.bind_splits)
  then show ?thesis
  proof cases
    case 1
    then show ?thesis by (simp add: framed_def)
  next
    case 2
    then show ?thesis by (simp add: try_self_shutdown_nexus_def framed_def core_same_def part_defs)
  next
    case 3
    then have "framed s s1" using bio_fault_device_framed by blast
    moreover have "framed s1 s'"
      using 3(2) bio_log_io_framed by (cases log) (auto simp: framed_def)
    ultimately show ?thesis by (rule framed_trans)
  qed
qed

section \<open>Every step preserves the accounting\<close>

lemma pending_out: "nio_wf s \<Longrightarrow> pending s (length (n_bios s)) = 0"
  by (auto simp: pending_def nio_wf_def filter_empty_conv)

lemma frozen_out: "nio_wf s \<Longrightarrow> frozen_count s (length (n_bios s)) = 0"
  by (auto simp: frozen_count_def nio_wf_def count_list_0_iff)

lemma submit_label_inv:
  assumes "nio_inv s" and "k < length (n_channels s)" and "buf \<noteq> Buf_failed"
    and "submit_request env buf (length (n_bios s))
           (s\<lparr>n_bios := n_bios s @ [bio_new k t off num]\<rparr>) = Some s'"
  shows "nio_inv s'"
proof -
  let ?b = "length (n_bios s)" and ?s = "s\<lparr>n_bios := n_bios s @ [bio_new k t off num]\<rparr>"
  have wf: "nio_wf s" using assms(1) by (simp add: nio_inv_def)
  have pf: "pending ?s = pending s" "frozen_count ?s = frozen_count s"
    by (simp_all add: fun_eq_iff pending_def frozen_count_def frozen_def)
  have "nio_wf ?s"
    using wf assms(2)
    by (auto simp: nio_wf_def nth_append frozen_def writers_def bio_new_def less_Suc_eq)
  moreover have "bio_ready ?s ?b"
    using pending_out [OF wf] frozen_out [OF wf] by (simp add: bio_ready_def Let_def pf) (simp add: bio_new_def)
  moreover have "bio_inv ?s b" if "b < ?b" for b
    using that assms(1) by (simp add: nio_inv_def bio_inv_def pf nth_append)
  ultimately have "inv_but {?b} ?s" by (auto simp: inv_but_def less_Suc_eq)
  from submit_inv_but(1) [OF assms(4) this] assms(3) show ?thesis by (simp add: inv_but_empty)
qed

text \<open>The state after a child I/O has been taken off and counted.\<close>

definition counted :: "nat \<Rightarrow> 's nio \<Rightarrow> bool" where
  "counted b s \<longleftrightarrow>
     nio_wf s \<and> b < length (n_bios s) \<and> (\<forall>a < length (n_bios s). a \<noteq> b \<longrightarrow> bio_inv s a) \<and>
     frozen_count s b = 0 \<and> bio_ends (n_bios s ! b) = [] \<and>
     unat (bio_in_flight (n_bios s ! b)) = pending s b \<and>
     unat (bio_successful (n_bios s ! b)) + unat (bio_failed (n_bios s ! b)) + pending s b \<le> 255"

lemma counted_framed: "framed s s' \<Longrightarrow> counted b s \<Longrightarrow> counted b s'"
  using framed_inv [of s s'] framedD [of s s']
  by (simp add: counted_def pending_def frozen_count_def)

lemma pending_remove1:
  "pending (s\<lparr>n_child_ios := remove1 (b, d) (n_child_ios s), n_done := x\<rparr>) b' =
     pending s b' - (if b = b' \<and> (b, d) \<in> set (n_child_ios s) then 1 else 0)"
  by (auto simp: pending_def filter_remove1 length_remove1)

lemma unat8_inc: "unat (x :: u8) < 255 \<Longrightarrow> unat (x + 1) = unat x + 1"
  by (simp add: unat_word_ariths)

lemma unat8_dec: "0 < unat (x :: u8) \<Longrightarrow> unat (x - 1) = unat x - 1"
  by (simp add: unat_minus_one unat_gt_0)

lemma update_bio_channel:
  "(\<And>bio. bio_channel (f bio) = bio_channel bio) \<Longrightarrow>
     bio_channel (n_bios (update_bio b f s) ! a) = bio_channel (n_bios s ! a)"
  by (cases "b < length (n_bios s)"; cases "a = b")
    (simp_all add: update_bio_def list_update_beyond)

lemma counted_step:
  assumes "nio_inv s" and "(b, d) \<in> set (n_child_ios s)"
    and "f = (\<lambda>bio. bio\<lparr>bio_in_flight := bio_in_flight bio - 1, bio_successful := bio_successful bio + 1\<rparr>) \<or>
         f = (\<lambda>bio. bio\<lparr>bio_in_flight := bio_in_flight bio - 1, bio_status := IoStatus_Failed,
                        bio_failed := bio_failed bio + 1\<rparr>)"
  shows "counted b (update_bio b f (s\<lparr>n_child_ios := remove1 (b, d) (n_child_ios s), n_done := x\<rparr>))"
    (is "counted b (update_bio b f ?s)")
proof -
  have wf: "nio_wf s" and b: "b < length (n_bios s)"
    using assms(1,2) by (fastforce simp: nio_inv_def nio_wf_def)+
  have "0 < pending s b"
    using assms(2) by (force simp: pending_def filter_empty_conv)
  then have binv: "frozen_count s b = 0" "bio_ends (n_bios s ! b) = []"
      "unat (bio_in_flight (n_bios s ! b)) = pending s b"
      "unat (bio_successful (n_bios s ! b)) + unat (bio_failed (n_bios s ! b)) + pending s b \<le> 255"
    using assms(1) b by (auto simp: nio_inv_def bio_inv_def Let_def)
  have p: "pending (update_bio b f ?s) a = pending s a - (if a = b then 1 else 0)"
    and fc: "frozen_count (update_bio b f ?s) a = frozen_count s a" for a
    using pending_remove1 [where s = s and b = b and d = d and x = x and b' = a] assms(2)
    by (auto simp: pending_def frozen_count_def frozen_def update_bio_def)
  have "bio_channel (f bio) = bio_channel bio" for bio using assms(3) by auto
  then have ch: "bio_channel (n_bios (update_bio b f ?s) ! a) = bio_channel (n_bios s ! a)" for a
    using update_bio_channel [of f b ?s a] by simp
  have "set (remove1 (b, d) (n_child_ios s)) \<subseteq> set (n_child_ios s)" by (rule set_remove1_subset)
  then have "nio_wf (update_bio b f ?s)"
    using wf unfolding nio_wf_def ch by (auto simp: update_bio_def frozen_def writers_def)
  moreover have "bio_inv (update_bio b f ?s) a" if "a < length (n_bios s)" "a \<noteq> b" for a
    using that assms(1) p fc by (simp add: nio_inv_def bio_inv_def update_bio_def)
  moreover have "n_bios (update_bio b f ?s) ! b = f (n_bios s ! b)"
    using b by (simp add: update_bio_def)
  ultimately show ?thesis
    using binv b \<open>0 < pending s b\<close> p fc assms(3)
    by (auto simp: counted_def unat8_dec unat8_inc)
qed

lemma bio_end_inv:
  assumes "counted b s" and "pending s b = 0"
  shows "nio_inv (bio_end b r s)"
proof -
  have "pending (bio_end b r s) = pending s" "frozen_count (bio_end b r s) = frozen_count s"
    by (simp_all add: fun_eq_iff pending_def frozen_count_def frozen_def bio_end_def update_bio_def)
  then have "bio_inv (bio_end b r s) a" if "a < length (n_bios s)" for a
    using that assms by (cases "a = b") (simp_all add: counted_def bio_inv_def bio_end_def update_bio_def)
  then show ?thesis
    using assms(1)
    by (auto simp: counted_def nio_inv_def nio_wf_def bio_end_def update_bio_def frozen_def
        writers_def nth_list_update)
qed

lemma resubmit_inv:
  assumes "resubmit env buf b s = Some s'" and "counted b s" and "pending s b = 0"
    and "buf \<noteq> Buf_failed"
  shows "nio_inv s'"
proof -
  let ?s = "update_bio b (\<lambda>bio. bio\<lparr>bio_status := IoStatus_Pending,
          bio_resubmits := bio_resubmits bio + 1, bio_successful := 0, bio_failed := 0\<rparr>) s"
  have "pending ?s = pending s" "frozen_count ?s = frozen_count s"
    by (simp_all add: fun_eq_iff pending_def frozen_count_def frozen_def update_bio_def)
  moreover have "nio_wf ?s"
    using assms(2) by (auto simp: counted_def nio_wf_def update_bio_def frozen_def writers_def
        nth_list_update)
  ultimately have "inv_but {b} ?s"
    using assms(2,3) by (auto simp: inv_but_def counted_def bio_ready_def bio_inv_def update_bio_def)
  moreover have "b < length (n_bios ?s)" using assms(2) by (simp add: counted_def update_bio_def)
  ultimately show ?thesis
    using submit_inv_but(1) [of env buf b ?s s' "{b}"] assms(1,4)
    by (simp add: resubmit_def inv_but_empty)
qed

lemma update_bio_twice:
  "b < length (n_bios s) \<Longrightarrow> update_bio b g (update_bio b f s) = update_bio b (\<lambda>bio. g (f bio)) s"
  by (simp add: update_bio_def)

text \<open>The decision that \<open>complete\<close> takes once the child I/O is counted.\<close>

definition decide :: "io_env \<Rightarrow> buffer \<Rightarrow> nat \<Rightarrow> IoCompletionStatus \<Rightarrow> 's nio \<Rightarrow> 's nio option" where
  "decide env buf b status s =
     (if bio_in_flight (n_bios s ! b) > 0 then Some s
      else if bio_failed (n_bios s ! b) = 0 then Some (bio_end b Bio_ok s)
      else if bio_successful (n_bios s ! b) > 0 then resubmit env buf b s
      else Some (bio_fail b (s\<lparr>n_last_error := status\<rparr>)))"

lemma bio_complete_ok:
  "b < length (n_bios s) \<Longrightarrow> bio_complete env buf b d IoSuccess s =
     decide env buf b IoSuccess (update_bio b
       (\<lambda>bio. bio\<lparr>bio_in_flight := bio_in_flight bio - 1, bio_successful := bio_successful bio + 1\<rparr>) s)"
  by (simp add: bio_complete_def Let_def decide_def update_bio_twice)

lemma bio_complete_error:
  "b < length (n_bios s) \<Longrightarrow> status \<noteq> IoSuccess \<Longrightarrow> bio_complete env buf b d status s =
     Option.bind (completion_error env b d status (update_bio b
       (\<lambda>bio. bio\<lparr>bio_in_flight := bio_in_flight bio - 1, bio_status := IoStatus_Failed,
                  bio_failed := bio_failed bio + 1\<rparr>) s)) (decide env buf b status)"
  by (simp add: bio_complete_def Let_def decide_def [abs_def] update_bio_twice)

lemma decide_inv:
  assumes "counted b s" and "decide env buf b status s = Some s'" and "buf \<noteq> Buf_failed"
  shows "nio_inv s'"
proof (cases "bio_in_flight (n_bios s ! b) > 0")
  case True
  then have "0 < pending s b" using assms(1) by (simp add: counted_def word_less_nat_alt)
  then show ?thesis
    using True assms(1,2) by (auto simp: decide_def counted_def nio_inv_def bio_inv_def Let_def)
next
  case False
  then have p: "pending s b = 0" using assms(1) by (simp add: counted_def word_less_nat_alt)
  have "counted b (s\<lparr>n_last_error := status\<rparr>)" "pending (s\<lparr>n_last_error := status\<rparr>) b = 0"
    using counted_framed [OF _ assms(1), of "s\<lparr>n_last_error := status\<rparr>"] p
    by (simp_all add: framed_def core_same_def part_defs pending_def)
  then have "nio_inv (bio_fail b (s\<lparr>n_last_error := status\<rparr>))"
    using bio_end_inv bio_fail_eq by metis
  then show ?thesis
    using assms(2) False bio_end_inv [OF assms(1) p] resubmit_inv [OF _ assms(1) p assms(3)]
    by (auto simp: decide_def split: if_splits)
qed

lemma bio_complete_inv:
  assumes "nio_inv s" and "(b, d) \<in> set (n_child_ios s)" and "buf \<noteq> Buf_failed"
    and "bio_complete env buf b d status
           (s\<lparr>n_child_ios := remove1 (b, d) (n_child_ios s), n_done := x\<rparr>) = Some s'"
  shows "nio_inv s'"
proof -
  let ?s = "s\<lparr>n_child_ios := remove1 (b, d) (n_child_ios s), n_done := x\<rparr>"
  have b: "b < length (n_bios ?s)" using assms(1,2) by (fastforce simp: nio_inv_def nio_wf_def)
  show ?thesis
  proof (cases "status = IoSuccess")
    case True
    show ?thesis
      by (rule decide_inv [OF counted_step [OF assms(1,2) disjI1, OF refl] _ assms(3)])
        (rule assms(4) [unfolded True bio_complete_ok [OF b]])
  next
    case False
    let ?f = "\<lambda>bio. bio\<lparr>bio_in_flight := bio_in_flight bio - 1, bio_status := IoStatus_Failed,
                  bio_failed := bio_failed bio + 1\<rparr>"
    have c: "counted b (update_bio b ?f ?s)"
      by (rule counted_step [OF assms(1,2) disjI2, OF refl])
    obtain s2 where e: "completion_error env b d status (update_bio b ?f ?s) = Some s2"
      and d: "decide env buf b status s2 = Some s'"
      using assms(4) [unfolded bio_complete_error [OF b False]] by (auto simp: bind_eq_Some_conv)
    show ?thesis
      using decide_inv [OF counted_framed [OF completion_error_framed [OF e] c] d assms(3)] .
  qed
qed

lemma count_list_distinct: "(\<And>a. a \<in> set xs \<Longrightarrow> count_list xs a = 1) \<Longrightarrow> distinct xs"
proof (induction xs)
  case (Cons x xs)
  have "count_list xs x = 0" using Cons.prems [of x] by simp
  then have "x \<notin> set xs" by (simp add: count_list_0_iff)
  moreover have "count_list xs a = 1" if "a \<in> set xs" for a
    using that Cons.prems [of a] \<open>x \<notin> set xs\<close> by (cases "x = a") auto
  ultimately show ?case using Cons.IH by simp
qed simp

lemma frozen_taken:
  assumes "nio_inv s" and "k < length (n_channels s)"
  shows "inv_but (set (ch_frozen_ios (n_channels s ! k)))
           (update_channel k (\<lambda>ch. ch\<lparr>ch_frozen_ios := []\<rparr>) s)"
    and "distinct (ch_frozen_ios (n_channels s ! k))"
    and "\<forall>b \<in> set (ch_frozen_ios (n_channels s ! k)). b < length (n_bios s)"
proof -
  let ?fs = "ch_frozen_ios (n_channels s ! k)"
    and ?s = "update_channel k (\<lambda>ch. ch\<lparr>ch_frozen_ios := []\<rparr>) s"
  have k: "k < length (frozen s)" "frozen s ! k = ?fs" using assms(2) by (simp_all add: frozen_def)
  have fz: "frozen ?s = (frozen s)[k := []]" by (simp add: frozen_def update_channel_def map_update)
  have split: "count_list (concat xs) a = count_list (concat (xs[j := []])) a + count_list (xs ! j) a"
    if "j < length xs" for xs :: "nat list list" and j a
    using that by (induction xs arbitrary: j) (auto simp: less_Suc_eq_0_disj split: nat.splits)
  have cnt: "frozen_count s a = frozen_count ?s a + count_list ?fs a" for a
    using split [OF k(1), of a] k(2) fz by (simp add: frozen_count_def)
  have le: "frozen_count s a \<le> 1" if "a < length (n_bios s)" for a
    using that assms(1) by (auto simp: nio_inv_def bio_inv_def Let_def)
  show lt: "\<forall>b \<in> set ?fs. b < length (n_bios s)"
    using assms k by (auto simp: nio_inv_def nio_wf_def) (metis nth_mem)
  then have one: "count_list ?fs a = 1" if "a \<in> set ?fs" for a
    using that le [of a] cnt [of a] count_list_0_iff [of ?fs a] by fastforce
  then show "distinct ?fs" by (rule count_list_distinct)
  have pe: "pending ?s = pending s" by (simp add: fun_eq_iff pending_def update_channel_def)
  have "set (concat (frozen ?s)) \<subseteq> set (concat (frozen s))"
    using fz set_update_subset_insert [of "frozen s" k "[]"] by auto
  moreover have "writers ?s = writers s"
    by (simp add: writers_def update_channel_def map_update_same)
  ultimately have "nio_wf ?s"
    using assms(1) unfolding nio_inv_def nio_wf_def by (auto simp: update_channel_def)
  moreover have "if a \<in> set ?fs then bio_ready ?s a else bio_inv ?s a" if "a < length (n_bios s)" for a
  proof (cases "a \<in> set ?fs")
    case True
    then have "frozen_count s a = 1" "frozen_count ?s a = 0"
      using le [OF that] cnt [of a] one [OF True] by auto
    then show ?thesis
      using True assms(1) that pe
      by (auto simp: nio_inv_def bio_inv_def bio_ready_def Let_def update_channel_def)
  next
    case False
    then have "frozen_count ?s a = frozen_count s a" using cnt [of a] by (simp add: count_list_0_iff)
    then show ?thesis
      using False assms(1) that pe by (simp add: nio_inv_def bio_inv_def update_channel_def)
  qed
  moreover have "length (n_bios ?s) = length (n_bios s)" by (simp add: update_channel_def)
  ultimately show "inv_but (set ?fs) ?s" unfolding inv_but_def by presburger
qed

lemma connect_rebuilding_length:
  "connect_rebuilding env cs = (cs', ws) \<Longrightarrow>
     length cs' = length cs \<and> length ws \<le> length (filter (is_rebuilding (he_job_exists env)) cs)"
  by (induction cs arbitrary: cs' ws)
    (fastforce simp: Let_def split: if_splits prod.splits sum.splits)+

lemma healthy_not_rebuilding: "is_healthy c \<Longrightarrow> \<not> is_rebuilding j c"
  by (auto simp: is_healthy_def is_rebuilding_def is_opened_unsync_def)

lemma connect_children_length:
  assumes "connect_children env cs ch = (cs', ch')"
  shows "length cs' = length cs" and "length (ch_writers ch') \<le> length cs"
    and "ch_frozen_ios ch' = ch_frozen_ios ch"
proof -
  obtain cs1 ws1 rs cs2 ws2 where h: "connect_healthy env cs = (cs1, ws1, rs)"
    and r: "(if rs \<noteq> [] then connect_rebuilding env cs1 else (cs1, [])) = (cs2, ws2)"
    by (metis prod_cases3 surj_pair)
  have l1: "length cs1 = length cs" using connect_healthy_spec(4) [OF h] by (metis length_map)
  have l2: "length cs2 = length cs1"
    and w2: "length ws2 \<le> length (filter (is_rebuilding (he_job_exists env)) cs1)"
    using r connect_rebuilding_length by (auto split: if_splits)
  have "length (filter (is_rebuilding (he_job_exists env)) cs1) \<le>
      length (filter (\<lambda>c. \<not> is_healthy c) cs1)"
    using healthy_not_rebuilding by (induction cs1) auto
  moreover have "length ws1 = length (filter is_healthy cs1)"
    using connect_healthy_spec(1) [OF h] by simp
  moreover have "length (filter is_healthy cs1) + length (filter (\<lambda>c. \<not> is_healthy c) cs1) = length cs1"
    by (rule sum_length_filter_compl)
  ultimately show "length cs' = length cs" and "length (ch_writers ch') \<le> length cs"
    and "ch_frozen_ios ch' = ch_frozen_ios ch"
    using assms h r l1 l2 w2 by (auto simp: connect_children_def Let_def)
qed

lemma reconnect_all_length:
  assumes "reconnect_all env cs ch = (cs', ch')" and "length (ch_writers ch) \<le> 255"
    and "length cs \<le> 255"
  shows "length cs' = length cs" and "length (ch_writers ch') \<le> 255"
    and "ch_frozen_ios ch' = ch_frozen_ios ch"
proof -
  obtain ch2 where r: "(if ch_is_io_chan ch then connect_children env cs (ch\<lparr>ch_previous_reader := 0\<rparr>)
        else (cs, ch\<lparr>ch_previous_reader := 0\<rparr>)) = (cs', ch2)"
    and ch': "ch' = reconnect_io_logs (he_job_exists env) cs' ch2"
    using assms(1) by (auto simp: reconnect_all_def Let_def split: prod.splits if_splits)
  have "length cs' = length cs \<and> length (ch_writers ch2) \<le> 255 \<and> ch_frozen_ios ch2 = ch_frozen_ios ch"
  proof (cases "ch_is_io_chan ch")
    case True
    then have "connect_children env cs (ch\<lparr>ch_previous_reader := 0\<rparr>) = (cs', ch2)" using r by simp
    from connect_children_length [OF this] assms(3) show ?thesis by simp
  next
    case False
    then show ?thesis using r assms(2) by auto
  qed
  then show "length cs' = length cs" and "length (ch_writers ch') \<le> 255"
    and "ch_frozen_ios ch' = ch_frozen_ios ch"
    by (simp_all add: ch')
qed

text \<open>A message that leaves the frozen I/Os alone and the writers bounded keeps the accounting.\<close>

lemma update_channel_inv:
  assumes "nio_inv s" and "k < length (n_channels s)" and "length cs = length (n_children s)"
    and "ch_frozen_ios (f (n_channels s ! k)) = ch_frozen_ios (n_channels s ! k)"
    and "length (ch_writers (f (n_channels s ! k))) \<le> 255"
  shows "nio_inv (update_channel k f (s\<lparr>n_children := cs\<rparr>))" (is "nio_inv ?s")
proof -
  have "frozen ?s = frozen s"
    using assms(2,4) by (simp add: frozen_def update_channel_def map_update list_update_same_conv)
  moreover have "writers ?s = (writers s)[k := ch_writers (f (n_channels s ! k))]"
    by (simp add: writers_def update_channel_def map_update)
  moreover have "pending ?s = pending s" by (simp add: fun_eq_iff pending_def update_channel_def)
  ultimately show ?thesis
    using assms set_update_subset_insert [of "writers s" k "ch_writers (f (n_channels s ! k))"]
    unfolding nio_inv_def nio_wf_def
    by (auto simp: bio_inv_def frozen_count_def update_channel_def)
qed

lemma nio_inv_queues [simp]:
  "length q = length (n_queues s) \<Longrightarrow> nio_inv (s\<lparr>n_queues := q\<rparr>) = nio_inv s"
  by (simp add: nio_inv_def nio_wf_def bio_inv_def pending_def frozen_count_def frozen_def writers_def)

lemma nio_inv_rest [simp]:
  "nio_inv (s\<lparr>n_tasks := t\<rparr>) = nio_inv s" "nio_inv (s\<lparr>n_lock := l\<rparr>) = nio_inv s"
  "nio_inv (s\<lparr>n_info := i\<rparr>) = nio_inv s" "nio_inv (s\<lparr>n_store := st\<rparr>) = nio_inv s"
  by (simp_all add: nio_inv_def nio_wf_def bio_inv_def pending_def frozen_count_def frozen_def
      writers_def)

lemma nio_inv_traverse [simp]: "nio_inv (traverse m s) = nio_inv s"
  by (simp add: traverse_def)

lemma set_io_mode_inv:
  assumes "nio_inv s" and "k < length (n_channels s)" and "buf \<noteq> Buf_failed"
    and "set_io_mode env buf k m s = Some s'"
  shows "nio_inv s'"
proof -
  let ?s = "update_channel k (\<lambda>ch. ch\<lparr>ch_io_mode := m\<rparr>) (s\<lparr>n_children := n_children s\<rparr>)"
  have "length (ch_writers (n_channels s ! k)) \<le> 255"
    using assms(1,2) by (simp add: nio_inv_def nio_wf_def writers_def)
  then have i: "nio_inv ?s"
    using update_channel_inv [OF assms(1,2), of "n_children s" "\<lambda>ch. ch\<lparr>ch_io_mode := m\<rparr>"] by simp
  have k: "k < length (n_channels ?s)" using assms(2) by (simp add: update_channel_def)
  show ?thesis
  proof (cases m)
    case Io_Normal
    then have f: "foldM (submit_request env buf) (ch_frozen_ios (n_channels ?s ! k))
        (update_channel k (\<lambda>ch. ch\<lparr>ch_frozen_ios := []\<rparr>) ?s) = Some s'"
      using assms(4) by (simp add: set_io_mode_def resubmit_frozen_def Let_def)
    show ?thesis
      using foldM_submit_inv [OF f frozen_taken(1,2) [OF i k]] frozen_taken(3) [OF i k] assms(3)
      by (simp add: update_channel_def)
  next
    case Io_Freeze
    then show ?thesis using i assms(4) by (simp add: set_io_mode_def)
  qed
qed

lemma handle_msg_inv:
  assumes "nio_inv s" and "k < length (n_channels s)" and "buf \<noteq> Buf_failed"
    and "handle_msg env buf k m s = Some s'"
  shows "nio_inv s'"
proof -
  have w: "length (ch_writers (n_channels s ! k)) \<le> 255" and c: "length (n_children s) \<le> 255"
    using assms(1,2) by (simp_all add: nio_inv_def nio_wf_def writers_def)
  note upd = update_channel_inv [OF assms(1,2)]
  have same: "nio_inv (update_channel k f s)"
    if "ch_frozen_ios (f (n_channels s ! k)) = ch_frozen_ios (n_channels s ! k)"
      and "length (ch_writers (f (n_channels s ! k))) \<le> 255" for f
    using upd [of "n_children s" f] that by simp
  show ?thesis
  proof (cases m)
    case Msg_reconnect_all
    obtain cs ch where r: "reconnect_all (ie_chan env) (n_children s) (n_channels s ! k) = (cs, ch)"
      by fastforce
    have "nio_inv (update_channel k (\<lambda>_. ch) (s\<lparr>n_children := cs\<rparr>))"
      using upd [of cs "\<lambda>_. ch"] reconnect_all_length [OF r w c] by simp
    then show ?thesis
      using Msg_reconnect_all assms(1,4) r by (simp add: handle_msg_def split: if_splits)
  next
    case (Msg_detach d)
    have "length (remove1 d (ch_writers (n_channels s ! k))) \<le> 255"
      using w by (simp add: length_remove1 del: One_nat_def) arith
    then have "nio_inv (update_channel k (channel_detach (job_exists s) (n_children s) d) s)"
      by (intro same) simp_all
    then show ?thesis using Msg_detach assms(4) by (simp add: handle_msg_def)
  next
    case Msg_reconnect_io_logs
    have "nio_inv (update_channel k (reconnect_io_logs (job_exists s) (n_children s)) s)"
      using w by (intro same) simp_all
    then show ?thesis using Msg_reconnect_io_logs assms(4) by (simp add: handle_msg_def)
  next
    case (Msg_disconnect ds)
    have "nio_inv (update_channel k (disconnect_detached (\<lambda>h. h \<in> set ds)) s)"
      using w by (intro same) simp_all
    then show ?thesis using Msg_disconnect assms(4) by (simp add: handle_msg_def)
  next
    case Msg_disconnect_all
    have "nio_inv (update_channel k (disconnect_detached (\<lambda>_. True)) s)"
      using w by (intro same) simp_all
    then show ?thesis using Msg_disconnect_all assms(4) by (simp add: handle_msg_def)
  next
    case (Msg_io_mode io_mode)
    then show ?thesis
      using set_io_mode_inv [OF assms(1-3)] assms(4) by (simp add: handle_msg_def)
  next
    case Msg_abort_frozen
    have "nio_inv (abort_frozen k s)"
      unfolding abort_frozen_def
      using fold_fail_inv [OF frozen_taken(1,2) [OF assms(1,2)]] frozen_taken(3) [OF assms(1,2)]
      by (simp add: update_channel_def)
    then show ?thesis using Msg_abort_frozen assms(4) by (simp add: handle_msg_def)
  qed
qed

section \<open>Runs\<close>

text \<open>A nexus before its first I/O.\<close>

definition nio_start :: "'s nio \<Rightarrow> bool" where
  "nio_start s \<longleftrightarrow>
     n_bios s = [] \<and> n_child_ios s = [] \<and> n_done s = [] \<and>
     list_all (\<lambda>ch. ch_frozen_ios ch = [] \<and> length (ch_writers ch) \<le> length (n_children s))
       (n_channels s) \<and>
     length (n_queues s) = length (n_channels s) \<and> length (n_children s) \<le> 255"

text \<open>The buffers of a step can be allocated.\<close>

fun buf_ok :: "'s nio_label \<Rightarrow> bool" where
  "buf_ok (L_submit k t off num env buf) \<longleftrightarrow> buf \<noteq> Buf_failed"
| "buf_ok (L_complete b d status env buf) \<longleftrightarrow> buf \<noteq> Buf_failed"
| "buf_ok (L_message k env buf) \<longleftrightarrow> buf \<noteq> Buf_failed"
| "buf_ok _ \<longleftrightarrow> True"

lemma nio_start_inv: "nio_start s \<Longrightarrow> nio_inv s"
  by (auto simp: nio_start_def nio_inv_def nio_wf_def frozen_def writers_def list_all_iff)

lemma retire_begin_inv: "retire_begin d s = Some s' \<Longrightarrow> nio_inv s' = nio_inv s"
  by (auto simp: retire_begin_def Let_def split: if_splits option.splits)

lemma retire_record_inv: "retire_record env s = Some s' \<Longrightarrow> nio_inv s' = nio_inv s"
  by (auto simp: retire_record_def Let_def
      split: if_splits option.splits prod.splits retire_stage.splits Option.bind_splits)

lemma retire_detach_inv: "retire_detach s = Some s' \<Longrightarrow> nio_inv s' = nio_inv s"
  by (auto simp: retire_detach_def split: if_splits option.splits prod.splits retire_stage.splits)

lemma nio_exec_inv:
  assumes "nio_exec l s = Some s'" and "nio_inv s" and "buf_ok l"
  shows "nio_inv s'"
proof (cases l)
  case (L_submit k t off num env buf)
  then show ?thesis
    using assms submit_label_inv [of s k buf env t off num s'] by (simp add: nio_exec_def split: if_splits)
next
  case (L_complete b d status env buf)
  then show ?thesis
    using assms bio_complete_inv [OF assms(2), of b d buf env status]
    by (simp add: nio_exec_def split: if_splits)
next
  case (L_message k env buf)
  then obtain m ms where "k < length (n_queues s)"
    and h: "handle_msg env buf k m (s\<lparr>n_queues := (n_queues s)[k := ms]\<rparr>) = Some s'"
    using assms(1) by (auto simp: nio_exec_def split: if_splits list.splits)
  then have "k < length (n_channels (s\<lparr>n_queues := (n_queues s)[k := ms]\<rparr>))"
    using assms(2) by (simp add: nio_inv_def nio_wf_def)
  from handle_msg_inv [OF _ this _ h] L_message assms(2,3) show ?thesis by simp
qed (use assms in \<open>auto simp: nio_exec_def
       dest: retire_begin_inv retire_record_inv retire_detach_inv\<close>)

lemma nio_run_inv:
  "nio_run ls s = Some s' \<Longrightarrow> nio_inv s \<Longrightarrow> list_all buf_ok ls \<Longrightarrow> nio_inv s'"
  using nio_exec_inv by (induction ls arbitrary: s) (auto simp: nio_run_def split: option.splits)

text \<open>A nexus I/O is out when it waits for children or is frozen.\<close>

definition io_out :: "'s nio \<Rightarrow> nat \<Rightarrow> bool" where
  "io_out s b \<longleftrightarrow> list_ex (\<lambda>x. fst x = b) (n_child_ios s) \<or> list_ex (\<lambda>ch. b \<in> set (ch_frozen_ios ch)) (n_channels s)"

lemma io_out_counts: "io_out s b \<longleftrightarrow> 0 < pending s b \<or> frozen_count s b \<noteq> 0"
  by (auto simp: io_out_def pending_def frozen_count_def frozen_def count_list_0_iff list_ex_iff
      filter_empty_conv)

text \<open>C3: Every nexus I/O is completed exactly once. From a nexus that has not seen I/O, along any
  run of submissions, completions in any order and with any status, channel messages, retirements
  and reconfigurations in which buffers can be allocated, an I/O that waits for a child or is frozen
  has not been completed, and any other I/O has been completed once.\<close>

theorem io_completed_once:
  assumes "nio_start s" and "nio_run ls s = Some s'" and "list_all buf_ok ls"
    and "b < length (n_bios s')"
  shows "length (bio_ends (n_bios s' ! b)) = (if io_out s' b then 0 else 1)"
proof -
  have "bio_inv s' b"
    using nio_run_inv [OF assms(2) nio_start_inv [OF assms(1)] assms(3)] assms(4)
    by (simp add: nio_inv_def)
  then show ?thesis by (auto simp: io_out_counts bio_inv_def Let_def)
qed

section \<open>Examples\<close>

definition io_child :: "string \<Rightarrow> NexusChild" where
  "io_child d = (sample_child CS_Open)\<lparr>nc_name := d, nc_device := Some (sample_child_device d),
     nc_device_descriptor := Some d\<rparr>"

definition io_chan_env :: chan_env where
  "io_chan_env = \<lparr> he_writer = Inr, he_reader = Inr, he_job_exists = (\<lambda>_. False), he_now = 0 \<rparr>"

definition io_sample_env :: "string list \<Rightarrow> io_env" where
  "io_sample_env refuse = \<lparr> ie_log = \<lparr> le_partial_rebuild = False, le_segment_size = 1, le_cores = [] \<rparr>,
     ie_chan = io_chan_env, ie_refuse = refuse \<rparr>"

definition io_nexus :: "string list \<Rightarrow> (string \<Rightarrow> u8 list option) nio" where
  "io_nexus devs =
     (let (cs, ch) = channel_new io_chan_env True 0 (map io_child devs) in
      \<lparr> n_children = cs, n_channels = [ch], n_queues = [[]], n_bios = [], n_child_ios = [], n_done = [],
        n_last_error = IoSuccess, n_shutdown_requested = False, n_data_ent_offset = 0, n_tasks = [],
        n_lock = None,
        n_info = \<lparr> pi_inner = info_default\<lparr>ni_children :=
          map (\<lambda>d. \<lparr>ci_uuid = d, ci_healthy = True\<rparr>) devs\<rparr>, pi_key = None \<rparr>,
        n_store = [''key'' \<mapsto> mem_json (info_default\<lparr>ni_children :=
          map (\<lambda>d. \<lparr>ci_uuid = d, ci_healthy = True\<rparr>) devs\<rparr>)],
        n_jobs = [] \<rparr>)"

definition write_both :: "(string \<Rightarrow> u8 list option) nio_label list" where
  "write_both =
     [L_submit 0 IoWrite 0 8 (io_sample_env []) Buf_present,
      L_complete 0 ''a'' IoSuccess (io_sample_env []) Buf_present,
      L_complete 0 ''b'' IoSuccess (io_sample_env []) Buf_present]"

lemma io_nexus_start: "nio_start (io_nexus [''a'', ''b''])"
  by code_simp

lemma write_both_run:
  "map_option (\<lambda>s. (map bio_ends (n_bios s), n_done s)) (nio_run write_both (io_nexus [''a'', ''b''])) =
     Some ([[Bio_ok]], [(0, ''b''), (0, ''a'')])"
  by code_simp

theorem io_completed_once_witness:
  "\<exists>s'. nio_run write_both (io_nexus [''a'', ''b'']) = Some s' \<and> 0 < length (n_bios s') \<and>
     length (bio_ends (n_bios s' ! 0)) = (if io_out s' 0 then 0 else 1)"
proof -
  obtain s' where s': "nio_run write_both (io_nexus [''a'', ''b'']) = Some s'"
    and "map bio_ends (n_bios s') = [[Bio_ok]]" using write_both_run by auto
  then have "0 < length (n_bios s')" by (cases "n_bios s'") auto
  moreover have "list_all buf_ok write_both" by (simp add: write_both_def)
  ultimately show ?thesis using io_completed_once [OF io_nexus_start s'] s' by blast
qed


end
