(* ===== verification/Nexus_Io_Safety.thy ===== *)
theory Nexus_Io_Safety
  imports Nexus_Io_Inv
begin

text \<open>
  Data safety of the nexus: a write that is acknowledged to the initiator is on every replica that
  the record in the persistent store calls healthy, however failures, retirements and completions
  interleave on the channels. The theorem holds for runs in which no device refuses a submission,
  the store answers, and the channels are not reconfigured; the runs at the end show that each of
  the first and the last condition, and that no replica is being rebuilt, is needed.
\<close>

section \<open>The record\<close>

text \<open>The replica on record of a device: the UUID in the URI of its child.\<close>

definition dev_uuid :: "url_parser \<Rightarrow> 's nio \<Rightarrow> string \<Rightarrow> string option" where
  "dev_uuid qp s d =
     (case List.find (\<lambda>i. snd i = Some d) (child_ids s) of
        None \<Rightarrow> None
      | Some i \<Rightarrow> do { u \<leftarrow> child_uuid qp (fst i); u })"

definition rec_healthy :: "url_parser \<Rightarrow> 's nio \<Rightarrow> string \<Rightarrow> bool" where
  "rec_healthy qp s d \<longleftrightarrow>
     (case dev_uuid qp s d of
        None \<Rightarrow> False
      | Some u \<Rightarrow> list_ex (\<lambda>ci. ci_uuid ci = u \<and> ci_healthy ci) (ni_children (pi_inner (n_info s))))"

lemma find_map: "List.find P (map f xs) = map_option f (List.find (\<lambda>x. P (f x)) xs)"
  by (induction xs) auto

lemma dev_uuid_lookup:
  "lookup_child_by_device (n_children s) d = Some c \<Longrightarrow>
     dev_uuid qp s d = do { u \<leftarrow> child_uuid qp (nc_name c); u }"
proof -
  have "match_device_name d = (\<lambda>c. get_device_name c = Some d)"
    by (auto simp: fun_eq_iff match_device_name_def split: option.splits)
  then show "lookup_child_by_device (n_children s) d = Some c \<Longrightarrow>
     dev_uuid qp s d = do { u \<leftarrow> child_uuid qp (nc_name c); u }"
    by (simp add: dev_uuid_def child_ids_def find_map lookup_child_by_device_def)
qed

lemma rec_healthy_core: "core_same s s' \<Longrightarrow> rec_healthy qp s' = rec_healthy qp s"
  by (simp add: fun_eq_iff core_same_def rec_healthy_def dev_uuid_def cong: option.case_cong)

section \<open>The store answers\<close>

text \<open>The nexus persists its record, at least one attempt of the configured number is answered, and the
  other clients leave the record alone.\<close>

definition store_answers ::
  "('s \<Rightarrow> string \<Rightarrow> u8 list option) \<Rightarrow> (NexusInfo \<Rightarrow> u8 list) \<Rightarrow> string \<Rightarrow> url_parser \<Rightarrow>
   's store_env \<Rightarrow> bool" where
  "store_answers lk enc key qp env \<longleftrightarrow>
     se_enabled env \<and> etcd_ok lk (se_client env) \<and> others_keep lk key env \<and> se_to_json env = enc \<and>
     se_query_pairs env = qp \<and> se_uuid env = key \<and>
     (\<forall>e n s. is_ok (fst (ec_txn (se_client env) key e n s))) \<and>
     (\<forall>i. se_from_json env (enc i) \<noteq> None) \<and>
     (\<exists>j \<le> unat (se_retries env - 1). se_fate env j = Op_Done)"

definition recorded :: "('s \<Rightarrow> string \<Rightarrow> u8 list option) \<Rightarrow> (NexusInfo \<Rightarrow> u8 list) \<Rightarrow> string \<Rightarrow>
   PersistentNexusInfo \<Rightarrow> 's \<Rightarrow> bool" where
  "recorded lk enc key pinfo s \<longleftrightarrow>
     lk s key = Some (enc (pi_inner pinfo)) \<and> pi_key pinfo \<in> {None, Some key} \<and>
     info_wf (pi_inner pinfo)"

lemma save_txn_loop_ok_info:
  assumes "save_txn_loop env key n e retry i info s = Some (Inr (), info', s')"
  shows "info' = info"
  using assms
proof (induction "unat (retry - 1)" arbitrary: retry i s rule: less_induct)
  case less
  obtain a s1 where t: "txn_create_execute (se_client env) (se_fate env i) key n e
      (se_others env i s) = (a, s1)" by fastforce
  show ?case
  proof (cases a)
    case (Inl err)
    have "retry - 1 \<noteq> 0"
      using less.prems t Inl by (subst (asm) save_txn_loop.simps) auto
    moreover from this have "save_txn_loop env key n e (retry - 1) (i + 1) info s1 =
        Some (Inr (), info', s')"
      using less.prems t Inl by (subst (asm) save_txn_loop.simps) simp
    ultimately show ?thesis using less.hyps [OF retry_decreases] by blast
  next
    case (Inr o)
    then show ?thesis
      using less.prems t
      by (subst (asm) save_txn_loop.simps) (auto split: option.splits if_splits)
  qed
qed

text \<open>Recording the retirement of a child that is not healthy succeeds, and the store holds the
  information of the nexus again. Nothing is recorded about the last healthy replica.\<close>

lemma retire_persisted:
  assumes "store_answers lk enc key qp env" and "recorded lk enc key pinfo s"
    and "persist env cs (PO_UpdateCond uri False retire_predicate) pinfo s =
      Some (r, pinfo', effects, s')"
  shows "r = Inr ()" and "recorded lk enc key pinfo' s'"
    and "if retire_predicate (pi_inner pinfo)
         then \<exists>u. (do { u \<leftarrow> child_uuid qp uri; u }) = Some u \<and>
                pi_inner pinfo' = update_child_info u False (pi_inner pinfo)
         else pinfo' = pinfo"
proof -
  note st = assms(1) [unfolded store_answers_def] and rc = assms(2) [unfolded recorded_def]
  have "r = Inr () \<and> recorded lk enc key pinfo' s' \<and>
    (if retire_predicate (pi_inner pinfo)
         then \<exists>u. (do { u \<leftarrow> child_uuid qp uri; u }) = Some u \<and>
                pi_inner pinfo' = update_child_info u False (pi_inner pinfo)
         else pinfo' = pinfo)"
  proof (cases "retire_predicate (pi_inner pinfo)")
    case False
    then show ?thesis using assms(2,3) st by (auto simp: persist_def Let_def)
  next
    case True
    then obtain u r1 p1 s1 where u: "expect_uuid env uri = Some u"
      and t: "save_txn env (pinfo\<lparr>pi_inner := update_child_info u False (pi_inner pinfo)\<rparr>)
                (pi_inner pinfo) s = Some (r1, p1, s1)"
      and p1: "pinfo' = p1" and s1: "s' = s1" and r1: "r = r1"
      using assms(3) st
      by (cases r) (auto simp: persist_def Let_def split: Option.bind_splits sum.splits)
    let ?p = "pinfo\<lparr>pi_inner := update_child_info u False (pi_inner pinfo)\<rparr>"
    have loop: "save_txn_loop env key (enc (pi_inner ?p)) (enc (pi_inner pinfo)) (se_retries env) 0
        ?p s = Some (r1, p1, s1)"
      using t st rc by (auto simp: save_txn_def info_key_def)
    obtain j where "j \<le> unat (se_retries env - 1)" and "se_fate env j = Op_Done" using st by blast
    then obtain i2 s2 where live: "save_txn_loop env key (enc (pi_inner ?p)) (enc (pi_inner pinfo))
        (se_retries env) 0 ?p s = Some (Inr (), i2, s2)"
      using save_txn_loop_live [of lk env key "enc (pi_inner ?p)" s "enc (pi_inner pinfo)" 0 j
          "se_retries env" ?p] st rc by auto
    then have "r1 = Inr ()" "i2 = p1" "s2 = s1" using loop by auto
    moreover have "p1 = ?p" using save_txn_loop_ok_info [OF live] \<open>i2 = p1\<close> by simp
    moreover have "lk s1 key = Some (enc (pi_inner ?p))"
      using save_txn_loop_own [OF loop, of lk] st rc \<open>r1 = Inr ()\<close> by auto
    ultimately show ?thesis
      using True u p1 s1 r1 rc st
      by (auto simp: recorded_def expect_uuid_def info_wf_def update_child_info_uuids)
  qed
  then show "r = Inr ()" and "recorded lk enc key pinfo' s'"
    and "if retire_predicate (pi_inner pinfo)
         then \<exists>u. (do { u \<leftarrow> child_uuid qp uri; u }) = Some u \<and>
                pi_inner pinfo' = update_child_info u False (pi_inner pinfo)
         else pinfo' = pinfo"
    by blast+
qed

section \<open>The invariant\<close>

fun detach_of :: "chan_msg \<Rightarrow> string list" where
  "detach_of (Msg_detach d) = [d]"
| "detach_of _ = []"

text \<open>The detachments that wait for a channel, in order.\<close>

definition detaches :: "'s nio \<Rightarrow> nat \<Rightarrow> string list" where
  "detaches s k = concat (map detach_of (messages s ! k))"

text \<open>What a channel promises, over the replicas \<open>H\<close> that are healthy on record, its writers \<open>W\<close>, the
  detachments \<open>Q\<close> that wait for it and the device \<open>L\<close> whose retirement is recorded but that is not
  detached yet. As long as a channel has writers, all replicas on record are among them; a writer
  that is not on record is about to be detached; and when the last replica on record is to be
  detached, every other writer is detached before.\<close>

definition chan_safe :: "(string \<Rightarrow> bool) \<Rightarrow> string list \<Rightarrow> string list \<Rightarrow> string option \<Rightarrow> bool" where
  "chan_safe H W Q L \<longleftrightarrow>
     distinct W \<and> (W = [] \<or> (\<forall>d. H d \<longrightarrow> d \<in> set W)) \<and>
     (\<forall>i < length Q. H (Q ! i) \<longrightarrow> set W \<subseteq> insert (Q ! i) (set (take i Q))) \<and>
     (\<forall>d. L = Some d \<and> H d \<longrightarrow> set W \<subseteq> insert d (set Q)) \<and>
     (\<forall>e \<in> set W. H e \<or> e \<in> set Q \<or> L = Some e)"

definition locked :: "'s nio \<Rightarrow> string option" where
  "locked s = (case n_lock s of Some (d, Retire_recorded) \<Rightarrow> Some d | _ \<Rightarrow> None)"

definition on_all :: "(string \<Rightarrow> bool) \<Rightarrow> (nat \<times> string) set \<Rightarrow> nat \<Rightarrow> bool" where
  "on_all H X b \<longleftrightarrow> (\<forall>d. H d \<longrightarrow> (b, d) \<in> X)"

text \<open>A write without failures is under way at, or done by, every replica on record; an acknowledged
  write is done by every replica on record.\<close>

definition bio_safe :: "url_parser \<Rightarrow> 's nio \<Rightarrow> nat \<Rightarrow> bool" where
  "bio_safe qp s b \<longleftrightarrow>
     (let bio = n_bios s ! b; H = rec_healthy qp s in
      to_all (bio_io_type bio) \<longrightarrow>
        (bio_ends bio = [] \<and> 0 < pending s b \<and> bio_failed bio = 0 \<longrightarrow>
           on_all H (set (n_child_ios s) \<union> set (n_done s)) b) \<and>
        (Bio_ok \<in> set (bio_ends bio) \<longrightarrow> on_all H (set (n_done s)) b))"

definition uuids_differ :: "url_parser \<Rightarrow> 's nio \<Rightarrow> bool" where
  "uuids_differ qp s \<longleftrightarrow>
     (\<forall>d e. dev_uuid qp s d \<noteq> None \<longrightarrow> dev_uuid qp s e = dev_uuid qp s d \<longrightarrow> d = e)"

definition calm :: "chan_msg \<Rightarrow> bool" where
  "calm m \<longleftrightarrow> m \<noteq> Msg_reconnect_all \<and> m \<noteq> Msg_abort_frozen"

lemma uuids_differ_core: "core_same s s' \<Longrightarrow> uuids_differ qp s' = uuids_differ qp s"
  by (simp add: core_same_def uuids_differ_def dev_uuid_def)

text \<open>The part of the invariant that is not about the nexus I/Os.\<close>

definition safe_frame ::
  "('s \<Rightarrow> string \<Rightarrow> u8 list option) \<Rightarrow> (NexusInfo \<Rightarrow> u8 list) \<Rightarrow> string \<Rightarrow> url_parser \<Rightarrow>
   's nio \<Rightarrow> bool" where
  "safe_frame lk enc key qp s \<longleftrightarrow>
     (\<forall>k < length (n_channels s).
        chan_safe (rec_healthy qp s) (writers s ! k) (detaches s k) (locked s)) \<and>
     tasks_sick s \<and> (\<forall>d st. n_lock s = Some (d, st) \<longrightarrow> dev_sick s d) \<and>
     (\<forall>q \<in> set (messages s). list_all calm q) \<and>
     uuids_differ qp s \<and> recorded lk enc key (n_info s) (n_store s)"

definition safe_inv ::
  "('s \<Rightarrow> string \<Rightarrow> u8 list option) \<Rightarrow> (NexusInfo \<Rightarrow> u8 list) \<Rightarrow> string \<Rightarrow> url_parser \<Rightarrow>
   's nio \<Rightarrow> bool" where
  "safe_inv lk enc key qp s \<longleftrightarrow>
     safe_frame lk enc key qp s \<and> (\<forall>b < length (n_bios s). bio_safe qp s b)"

lemma safe_frame_core:
  assumes "core_same s s'" and "writers s' = writers s" and "safe_frame lk enc key qp s"
  shows "safe_frame lk enc key qp s'"
proof -
  have "dev_sick s d \<Longrightarrow> dev_sick s' d" for d
    using assms(1) dev_sick_mono by (auto simp: core_same_def)
  then show ?thesis
    using assms rec_healthy_core [OF assms(1), of qp] uuids_differ_core [OF assms(1), of qp]
    by (auto simp: safe_frame_def core_same_def locked_def detaches_def)
qed

text \<open>Other I/Os are not affected by what happens to one.\<close>

lemma bio_safe_mono:
  assumes "bio_safe qp s b" and "n_bios s' ! b = n_bios s ! b" and "pending s' b = pending s b"
    and "\<And>d. rec_healthy qp s' d \<Longrightarrow> rec_healthy qp s d"
    and "\<And>d. (b, d) \<in> set (n_child_ios s) \<Longrightarrow> (b, d) \<in> set (n_child_ios s') \<union> set (n_done s')"
    and "set (n_done s) \<subseteq> set (n_done s')"
  shows "bio_safe qp s' b"
  using assms by (auto simp: bio_safe_def on_all_def Let_def)

section \<open>Submitting\<close>

lemma submit_writers_none: "submit_writers [] ws = (ws, None)"
  by (induction ws) auto

text \<open>Without refusals, a submission leaves the writers alone and a write goes to all of them.\<close>

lemma submit_request_benign:
  assumes "submit_request env buf b s = Some s'" and "b < length (n_bios s)"
    and "bio_channel (n_bios s ! b) < length (n_channels s)"
    and "length (ch_writers (bio_chan s b)) \<le> 255" and "buf \<noteq> Buf_failed" and "ie_refuse env = []"
  shows "\<exists>out. sub_effect b out s s' \<and> writers s' = writers s \<and>
      (to_all (bio_io_type (n_bios s ! b)) \<longrightarrow>
        (\<forall>ds x. out = Sub_sent ds x \<longrightarrow> ds = writers s ! bio_channel (n_bios s ! b) \<and> x = 0))"
proof (cases "to_all (bio_io_type (n_bios s ! b)) \<and> \<not> is_frozen (bio_chan s b)")
  case True
  have w: "writers s ! bio_channel (n_bios s ! b) = ch_writers (bio_chan s b)"
    using assms(3) by (simp add: writers_def bio_chan_def)
  have sa: "submit_all env b s = Some s'"
    using assms(1) True by (simp add: submit_request_to_all)
  from submit_all_effect [OF sa assms(2-4), unfolded assms(6) submit_writers_none, OF refl]
  obtain out where "sub_effect b out s s'"
    "if ch_writers (bio_chan s b) = [] then \<exists>r. out = Sub_ended r
     else out = Sub_sent (ch_writers (bio_chan s b)) 0"
    "writers s' = (writers s)[bio_channel (n_bios s ! b) := ch_writers (bio_chan s b)]"
    by auto
  then show ?thesis
    using w by (metis list_update_id sub_outcome.distinct(5) sub_outcome.inject(1))
next
  case False
  show ?thesis
  proof (cases "is_frozen (bio_chan s b)")
    case True
    then show ?thesis
      using assms(1) update_channel_freeze_parts [OF assms(3), of b]
      by (intro exI [of _ Sub_frozen]) (auto simp: submit_request_frozen sub_effect_def)
  next
    case nf: False
    then have ta: "\<not> to_all (bio_io_type (n_bios s ! b))" using False by simp
    show ?thesis
    proof (cases "bio_io_type (n_bios s ! b) = IoRead")
      case True
      then have "do_readv env b s = Some s'"
        using assms(1,5) nf
        by (auto simp: submit_request_def readv_def nexus_get_buf_cb_def Let_def split: buffer.splits)
      from do_readv_effect [OF this assms(2)] ta show ?thesis by blast
    next
      case nr: False
      then have "s' = bio_fail b s"
        using assms(1) nf ta by (auto simp: submit_request_def to_all_def split: IoType.splits)
      then show ?thesis using bio_fail_effect [OF assms(2)] ta by blast
    qed
  qed
qed

lemma sub_effect_done: "sub_effect b out s s' \<Longrightarrow> n_done s' = n_done s"
  by (simp add: sub_effect_def core_same_def)

lemma sub_effect_ios: "sub_effect b out s s' \<Longrightarrow> set (n_child_ios s) \<subseteq> set (n_child_ios s')"
  by (auto simp: sub_effect_def split: sub_outcome.splits)

lemma sub_effect_bio_safe:
  assumes "sub_effect b out s s'" and "bio_ready s b" and "b < length (n_bios s)"
    and "chan_safe (rec_healthy qp s) W Q L"
    and "to_all (bio_io_type (n_bios s ! b)) \<longrightarrow> (\<forall>ds x. out = Sub_sent ds x \<longrightarrow> ds = W \<and> x = 0)"
  shows "bio_safe qp s' b"
proof -
  have H: "rec_healthy qp s' = rec_healthy qp s"
    using assms(1) rec_healthy_core by (auto simp: sub_effect_def)
  show ?thesis
  proof (cases out)
    case Sub_frozen
    then show ?thesis using assms(1,2)
      by (simp add: sub_effect_def bio_safe_def bio_ready_def Let_def pending_def)
  next
    case (Sub_sent ds x)
    then have *: "ds \<noteq> []" "n_child_ios s' = n_child_ios s @ map (Pair b) ds"
      and **: "bio_ends (n_bios s' ! b) = []"
        "bio_io_type (n_bios s' ! b) = bio_io_type (n_bios s ! b)"
      using assms(1-3) by (auto simp: sub_effect_def bio_ready_def Let_def)
    then have "to_all (bio_io_type (n_bios s ! b)) \<Longrightarrow> on_all (rec_healthy qp s) (set (n_child_ios s')) b"
      using assms(4,5) Sub_sent by (auto simp: chan_safe_def on_all_def)
    then show ?thesis using ** by (auto simp: bio_safe_def Let_def H on_all_def)
  next
    case (Sub_ended r)
    then have "bio_ends (n_bios s' ! b) = [r]" "r \<noteq> Bio_ok"
      using assms(1-3) by (auto simp: sub_effect_def bio_ready_def Let_def)
    then show ?thesis by (simp add: bio_safe_def Let_def)
  qed
qed

lemma submit_safe:
  assumes "submit_request env buf b s = Some s'" and "ie_refuse env = []" and "buf \<noteq> Buf_failed"
    and "nio_wf s" and "b < length (n_bios s)" and "bio_ready s b" and "safe_inv lk enc key qp s"
  shows "safe_inv lk enc key qp s'"
proof -
  let ?k = "bio_channel (n_bios s ! b)"
  note wf = wf_writers [OF assms(4,5)]
  obtain out where out: "sub_effect b out s s'" and w: "writers s' = writers s"
    and sent: "to_all (bio_io_type (n_bios s ! b)) \<longrightarrow>
        (\<forall>ds x. out = Sub_sent ds x \<longrightarrow> ds = writers s ! ?k \<and> x = 0)"
    using submit_request_benign [OF assms(1,5) wf assms(3,2)] by blast
  have core: "core_same s s'" using out by (simp add: sub_effect_def)
  have "chan_safe (rec_healthy qp s) (writers s ! ?k) (detaches s ?k) (locked s)"
    using assms(7) wf(1) by (simp add: safe_inv_def safe_frame_def)
  from sub_effect_bio_safe [OF out assms(6,5) this sent] have b: "bio_safe qp s' b" .
  have "bio_safe qp s' a" if "a < length (n_bios s)" for a
  proof (cases "a = b")
    case False
    show ?thesis
    proof (rule bio_safe_mono)
      show "bio_safe qp s a" using that assms(7) by (simp add: safe_inv_def)
      show "n_bios s' ! a = n_bios s ! a" using sub_effect_bios(4) [OF out False] .
      show "pending s' a = pending s a" using sub_effect_other(1) [OF out False wf(1)] .
    qed (use rec_healthy_core [OF core, of qp] sub_effect_ios [OF out] sub_effect_done [OF out] in auto)
  qed (use b in simp)
  then show ?thesis
    using safe_frame_core [OF core w] assms(7) sub_effect_bios(1) [OF out]
    by (simp add: safe_inv_def)
qed

lemma foldM_submit_safe:
  assumes "foldM (submit_request env buf) fs s = Some s'" and "inv_but (set fs) s" and "distinct fs"
    and "\<forall>b \<in> set fs. b < length (n_bios s)" and "buf \<noteq> Buf_failed" and "ie_refuse env = []"
    and "safe_inv lk enc key qp s"
  shows "safe_inv lk enc key qp s'"
  using assms(1-4,7)
proof (induction fs arbitrary: s)
  case (Cons b fs)
  then obtain s1 where s1: "submit_request env buf b s = Some s1"
    and "foldM (submit_request env buf) fs s1 = Some s'" by (auto split: option.splits)
  moreover have "inv_but (set fs) s1" and "length (n_bios s1) = length (n_bios s)"
    using submit_inv_but [OF s1 Cons.prems(2)] Cons.prems(3,4) assms(5) by auto
  moreover have "nio_wf s" and "bio_ready s b"
    using Cons.prems(2,4) by (auto simp: inv_but_def)
  moreover from this have "safe_inv lk enc key qp s1"
    using submit_safe [OF s1 assms(6,5)] Cons.prems(4,5) by simp
  ultimately show ?case using Cons by auto
qed simp

section \<open>Completing\<close>

lemma rec_healthy_eq:
  "n_info s' = n_info s \<Longrightarrow> n_children s' = n_children s \<Longrightarrow> rec_healthy qp s' = rec_healthy qp s"
  by (simp add: fun_eq_iff rec_healthy_def dev_uuid_def child_ids_def cong: option.case_cong)

lemma rec_healthy_parts [simp]:
  "rec_healthy qp (s\<lparr>n_child_ios := x\<rparr>) = rec_healthy qp s"
  "rec_healthy qp (s\<lparr>n_done := y\<rparr>) = rec_healthy qp s"
  "rec_healthy qp (s\<lparr>n_bios := z\<rparr>) = rec_healthy qp s"
  "rec_healthy qp (s\<lparr>n_last_error := e\<rparr>) = rec_healthy qp s"
  "rec_healthy qp (update_bio b f s) = rec_healthy qp s"
  by (rule rec_healthy_eq; simp add: update_bio_def)+

lemma safe_frame_parts [simp]:
  "safe_frame lk enc key qp (s\<lparr>n_child_ios := x\<rparr>) = safe_frame lk enc key qp s"
  "safe_frame lk enc key qp (s\<lparr>n_done := y\<rparr>) = safe_frame lk enc key qp s"
  "safe_frame lk enc key qp (s\<lparr>n_bios := z\<rparr>) = safe_frame lk enc key qp s"
  "safe_frame lk enc key qp (s\<lparr>n_last_error := e\<rparr>) = safe_frame lk enc key qp s"
  "safe_frame lk enc key qp (update_bio b f s) = safe_frame lk enc key qp s"
  by (simp_all add: safe_frame_def detaches_def locked_def uuids_differ_def dev_uuid_def part_defs
      update_bio_def)

text \<open>The invariant while an I/O is being completed.\<close>

definition half ::
  "('s \<Rightarrow> string \<Rightarrow> u8 list option) \<Rightarrow> (NexusInfo \<Rightarrow> u8 list) \<Rightarrow> string \<Rightarrow> url_parser \<Rightarrow>
   nat \<Rightarrow> 's nio \<Rightarrow> bool" where
  "half lk enc key qp b s \<longleftrightarrow>
     safe_frame lk enc key qp s \<and> (\<forall>a < length (n_bios s). a \<noteq> b \<longrightarrow> bio_safe qp s a) \<and>
     (to_all (bio_io_type (n_bios s ! b)) \<and> bio_failed (n_bios s ! b) = 0 \<longrightarrow>
        on_all (rec_healthy qp s) (set (n_child_ios s) \<union> set (n_done s)) b)"

lemma half_framed:
  assumes "framed s s'" and "half lk enc key qp b s"
  shows "half lk enc key qp b s'"
proof -
  note fr = framedD [OF assms(1)]
  have "pending s' a = pending s a" for a using fr by (simp add: pending_def)
  moreover have "n_done s' = n_done s" using fr(1) by (simp add: core_same_def)
  ultimately show ?thesis
    using assms(2) fr rec_healthy_core [OF fr(1), of qp] safe_frame_core [OF fr(1,4)]
    by (auto simp: half_def bio_safe_def)
qed

lemma update_bio_safe:
  assumes "a \<noteq> b" and "bio_safe qp s a"
  shows "bio_safe qp (update_bio b f s) a"
  using assms by (simp add: bio_safe_def update_bio_def pending_def rec_healthy_parts(3))

lemma update_bio_pending [simp]: "pending (update_bio b f s) a = pending s a"
  by (simp add: pending_def update_bio_def)

lemma safe_inv_finish:
  assumes "half lk enc key qp b s" and "b < length (n_bios s)" and "bio_safe qp (update_bio b f s) b"
  shows "safe_inv lk enc key qp (update_bio b f s)"
proof -
  have "bio_safe qp (update_bio b f s) a" if "a < length (n_bios s)" for a
    using that assms update_bio_safe [of a b qp s f] by (cases "a = b") (auto simp: half_def)
  then show ?thesis using assms(1) by (simp add: safe_inv_def half_def update_bio_def)
qed

lemma decide_safe:
  assumes "counted b s" and "half lk enc key qp b s" and "decide env buf b status s = Some s'"
    and "buf \<noteq> Buf_failed" and "ie_refuse env = []"
  shows "safe_inv lk enc key qp s'"
proof -
  have b: "b < length (n_bios s)" and ends: "bio_ends (n_bios s ! b) = []"
    using assms(1) by (auto simp: counted_def)
  show ?thesis
  proof (cases "bio_in_flight (n_bios s ! b) > 0")
    case True
    have "bio_safe qp s a" if "a < length (n_bios s)" for a
      using that assms(2) ends by (cases "a = b") (auto simp: half_def bio_safe_def Let_def)
    then show ?thesis using True assms(2,3) by (simp add: decide_def safe_inv_def half_def)
  next
    case False
    then have p: "pending s b = 0" using assms(1) by (simp add: counted_def word_less_nat_alt)
    then have out: "(b, d) \<notin> set (n_child_ios s)" for d
      by (force simp: pending_def filter_empty_conv)
    consider "bio_failed (n_bios s ! b) = 0" "s' = bio_end b Bio_ok s"
      | "resubmit env buf b s = Some s'"
      | "bio_failed (n_bios s ! b) \<noteq> 0" "s' = bio_fail b (s\<lparr>n_last_error := status\<rparr>)"
      using assms(3) unfolding decide_def if_not_P [OF False]
      by (cases "bio_failed (n_bios s ! b) = 0"; cases "bio_successful (n_bios s ! b) > 0") simp_all
    then show ?thesis
    proof cases
      case 1
      then have "bio_safe qp s' b"
        using assms(2) out b ends
        by (auto simp: half_def bio_safe_def Let_def bio_end_def on_all_def update_bio_def)
      then show ?thesis using safe_inv_finish [OF assms(2) b] 1 by (simp add: bio_end_def)
    next
      case 2
      let ?f = "\<lambda>bio. bio\<lparr>bio_status := IoStatus_Pending, bio_resubmits := bio_resubmits bio + 1,
          bio_successful := 0, bio_failed := 0\<rparr>"
      have "bio_safe qp (update_bio b ?f s) b"
        using p b ends by (simp add: bio_safe_def Let_def)
      from safe_inv_finish [OF assms(2) b this] have safe: "safe_inv lk enc key qp (update_bio b ?f s)" .
      have "nio_wf (update_bio b ?f s)"
        using assms(1) update_bio_channel [of ?f b s]
        by (auto simp: counted_def nio_wf_def update_bio_def frozen_def writers_def)
      moreover have "bio_ready (update_bio b ?f s) b"
        using assms(1) p b ends
        by (simp add: bio_ready_def counted_def Let_def frozen_count_def frozen_def)
      moreover have "b < length (n_bios (update_bio b ?f s))" using b by (simp add: update_bio_def)
      ultimately show ?thesis
        using submit_safe [OF 2 [unfolded resubmit_def] assms(5,4) _ _ _ safe] by blast
    next
      case 3
      let ?s = "s\<lparr>n_last_error := status\<rparr>"
      obtain r where r: "r \<noteq> Bio_ok" "s' = bio_end b r ?s" using 3 bio_fail_eq by metis
      have "half lk enc key qp b ?s"
        using assms(2) by (rule half_framed [rotated]) (simp add: framed_def part_defs)
      moreover have "bio_safe qp s' b"
        using r b ends by (simp add: bio_safe_def Let_def bio_end_def update_bio_def)
      ultimately show ?thesis using safe_inv_finish [of lk enc key qp b ?s] b r by (simp add: bio_end_def)
    qed
  qed
qed

lemma bio_complete_safe:
  assumes "nio_inv s" and "safe_inv lk enc key qp s" and "(b, d) \<in> set (n_child_ios s)"
    and "buf \<noteq> Buf_failed" and "ie_refuse env = []"
    and s0: "s0 = s\<lparr>n_child_ios := remove1 (b, d) (n_child_ios s),
               n_done := (if status = IoSuccess then (b, d) # n_done s else n_done s)\<rparr>"
    and "bio_complete env buf b d status s0 = Some s'"
  shows "safe_inv lk enc key qp s'"
proof -
  have b: "b < length (n_bios s)" using assms(1,3) by (fastforce simp: nio_inv_def nio_wf_def)
  then have b0: "b < length (n_bios s0)" by (simp add: s0)
  have "0 < pending s b" using assms(3) by (force simp: pending_def filter_empty_conv)
  then have ends: "bio_ends (n_bios s ! b) = []"
    and cnt: "unat (bio_successful (n_bios s ! b)) + unat (bio_failed (n_bios s ! b)) + pending s b \<le> 255"
    using assms(1) b by (auto simp: nio_inv_def bio_inv_def Let_def)
  have other: "bio_safe qp s0 a" if "a < length (n_bios s)" "a \<noteq> b" for a
  proof (rule bio_safe_mono)
    show "bio_safe qp s a" using that assms(2) by (simp add: safe_inv_def)
    show "pending s0 a = pending s a"
      using that pending_remove1 [where s = s and b = b and d = d and b' = a] by (simp add: s0)
  qed (use that in \<open>auto simp: s0\<close>)
  have all: "on_all (rec_healthy qp s) (set (n_child_ios s) \<union> set (n_done s)) b"
    if "to_all (bio_io_type (n_bios s ! b))" "bio_failed (n_bios s ! b) = 0"
    using that assms(2) b ends \<open>0 < pending s b\<close> by (simp add: safe_inv_def bio_safe_def Let_def)
  have half: "half lk enc key qp b (update_bio b f s0)"
    if "bio_io_type (f (n_bios s ! b)) = bio_io_type (n_bios s ! b)"
      and "bio_failed (f (n_bios s ! b)) = 0 \<Longrightarrow> bio_failed (n_bios s ! b) = 0 \<and> status = IoSuccess" for f
    using that assms(2) b all other update_bio_safe [of _ b qp s0 f]
    by (auto simp: half_def safe_inv_def s0 on_all_def)
  show ?thesis
  proof (cases "status = IoSuccess")
    case True
    let ?f = "\<lambda>bio. bio\<lparr>bio_in_flight := bio_in_flight bio - 1, bio_successful := bio_successful bio + 1\<rparr>"
    have "counted b (update_bio b ?f s0)"
      unfolding s0 by (rule counted_step [OF assms(1,3) disjI1, OF refl])
    moreover have "half lk enc key qp b (update_bio b ?f s0)" using True by (intro half) simp_all
    ultimately show ?thesis
      using decide_safe [OF _ _ assms(7) [unfolded True bio_complete_ok [OF b0]] assms(4,5)] by blast
  next
    case False
    let ?f = "\<lambda>bio. bio\<lparr>bio_in_flight := bio_in_flight bio - 1, bio_status := IoStatus_Failed,
                  bio_failed := bio_failed bio + 1\<rparr>"
    have c: "counted b (update_bio b ?f s0)"
      unfolding s0 by (rule counted_step [OF assms(1,3) disjI2, OF refl])
    have "unat (bio_failed (n_bios s ! b) + 1) = unat (bio_failed (n_bios s ! b)) + 1"
      using cnt \<open>0 < pending s b\<close> by (intro unat8_inc) simp
    then have "bio_failed (n_bios s ! b) + 1 \<noteq> 0" by (metis add_is_0 unat_0 zero_neq_one)
    then have h: "half lk enc key qp b (update_bio b ?f s0)" by (intro half) simp_all
    obtain s2 where e: "completion_error env b d status (update_bio b ?f s0) = Some s2"
      and d: "decide env buf b status s2 = Some s'"
      using assms(7) [unfolded bio_complete_error [OF b0 False]] by (auto simp: bind_eq_Some_conv)
    note fr = completion_error_framed [OF e]
    show ?thesis
      using decide_safe [OF counted_framed [OF fr c] half_framed [OF fr h] d assms(4,5)] .
  qed
qed

section \<open>Messages\<close>

text \<open>Handling the next detachment keeps a channel safe.\<close>

lemma chan_safe_detach:
  assumes "chan_safe H W (d # Q) L"
  shows "chan_safe H (remove1 d W) Q L"
proof -
  have each: "\<forall>i < length (d # Q). H ((d # Q) ! i) \<longrightarrow>
      set W \<subseteq> insert ((d # Q) ! i) (set (take i (d # Q)))"
    using assms [unfolded chan_safe_def, THEN conjunct2, THEN conjunct2, THEN conjunct1] .
  have head: "H d \<longrightarrow> set W \<subseteq> {d}" using each [rule_format, of 0] by auto
  have pos: "\<forall>i < length Q. H (Q ! i) \<longrightarrow> set W \<subseteq> insert (Q ! i) (insert d (set (take i Q)))"
    using each [rule_format, of "Suc _"] by auto
  have dist: "distinct W" and all: "W = [] \<or> (\<forall>e. H e \<longrightarrow> e \<in> set W)"
    and lock: "\<forall>e. L = Some e \<and> H e \<longrightarrow> set W \<subseteq> insert e (insert d (set Q))"
    and mem: "\<forall>e \<in> set W. H e \<or> e = d \<or> e \<in> set Q \<or> L = Some e"
    using assms [unfolded chan_safe_def] by auto
  have W: "set (remove1 d W) = set W - {d}" using dist by simp
  have "remove1 d W = [] \<or> (\<forall>e. H e \<longrightarrow> e \<in> set (remove1 d W))"
  proof (cases "H d")
    case True
    then show ?thesis using head W by (metis Diff_eq_empty_iff set_empty)
  next
    case False
    show ?thesis
    proof (cases "W = []")
      case nonempty: False
      have "e \<in> set (remove1 d W)" if "H e" for e
        using all nonempty False that unfolding W by blast
      then show ?thesis by blast
    qed simp
  qed
  moreover have "\<forall>i < length Q. H (Q ! i) \<longrightarrow> set (remove1 d W) \<subseteq> insert (Q ! i) (set (take i Q))"
    using pos W by blast
  moreover have "\<forall>e. L = Some e \<and> H e \<longrightarrow> set (remove1 d W) \<subseteq> insert e (set Q)"
    using lock W by blast
  moreover have "\<forall>e \<in> set (remove1 d W). H e \<or> e \<in> set Q \<or> L = Some e"
    using mem W by blast
  ultimately show ?thesis unfolding chan_safe_def using dist by simp
qed

lemma safe_inv_same:
  assumes "writers s' = writers s" and "messages s' = messages s" and "n_lock s' = n_lock s"
    and "n_info s' = n_info s" and "n_children s' = n_children s" and "n_tasks s' = n_tasks s"
    and "n_store s' = n_store s" and "n_bios s' = n_bios s" and "n_child_ios s' = n_child_ios s"
    and "n_done s' = n_done s"
  shows "safe_inv lk enc key qp s' = safe_inv lk enc key qp s"
proof -
  have "length (n_channels s') = length (n_channels s)"
    using assms(1) by (metis length_map writers_def)
  then show ?thesis
    using assms rec_healthy_eq [OF assms(4,5), of qp]
    by (simp add: safe_inv_def safe_frame_def detaches_def locked_def tasks_sick_def dev_sick_def
        uuids_differ_def dev_uuid_def child_ids_def bio_safe_def pending_def)
qed

lemma update_channel_safe:
  "(\<And>ch. ch_writers (f ch) = ch_writers ch) \<Longrightarrow>
     safe_inv lk enc key qp (update_channel k f s) = safe_inv lk enc key qp s"
  by (rule safe_inv_same) (simp_all add: update_channel_def writers_def messages_def map_update_same)

lemma set_io_mode_safe:
  assumes "nio_inv s" and "k < length (n_channels s)" and "buf \<noteq> Buf_failed" and "ie_refuse env = []"
    and "safe_inv lk enc key qp s" and "set_io_mode env buf k m s = Some s'"
  shows "safe_inv lk enc key qp s'"
proof -
  let ?s = "update_channel k (\<lambda>ch. ch\<lparr>ch_io_mode := m\<rparr>) s"
  let ?t = "update_channel k (\<lambda>ch. ch\<lparr>ch_frozen_ios := []\<rparr>) ?s"
  have w: "length (ch_writers (n_channels s ! k)) \<le> 255"
    using assms(1,2) by (simp add: nio_inv_def nio_wf_def writers_def)
  then have i: "nio_inv ?s"
    using update_channel_inv [OF assms(1,2), of "n_children s" "\<lambda>ch. ch\<lparr>ch_io_mode := m\<rparr>"] by simp
  have k: "k < length (n_channels ?s)" using assms(2) by (simp add: update_channel_def)
  have s1: "safe_inv lk enc key qp ?s" and t: "safe_inv lk enc key qp ?t"
    using assms(5) by (simp_all add: update_channel_safe)
  show ?thesis
  proof (cases m)
    case Io_Normal
    then have f: "foldM (submit_request env buf) (ch_frozen_ios (n_channels ?s ! k)) ?t = Some s'"
      using assms(6) by (simp add: set_io_mode_def resubmit_frozen_def Let_def)
    show ?thesis
      using foldM_submit_safe [OF f frozen_taken(1,2) [OF i k] _ assms(3,4) t]
        frozen_taken(3) [OF i k]
      by (simp add: update_channel_def)
  next
    case Io_Freeze
    then show ?thesis using s1 assms(6) by (simp add: set_io_mode_def)
  qed
qed

text \<open>Taking the next message off a queue.\<close>

lemma pop_messages:
  assumes "k < length (n_queues s)" and "n_queues s ! k = m # ms"
    and "s0 = s\<lparr>n_queues := (n_queues s)[k := ms]\<rparr>"
  shows "detaches s k = detach_of m @ detaches s0 k"
    and "j \<noteq> k \<Longrightarrow> j < length (n_queues s) \<Longrightarrow> detaches s0 j = detaches s j"
    and "m \<noteq> Msg_reconnect_io_logs \<Longrightarrow> m \<in> set (messages s ! k)"
    and "\<forall>q \<in> set (messages s). list_all P q \<Longrightarrow> \<forall>q \<in> set (messages s0). list_all P q"
proof -
  show "detaches s k = detach_of m @ detaches s0 k"
    and "j \<noteq> k \<Longrightarrow> j < length (n_queues s) \<Longrightarrow> detaches s0 j = detaches s j"
    and "m \<noteq> Msg_reconnect_io_logs \<Longrightarrow> m \<in> set (messages s ! k)"
    using assms by (auto simp: detaches_def messages_def)
  show "\<forall>q \<in> set (messages s0). list_all P q" if "\<forall>q \<in> set (messages s). list_all P q"
  proof
    fix q
    assume "q \<in> set (messages s0)"
    then obtain j where j: "j < length (n_queues s)" "q = messages s0 ! j"
      using assms(3) by (auto simp: in_set_conv_nth messages_def)
    have "list_all P (messages s ! j)" using that j(1) by (simp add: messages_def)
    then show "list_all P q"
      using j assms by (cases "j = k") (auto simp: messages_def split: if_splits)
  qed
qed

lemma update_channel_fields:
  "rec_healthy qp (update_channel k f s) = rec_healthy qp s"
  "locked (update_channel k f s) = locked s" "detaches (update_channel k f s) = detaches s"
  "messages (update_channel k f s) = messages s"
  "tasks_sick (update_channel k f s) = tasks_sick s" "dev_sick (update_channel k f s) = dev_sick s"
  "uuids_differ qp (update_channel k f s) = uuids_differ qp s"
  "bio_safe qp (update_channel k f s) = bio_safe qp s"
proof -
  show H: "rec_healthy qp (update_channel k f s) = rec_healthy qp s"
    by (rule rec_healthy_eq) (simp_all add: update_channel_def)
  show "bio_safe qp (update_channel k f s) = bio_safe qp s"
    by (simp add: fun_eq_iff bio_safe_def H) (simp add: update_channel_def pending_def)
  show "locked (update_channel k f s) = locked s" "detaches (update_channel k f s) = detaches s"
    "messages (update_channel k f s) = messages s"
    by (simp_all add: fun_eq_iff locked_def detaches_def messages_def update_channel_def)
  show "tasks_sick (update_channel k f s) = tasks_sick s" "dev_sick (update_channel k f s) = dev_sick s"
    by (simp_all add: fun_eq_iff tasks_sick_def dev_sick_def update_channel_def)
  show "uuids_differ qp (update_channel k f s) = uuids_differ qp s"
    by (simp add: uuids_differ_def dev_uuid_def child_ids_def update_channel_def)
qed

lemma queues_fields:
  "rec_healthy qp (s\<lparr>n_queues := q\<rparr>) = rec_healthy qp s"
  "locked (s\<lparr>n_queues := q\<rparr>) = locked s" "writers (s\<lparr>n_queues := q\<rparr>) = writers s"
  "tasks_sick (s\<lparr>n_queues := q\<rparr>) = tasks_sick s" "dev_sick (s\<lparr>n_queues := q\<rparr>) = dev_sick s"
  "uuids_differ qp (s\<lparr>n_queues := q\<rparr>) = uuids_differ qp s"
  "bio_safe qp (s\<lparr>n_queues := q\<rparr>) = bio_safe qp s"
proof -
  show H: "rec_healthy qp (s\<lparr>n_queues := q\<rparr>) = rec_healthy qp s" by (rule rec_healthy_eq) simp_all
  show "bio_safe qp (s\<lparr>n_queues := q\<rparr>) = bio_safe qp s"
    by (simp add: fun_eq_iff bio_safe_def H) (simp add: pending_def)
  show "locked (s\<lparr>n_queues := q\<rparr>) = locked s" "writers (s\<lparr>n_queues := q\<rparr>) = writers s"
    by (simp_all add: locked_def writers_def)
  show "tasks_sick (s\<lparr>n_queues := q\<rparr>) = tasks_sick s" "dev_sick (s\<lparr>n_queues := q\<rparr>) = dev_sick s"
    by (simp_all add: fun_eq_iff tasks_sick_def dev_sick_def)
  show "uuids_differ qp (s\<lparr>n_queues := q\<rparr>) = uuids_differ qp s"
    by (simp add: uuids_differ_def dev_uuid_def child_ids_def)
qed

lemma handle_msg_safe:
  assumes "nio_inv s" and "safe_inv lk enc key qp s" and "k < length (n_queues s)"
    and "n_queues s ! k = m # ms" and s0: "s0 = s\<lparr>n_queues := (n_queues s)[k := ms]\<rparr>"
    and "buf \<noteq> Buf_failed" and "ie_refuse env = []" and "handle_msg env buf k m s0 = Some s'"
  shows "safe_inv lk enc key qp s'"
proof -
  note pop = pop_messages [OF assms(3-5)]
  have len: "length (n_channels s) = length (n_queues s)"
    using assms(1) by (simp add: nio_inv_def nio_wf_def)
  have frame: "safe_frame lk enc key qp s" and bios: "\<forall>b < length (n_bios s). bio_safe qp s b"
    using assms(2) by (auto simp: safe_inv_def)
  have "m = Msg_reconnect_io_logs \<or> calm m"
  proof (cases "m = Msg_reconnect_io_logs")
    case False
    have "messages s ! k \<in> set (messages s)" using assms(3) by (simp add: messages_def)
    then have "list_all calm (messages s ! k)" using frame by (simp add: safe_frame_def)
    then show ?thesis using pop(3) [OF False] by (simp add: list_all_iff)
  qed simp
  then have calm: "m \<noteq> Msg_reconnect_all" "m \<noteq> Msg_abort_frozen" by (auto simp: calm_def)
  have calms: "\<forall>q \<in> set (messages s0). list_all calm q"
    using pop(4) frame by (simp add: safe_frame_def)
  have inv0: "nio_inv s0" and k0: "k < length (n_channels s0)"
    using assms(1,3) len by (simp_all add: s0)
  show ?thesis
  proof (cases "\<exists>d. m = Msg_detach d")
    case True
    then obtain d where d: "m = Msg_detach d" by blast
    let ?f = "channel_detach (job_exists s0) (n_children s0) d"
    have s': "s' = update_channel k ?f s0" using assms(8) d by (simp add: handle_msg_def)
    have w: "writers s' = (writers s)[k := remove1 d (writers s ! k)]"
      using k0 by (simp add: s' s0 writers_def update_channel_def map_update)
    have "chan_safe (rec_healthy qp s') (writers s' ! j) (detaches s' j) (locked s')"
      if j: "j < length (n_channels s)" for j
    proof -
      have c: "chan_safe (rec_healthy qp s) (writers s ! j) (detaches s j) (locked s)"
        using frame j by (simp add: safe_frame_def)
      show ?thesis
      proof (cases "j = k")
        case True
        then show ?thesis
          using chan_safe_detach [of _ _ d "detaches s0 k"] c pop(1) d w j
          by (simp add: s' update_channel_fields s0 queues_fields writers_def)
      next
        case False
        then show ?thesis
          using c pop(2) [of j] w j len by (simp add: s' update_channel_fields s0 queues_fields)
      qed
    qed
    then show ?thesis
      using frame bios calms
      by (simp add: safe_inv_def safe_frame_def s' update_channel_fields s0 queues_fields)
        (simp add: update_channel_def)
  next
    case False
    then have "detach_of m = []" by (cases m) auto
    then have "detaches s0 j = detaches s j" if "j < length (n_channels s)" for j
      using pop(1) pop(2) [of j] that len by (cases "j = k") simp_all
    then have safe0: "safe_inv lk enc key qp s0"
      using frame bios calms by (simp add: safe_inv_def safe_frame_def s0 queues_fields)
    show ?thesis
    proof (cases m)
      case (Msg_io_mode io_mode)
      then show ?thesis
        using set_io_mode_safe [OF inv0 k0 assms(6,7) safe0] assms(8) by (simp add: handle_msg_def)
    next
      case Msg_reconnect_io_logs
      then have "s' = update_channel k (reconnect_io_logs (job_exists s0) (n_children s0)) s0"
        using assms(8) by (simp add: handle_msg_def)
      then show ?thesis using safe0 by (simp add: update_channel_safe)
    next
      case (Msg_disconnect devs)
      then have "s' = update_channel k (disconnect_detached (\<lambda>h. h \<in> set devs)) s0"
        using assms(8) by (simp add: handle_msg_def)
      then show ?thesis using safe0 by (simp add: update_channel_safe)
    next
      case Msg_disconnect_all
      then have "s' = update_channel k (disconnect_detached (\<lambda>_. True)) s0"
        using assms(8) by (simp add: handle_msg_def)
      then show ?thesis using safe0 by (simp add: update_channel_safe)
    qed (use calm False in auto)
  qed
qed

section \<open>Retiring\<close>

lemma chan_safe_record:
  "chan_safe H W Q None \<Longrightarrow> chan_safe (\<lambda>e. H e \<and> e \<noteq> d) W Q (Some d)"
  unfolding chan_safe_def by blast

lemma chan_safe_last:
  "chan_safe H W Q None \<Longrightarrow> (\<And>e. H e \<Longrightarrow> H d \<Longrightarrow> e = d) \<Longrightarrow> chan_safe H W Q (Some d)"
  unfolding chan_safe_def by blast

lemma chan_safe_append:
  assumes "chan_safe H W Q (Some d)"
  shows "chan_safe H W (Q @ [d]) None"
proof -
  have "\<forall>i < length (Q @ [d]). H ((Q @ [d]) ! i) \<longrightarrow>
      set W \<subseteq> insert ((Q @ [d]) ! i) (set (take i (Q @ [d])))"
  proof (intro allI impI)
    fix i
    assume "i < length (Q @ [d])" and "H ((Q @ [d]) ! i)"
    then show "set W \<subseteq> insert ((Q @ [d]) ! i) (set (take i (Q @ [d])))"
      using assms unfolding chan_safe_def by (cases "i = length Q") (auto simp: nth_append)
  qed
  then show ?thesis using assms unfolding chan_safe_def by auto
qed

lemma detaches_traverse:
  "k < length (n_queues s) \<Longrightarrow> detaches (traverse m s) k = detaches s k @ detach_of m"
  by (auto simp: detaches_def messages_def traverse_def)

lemma calm_traverse:
  "calm m \<Longrightarrow> \<forall>q \<in> set (messages s). list_all calm q \<Longrightarrow>
     \<forall>q \<in> set (messages (traverse m s)). list_all calm q"
  by (auto simp: messages_def traverse_def)

text \<open>A step of a retirement changes the lock, the record and the queues.\<close>

lemma retire_step_safe:
  assumes "safe_inv lk enc key qp s" and "nio_inv s"
    and s': "s' = traverse m (s\<lparr>n_tasks := ts, n_lock := l, n_info := info, n_store := st\<rparr>)"
    and "set ts \<subseteq> set (n_tasks s)" and "calm m" and "recorded lk enc key info st"
    and "\<And>d stage. l = Some (d, stage) \<Longrightarrow> dev_sick s d"
    and "\<And>d. rec_healthy qp s' d \<Longrightarrow> rec_healthy qp s d"
    and "\<And>W Q. chan_safe (rec_healthy qp s) W Q (locked s) \<Longrightarrow>
      chan_safe (rec_healthy qp s') W (Q @ detach_of m) (locked s')"
  shows "safe_inv lk enc key qp s'"
proof -
  let ?t = "s\<lparr>n_tasks := ts, n_lock := l, n_info := info, n_store := st\<rparr>"
  have len: "length (n_channels s) = length (n_queues s)"
    using assms(2) by (simp add: nio_inv_def nio_wf_def)
  have frame: "safe_frame lk enc key qp s" using assms(1) by (simp add: safe_inv_def)
  have w: "writers s' = writers s" by (simp add: s' traverse_def writers_def)
  have d: "detaches s' k = detaches s k @ detach_of m" if "k < length (n_channels s)" for k
    using that len detaches_traverse [of k ?t m] by (simp add: s' detaches_def messages_def)
  have "\<forall>k < length (n_channels s'). chan_safe (rec_healthy qp s') (writers s' ! k) (detaches s' k)
      (locked s')"
    using frame assms(9) d w by (simp add: safe_frame_def s' traverse_def)
  moreover have "tasks_sick s'" and "dev_sick s' = dev_sick s"
    using frame assms(4)
    by (auto simp: safe_frame_def tasks_sick_def dev_sick_def fun_eq_iff s' traverse_def)
  moreover have "\<forall>q \<in> set (messages s'). list_all calm q"
    using calm_traverse [OF assms(5), of ?t] frame by (simp add: s' safe_frame_def messages_def)
  moreover have "uuids_differ qp s'"
    using frame by (simp add: safe_frame_def uuids_differ_def dev_uuid_def child_ids_def s' traverse_def)
  moreover have "n_lock s' = l" "n_info s' = info" "n_store s' = st" by (simp_all add: s' traverse_def)
  moreover have "bio_safe qp s' b" if "b < length (n_bios s)" for b
  proof (rule bio_safe_mono)
    show "bio_safe qp s b" using that assms(1) by (simp add: safe_inv_def)
    show "rec_healthy qp s' d \<Longrightarrow> rec_healthy qp s d" for d by (rule assms(8))
  qed (simp_all add: s' traverse_def pending_def)
  moreover have "length (n_bios s') = length (n_bios s)" by (simp add: s' traverse_def)
  ultimately show ?thesis
    using assms(6,7) by (simp add: safe_inv_def safe_frame_def)
qed

lemma retire_begin_safe:
  assumes "retire_begin d s = Some s'" and "safe_inv lk enc key qp s" and "nio_inv s"
  shows "safe_inv lk enc key qp s'"
proof -
  have frame: "safe_frame lk enc key qp s" using assms(2) by (simp add: safe_inv_def)
  have lock: "n_lock s = None" and sick: "dev_sick s d"
    using assms(1) frame by (auto simp: retire_begin_def safe_frame_def tasks_sick_def split: if_splits)
  have "\<exists>task. s' = traverse (Msg_io_mode Io_Freeze) (s\<lparr>n_tasks := remove1 task (n_tasks s),
      n_lock := Some (d, Retire_freezing), n_info := n_info s, n_store := n_store s\<rparr>)"
    using assms(1) sick
    by (auto simp: retire_begin_def dev_sick_def Let_def split: if_splits option.splits)
  then obtain task where s': "s' = traverse (Msg_io_mode Io_Freeze) (s\<lparr>n_tasks := remove1 task (n_tasks s),
      n_lock := Some (d, Retire_freezing), n_info := n_info s, n_store := n_store s\<rparr>)" ..
  have ts: "set (remove1 task (n_tasks s)) \<subseteq> set (n_tasks s)" by (rule set_remove1_subset)
  have H: "rec_healthy qp s' = rec_healthy qp s"
    by (rule rec_healthy_eq) (simp_all add: s' traverse_def)
  show ?thesis
    by (rule retire_step_safe [OF assms(2,3) s' ts])
      (use frame sick lock H in \<open>auto simp: calm_def safe_frame_def locked_def s' traverse_def\<close>)
qed

lemma list_ex_update:
  "list_ex (\<lambda>c. ci_uuid c = v \<and> ci_healthy c) (ni_children (update_child_info u False info)) \<longleftrightarrow>
     v \<noteq> u \<and> list_ex (\<lambda>c. ci_uuid c = v \<and> ci_healthy c) (ni_children info)"
proof -
  have "list_ex (\<lambda>c. ci_uuid c = v \<and> ci_healthy c)
      (map (\<lambda>c. if ci_uuid c = u then c\<lparr>ci_healthy := False\<rparr> else c) cs) \<longleftrightarrow>
     v \<noteq> u \<and> list_ex (\<lambda>c. ci_uuid c = v \<and> ci_healthy c) cs" for cs
    by (induction cs) auto
  then show ?thesis by (simp add: update_child_info_def)
qed

lemma rec_healthy_update:
  assumes "dev_uuid qp s d = Some u" and "uuids_differ qp s" and "child_ids s' = child_ids s"
    and "pi_inner (n_info s') = update_child_info u False (pi_inner (n_info s))"
  shows "rec_healthy qp s' e \<longleftrightarrow> rec_healthy qp s e \<and> e \<noteq> d"
proof -
  have same: "dev_uuid qp s' e = dev_uuid qp s e" using assms(3) by (simp add: dev_uuid_def)
  show ?thesis
  proof (cases "dev_uuid qp s e")
    case None
    then show ?thesis by (simp add: rec_healthy_def same)
  next
    case (Some v)
    have "v = u \<longleftrightarrow> e = d"
      using assms(1,2) Some by (auto simp: uuids_differ_def)
    then show ?thesis
      using Some by (auto simp: rec_healthy_def same assms(4) list_ex_update)
  qed
qed

lemma filter_at_most_one:
  assumes "length (filter P xs) \<le> 1" and "x \<in> set xs" "P x" and "y \<in> set xs" "P y"
  shows "x = y"
proof -
  have "x \<in> set (filter P xs)" and "y \<in> set (filter P xs)" using assms by auto
  then show ?thesis using assms(1) by (cases "filter P xs") auto
qed

lemma last_healthy:
  assumes "\<not> retire_predicate (pi_inner (n_info s))" and "uuids_differ qp s"
    and "rec_healthy qp s d" and "rec_healthy qp s e"
  shows "e = d"
proof -
  obtain u c where u: "dev_uuid qp s d = Some u"
    and c: "c \<in> set (ni_children (pi_inner (n_info s)))" "ci_healthy c" "ci_uuid c = u"
    using assms(3) by (auto simp: rec_healthy_def list_ex_iff split: option.splits)
  obtain v c' where v: "dev_uuid qp s e = Some v"
    and c': "c' \<in> set (ni_children (pi_inner (n_info s)))" "ci_healthy c'" "ci_uuid c' = v"
    using assms(4) by (auto simp: rec_healthy_def list_ex_iff split: option.splits)
  have "length (filter ci_healthy (ni_children (pi_inner (n_info s)))) \<le> 1"
    using assms(1) by (auto simp: retire_predicate_def num_healthy_def split: if_splits)
  from filter_at_most_one [OF this c(1,2) c'(1,2)] c(3) c'(3) have "u = v" by simp
  then show ?thesis using u v assms(2) by (auto simp: uuids_differ_def)
qed

lemma retire_record_safe:
  assumes "retire_record env s = Some s'" and "store_answers lk enc key qp env"
    and "safe_inv lk enc key qp s" and "nio_inv s"
  shows "safe_inv lk enc key qp s'"
proof -
  have frame: "safe_frame lk enc key qp s" using assms(3) by (simp add: safe_inv_def)
  obtain d where lock: "n_lock s = Some (d, Retire_freezing)"
    using assms(1) by (auto simp: retire_record_def split: option.splits prod.splits retire_stage.splits)
  then have sick: "dev_sick s d" using frame by (simp add: safe_frame_def)
  then obtain c where c: "lookup_child_by_device (n_children s) d = Some c" "\<not> is_healthy c"
    by (auto simp: dev_sick_def split: option.splits)
  obtain r info eff st where p: "persist env (n_children s)
      (PO_UpdateCond (nc_name c) False retire_predicate) (n_info s) (n_store s) = Some (r, info, eff, st)"
    and rest: "s' = (if is_ok r then traverse (Msg_io_mode Io_Normal)
         (s\<lparr>n_info := info, n_store := st, n_lock := Some (d, Retire_recorded)\<rparr>)
       else s\<lparr>n_info := info, n_store := st, n_lock := None,
              n_tasks := n_tasks s @ [Task_self_shutdown]\<rparr>)"
    using assms(1) lock c
    by (auto simp: retire_record_def Let_def split: if_splits Option.bind_splits)
  have "recorded lk enc key (n_info s) (n_store s)" using frame by (simp add: safe_frame_def)
  note pers = retire_persisted [OF assms(2) this p]
  have s': "s' = traverse (Msg_io_mode Io_Normal) (s\<lparr>n_tasks := n_tasks s,
      n_lock := Some (d, Retire_recorded), n_info := info, n_store := st\<rparr>)"
    using rest pers(1) by (cases s) (simp add: traverse_def)
  have diff: "uuids_differ qp s" using frame by (simp add: safe_frame_def)
  have locked: "locked s = None" "locked s' = Some d"
    by (simp_all add: locked_def lock s' traverse_def)
  have ids: "child_ids s' = child_ids s" "n_info s' = info"
    by (simp_all add: child_ids_def s' traverse_def)
  have new: "rec_healthy qp s' = (\<lambda>e. rec_healthy qp s e \<and> e \<noteq> d) \<or>
      rec_healthy qp s' = rec_healthy qp s \<and> \<not> retire_predicate (pi_inner (n_info s))"
  proof (cases "retire_predicate (pi_inner (n_info s))")
    case True
    then obtain u where "dev_uuid qp s d = Some u"
      and "pi_inner info = update_child_info u False (pi_inner (n_info s))"
      using pers(3) dev_uuid_lookup [OF c(1), of qp] by auto
    then have "rec_healthy qp s' e \<longleftrightarrow> rec_healthy qp s e \<and> e \<noteq> d" for e
      using rec_healthy_update [OF _ diff ids(1)] ids(2) by simp
    then show ?thesis by (simp add: fun_eq_iff)
  next
    case False
    then have "info = n_info s" using pers(3) by simp
    then have "rec_healthy qp s' = rec_healthy qp s"
      by (intro rec_healthy_eq) (simp_all add: s' traverse_def)
    then show ?thesis using False by simp
  qed
  have H: "rec_healthy qp s e" if "rec_healthy qp s' e" for e
    using new that by auto
  have chan: "chan_safe (rec_healthy qp s') W Q (Some d)"
    if c: "chan_safe (rec_healthy qp s) W Q None" for W Q
    using new
  proof
    assume "rec_healthy qp s' = (\<lambda>e. rec_healthy qp s e \<and> e \<noteq> d)"
    then show ?thesis using chan_safe_record [OF c, of d] by simp
  next
    assume l: "rec_healthy qp s' = rec_healthy qp s \<and> \<not> retire_predicate (pi_inner (n_info s))"
    have "chan_safe (rec_healthy qp s) W Q (Some d)"
      by (rule chan_safe_last [OF c]) (use last_healthy [OF _ diff] l in blast)
    then show ?thesis using l by simp
  qed
  show ?thesis
    by (rule retire_step_safe [OF assms(3,4) s' subset_refl _ pers(2)])
      (use sick H chan locked in \<open>auto simp: calm_def\<close>)
qed

lemma retire_detach_safe:
  assumes "retire_detach s = Some s'" and "safe_inv lk enc key qp s" and "nio_inv s"
  shows "safe_inv lk enc key qp s'"
proof -
  have frame: "safe_frame lk enc key qp s" using assms(2) by (simp add: safe_inv_def)
  obtain d where lock: "n_lock s = Some (d, Retire_recorded)"
    and "s' = traverse (Msg_detach d) (s\<lparr>n_lock := None\<rparr>)"
    using assms(1)
    by (auto simp: retire_detach_def split: option.splits prod.splits retire_stage.splits if_splits)
  then have s': "s' = traverse (Msg_detach d) (s\<lparr>n_tasks := n_tasks s, n_lock := None,
      n_info := n_info s, n_store := n_store s\<rparr>)"
    by simp
  have H: "rec_healthy qp s' = rec_healthy qp s"
    by (rule rec_healthy_eq) (simp_all add: s' traverse_def)
  have "locked s = Some d" "locked s' = None" by (simp_all add: locked_def lock s' traverse_def)
  then show ?thesis
    by (intro retire_step_safe [OF assms(2,3) s' subset_refl])
      (use frame H chan_safe_append in \<open>auto simp: calm_def safe_frame_def\<close>)
qed

section \<open>Runs\<close>

text \<open>The steps of the theorem: no device refuses a submission, buffers can be allocated, the store
  answers, and the channels are not reconfigured.\<close>

fun benign ::
  "('s \<Rightarrow> string \<Rightarrow> u8 list option) \<Rightarrow> (NexusInfo \<Rightarrow> u8 list) \<Rightarrow> string \<Rightarrow> url_parser \<Rightarrow>
   's nio_label \<Rightarrow> bool" where
  "benign lk enc key qp (L_submit k t off num env buf) \<longleftrightarrow> ie_refuse env = [] \<and> buf \<noteq> Buf_failed"
| "benign lk enc key qp (L_complete b d status env buf) \<longleftrightarrow> ie_refuse env = [] \<and> buf \<noteq> Buf_failed"
| "benign lk enc key qp (L_message k env buf) \<longleftrightarrow> ie_refuse env = [] \<and> buf \<noteq> Buf_failed"
| "benign lk enc key qp (L_retire_record senv) \<longleftrightarrow> store_answers lk enc key qp senv"
| "benign lk enc key qp L_reconfigure \<longleftrightarrow> False"
| "benign lk enc key qp _ \<longleftrightarrow> True"

lemma benign_buf_ok: "benign lk enc key qp l \<Longrightarrow> buf_ok l"
  by (cases l) auto

lemma submit_label_safe:
  assumes "nio_inv s" and "safe_inv lk enc key qp s" and "k < length (n_channels s)"
    and "buf \<noteq> Buf_failed" and "ie_refuse env = []"
    and "submit_request env buf (length (n_bios s))
           (s\<lparr>n_bios := n_bios s @ [bio_new k t off num]\<rparr>) = Some s'"
  shows "safe_inv lk enc key qp s'"
proof -
  let ?b = "length (n_bios s)" and ?s = "s\<lparr>n_bios := n_bios s @ [bio_new k t off num]\<rparr>"
  have wf: "nio_wf s" using assms(1) by (simp add: nio_inv_def)
  have pf: "pending ?s = pending s" "frozen_count ?s = frozen_count s"
    by (simp_all add: fun_eq_iff pending_def frozen_count_def frozen_def)
  have "nio_wf ?s"
    using wf assms(3)
    by (auto simp: nio_wf_def nth_append frozen_def writers_def bio_new_def less_Suc_eq)
  moreover have "bio_ready ?s ?b"
    using pending_out [OF wf] frozen_out [OF wf]
    by (simp add: bio_ready_def Let_def pf) (simp add: bio_new_def)
  moreover have "bio_safe qp ?s b" if "b < length (n_bios ?s)" for b
  proof (cases "b = ?b")
    case True
    then show ?thesis
      using pending_out [OF wf] pf by (simp add: bio_safe_def Let_def) (simp add: bio_new_def)
  next
    case False
    then have "b < ?b" using that by simp
    then have "bio_safe qp s b" using assms(2) by (simp add: safe_inv_def)
    then show ?thesis
      by (rule bio_safe_mono) (use \<open>b < ?b\<close> pf in \<open>simp_all add: nth_append\<close>)
  qed
  ultimately show ?thesis
    using submit_safe [OF assms(6,5,4), of lk enc key qp] assms(2) by (simp add: safe_inv_def)
qed

lemma nio_exec_safe:
  assumes "nio_exec l s = Some s'" and "nio_inv s" and "safe_inv lk enc key qp s"
    and "benign lk enc key qp l"
  shows "safe_inv lk enc key qp s'"
proof (cases l)
  case (L_submit k t off num env buf)
  then show ?thesis
    using assms submit_label_safe [OF assms(2,3), of k buf env t off num s']
    by (simp add: nio_exec_def split: if_splits)
next
  case (L_complete b d status env buf)
  then show ?thesis
    using assms bio_complete_safe [OF assms(2,3) _ _ _ refl, of b d buf env status]
    by (simp add: nio_exec_def split: if_splits)
next
  case (L_message k env buf)
  then obtain m ms where k: "k < length (n_queues s)" and q: "n_queues s ! k = m # ms"
    and h: "handle_msg env buf k m (s\<lparr>n_queues := (n_queues s)[k := ms]\<rparr>) = Some s'"
    using assms(1) by (auto simp: nio_exec_def split: if_splits list.splits)
  from handle_msg_safe [OF assms(2,3) k q refl _ _ h] L_message assms(4) show ?thesis by simp
next
  case (L_retire_begin d)
  then show ?thesis using assms retire_begin_safe by (simp add: nio_exec_def)
next
  case (L_retire_record senv)
  then show ?thesis using assms retire_record_safe by (simp add: nio_exec_def)
next
  case L_retire_detach
  then show ?thesis using assms retire_detach_safe by (simp add: nio_exec_def)
qed (use assms(4) in simp)

lemma nio_run_safe:
  assumes "nio_run ls s = Some s'" and "nio_inv s" and "safe_inv lk enc key qp s"
    and "list_all (benign lk enc key qp) ls"
  shows "safe_inv lk enc key qp s'"
  using assms
proof (induction ls arbitrary: s)
  case (Cons l ls)
  then obtain s1 where s1: "nio_exec l s = Some s1" and "nio_run ls s1 = Some s'"
    by (auto simp: nio_run_def split: option.splits)
  moreover have "benign lk enc key qp l" and "list_all (benign lk enc key qp) ls"
    using Cons.prems(4) by simp_all
  moreover from this have "nio_inv s1" and "safe_inv lk enc key qp s1"
    using nio_exec_inv [OF s1 Cons.prems(2)] nio_exec_safe [OF s1 Cons.prems(2,3)] benign_buf_ok
    by blast+
  ultimately show ?case using Cons.IH by blast
qed (simp add: nio_run_def)

text \<open>A nexus before its first I/O: every child has a device and a UUID of its own, the record is in
  the store, and the writers of every channel are the replicas that are healthy on record.\<close>

definition devices :: "'s nio \<Rightarrow> string list" where
  "devices s = List.map_filter get_device_name (n_children s)"

definition safe_start ::
  "('s \<Rightarrow> string \<Rightarrow> u8 list option) \<Rightarrow> (NexusInfo \<Rightarrow> u8 list) \<Rightarrow> string \<Rightarrow> url_parser \<Rightarrow>
   's nio \<Rightarrow> bool" where
  "safe_start lk enc key qp s \<longleftrightarrow>
     nio_start s \<and> list_all (\<lambda>q. q = []) (n_queues s) \<and> n_tasks s = [] \<and> n_lock s = None \<and>
     recorded lk enc key (n_info s) (n_store s) \<and> distinct (map (dev_uuid qp s) (devices s)) \<and>
     list_all (\<lambda>ch. distinct (ch_writers ch) \<and>
       set (ch_writers ch) = set (filter (rec_healthy qp s) (devices s))) (n_channels s)"

lemma dev_uuid_device: "dev_uuid qp s d \<noteq> None \<Longrightarrow> d \<in> set (devices s)"
  by (force simp: dev_uuid_def devices_def child_ids_def find_map map_filter_def find_Some_iff
      split: option.splits)

lemma safe_start_inv:
  assumes "safe_start lk enc key qp s"
  shows "safe_inv lk enc key qp s"
proof -
  have start: "nio_start s" and queues: "list_all (\<lambda>q. q = []) (n_queues s)"
    and rest: "n_tasks s = []" "n_lock s = None" "recorded lk enc key (n_info s) (n_store s)"
    and dist: "distinct (map (dev_uuid qp s) (devices s))"
    and ws: "list_all (\<lambda>ch. distinct (ch_writers ch) \<and>
       set (ch_writers ch) = set (filter (rec_healthy qp s) (devices s))) (n_channels s)"
    using assms by (auto simp: safe_start_def)
  have "rec_healthy qp s d \<Longrightarrow> d \<in> set (devices s)" for d
    by (rule dev_uuid_device [of qp]) (auto simp: rec_healthy_def split: option.splits)
  then have "chan_safe (rec_healthy qp s) (writers s ! k) (detaches s k) (locked s)"
    if "k < length (n_channels s)" for k
  proof -
    have "detaches s k = []"
      using that queues start by (simp add: detaches_def messages_def nio_start_def list_all_length)
    then show ?thesis
      using that ws rest(2) \<open>\<And>d. rec_healthy qp s d \<Longrightarrow> d \<in> set (devices s)\<close>
      by (auto simp: chan_safe_def locked_def writers_def list_all_length)
  qed
  moreover have "uuids_differ qp s"
    unfolding uuids_differ_def
    using dist dev_uuid_device [of qp s] by (metis distinct_map inj_on_def)
  moreover have "\<forall>q \<in> set (messages s). list_all calm q"
    using queues by (auto simp: messages_def list_all_iff)
  ultimately show ?thesis
    using rest start by (simp add: safe_inv_def safe_frame_def tasks_sick_def nio_start_def)
qed

text \<open>C1: An acknowledged write is on every healthy replica. Whatever the devices answer, in whatever
  order, on however many channels, while devices are retired: if a write-like I/O was completed
  successfully and the record of the nexus calls a replica healthy, then the device of that replica
  has completed the I/O successfully; and that record is what the persistent store holds. The run
  must not have refused submissions, unanswered stores or reconfigurations, and start with no
  replica being rebuilt.\<close>

theorem acked_write_on_healthy_replicas:
  assumes "safe_start lk enc key qp s" and "nio_run ls s = Some s'"
    and "list_all (benign lk enc key qp) ls"
    and "b < length (n_bios s')" and "to_all (bio_io_type (n_bios s' ! b))"
    and "Bio_ok \<in> set (bio_ends (n_bios s' ! b))" and "rec_healthy qp s' d"
  shows "(b, d) \<in> set (n_done s') \<and> lk (n_store s') key = Some (enc (pi_inner (n_info s')))"
proof -
  have "nio_inv s" using assms(1) by (simp add: safe_start_def nio_start_inv)
  from nio_run_safe [OF assms(2) this safe_start_inv [OF assms(1)] assms(3)]
  have "bio_safe qp s' b" and "recorded lk enc key (n_info s') (n_store s')"
    using assms(4) by (auto simp: safe_inv_def safe_frame_def)
  then show ?thesis
    using assms(5-7) by (auto simp: bio_safe_def Let_def on_all_def recorded_def)
qed

section \<open>Examples\<close>

definition mem_qp :: url_parser where
  "mem_qp = (\<lambda>u. Some [(''uuid'', u)])"

definition steps_on :: "string list \<Rightarrow> (string \<times> IoCompletionStatus) list \<Rightarrow>
   (string \<Rightarrow> u8 list option) nio_label list" where
  "steps_on refuse rs = map (\<lambda>(d, st). L_complete 0 d st (io_sample_env refuse) Buf_present) rs"

definition msg0 :: "(string \<Rightarrow> u8 list option) nio_label" where
  "msg0 = L_message 0 (io_sample_env []) Buf_present"

definition retire_run :: "string \<Rightarrow> (string \<Rightarrow> u8 list option) nio_label list" where
  "retire_run d =
     [L_retire_begin d, msg0, L_retire_record (mem_env (\<lambda>_. Op_Done) 3), msg0, L_retire_detach, msg0]"

text \<open>A write of which replica b fails: it is resubmitted until b is retired on record and detached.\<close>

definition failing_b :: "(string \<Rightarrow> u8 list option) nio_label list" where
  "failing_b =
     [L_submit 0 IoWrite 0 8 (io_sample_env []) Buf_present] @
     steps_on [] [(''a'', IoSuccess), (''b'', IoNvmeError Nvme_DATA_TRANSFER_ERROR)] @
     retire_run ''b'' @
     steps_on [] [(''b'', IoNvmeError Nvme_DATA_TRANSFER_ERROR), (''a'', IoSuccess), (''a'', IoSuccess)]"

lemma mem_store_answers: "store_answers id mem_json ''key'' mem_qp (mem_env (\<lambda>_. Op_Done) 3)"
  using mem_client_ok mem_others_keep
  by (auto simp: store_answers_def mem_qp_def mem_env_def)

lemma io_nexus_safe_start: "safe_start id mem_json ''key'' mem_qp (io_nexus [''a'', ''b''])"
  by code_simp

lemma failing_b_benign: "list_all (benign id mem_json ''key'' mem_qp) failing_b"
  using mem_store_answers
  by (simp add: failing_b_def steps_on_def retire_run_def msg0_def io_sample_env_def)

lemma failing_b_run:
  "map_option (\<lambda>s. (map bio_ends (n_bios s), map bio_io_type (n_bios s), rec_healthy mem_qp s ''a'',
       rec_healthy mem_qp s ''b'')) (nio_run failing_b (io_nexus [''a'', ''b''])) =
     Some ([[Bio_ok]], [IoWrite], True, False)"
  by code_simp

theorem acked_write_on_healthy_replicas_witness:
  "\<exists>s'. nio_run failing_b (io_nexus [''a'', ''b'']) = Some s' \<and> rec_healthy mem_qp s' ''a'' \<and>
     (0, ''a'') \<in> set (n_done s') \<and> n_store s' ''key'' = Some (mem_json (pi_inner (n_info s')))"
proof -
  obtain s' where s': "nio_run failing_b (io_nexus [''a'', ''b'']) = Some s'"
    and ends: "map bio_ends (n_bios s') = [[Bio_ok]]" and t: "map bio_io_type (n_bios s') = [IoWrite]"
    and a: "rec_healthy mem_qp s' ''a''"
    using failing_b_run by auto
  then have "0 < length (n_bios s')" "to_all (bio_io_type (n_bios s' ! 0))"
    "Bio_ok \<in> set (bio_ends (n_bios s' ! 0))"
    by (cases "n_bios s'"; auto simp: to_all_def)+
  from acked_write_on_healthy_replicas [OF io_nexus_safe_start s' failing_b_benign this a] s' a
  show ?thesis by simp
qed

text \<open>A nexus with a healthy replica a and a replica c that is being rebuilt.\<close>

definition rebuilding_nexus :: "(string \<Rightarrow> u8 list option) nio" where
  "rebuilding_nexus =
     (let s = io_nexus [''a'', ''c''];
          info = update_child_info ''c'' False (pi_inner (n_info s));
          (cs, ch) = channel_new (io_chan_env\<lparr>he_job_exists := (\<lambda>u. u = ''c'')\<rparr>) True 0
            [io_child ''a'', (io_child ''c'')\<lparr>nc_sync_state := OutOfSync\<rparr>]
      in s\<lparr>n_children := cs, n_channels := [ch], n_jobs := [''c''],
           n_info := (n_info s)\<lparr>pi_inner := info\<rparr>, n_store := [''key'' \<mapsto> mem_json info]\<rparr>)"

text \<open>How the first I/O ended, whether the store still calls a replica healthy, and whether it has
  completed the I/O.\<close>

definition outcome :: "string \<Rightarrow> (string \<Rightarrow> u8 list option) nio_label list \<Rightarrow>
   (string \<Rightarrow> u8 list option) nio \<Rightarrow> (bio_result list \<times> bool \<times> bool) option" where
  "outcome d ls s =
     map_option (\<lambda>s'. (bio_ends (n_bios s' ! 0),
       rec_healthy mem_qp s' d \<and> n_store s' ''key'' = n_store s ''key'', (0, d) \<in> set (n_done s')))
       (nio_run ls s)"


end
