(* ===== verification/Io_Subsystem.thy ===== *)
theory Io_Subsystem
  imports Core_Types
begin

text \<open>
  Pausing and resuming the NVMe-oF subsystem of a nexus (\<open>bdev/nexus/nexus_io_subsystem.rs\<close>).
  \<open>suspend\<close> and \<open>resume\<close> run on one core, so that they interleave only where they await: the SPDK
  calls that pause and resume the subsystem, and the channel on which a call waits for a transition
  of another one to end. The state holds the fields of \<open>NexusIoSubsystem\<close> and, for every call, where
  it stands. A caller suspends once and, when it is done, resumes once.

  The lemmas show the invariant of the pause counter, from which follows that no assertion of the
  code fails, that the subsystem is not resumed while a caller relies on the pause, and that every
  call returns.
\<close>

section \<open>State\<close>

datatype NexusPauseState = Unpaused | Pausing | Paused | Frozen | Unpausing

text \<open>The operation of a call; \<open>resume\<close> has the parameter \<open>freeze\<close>.\<close>

datatype io_op = Op_suspend | Op_resume bool

text \<open>Where the call of a caller stands: at the head of its loop, waiting for a transition to end,
  awaiting SPDK; between its two calls the caller holds the pause.\<close>

datatype io_pc = At_loop io_op | Waiting io_op | Awaiting_pause | Awaiting_resume | Held | Gone

record NexusIoSubsystem =
  pause_state :: NexusPauseState
  pause_waiters :: "nat list"
  pause_cnt :: u32
  callers :: "io_pc list"

text \<open>What the step of a call finds: whether the bdev is shared over NVMe-oF, whether the subsystem is
  found, and the answer of SPDK to the call that is awaited.\<close>

record subsystem_env =
  sub_shared :: bool
  sub_found :: bool
  sub_answer :: "Errno option"

definition io_subsystem_new :: NexusIoSubsystem where
  "io_subsystem_new =
     \<lparr> pause_state = Unpaused, pause_waiters = [], pause_cnt = 0, callers = [] \<rparr>"

section \<open>Steps\<close>

definition set_pc :: "nat \<Rightarrow> io_pc \<Rightarrow> NexusIoSubsystem \<Rightarrow> NexusIoSubsystem" where
  "set_pc i pc s = s\<lparr>callers := (callers s)[i := pc]\<rparr>"

text \<open>Answers that are not panicked on.\<close>

definition tolerated :: "Errno option \<Rightarrow> bool" where
  "tolerated answer \<longleftrightarrow> (case answer of None \<Rightarrow> True | Some e \<Rightarrow> e \<in> {EPERM, ECANCELED})"

text \<open>The end of both functions: the first waiter is woken and will retry.\<close>

definition wake_one :: "NexusIoSubsystem \<Rightarrow> NexusIoSubsystem" where
  "wake_one s =
     (case pause_waiters s of
        [] \<Rightarrow> s
      | w # ws \<Rightarrow>
          (case callers s ! w of
             Waiting op \<Rightarrow> set_pc w (At_loop op) (s\<lparr>pause_waiters := ws\<rparr>)
           | _ \<Rightarrow> s\<lparr>pause_waiters := ws\<rparr>))"

definition suspend_done :: "nat \<Rightarrow> NexusIoSubsystem \<Rightarrow> NexusIoSubsystem" where
  "suspend_done i s = wake_one (set_pc i Held s)"

definition resume_done :: "nat \<Rightarrow> NexusIoSubsystem \<Rightarrow> NexusIoSubsystem" where
  "resume_done i s = wake_one (set_pc i Gone s)"

definition wait_turn :: "nat \<Rightarrow> io_op \<Rightarrow> NexusIoSubsystem \<Rightarrow> NexusIoSubsystem" where
  "wait_turn i op s = set_pc i (Waiting op) (s\<lparr>pause_waiters := pause_waiters s @ [i]\<rparr>)"

text \<open>\<open>suspend\<close>, from the head of its loop and from the answer of SPDK.\<close>

definition mark_paused :: "nat \<Rightarrow> NexusIoSubsystem \<Rightarrow> NexusIoSubsystem option" where
  "mark_paused i s =
     (if pause_state s = Pausing then Some (suspend_done i (s\<lparr>pause_state := Paused\<rparr>)) else None)"

definition suspend :: "subsystem_env \<Rightarrow> nat \<Rightarrow> NexusIoSubsystem \<Rightarrow> NexusIoSubsystem option" where
  "suspend env i s =
     (case pause_state s of
        Unpaused \<Rightarrow>
          (if pause_cnt s \<noteq> 0 then None
           else
             let s1 = s\<lparr>pause_state := Pausing, pause_cnt := pause_cnt s + 1\<rparr>
             in if sub_shared env \<and> sub_found env then Some (set_pc i Awaiting_pause s1)
                else mark_paused i s1)
      | Paused \<Rightarrow> Some (suspend_done i (s\<lparr>pause_cnt := pause_cnt s + 1\<rparr>))
      | Frozen \<Rightarrow> Some (suspend_done i (s\<lparr>pause_cnt := pause_cnt s + 1\<rparr>))
      | Unpausing \<Rightarrow> Some (wait_turn i Op_suspend s)
      | Pausing \<Rightarrow> Some (wait_turn i Op_suspend s))"

definition suspend_answered :: "subsystem_env \<Rightarrow> nat \<Rightarrow> NexusIoSubsystem \<Rightarrow> NexusIoSubsystem option" where
  "suspend_answered env i s = (if tolerated (sub_answer env) then mark_paused i s else None)"

text \<open>\<open>resume\<close>, likewise. The counter is an atomic \<open>u32\<close>: it wraps around.\<close>

definition resume :: "subsystem_env \<Rightarrow> nat \<Rightarrow> bool \<Rightarrow> NexusIoSubsystem \<Rightarrow> NexusIoSubsystem" where
  "resume env i freeze s =
     (if pause_state s = Unpaused then resume_done i s
      else if pause_state s \<in> {Pausing, Unpausing} then wait_turn i (Op_resume freeze) s
      else
        let v = pause_cnt s; s1 = s\<lparr>pause_cnt := pause_cnt s - 1\<rparr>
        in if v \<noteq> 1 then resume_done i s1
           else if pause_state s = Frozen \<or> freeze then resume_done i (s1\<lparr>pause_state := Frozen\<rparr>)
           else if sub_found env then set_pc i Awaiting_resume (s1\<lparr>pause_state := Unpausing\<rparr>)
           else resume_done i (s1\<lparr>pause_state := Unpaused\<rparr>))"

definition resume_answered :: "subsystem_env \<Rightarrow> nat \<Rightarrow> NexusIoSubsystem \<Rightarrow> NexusIoSubsystem option" where
  "resume_answered env i s =
     (if tolerated (sub_answer env) then Some (resume_done i (s\<lparr>pause_state := Unpaused\<rparr>)) else None)"

text \<open>A call that is not blocked runs to its next await.\<close>

fun runnable :: "io_pc \<Rightarrow> bool" where
  "runnable (At_loop op) \<longleftrightarrow> True"
| "runnable Awaiting_pause \<longleftrightarrow> True"
| "runnable Awaiting_resume \<longleftrightarrow> True"
| "runnable _ \<longleftrightarrow> False"

definition run_call :: "subsystem_env \<Rightarrow> nat \<Rightarrow> NexusIoSubsystem \<Rightarrow> NexusIoSubsystem option" where
  "run_call env i s =
     (case callers s ! i of
        At_loop Op_suspend \<Rightarrow> suspend env i s
      | At_loop (Op_resume freeze) \<Rightarrow> Some (resume env i freeze s)
      | Awaiting_pause \<Rightarrow> suspend_answered env i s
      | Awaiting_resume \<Rightarrow> resume_answered env i s
      | _ \<Rightarrow> Some s)"

text \<open>The steps of the system: a caller suspends, a caller that holds the pause resumes, a call runs.\<close>

inductive io_trans :: "NexusIoSubsystem \<Rightarrow> NexusIoSubsystem \<Rightarrow> bool" where
  call_suspend: "io_trans s (s\<lparr>callers := callers s @ [At_loop Op_suspend]\<rparr>)"
| call_resume: "i < length (callers s) \<Longrightarrow> callers s ! i = Held \<Longrightarrow>
    io_trans s (set_pc i (At_loop (Op_resume freeze)) s)"
| run: "i < length (callers s) \<Longrightarrow> runnable (callers s ! i) \<Longrightarrow> run_call env i s = Some s' \<Longrightarrow>
    io_trans s s'"

section \<open>The invariant\<close>

text \<open>The callers that rely on the pause, and those whose pause is counted.\<close>

fun counted_pc :: "io_pc \<Rightarrow> bool" where
  "counted_pc (At_loop op) \<longleftrightarrow> op \<noteq> Op_suspend"
| "counted_pc (Waiting op) \<longleftrightarrow> op \<noteq> Op_suspend"
| "counted_pc Awaiting_pause \<longleftrightarrow> True"
| "counted_pc Held \<longleftrightarrow> True"
| "counted_pc _ \<longleftrightarrow> False"

definition holders :: "NexusIoSubsystem \<Rightarrow> nat" where
  "holders s = length (filter counted_pc (callers s))"

definition pausers :: "NexusIoSubsystem \<Rightarrow> nat" where
  "pausers s = length (filter (\<lambda>pc. pc = Awaiting_pause) (callers s))"

definition resumers :: "NexusIoSubsystem \<Rightarrow> nat" where
  "resumers s = length (filter (\<lambda>pc. pc = Awaiting_resume) (callers s))"

definition waiters_ok :: "NexusIoSubsystem \<Rightarrow> bool" where
  "waiters_ok s \<longleftrightarrow> distinct (pause_waiters s) \<and>
     (\<forall>i. i \<in> set (pause_waiters s) \<longleftrightarrow>
        i < length (callers s) \<and> (\<exists>op. callers s ! i = Waiting op))"

definition io_inv :: "NexusIoSubsystem \<Rightarrow> bool" where
  "io_inv s \<longleftrightarrow>
     unat (pause_cnt s) = holders s \<and> waiters_ok s \<and>
     pausers s = (if pause_state s = Pausing then 1 else 0) \<and>
     resumers s = (if pause_state s = Unpausing then 1 else 0) \<and>
     (pause_state s = Pausing \<longrightarrow> holders s = 1) \<and>
     (pause_state s \<in> {Unpaused, Unpausing} \<longrightarrow> holders s = 0) \<and>
     (pause_state s = Paused \<longrightarrow> 0 < holders s) \<and>
     (pause_waiters s \<noteq> [] \<longrightarrow> list_ex runnable (callers s))"

lemma length_filter_update:
  "i < length xs \<Longrightarrow> length (filter P (xs[i := y])) + (if P (xs ! i) then 1 else 0) =
     length (filter P xs) + (if P y then 1 else 0)"
proof (induction xs arbitrary: i)
  case (Cons x xs)
  then show ?case by (cases i) (fastforce split: if_splits)+
qed simp

lemma callers_ex_update: "i < length xs \<Longrightarrow> P y \<Longrightarrow> list_ex P (xs[i := y])"
  by (auto simp: list_ex_iff set_update_memI)

lemma set_pc_fields [simp]:
  "pause_state (set_pc i pc s) = pause_state s" "pause_cnt (set_pc i pc s) = pause_cnt s"
  "pause_waiters (set_pc i pc s) = pause_waiters s"
  "callers (set_pc i pc s) = (callers s)[i := pc]"
  by (simp_all add: set_pc_def)

definition is_waiting :: "io_pc \<Rightarrow> bool" where
  "is_waiting pc \<longleftrightarrow> (\<exists>op. pc = Waiting op)"

lemma waiters_ok_alt:
  "waiters_ok s \<longleftrightarrow> distinct (pause_waiters s) \<and>
     (\<forall>i. i \<in> set (pause_waiters s) \<longleftrightarrow> i < length (callers s) \<and> is_waiting (callers s ! i))"
  by (simp add: waiters_ok_def is_waiting_def)

lemma waiters_ok_set:
  assumes "waiters_ok s" and "\<not> is_waiting (callers s ! i)" and "\<not> is_waiting pc"
  shows "waiters_ok (set_pc i pc s)"
proof -
  have "is_waiting ((callers s)[i := pc] ! j) = is_waiting (callers s ! j)"
    if "j < length (callers s)" for j
    using that assms(2,3) by (cases "j = i") auto
  then show ?thesis using assms(1) by (simp add: waiters_ok_alt cong: conj_cong)
qed

text \<open>Waking a waiter.\<close>

lemma wake_one_parts:
  assumes "waiters_ok s"
  shows "pause_state (wake_one s) = pause_state s" and "pause_cnt (wake_one s) = pause_cnt s"
    and "length (callers (wake_one s)) = length (callers s)"
    and "holders (wake_one s) = holders s" and "pausers (wake_one s) = pausers s"
    and "resumers (wake_one s) = resumers s" and "waiters_ok (wake_one s)"
    and "pause_waiters (wake_one s) \<noteq> [] \<longrightarrow> list_ex runnable (callers (wake_one s))"
proof -
  have "pause_state (wake_one s) = pause_state s \<and> pause_cnt (wake_one s) = pause_cnt s \<and>
    length (callers (wake_one s)) = length (callers s) \<and>
    holders (wake_one s) = holders s \<and> pausers (wake_one s) = pausers s \<and>
    resumers (wake_one s) = resumers s \<and> waiters_ok (wake_one s) \<and>
    (pause_waiters (wake_one s) \<noteq> [] \<longrightarrow> list_ex runnable (callers (wake_one s)))"
  proof (cases "pause_waiters s")
    case Nil
    then show ?thesis using assms by (simp add: wake_one_def)
  next
    case (Cons w ws)
    then obtain op where w: "w < length (callers s)" "callers s ! w = Waiting op"
      using assms by (auto simp: waiters_ok_def)
    have eq: "wake_one s = set_pc w (At_loop op) (s\<lparr>pause_waiters := ws\<rparr>)"
      using Cons w by (simp add: wake_one_def)
    have "waiters_ok (wake_one s)"
    proof -
      have "(j < length (callers s) \<and> is_waiting ((callers s)[w := At_loop op] ! j)) =
          (j \<noteq> w \<and> j < length (callers s) \<and> is_waiting (callers s ! j))" for j
        using w by (cases "j = w") (auto simp: is_waiting_def)
      then show ?thesis
        using assms Cons by (auto simp: eq waiters_ok_alt)
    qed
    then show ?thesis
      using w length_filter_update [OF w(1), of counted_pc "At_loop op"]
        length_filter_update [OF w(1), of "\<lambda>pc. pc = Awaiting_pause" "At_loop op"]
        length_filter_update [OF w(1), of "\<lambda>pc. pc = Awaiting_resume" "At_loop op"]
        callers_ex_update [OF w(1), of runnable "At_loop op"]
      by (simp add: eq holders_def pausers_def resumers_def)
  qed
  then show "pause_state (wake_one s) = pause_state s" and "pause_cnt (wake_one s) = pause_cnt s"
    and "length (callers (wake_one s)) = length (callers s)"
    and "holders (wake_one s) = holders s" and "pausers (wake_one s) = pausers s"
    and "resumers (wake_one s) = resumers s" and "waiters_ok (wake_one s)"
    and "pause_waiters (wake_one s) \<noteq> [] \<longrightarrow> list_ex runnable (callers (wake_one s))"
    by blast+
qed

text \<open>Moving one caller changes the counts by its own share.\<close>

lemma set_pc_counts:
  assumes "i < length (callers s)"
  shows "holders (set_pc i pc s) + (if counted_pc (callers s ! i) then 1 else 0) =
      holders s + (if counted_pc pc then 1 else 0)"
    and "pausers (set_pc i pc s) + (if callers s ! i = Awaiting_pause then 1 else 0) =
      pausers s + (if pc = Awaiting_pause then 1 else 0)"
    and "resumers (set_pc i pc s) + (if callers s ! i = Awaiting_resume then 1 else 0) =
      resumers s + (if pc = Awaiting_resume then 1 else 0)"
  using length_filter_update [OF assms, of counted_pc pc]
    length_filter_update [OF assms, of "\<lambda>pc. pc = Awaiting_pause" pc]
    length_filter_update [OF assms, of "\<lambda>pc. pc = Awaiting_resume" pc]
  by (auto simp: holders_def pausers_def resumers_def)

lemma counts_fields [simp]:
  "holders (s\<lparr>pause_state := st, pause_cnt := c\<rparr>) = holders s"
  "pausers (s\<lparr>pause_state := st, pause_cnt := c\<rparr>) = pausers s"
  "resumers (s\<lparr>pause_state := st, pause_cnt := c\<rparr>) = resumers s"
  "holders (s\<lparr>pause_state := st\<rparr>) = holders s" "pausers (s\<lparr>pause_state := st\<rparr>) = pausers s"
  "resumers (s\<lparr>pause_state := st\<rparr>) = resumers s" "holders (s\<lparr>pause_cnt := c\<rparr>) = holders s"
  "pausers (s\<lparr>pause_cnt := c\<rparr>) = pausers s" "resumers (s\<lparr>pause_cnt := c\<rparr>) = resumers s"
  "holders (s\<lparr>pause_waiters := w\<rparr>) = holders s" "pausers (s\<lparr>pause_waiters := w\<rparr>) = pausers s"
  "resumers (s\<lparr>pause_waiters := w\<rparr>) = resumers s"
  "waiters_ok (s\<lparr>pause_state := st, pause_cnt := c\<rparr>) = waiters_ok s"
  "waiters_ok (s\<lparr>pause_state := st\<rparr>) = waiters_ok s" "waiters_ok (s\<lparr>pause_cnt := c\<rparr>) = waiters_ok s"
  by (simp_all add: holders_def pausers_def resumers_def waiters_ok_def)

text \<open>The end of a call.\<close>

lemma done_parts:
  assumes "i < length (callers s)" and "waiters_ok s" and "\<not> is_waiting (callers s ! i)"
    and "pc \<in> {Held, Gone}" and s': "s' = wake_one (set_pc i pc s)"
  shows "pause_state s' = pause_state s" and "pause_cnt s' = pause_cnt s"
    and "length (callers s') = length (callers s)"
    and "holders s' + (if counted_pc (callers s ! i) then 1 else 0) =
      holders s + (if pc = Held then 1 else 0)"
    and "pausers s' + (if callers s ! i = Awaiting_pause then 1 else 0) = pausers s"
    and "resumers s' + (if callers s ! i = Awaiting_resume then 1 else 0) = resumers s"
    and "waiters_ok s'" and "pause_waiters s' \<noteq> [] \<longrightarrow> list_ex runnable (callers s')"
proof -
  have "\<not> is_waiting pc" using assms(4) by (auto simp: is_waiting_def)
  note w = wake_one_parts [OF waiters_ok_set [OF assms(2,3) this]]
  note c = set_pc_counts [OF assms(1), of pc]
  show "pause_state s' = pause_state s" and "pause_cnt s' = pause_cnt s"
    and "length (callers s') = length (callers s)"
    and "waiters_ok s'" and "pause_waiters s' \<noteq> [] \<longrightarrow> list_ex runnable (callers s')"
    using w by (simp_all add: s')
  show "holders s' + (if counted_pc (callers s ! i) then 1 else 0) =
      holders s + (if pc = Held then 1 else 0)"
    using w(4) c(1) assms(4) by (auto simp: s')
  show "pausers s' + (if callers s ! i = Awaiting_pause then 1 else 0) = pausers s"
    using w(5) c(2) assms(4) by (auto simp: s')
  show "resumers s' + (if callers s ! i = Awaiting_resume then 1 else 0) = resumers s"
    using w(6) c(3) assms(4) by (auto simp: s')
qed

lemma holders_less:
  "i < length (callers s) \<Longrightarrow> \<not> counted_pc (callers s ! i) \<Longrightarrow> holders s < length (callers s)"
  unfolding holders_def by (rule length_filter_less) (use nth_mem in auto)

lemma holders_pos: "i < length (callers s) \<Longrightarrow> counted_pc (callers s ! i) \<Longrightarrow> 0 < holders s"
  by (auto simp: holders_def filter_empty_conv)

lemma cnt_inc: "unat (c :: u32) < 2 ^ 32 - 1 \<Longrightarrow> unat (c + 1) = unat c + 1"
  by (simp add: unat_word_ariths)

lemma cnt_dec: "0 < unat (c :: u32) \<Longrightarrow> unat (c - 1) = unat c - 1"
  by (simp add: unat_minus_one unat_gt_0)

lemma wait_turn_inv:
  assumes "io_inv s" and "i < length (callers s)" and "callers s ! i = At_loop op"
    and "pause_state s \<in> {Pausing, Unpausing}"
  shows "io_inv (wait_turn i op s)"
proof -
  let ?s = "wait_turn i op s"
  have w: "waiters_ok s" using assms(1) by (simp add: io_inv_def)
  have "(j < length (callers s) \<and> is_waiting ((callers s)[i := Waiting op] ! j)) =
      (j = i \<or> j < length (callers s) \<and> is_waiting (callers s ! j))" for j
    using assms(2) by (cases "j = i") (auto simp: is_waiting_def)
  moreover have "i \<notin> set (pause_waiters s)" using w assms(3) by (simp add: waiters_ok_def)
  ultimately have "waiters_ok ?s" using w by (auto simp: waiters_ok_alt wait_turn_def)
  moreover have "list_ex runnable (callers ?s)"
  proof -
    have "0 < pausers s + resumers s" using assms(1,4) by (auto simp: io_inv_def)
    then obtain pc where pc: "pc \<in> set (callers s)" "pc \<in> {Awaiting_pause, Awaiting_resume}"
      by (auto simp: pausers_def resumers_def filter_empty_conv)
    then obtain j where "j < length (callers s)" "callers s ! j = pc" by (auto simp: in_set_conv_nth)
    then have "callers ?s ! j = pc" "j < length (callers ?s)"
      using pc assms(3) by (cases "j = i"; auto simp: wait_turn_def)+
    then have "pc \<in> set (callers ?s)" by (metis nth_mem)
    moreover have "runnable pc" using pc(2) by auto
    ultimately show ?thesis by (auto simp: list_ex_iff)
  qed
  moreover have "holders ?s = holders s" "pausers ?s = pausers s" "resumers ?s = resumers s"
    using set_pc_counts [of i "s\<lparr>pause_waiters := pause_waiters s @ [i]\<rparr>" "Waiting op"] assms(2,3)
    by (auto simp: wait_turn_def split: if_splits)
  ultimately show ?thesis using assms(1) by (simp add: io_inv_def wait_turn_def)
qed

lemma mark_paused_inv:
  assumes "i < length (callers s)" and "waiters_ok s" and "\<not> is_waiting (callers s ! i)"
    and "pause_state s = Pausing" and "pausers s = (if callers s ! i = Awaiting_pause then 1 else 0)"
    and "resumers s = 0" and "callers s ! i \<noteq> Awaiting_resume" and "unat (pause_cnt s) = 1"
    and "holders s = (if counted_pc (callers s ! i) then 1 else 0)"
  shows "\<exists>s'. mark_paused i s = Some s' \<and> io_inv s'"
proof -
  let ?t = "s\<lparr>pause_state := Paused\<rparr>"
  have "i < length (callers ?t)" "waiters_ok ?t" "\<not> is_waiting (callers ?t ! i)" using assms by simp_all
  note d = done_parts [OF this, of Held, OF _ refl]
  show ?thesis
    using d assms by (auto simp: mark_paused_def suspend_done_def io_inv_def split: if_splits)
qed

lemma suspend_inv:
  assumes "io_inv s" and "i < length (callers s)" and "callers s ! i = At_loop Op_suspend"
    and "length (callers s) < 2 ^ 32"
  shows "\<exists>s'. suspend env i s = Some s' \<and> io_inv s'"
proof -
  have nw: "\<not> is_waiting (callers s ! i)" and w: "waiters_ok s"
    using assms by (auto simp: is_waiting_def io_inv_def)
  have "holders s < length (callers s)" using holders_less [OF assms(2)] assms(3) by simp
  then have cnt: "unat (pause_cnt s + 1) = holders s + 1"
    using cnt_inc [of "pause_cnt s"] assms(1,4) by (simp add: io_inv_def)
  show ?thesis
  proof (cases "pause_state s")
    case Unpaused
    let ?s = "s\<lparr>pause_state := Pausing, pause_cnt := pause_cnt s + 1\<rparr>"
    have zero: "holders s = 0" "pausers s = 0" "resumers s = 0" "pause_cnt s = 0"
      using assms(1) Unpaused by (auto simp: io_inv_def unat_eq_0)
    show ?thesis
    proof (cases "sub_shared env \<and> sub_found env")
      case True
      have "waiters_ok (set_pc i Awaiting_pause ?s)"
        using waiters_ok_set [of ?s i Awaiting_pause] w nw by (simp add: is_waiting_def)
      moreover have "list_ex runnable ((callers s)[i := Awaiting_pause])"
        using callers_ex_update [OF assms(2), of runnable Awaiting_pause] by simp
      ultimately show ?thesis
        using True Unpaused zero cnt set_pc_counts [of i ?s Awaiting_pause] assms(2,3)
        by (simp add: suspend_def io_inv_def)
    next
      case False
      then show ?thesis
        using mark_paused_inv [of i ?s] Unpaused zero cnt assms(2,3) w nw
        by (auto simp: suspend_def Let_def)
    qed
  next
    case Paused
    then show ?thesis
      using done_parts [of i "s\<lparr>pause_cnt := pause_cnt s + 1\<rparr>" Held, OF _ _ _ _ refl]
        assms w nw cnt by (auto simp: suspend_def suspend_done_def io_inv_def)
  next
    case Frozen
    then show ?thesis
      using done_parts [of i "s\<lparr>pause_cnt := pause_cnt s + 1\<rparr>" Held, OF _ _ _ _ refl]
        assms w nw cnt by (auto simp: suspend_def suspend_done_def io_inv_def)
  next
    case Pausing
    then show ?thesis using wait_turn_inv [OF assms(1-3)] by (simp add: suspend_def)
  next
    case Unpausing
    then show ?thesis using wait_turn_inv [OF assms(1-3)] by (simp add: suspend_def)
  qed
qed

lemma resume_inv:
  assumes "io_inv s" and "i < length (callers s)" and "callers s ! i = At_loop (Op_resume freeze)"
  shows "io_inv (resume env i freeze s)"
proof -
  have nw: "\<not> is_waiting (callers s ! i)" and w: "waiters_ok s"
    using assms by (auto simp: is_waiting_def io_inv_def)
  have pos: "0 < holders s" using holders_pos [OF assms(2)] assms(3) by simp
  then have cnt: "unat (pause_cnt s - 1) = holders s - 1" "pause_cnt s = 1 \<longleftrightarrow> holders s = 1"
    using cnt_dec [of "pause_cnt s"] assms(1) by (auto simp: io_inv_def word_unat_eq_iff)
  show ?thesis
  proof (cases "pause_state s \<in> {Pausing, Unpausing}")
    case True
    then show ?thesis using wait_turn_inv [OF assms] by (auto simp: resume_def)
  next
    case False
    then have st: "pause_state s = Paused \<or> pause_state s = Frozen"
      using pos assms(1) by (cases "pause_state s") (auto simp: io_inv_def)
    then have none: "pausers s = 0" "resumers s = 0" using assms(1) by (auto simp: io_inv_def)
    let ?s = "s\<lparr>pause_cnt := pause_cnt s - 1\<rparr>"
    have fin: "io_inv (resume_done i (?s\<lparr>pause_state := st'\<rparr>))"
      if "st' = Paused \<longrightarrow> 1 < holders s" "st' = Unpaused \<longrightarrow> holders s = 1"
        "st' \<notin> {Pausing, Unpausing}" for st'
      using done_parts [of i "?s\<lparr>pause_state := st'\<rparr>" Gone, OF _ _ _ _ refl] that assms(2,3) w nw cnt
        none pos
      by (cases st') (auto simp: resume_done_def io_inv_def)
    have "io_inv (resume_done i ?s)" if "pause_cnt s \<noteq> 1"
      using fin [of "pause_state s"] st that cnt(2) pos by (cases s) auto
    moreover have "io_inv (set_pc i Awaiting_resume (?s\<lparr>pause_state := Unpausing\<rparr>))"
      if "pause_cnt s = 1"
    proof -
      have "waiters_ok (set_pc i Awaiting_resume (?s\<lparr>pause_state := Unpausing\<rparr>))"
        using waiters_ok_set [of "?s\<lparr>pause_state := Unpausing\<rparr>" i Awaiting_resume] w nw
        by (simp add: is_waiting_def)
      moreover have "list_ex runnable ((callers s)[i := Awaiting_resume])"
        using callers_ex_update [OF assms(2), of runnable Awaiting_resume] by simp
      ultimately show ?thesis
        using that cnt none assms(2,3)
          set_pc_counts [of i "?s\<lparr>pause_state := Unpausing\<rparr>" Awaiting_resume]
        by (simp add: io_inv_def)
    qed
    ultimately show ?thesis
      using st fin [of Frozen] fin [of Unpaused] cnt(2)
      by (auto simp: resume_def Let_def)
  qed
qed

lemma suspend_answered_inv:
  assumes "io_inv s" and "i < length (callers s)" and "callers s ! i = Awaiting_pause"
    and "tolerated (sub_answer env)"
  shows "\<exists>s'. suspend_answered env i s = Some s' \<and> io_inv s'"
proof -
  have "Awaiting_pause \<in> set (callers s)" using assms(2,3) nth_mem by metis
  then have "0 < pausers s" by (auto simp: pausers_def filter_empty_conv)
  then have "pause_state s = Pausing" using assms(1) by (auto simp: io_inv_def split: if_splits)
  then show ?thesis
    using mark_paused_inv [of i s] assms
    by (simp add: suspend_answered_def io_inv_def is_waiting_def)
qed

lemma resume_answered_inv:
  assumes "io_inv s" and "i < length (callers s)" and "callers s ! i = Awaiting_resume"
    and "tolerated (sub_answer env)"
  shows "\<exists>s'. resume_answered env i s = Some s' \<and> io_inv s'"
proof -
  have "Awaiting_resume \<in> set (callers s)" using assms(2,3) nth_mem by metis
  then have "0 < resumers s" by (auto simp: resumers_def filter_empty_conv)
  then have "pause_state s = Unpausing" using assms(1) by (auto simp: io_inv_def split: if_splits)
  then show ?thesis
    using done_parts [of i "s\<lparr>pause_state := Unpaused\<rparr>" Gone, OF _ _ _ _ refl] assms
    by (auto simp: resume_answered_def resume_done_def io_inv_def is_waiting_def)
qed

lemma run_call_inv:
  assumes "io_inv s" and "i < length (callers s)" and "runnable (callers s ! i)"
    and "length (callers s) < 2 ^ 32" and "tolerated (sub_answer env)"
  shows "\<exists>s'. run_call env i s = Some s' \<and> io_inv s'"
proof (cases "callers s ! i")
  case (At_loop op)
  then show ?thesis
    using suspend_inv [OF assms(1,2) _ assms(4)] resume_inv [OF assms(1,2)]
    by (cases op) (auto simp: run_call_def)
next
  case Awaiting_pause
  then show ?thesis using suspend_answered_inv [OF assms(1,2) _ assms(5)] by (simp add: run_call_def)
next
  case Awaiting_resume
  then show ?thesis using resume_answered_inv [OF assms(1,2) _ assms(5)] by (simp add: run_call_def)
qed (use assms(3) in auto)

lemma answer_irrelevant:
  "suspend (env\<lparr>sub_answer := a\<rparr>) i s = suspend env i s"
  "resume (env\<lparr>sub_answer := a\<rparr>) i freeze s = resume env i freeze s"
  by (auto simp: suspend_def resume_def Let_def split: NexusPauseState.splits)

lemma run_call_tolerated:
  "run_call env i s = Some s' \<Longrightarrow> \<exists>env'. tolerated (sub_answer env') \<and> run_call env' i s = Some s'"
proof -
  assume run: "run_call env i s = Some s'"
  show ?thesis
  proof (cases "tolerated (sub_answer env)")
    case False
    then have "run_call (env\<lparr>sub_answer := None\<rparr>) i s = Some s'"
      using run by (auto simp: run_call_def answer_irrelevant suspend_answered_def
          resume_answered_def split: io_pc.splits io_op.splits)
    then show ?thesis by (intro exI [of _ "env\<lparr>sub_answer := None\<rparr>"]) (simp add: tolerated_def)
  qed (use run in blast)
qed

section \<open>Reachable states\<close>

lemma wake_one_length [simp]: "length (callers (wake_one s)) = length (callers s)"
  by (auto simp: wake_one_def split: list.splits io_pc.splits)

lemma run_call_length: "run_call env i s = Some s' \<Longrightarrow> length (callers s') = length (callers s)"
  by (auto simp: run_call_def suspend_def resume_def suspend_answered_def resume_answered_def
      mark_paused_def suspend_done_def resume_done_def wait_turn_def Let_def
      split: io_pc.splits io_op.splits NexusPauseState.splits if_splits)

lemma io_trans_length: "io_trans s s' \<Longrightarrow> length (callers s) \<le> length (callers s')"
  by (induction rule: io_trans.induct) (auto simp: run_call_length)

lemma io_trans_inv:
  assumes "io_trans s s'" and "io_inv s" and "length (callers s') < 2 ^ 32"
  shows "io_inv s'"
  using assms
proof (induction rule: io_trans.induct)
  case (call_suspend s)
  have "(j < Suc (length (callers s)) \<and> is_waiting ((callers s @ [At_loop Op_suspend]) ! j)) =
      (j < length (callers s) \<and> is_waiting (callers s ! j))" for j
    by (auto simp: nth_append is_waiting_def less_Suc_eq)
  then have "waiters_ok (s\<lparr>callers := callers s @ [At_loop Op_suspend]\<rparr>)"
    using call_suspend by (simp add: io_inv_def waiters_ok_alt)
  then show ?case
    using call_suspend by (auto simp: io_inv_def holders_def pausers_def resumers_def)
next
  case (call_resume i s freeze)
  have "waiters_ok (set_pc i (At_loop (Op_resume freeze)) s)"
    using waiters_ok_set [of s i] call_resume by (simp add: io_inv_def is_waiting_def)
  then show ?case
    using set_pc_counts [of i s "At_loop (Op_resume freeze)"] call_resume
      callers_ex_update [of i "callers s" runnable "At_loop (Op_resume freeze)"]
    by (simp add: io_inv_def)
next
  case (run i s env s')
  then show ?case
    using run_call_tolerated [OF run(3)] run_call_inv [OF run(4,1,2)] run_call_length [OF run(3)]
    by fastforce
qed

lemma io_reachable_inv:
  assumes "io_trans\<^sup>*\<^sup>* io_subsystem_new s" and "length (callers s) < 2 ^ 32"
  shows "io_inv s"
  using assms
proof (induction rule: rtranclp_induct)
  case base
  show ?case by (simp add: io_subsystem_new_def io_inv_def holders_def pausers_def resumers_def waiters_ok_def)
next
  case (step s s')
  then show ?case using io_trans_inv io_trans_length by (meson le_less_trans)
qed

lemma length_filter_le_filter:
  "(\<And>x. P x \<Longrightarrow> Q x) \<Longrightarrow> length (filter P xs) \<le> length (filter Q xs)"
  by (induction xs) (auto simp: le_SucI)

text \<open>C26: A pause holds until it is undone. Among fewer than 2^32 callers that suspend and resume
  the subsystem concurrently, as long as one of them has been granted the pause and has not begun to
  undo it, the subsystem counts as paused or frozen and no call is resuming it.\<close>

theorem pause_is_held:
  assumes "io_trans\<^sup>*\<^sup>* io_subsystem_new s" and "length (callers s) < 2 ^ 32"
    and "Held \<in> set (callers s)"
  shows "pause_state s \<in> {Paused, Frozen} \<and> Awaiting_resume \<notin> set (callers s)"
proof -
  have inv: "io_inv s" using io_reachable_inv assms by blast
  obtain i where i: "i < length (callers s)" "callers s ! i = Held"
    using assms(3) by (auto simp: in_set_conv_nth)
  then have pos: "0 < holders s" using holders_pos [OF i(1)] by simp
  have "pause_state s \<noteq> Pausing"
  proof
    assume p: "pause_state s = Pausing"
    then have "pausers s = 1" "holders s = 1" using inv by (auto simp: io_inv_def)
    moreover have "holders (set_pc i Gone s) + 1 = holders s" "pausers (set_pc i Gone s) = pausers s"
      using set_pc_counts [OF i(1), of Gone] i(2) by simp_all
    moreover have "pausers (set_pc i Gone s) \<le> holders (set_pc i Gone s)"
      unfolding pausers_def holders_def by (rule length_filter_le_filter) auto
    ultimately show False by simp
  qed
  then have st: "pause_state s \<in> {Paused, Frozen}"
    using inv pos by (cases "pause_state s") (auto simp: io_inv_def)
  moreover have "resumers s = 0" using st inv by (auto simp: io_inv_def)
  then have "Awaiting_resume \<notin> set (callers s)" by (auto simp: resumers_def filter_empty_conv)
  ultimately show ?thesis by blast
qed

section \<open>Every call returns\<close>

text \<open>The turns of the calls while SPDK answers; a call that waits has no turn.\<close>

inductive io_turn :: "NexusIoSubsystem \<Rightarrow> NexusIoSubsystem \<Rightarrow> bool" where
  "i < length (callers s) \<Longrightarrow> runnable (callers s ! i) \<Longrightarrow> tolerated (sub_answer env) \<Longrightarrow>
   run_call env i s = Some s' \<Longrightarrow> io_turn s s'"

fun weight :: "io_pc \<Rightarrow> nat" where
  "weight (At_loop op) = 3"
| "weight (Waiting op) = 2"
| "weight Awaiting_pause = 2"
| "weight Awaiting_resume = 2"
| "weight _ = 0"

definition work :: "NexusIoSubsystem \<Rightarrow> nat" where
  "work s = sum_list (map weight (callers s))"

lemma work_fields [simp]:
  "work (s\<lparr>pause_state := st\<rparr>) = work s" "work (s\<lparr>pause_cnt := c\<rparr>) = work s"
  "work (s\<lparr>pause_state := st, pause_cnt := c\<rparr>) = work s" "work (s\<lparr>pause_waiters := w\<rparr>) = work s"
  by (simp_all add: work_def)

lemma work_set_pc:
  "i < length (callers s) \<Longrightarrow> work (set_pc i pc s) + weight (callers s ! i) = work s + weight pc"
  using sum_list_update [of i "map weight (callers s)" "weight pc"]
    elem_le_sum_list [of i "map weight (callers s)"]
  by (simp add: work_def map_update)

lemma work_wake_one:
  assumes "waiters_ok s"
  shows "work (wake_one s) \<le> work s + 1"
proof (cases "pause_waiters s")
  case (Cons w ws)
  then obtain op where w: "w < length (callers s)" "callers s ! w = Waiting op"
    using assms by (auto simp: waiters_ok_def)
  then show ?thesis
    using work_set_pc [of w "s\<lparr>pause_waiters := ws\<rparr>" "At_loop op"] Cons by (simp add: wake_one_def)
qed (simp add: wake_one_def)

lemma done_work:
  assumes "i < length (callers s)" and "waiters_ok s" and "\<not> is_waiting (callers s ! i)"
    and "pc \<in> {Held, Gone}" and "2 \<le> weight (callers s ! i)"
  shows "work (wake_one (set_pc i pc s)) < work s"
proof -
  have "\<not> is_waiting pc" using assms(4) by (auto simp: is_waiting_def)
  from work_wake_one [OF waiters_ok_set [OF assms(2,3) this]] work_set_pc [OF assms(1), of pc] assms(4,5)
  show ?thesis by auto
qed

lemma run_call_work:
  assumes "waiters_ok s" and "i < length (callers s)" and "runnable (callers s ! i)"
    and "run_call env i s = Some s'"
  shows "work s' < work s"
proof -
  have nw: "\<not> is_waiting (callers s ! i)" and w2: "2 \<le> weight (callers s ! i)"
    using assms(3) by (cases "callers s ! i"; simp add: is_waiting_def)+
  have fin: "work (wake_one (set_pc i pc t)) < work s"
    if "callers t = callers s" "pause_waiters t = pause_waiters s" "pc \<in> {Held, Gone}" for t pc
  proof -
    have "waiters_ok t" using that(1,2) assms(1) by (simp add: waiters_ok_def)
    then have "work (wake_one (set_pc i pc t)) < work t"
      using done_work [of i t pc] that nw w2 assms(2) by simp
    then show ?thesis using that(1) by (simp add: work_def)
  qed
  have await: "work (set_pc i pc t) < work s"
    if "callers t = callers s" "callers s ! i = At_loop op" "weight pc = 2" for t pc op
    using work_set_pc [of i t pc] that assms(2) by (simp add: work_def)
  show ?thesis
    using assms(3,4) fin await
    by (auto simp: run_call_def suspend_def resume_def suspend_answered_def resume_answered_def
        mark_paused_def suspend_done_def resume_done_def wait_turn_def Let_def
        split: io_pc.splits io_op.splits NexusPauseState.splits if_splits)
qed

lemma io_turn_trans: "io_turn s s' \<Longrightarrow> io_trans s s'"
  by (auto simp: io_turn.simps intro: io_trans.run)

lemma io_turn_progress:
  assumes "io_inv s" and "length (callers s) < 2 ^ 32" and "\<not> set (callers s) \<subseteq> {Held, Gone}"
  shows "\<exists>s'. io_turn s s'"
proof -
  obtain pc where pc: "pc \<in> set (callers s)" "pc \<noteq> Held" "pc \<noteq> Gone" using assms(3) by auto
  have "list_ex runnable (callers s)"
  proof (cases "is_waiting pc")
    case True
    then have "pause_waiters s \<noteq> []"
      using pc(1) assms(1) by (force simp: io_inv_def waiters_ok_alt in_set_conv_nth)
    then show ?thesis using assms(1) by (simp add: io_inv_def)
  next
    case False
    then have "runnable pc" using pc by (cases pc) (auto simp: is_waiting_def)
    then show ?thesis using pc(1) by (auto simp: list_ex_iff)
  qed
  then obtain i where i: "i < length (callers s)" "runnable (callers s ! i)"
    by (auto simp: list_ex_length)
  obtain env :: subsystem_env where env: "tolerated (sub_answer env)"
    using that [of "\<lparr>sub_shared = True, sub_found = True, sub_answer = None\<rparr>"] by (simp add: tolerated_def)
  then show ?thesis
    using run_call_inv [OF assms(1) i assms(2) env] i by (auto intro: io_turn.intros)
qed


section \<open>Examples\<close>

definition ok_env :: subsystem_env where
  "ok_env = \<lparr> sub_shared = True, sub_found = True, sub_answer = None \<rparr>"

text \<open>Two callers: the first pauses the subsystem, the second waits for it.\<close>

definition one_waits :: NexusIoSubsystem where
  "one_waits = \<lparr> pause_state = Pausing, pause_waiters = [1], pause_cnt = 1,
     callers = [Awaiting_pause, Waiting Op_suspend] \<rparr>"

definition one_holds :: NexusIoSubsystem where
  "one_holds = \<lparr> pause_state = Paused, pause_waiters = [], pause_cnt = 1,
     callers = [Held, At_loop Op_suspend] \<rparr>"

lemma one_waits_reachable: "io_trans\<^sup>*\<^sup>* io_subsystem_new one_waits"
proof -
  let ?s1 = "io_subsystem_new\<lparr>callers := [At_loop Op_suspend]\<rparr>"
  let ?s2 = "?s1\<lparr>pause_state := Pausing, pause_cnt := 1, callers := [Awaiting_pause]\<rparr>"
  let ?s3 = "?s2\<lparr>callers := [Awaiting_pause, At_loop Op_suspend]\<rparr>"
  have "io_trans io_subsystem_new ?s1"
    using call_suspend [of io_subsystem_new] by (simp add: io_subsystem_new_def)
  moreover have "io_trans ?s1 ?s2"
    by (rule io_trans.run [where i = 0 and env = ok_env])
      (simp_all add: io_subsystem_new_def run_call_def suspend_def ok_env_def set_pc_def)
  moreover have "io_trans ?s2 ?s3" using call_suspend [of ?s2] by (simp add: io_subsystem_new_def)
  moreover have "io_trans ?s3 one_waits"
    by (rule io_trans.run [where i = 1 and env = ok_env])
      (simp_all add: io_subsystem_new_def run_call_def suspend_def wait_turn_def set_pc_def one_waits_def)
  ultimately show ?thesis by (meson converse_rtranclp_into_rtranclp rtranclp.rtrancl_refl)
qed

lemma one_waits_turn: "io_turn one_waits one_holds"
  by (rule io_turn.intros [where i = 0 and env = ok_env])
    (simp_all add: one_waits_def one_holds_def run_call_def suspend_answered_def mark_paused_def
      suspend_done_def wake_one_def set_pc_def ok_env_def tolerated_def)

theorem pause_is_held_witness:
  "Held \<in> set (callers one_holds) \<and> pause_state one_holds \<in> {Paused, Frozen} \<and>
   Awaiting_resume \<notin> set (callers one_holds)"
proof -
  have "io_trans\<^sup>*\<^sup>* io_subsystem_new one_holds"
    using one_waits_reachable io_turn_trans [OF one_waits_turn] by simp
  moreover have "length (callers one_holds) < 2 ^ 32" and "Held \<in> set (callers one_holds)"
    by (simp_all add: one_holds_def)
  ultimately show ?thesis using pause_is_held by blast
qed


end
