(* ===== verification/Nexus_Bdev.thy ===== *)
theory Nexus_Bdev
  imports Nexus_Io Gpt_Layout Io_Subsystem
begin

text \<open>
  The nexus as a block device (\<open>bdev/nexus/nexus_bdev.rs\<close>): its state, its status, the guard of
  its operations, and the geometry it takes from its children when it is set up and when it is
  resized. The theory proves that the status is the one the documentation promises, that the
  geometry computed by the loop over the children is the intersection of their data partitions, so
  that no I/O of the nexus leaves the data partition of any child, and what a resize changes.

  SPDK's part of the block device is the fields \<open>nx_block_len\<close>, \<open>nx_num_blocks\<close>,
  \<open>nx_required_alignment\<close> and \<open>nx_shared\<close>; the fields of the I/O path (\<open>shutdown_requested\<close>,
  \<open>last_error\<close>) are modelled with the channels.
\<close>

section \<open>The nexus\<close>

datatype NexusState =
    NS_Init | NS_Closed | NS_Open | NS_Reconfiguring | NS_ShuttingDown | NS_Shutdown

datatype NexusStatus = St_Faulted | St_Degraded | St_Online | St_ShuttingDown | St_Shutdown

datatype NexusOperation =
    Op_ReplicaAdd | Op_ReplicaRemove | Op_ReplicaOnline | Op_ReplicaFault | Op_NexusResize
  | Op_NexusSnapshot

fun nexus_status_to_string :: "NexusStatus \<Rightarrow> string" where
  "nexus_status_to_string St_Degraded = ''degraded''"
| "nexus_status_to_string St_Online = ''online''"
| "nexus_status_to_string St_Faulted = ''faulted''"
| "nexus_status_to_string St_ShuttingDown = ''shutting_down''"
| "nexus_status_to_string St_Shutdown = ''shutdown''"

datatype NvmeAnaState =
    Ana_InvalidState | Ana_OptimizedState | Ana_NonOptimizedState | Ana_InaccessibleState
  | Ana_PersistentLossState | Ana_ChangeState

definition ana_from_i32 :: "int \<Rightarrow> NexusError + NvmeAnaState" where
  "ana_from_i32 v =
     (if v = 0 then Inr Ana_InvalidState
      else if v = 1 then Inr Ana_OptimizedState
      else if v = 2 then Inr Ana_NonOptimizedState
      else if v = 3 then Inr Ana_InaccessibleState
      else if v = 4 then Inr Ana_PersistentLossState
      else if v = 15 then Inr Ana_ChangeState
      else Inl (Nexus_InvalidNvmeAnaState v))"

text \<open>The target a nexus is published on; an NBD disk is known by its URI.\<close>

datatype NexusTarget = Target_NbdDisk string | Target_NexusNvmf

datatype Protocol = Protocol_Off | Protocol_Nvmf

text \<open>What an operation does outside the nexus, in order: messages to all channels, commands to the
  device layer, and the events about rebuilds and children.\<close>

datatype nexus_event =
    Ev_traverse chan_msg
  | Ev_device_destroy string
  | Ev_retire_command string
  | Ev_reset_controller string
  | Ev_register_io_device
  | Ev_unregister_io_device
  | Ev_unregister_bdev
  | Ev_rebuild_begin string
  | Ev_rebuild_start string "RebuildMap option"
  | Ev_rebuild_end string RebuildState
  | Ev_online_child string
  | Ev_state_change NexusState NexusState
  | Ev_reconfiguring
  | Ev_share_nvmf
  | Ev_share_nbd
  | Ev_unshare
  | Ev_nbd_destroy string
  | Ev_ptpl_destroy

text \<open>The futures an operation sends to the master core.\<close>

datatype nexus_future =
    Fut_child_retire_routine string bool
  | Fut_child_remove_routine string
  | Fut_disconnect_failed_child string bool
  | Fut_self_shutdown
  | Fut_reset_all_children
  | Fut_notify_rebuild string

text \<open>The nexus with what its operations act on: the registry of the rebuild jobs, the persistent
  store, the events and futures of the operations. \<open>nx_tick\<close> counts the awaits.\<close>

record 's Nexus =
  nx_name :: string
  nx_req_size :: u64
  nx_req_size_exact :: bool
  nx_children :: "NexusChild list"
  nx_nvme_params :: NexusNvmeParams
  nx_uuid :: string
  nx_state :: NexusState
  nx_data_ent_offset :: u64
  nx_label_version :: LabelVersion
  nx_target :: "NexusTarget option"
  nx_has_io_device :: bool
  nx_initiators :: "string list"
  nx_info :: PersistentNexusInfo
  nx_pause_state :: NexusPauseState
  nx_rebuild_history :: "HistoryRecord list"
  nx_block_len :: u32
  nx_num_blocks :: u64
  nx_required_alignment :: u8
  nx_shared :: bool
  nx_jobs :: "(string \<times> RebuildJob) list"
  nx_store :: 's
  nx_events :: "nexus_event list"
  nx_futures :: "nexus_future list"
  nx_tick :: nat

text \<open>The constructor \<open>Nexus::new\<close>. The UUID of the block device is the one given, when it parses, and
  a generated one otherwise; the nexus inherits it unless it has its own.\<close>

definition make_uuid :: "(string \<Rightarrow> string option) \<Rightarrow> string \<Rightarrow> string option \<Rightarrow> string" where
  "make_uuid parse_str generated uuid =
     (case uuid of
        Some s \<Rightarrow> (case parse_str s of Some u \<Rightarrow> u | None \<Rightarrow> generated)
      | None \<Rightarrow> generated)"

definition nexus_new ::
  "(string \<Rightarrow> string option) \<Rightarrow> string \<Rightarrow> string \<Rightarrow> u64 \<Rightarrow> bool \<Rightarrow> string option \<Rightarrow> string option \<Rightarrow>
   NexusNvmeParams \<Rightarrow> string option \<Rightarrow> LabelVersion \<Rightarrow> (string \<times> RebuildJob) list \<Rightarrow> 's \<Rightarrow> 's Nexus" where
  "nexus_new parse_str generated name req_size size_exact bdev_uuid nexus_uuid nvme_params nexus_info_key
     label_version jobs store =
     \<lparr> nx_name = name, nx_req_size = req_size, nx_req_size_exact = size_exact, nx_children = [],
       nx_nvme_params = nvme_params,
       nx_uuid = (case nexus_uuid of
                    Some u \<Rightarrow> u | None \<Rightarrow> make_uuid parse_str generated bdev_uuid),
       nx_state = NS_Init, nx_data_ent_offset = 0, nx_label_version = label_version,
       nx_target = None, nx_has_io_device = False, nx_initiators = [], nx_info = persistent_info_new nexus_info_key,
       nx_pause_state = Unpaused, nx_rebuild_history = [], nx_block_len = 0, nx_num_blocks = 0,
       nx_required_alignment = 9, nx_shared = False, nx_jobs = jobs, nx_store = store, nx_events = [],
       nx_futures = [], nx_tick = 0 \<rparr>"

definition add_initiator :: "string \<Rightarrow> 's Nexus \<Rightarrow> 's Nexus" where
  "add_initiator i n = n\<lparr>nx_initiators := List.insert i (nx_initiators n)\<rparr>"

definition rm_initiator :: "string \<Rightarrow> 's Nexus \<Rightarrow> 's Nexus" where
  "rm_initiator i n = n\<lparr>nx_initiators := filter (\<lambda>j. j \<noteq> i) (nx_initiators n)\<rparr>"

definition initiator_cnt :: "'s Nexus \<Rightarrow> nat" where
  "initiator_cnt n = length (nx_initiators n)"

definition emit :: "nexus_event \<Rightarrow> 's Nexus \<Rightarrow> 's Nexus" where
  "emit e n = n\<lparr>nx_events := nx_events n @ [e]\<rparr>"

definition send_future :: "nexus_future \<Rightarrow> 's Nexus \<Rightarrow> 's Nexus" where
  "send_future f n = n\<lparr>nx_futures := nx_futures n @ [f]\<rparr>"

definition block_len :: "'s Nexus \<Rightarrow> u64" where
  "block_len n = ucast (nx_block_len n)"

text \<open>\<open>req_size_blks\<close>; the division panics as long as the block length is not set.\<close>

definition req_size_blks :: "'s Nexus \<Rightarrow> u64 option" where
  "req_size_blks n = (if block_len n = 0 then None else Some (nx_req_size n div block_len n))"

subsection \<open>State and status\<close>

definition set_state :: "NexusState \<Rightarrow> 's Nexus \<Rightarrow> 's Nexus" where
  "set_state st n = emit (Ev_state_change (nx_state n) st) (n\<lparr>nx_state := st\<rparr>)"

definition set_reset_state :: "'s Nexus \<Rightarrow> bool \<times> 's Nexus" where
  "set_reset_state n =
     (case nx_state n of
        NS_Open \<Rightarrow> (True, emit Ev_reconfiguring (n\<lparr>nx_state := NS_Reconfiguring\<rparr>))
      | _ \<Rightarrow> (False, n))"

definition set_open_state :: "'s Nexus \<Rightarrow> bool \<times> 's Nexus" where
  "set_open_state n =
     (if nx_state n = NS_Reconfiguring \<or> nx_state n = NS_Init then (True, n\<lparr>nx_state := NS_Open\<rparr>)
      else (False, n))"

definition status :: "'s Nexus \<Rightarrow> NexusStatus" where
  "status n =
     (case nx_state n of
        NS_Init \<Rightarrow> St_Degraded
      | NS_Closed \<Rightarrow> St_Faulted
      | NS_ShuttingDown \<Rightarrow> St_ShuttingDown
      | NS_Shutdown \<Rightarrow> St_Shutdown
      | _ \<Rightarrow>
          (if list_all is_healthy (nx_children n) then St_Online
           else if list_ex is_healthy (nx_children n) then St_Degraded
           else St_Faulted))"

definition children_enospc :: "'s Nexus \<Rightarrow> bool" where
  "children_enospc n = list_ex (\<lambda>c. state_is_enospc (nc_state c)) (nx_children n)"

text \<open>\<open>check_nexus_operation\<close> does not look at the operation.\<close>

definition check_nexus_operation :: "NexusOperation \<Rightarrow> 's Nexus \<Rightarrow> NexusError + unit" where
  "check_nexus_operation op n =
     (if nx_state n = NS_ShuttingDown \<or> nx_state n = NS_Shutdown then
        Inl (Nexus_OperationNotAllowed ''Nexus is shutdown'')
      else if nx_pause_state n = Frozen then
        Inl (Nexus_OperationNotAllowed ''Nexus io subsystem is frozen'')
      else Inr ())"

text \<open>\<open>initiator_keep_alive_timeout\<close>; whether resets are enabled is a setting of the process.\<close>

definition initiator_keep_alive_timeout :: "bool \<Rightarrow> string \<Rightarrow> 's Nexus \<Rightarrow> 's Nexus" where
  "initiator_keep_alive_timeout enable_nexus_reset hostnqn n =
     (let n1 = rm_initiator hostnqn n in
      if \<not> enable_nexus_reset then n1
      else if initiator_cnt n1 > 0 then n1
      else
        let (ok, n2) = set_reset_state n1 in
        if \<not> ok then n2 else send_future Fut_reset_all_children n2)"

subsection \<open>I/O types\<close>

definition io_is_supported :: "IoType \<Rightarrow> 's Nexus \<Rightarrow> bool" where
  "io_is_supported io_type n \<longleftrightarrow>
     \<not> list_ex (\<lambda>c. case nc_device c of Some d \<Rightarrow> io_type \<notin> set (cd_io_types d) | None \<Rightarrow> False)
        (nx_children n)"

definition io_type_supported :: "IoType \<Rightarrow> 's Nexus \<Rightarrow> bool" where
  "io_type_supported io_type n =
     (if io_type = IoNvmeAdmin then False
      else if io_type = IoRead \<or> io_type = IoWrite then True
      else if io_type \<in> {IoFlush, IoReset, IoUnmap, IoWriteZeros} then io_is_supported io_type n
      else False)"

section \<open>Geometry\<close>

text \<open>The locals of the loop of \<open>setup_nexus_bdev\<close>.\<close>

record geometry =
  g_start_blk :: u64
  g_end_blk :: u64
  g_blk_size :: u64
  g_min_dev_size :: u64

definition setup_child ::
  "bool \<Rightarrow> 's Nexus \<Rightarrow> NexusChild \<Rightarrow> geometry \<Rightarrow> (NexusError + geometry) option" where
  "setup_child resizing n child g =
     (case nc_device child of
        None \<Rightarrow>
          Some (Inl (Nexus_NexusIncomplete (nx_name n)
                       (''No block device available for child '' @ nc_name child)))
      | Some dev \<Rightarrow>
          let nb = bd_num_blocks dev;
              bs = bd_block_len dev;
              g1 = g\<lparr>g_min_dev_size := min nb (g_min_dev_size g)\<rparr>
          in
          if g_blk_size g1 \<noteq> 0 \<and> bs \<noteq> g_blk_size g1 then
            Some (Inl (Nexus_MixedBlockSizes (nx_name n)))
          else
            let g2 = (if g_blk_size g1 = 0 then g1\<lparr>g_blk_size := bs\<rparr> else g1) in
            case version_data_extent (nx_label_version n) (nx_req_size n) nb bs of
              None \<Rightarrow> None
            | Some (Inl _) \<Rightarrow>
                Some (Inl (Nexus_ChildTooSmall (nc_name child) (nx_name n) nb bs
                             (nx_req_size n div bs)))
            | Some (Inr extent) \<Rightarrow>
                (let start = de_start extent; end = de_end extent in
                 if resizing \<and> end \<le> start + nx_num_blocks n then
                   Some (Inl (Nexus_ChildTooSmall (nc_name child) (nx_name n) nb bs
                                (nx_req_size n div bs)))
                 else if g_start_blk g2 = 0 then
                   Some (Inr (g2\<lparr>g_start_blk := start, g_end_blk := end\<rparr>))
                 else
                   let g3 = g2\<lparr>g_end_blk := min (g_end_blk g2) end\<rparr> in
                   if g_start_blk g3 \<noteq> start then
                     Some (Inl (Nexus_ChildGeometry (nc_name child) (nx_name n)))
                   else Some (Inr g3)))"

primrec setup_loop ::
  "bool \<Rightarrow> 's Nexus \<Rightarrow> NexusChild list \<Rightarrow> geometry \<Rightarrow> (NexusError + geometry) option" where
  "setup_loop resizing n [] g = Some (Inr g)"
| "setup_loop resizing n (c # cs) g =
     do {
       r \<leftarrow> setup_child resizing n c g;
       case r of Inl e \<Rightarrow> Some (Inl e) | Inr g' \<Rightarrow> setup_loop resizing n cs g'
     }"

text \<open>\<open>setup_nexus_bdev\<close>. \<open>notify\<close> is \<open>spdk_bdev_notify_blockcnt_change\<close>: the error it returns, or
  none, in which case SPDK has set the block count.\<close>

definition setup_nexus_bdev ::
  "(u64 \<Rightarrow> Errno option) \<Rightarrow> bool \<Rightarrow> 's Nexus \<Rightarrow> ((NexusError + unit) \<times> 's Nexus) option" where
  "setup_nexus_bdev notify resizing n =
     (if nx_children n = [] then
        Some (Inl (Nexus_NexusIncomplete (nx_name n) ''No child devices''), n)
      else
        do {
          r \<leftarrow> setup_loop resizing n (nx_children n)
                  \<lparr> g_start_blk = 0, g_end_blk = 0, g_blk_size = 0, g_min_dev_size = - 1 \<rparr>;
          case r of
            Inl e \<Rightarrow> Some (Inl e, n)
          | Inr g \<Rightarrow>
              (let size_blks = g_end_blk g - g_start_blk g + 1 in
               if g_blk_size g = 0 then None
               else if nx_req_size_exact n \<and> nx_req_size n div g_blk_size g \<noteq> size_blks then
                 Some (Inl (Nexus_NexusSizeUnmatched (nx_name n) (nx_req_size n)
                              (size_blks * g_blk_size g)), n)
               else
                 let n1 = n\<lparr>nx_data_ent_offset := g_start_blk g, nx_block_len := ucast (g_blk_size g)\<rparr> in
                 if \<not> resizing then Some (Inr (), n1\<lparr>nx_num_blocks := size_blks\<rparr>)
                 else
                   (case notify size_blks of
                      None \<Rightarrow> Some (Inr (), n1\<lparr>nx_num_blocks := size_blks\<rparr>)
                    | Some rc \<Rightarrow> Some (Inl (Nexus_NexusResize rc (nx_name n)), n1)))
        })"

definition nexus_resize ::
  "(u64 \<Rightarrow> Errno option) \<Rightarrow> u64 \<Rightarrow> 's Nexus \<Rightarrow> ((NexusError + unit) \<times> 's Nexus) option" where
  "nexus_resize notify resize_to n =
     (case check_nexus_operation Op_NexusResize n of
        Inl e \<Rightarrow> Some (Inl e, n)
      | Inr _ \<Rightarrow>
          if nx_req_size n = resize_to then Some (Inr (), n)
          else
            do {
              (ret, n1) \<leftarrow> setup_nexus_bdev notify True (n\<lparr>nx_req_size := resize_to\<rparr>);
              Some (ret, if is_ok ret then n1 else n1\<lparr>nx_req_size := nx_req_size n\<rparr>)
            })"

section \<open>The geometry is the intersection of the data partitions\<close>

text \<open>A device with a usual block size that holds at least the two partition tables.\<close>

definition proper_device :: "NexusChild \<Rightarrow> bool" where
  "proper_device c =
     (case nc_device c of
        None \<Rightarrow> True
      | Some d \<Rightarrow> blk_ok (bd_block_len d) \<and>
                  table_blks (bd_block_len d) + 2 \<le> unat (bd_num_blocks d))"

text \<open>The block length and the data partition of a child.\<close>

definition child_extent :: "'s Nexus \<Rightarrow> NexusChild \<Rightarrow> (u64 \<times> DataExtent) option" where
  "child_extent n c =
     (case nc_device c of
        None \<Rightarrow> None
      | Some d \<Rightarrow>
          (case version_data_extent (nx_label_version n) (nx_req_size n) (bd_num_blocks d)
                  (bd_block_len d) of
             Some (Inr x) \<Rightarrow> Some (bd_block_len d, x)
           | _ \<Rightarrow> None))"

definition partition_blocks :: "'s Nexus \<Rightarrow> NexusChild \<Rightarrow> nat set" where
  "partition_blocks n c =
     (case child_extent n c of
        Some (_, x) \<Rightarrow> {unat (de_start x) .. unat (de_end x)}
      | None \<Rightarrow> {})"

lemma child_extent_Some:
  "child_extent n c = Some (bs, x) \<longleftrightarrow>
     (\<exists>d. nc_device c = Some d \<and> bd_block_len d = bs \<and>
        version_data_extent (nx_label_version n) (nx_req_size n) (bd_num_blocks d) bs = Some (Inr x))"
  by (auto simp: child_extent_def split: option.splits sum.splits)

lemma child_extent_facts:
  assumes "proper_device c" "child_extent n c = Some (bs, x)"
  shows "blk_ok bs" "unat (de_start x) = (meta_mib (nx_label_version n) + 1) * mib bs"
    "de_start x \<le> de_end x" "unat (de_end x) + 1 < 18446744073709551616" "de_start x \<noteq> 0"
proof -
  obtain d where d: "nc_device c = Some d" "bd_block_len d = bs"
    and x: "version_data_extent (nx_label_version n) (nx_req_size n) (bd_num_blocks d) bs = Some (Inr x)"
    using assms(2) by (auto simp: child_extent_Some)
  have ok: "blk_ok bs" "table_blks bs + 2 \<le> unat (bd_num_blocks d)"
    using assms(1) d by (auto simp: proper_device_def)
  note e = version_extent_ok [OF ok x [unfolded version_data_extent_def]]
  show "blk_ok bs" by (rule ok(1))
  show s: "unat (de_start x) = (meta_mib (nx_label_version n) + 1) * mib bs" by (rule e(1))
  show "de_start x \<le> de_end x" by (rule e(2))
  show "unat (de_end x) + 1 < 18446744073709551616"
    using e(3) ok(2) unat_lt_64 [of "bd_num_blocks d"] by linarith
  have "0 < unat (de_start x)" using s mib_bounds(1) [OF ok(1)] by simp
  then show "de_start x \<noteq> 0" by (simp add: u64_neq0_nat)
qed

lemma proper_extent_total:
  assumes "proper_device c" "nc_device c = Some d"
  shows "\<exists>r. version_data_extent v req (bd_num_blocks d) (bd_block_len d) = Some r"
  using assms version_extent_spec [of "bd_block_len d" "bd_num_blocks d" v req]
  by (simp add: proper_device_def version_data_extent_def)

text \<open>What the loop accepts of a child, and how the geometry changes.\<close>

definition grows :: "bool \<Rightarrow> 's Nexus \<Rightarrow> DataExtent \<Rightarrow> bool" where
  "grows resizing n x \<longleftrightarrow> (resizing \<longrightarrow> \<not> de_end x \<le> de_start x + nx_num_blocks n)"

lemma setup_child_no_extent:
  assumes "child_extent n c = None"
  shows "setup_child resizing n c g \<noteq> Some (Inr g')"
proof (cases "nc_device c")
  case None
  then show ?thesis by (simp add: setup_child_def)
next
  case (Some d)
  obtain B where B: "g_blk_size g = B" by simp
  have "version_data_extent (nx_label_version n) (nx_req_size n) (bd_num_blocks d)
      (bd_block_len d) \<noteq> Some (Inr x)" for x
    using assms Some by (auto simp: child_extent_def)
  then consider "version_data_extent (nx_label_version n) (nx_req_size n) (bd_num_blocks d)
      (bd_block_len d) = None"
    | e where "version_data_extent (nx_label_version n) (nx_req_size n) (bd_num_blocks d)
      (bd_block_len d) = Some (Inl e)"
    by (metis not_None_eq sumE)
  then show ?thesis
    unfolding setup_child_def Some option.case Let_def by cases simp_all
qed

lemma setup_child_extent:
  assumes "nc_device c = Some d" "child_extent n c = Some (bs, x)"
  shows "setup_child resizing n c g = Some (Inr g') \<longleftrightarrow>
     (g_blk_size g = 0 \<or> g_blk_size g = bs) \<and> grows resizing n x \<and>
     (g_start_blk g = 0 \<or> g_start_blk g = de_start x) \<and>
     g' = \<lparr> g_start_blk = de_start x,
            g_end_blk = (if g_start_blk g = 0 then de_end x else min (g_end_blk g) (de_end x)),
            g_blk_size = bs, g_min_dev_size = min (bd_num_blocks d) (g_min_dev_size g) \<rparr>"
proof -
  have v: "version_data_extent (nx_label_version n) (nx_req_size n) (bd_num_blocks d) bs = Some (Inr x)"
    and b: "bd_block_len d = bs" using assms by (auto simp: child_extent_Some)
  obtain S E B M where g: "g = \<lparr> g_start_blk = S, g_end_blk = E, g_blk_size = B, g_min_dev_size = M \<rparr>"
    by (cases g) auto
  show ?thesis
    unfolding setup_child_def g grows_def Let_def assms(1) option.case b v sum.case
    by (cases "B = 0"; cases "S = 0"; cases "B = bs"; cases "S = de_start x") (simp_all, blast+)
qed

lemma setup_child_total: "proper_device c \<Longrightarrow> \<exists>r. setup_child resizing n c g = Some r"
proof (cases "nc_device c")
  case None
  then show ?thesis by (simp add: setup_child_def)
next
  case (Some d)
  assume "proper_device c"
  then obtain r where "version_data_extent (nx_label_version n) (nx_req_size n) (bd_num_blocks d)
      (bd_block_len d) = Some r"
    using proper_extent_total [OF _ Some] by blast
  with Some show ?thesis by (cases r) (simp_all add: setup_child_def Let_def)
qed

lemma setup_loop_total:
  "list_all proper_device cs \<Longrightarrow> \<exists>r. setup_loop resizing n cs g = Some r"
proof (induction cs arbitrary: g)
  case (Cons c cs)
  then obtain r where "setup_child resizing n c g = Some r"
    using setup_child_total by fastforce
  with Cons show ?case by (cases r) auto
qed simp

text \<open>The children that a loop with known block size and start accepts.\<close>

definition agrees :: "bool \<Rightarrow> 's Nexus \<Rightarrow> u64 \<Rightarrow> u64 \<Rightarrow> NexusChild \<Rightarrow> bool" where
  "agrees resizing n bs start c \<longleftrightarrow>
     (\<exists>x. child_extent n c = Some (bs, x) \<and> de_start x = start \<and> grows resizing n x)"

definition child_end :: "'s Nexus \<Rightarrow> NexusChild \<Rightarrow> u64" where
  "child_end n c = de_end (snd (the (child_extent n c)))"

lemma setup_loop_ok:
  assumes "g_blk_size g \<noteq> 0" "g_start_blk g \<noteq> 0"
  shows "(\<exists>g'. setup_loop resizing n cs g = Some (Inr g') \<and> P (g_start_blk g') (g_end_blk g') (g_blk_size g'))
    \<longleftrightarrow> list_all (agrees resizing n (g_blk_size g) (g_start_blk g)) cs \<and>
        P (g_start_blk g) (foldl min (g_end_blk g) (map (child_end n) cs)) (g_blk_size g)"
  using assms
proof (induction cs arbitrary: g)
  case (Cons c cs)
  show ?case
  proof (cases "agrees resizing n (g_blk_size g) (g_start_blk g) c")
    case True
    then obtain d x where d: "nc_device c = Some d"
      and x: "child_extent n c = Some (g_blk_size g, x)" "de_start x = g_start_blk g" "grows resizing n x"
      by (auto simp: agrees_def child_extent_Some)
    define g1 where "g1 = \<lparr> g_start_blk = g_start_blk g, g_end_blk = min (g_end_blk g) (de_end x),
      g_blk_size = g_blk_size g, g_min_dev_size = min (bd_num_blocks d) (g_min_dev_size g) \<rparr>"
    have "setup_child resizing n c g = Some (Inr g1)"
      unfolding setup_child_extent [OF d x(1)] using x Cons.prems by (simp add: g1_def)
    moreover have "child_end n c = de_end x" using x by (simp add: child_end_def)
    ultimately show ?thesis
      using Cons.IH [of g1] Cons.prems True by (simp add: g1_def)
  next
    case False
    have "setup_child resizing n c g \<noteq> Some (Inr g1)" for g1
    proof (cases "child_extent n c")
      case (Some y)
      then obtain d bs x where "nc_device c = Some d" "child_extent n c = Some (bs, x)"
        by (cases y) (auto simp: child_extent_Some)
      then show ?thesis using False Cons.prems by (auto simp: setup_child_extent agrees_def)
    qed (simp add: setup_child_no_extent)
    then show ?thesis using False
      by (auto split: option.splits sum.splits Option.bind_splits)
  qed
qed simp

lemma setup_loop_start:
  "(\<exists>g'. setup_loop resizing n (c # cs)
       \<lparr> g_start_blk = 0, g_end_blk = 0, g_blk_size = 0, g_min_dev_size = m \<rparr> = Some (Inr g') \<and>
     P (g_start_blk g') (g_end_blk g') (g_blk_size g')) \<longleftrightarrow>
   (\<exists>bs x. child_extent n c = Some (bs, x) \<and> grows resizing n x \<and>
      list_all (agrees resizing n bs (de_start x)) cs \<and>
      P (de_start x) (foldl min (de_end x) (map (child_end n) cs)) bs)"
  if p: "proper_device c"
proof -
  define g where "g = \<lparr> g_start_blk = 0 :: u64, g_end_blk = 0, g_blk_size = 0, g_min_dev_size = m \<rparr>"
  show ?thesis
  proof (cases "\<exists>bs x. child_extent n c = Some (bs, x) \<and> grows resizing n x")
    case True
    then obtain bs x d where x: "child_extent n c = Some (bs, x)" "grows resizing n x"
      and d: "nc_device c = Some d" by (auto simp: child_extent_Some)
    note f = child_extent_facts [OF p x(1)]
    define g1 where "g1 = \<lparr> g_start_blk = de_start x, g_end_blk = de_end x, g_blk_size = bs,
      g_min_dev_size = min (bd_num_blocks d) m \<rparr>"
    have "setup_child resizing n c g = Some (Inr g1)"
      unfolding setup_child_extent [OF d x(1)] using x by (simp add: g_def g1_def)
    then show ?thesis
      using setup_loop_ok [of g1 resizing n cs P] f(5) blk_ok_pos [OF f(1)] x
      by (simp add: g_def g1_def)
  next
    case False
    have "setup_child resizing n c g \<noteq> Some (Inr g1)" for g1
    proof (cases "child_extent n c")
      case (Some y)
      then obtain d bs x where "nc_device c = Some d" "child_extent n c = Some (bs, x)"
        by (cases y) (auto simp: child_extent_Some)
      then show ?thesis using False by (auto simp: setup_child_extent)
    qed (simp add: setup_child_no_extent)
    then show ?thesis using False
      by (auto simp: g_def split: option.splits sum.splits Option.bind_splits)
  qed
qed

text \<open>On proper devices the partitions of a version start at the same block when the block lengths
  agree, so only those have to.\<close>

lemma foldl_min_Min: "foldl min (e :: 'a :: linorder) (map f cs) = Min (insert e (f ` set cs))"
proof -
  have "min x y = min y x" for x y :: 'a by (rule min.commute)
  then show ?thesis
    using Min.set_eq_fold [of e "map f cs"] by (simp add: foldl_conv_fold min.commute)
qed

definition sized :: "bool \<Rightarrow> 's Nexus \<Rightarrow> u64 \<Rightarrow> NexusChild \<Rightarrow> bool" where
  "sized resizing n bs c \<longleftrightarrow> (\<exists>x. child_extent n c = Some (bs, x) \<and> grows resizing n x)"

definition data_start :: "'s Nexus \<Rightarrow> u64 \<Rightarrow> u64" where
  "data_start n bs = of_nat ((meta_mib (nx_label_version n) + 1) * mib bs)"

lemma child_extent_start:
  assumes "proper_device c" "child_extent n c = Some (bs, x)"
  shows "de_start x = data_start n bs"
  using child_extent_facts(2) [OF assms] unfolding data_start_def by (metis word_unat_eq_iff unat_of_nat_64 unat_lt_64)

lemma agrees_sized:
  "proper_device c \<Longrightarrow> agrees resizing n bs (data_start n bs) c \<longleftrightarrow> sized resizing n bs c"
  by (auto simp: agrees_def sized_def child_extent_start)

lemma setup_loop_children:
  assumes "list_all proper_device cs" "cs \<noteq> []"
  shows "(\<exists>g'. setup_loop resizing n cs
       \<lparr> g_start_blk = 0, g_end_blk = 0, g_blk_size = 0, g_min_dev_size = m \<rparr> = Some (Inr g') \<and>
     P (g_start_blk g') (g_end_blk g') (g_blk_size g')) \<longleftrightarrow>
   (\<exists>bs. list_all (sized resizing n bs) cs \<and>
      P (data_start n bs) (Min (child_end n ` set cs)) bs)"
proof -
  obtain c ds where cs: "cs = c # ds" using assms(2) by (cases cs) auto
  have p: "proper_device c" "\<And>b. b \<in> set ds \<Longrightarrow> proper_device b" using assms(1) cs
    by (auto simp: list_all_iff)
  have a: "list_all (agrees resizing n bs (data_start n bs)) ds \<longleftrightarrow> list_all (sized resizing n bs) ds" for bs
    using p(2) agrees_sized [of _ resizing n bs] by (auto simp: list_all_iff)
  have e: "foldl min (de_end x) (map (child_end n) ds) = Min (child_end n ` set cs)"
    if "child_extent n c = Some (bs, x)" for bs x
    using that unfolding foldl_min_Min cs by (simp add: child_end_def)
  show ?thesis
  proof (cases "child_extent n c")
    case None
    then show ?thesis unfolding cs setup_loop_start [OF p(1)] by (simp add: sized_def)
  next
    case (Some y)
    obtain b x where y: "child_extent n c = Some (b, x)" using Some by (cases y) auto
    show ?thesis
      unfolding cs setup_loop_start [OF p(1)]
      using y a [of b] e [OF y] child_extent_start [OF p(1) y] by (auto simp: sized_def cs)
  qed
qed

text \<open>The geometry, described: the children have a data partition and one block length, and the nexus
  has the blocks that are in the data partition of every child.\<close>

definition reference_geometry :: "'s Nexus \<Rightarrow> (u64 \<times> nat set) option" where
  "reference_geometry n =
     (let es = map (child_extent n) (nx_children n) in
      if es \<noteq> [] \<and> list_all (\<lambda>e. e \<noteq> None \<and> fst (the e) = fst (the (hd es))) es
      then Some (fst (the (hd es)), \<Inter> (partition_blocks n ` set (nx_children n)))
      else None)"

lemma reference_geometry_Some:
  "reference_geometry n = Some (bs, B) \<longleftrightarrow>
     nx_children n \<noteq> [] \<and> list_all (sized False n bs) (nx_children n) \<and>
     B = \<Inter> (partition_blocks n ` set (nx_children n))"
proof -
  have "list_all (\<lambda>e. e \<noteq> None \<and> fst (the e) = b) (map (child_extent n) cs) \<longleftrightarrow>
      list_all (sized False n b) cs" for cs b
    by (auto simp: list_all_iff sized_def grows_def)
  then show ?thesis
    by (cases "nx_children n")
      (auto simp: reference_geometry_def Let_def sized_def list_all_iff grows_def split: if_splits, blast)
qed

lemma partition_intersection:
  assumes "list_all proper_device cs" "cs \<noteq> []" "list_all (sized resizing n bs) cs"
  defines "S \<equiv> data_start n bs" and "E \<equiv> Min (child_end n ` set cs)"
  shows "\<Inter> (partition_blocks n ` set cs) = {unat S .. unat E}" "S \<le> E"
    "unat E + 1 < 18446744073709551616" "blk_ok bs"
proof -
  have c: "partition_blocks n c = {unat S .. unat (child_end n c)}" "S \<le> child_end n c"
    "unat (child_end n c) + 1 < 18446744073709551616" "blk_ok bs" if mem: "c \<in> set cs" for c
  proof -
    have p: "proper_device c" using assms(1) mem by (simp add: list_all_iff)
    obtain x where x: "child_extent n c = Some (bs, x)"
      using assms(3) mem by (auto simp: list_all_iff sized_def)
    note f = child_extent_facts [OF p x] and s = child_extent_start [OF p x]
    show "partition_blocks n c = {unat S .. unat (child_end n c)}"
      using x s by (simp add: partition_blocks_def child_end_def S_def)
    show "S \<le> child_end n c" "unat (child_end n c) + 1 < 18446744073709551616" "blk_ok bs"
      using f x s by (simp_all add: child_end_def S_def)
  qed
  have fin: "finite (child_end n ` set cs)" "child_end n ` set cs \<noteq> {}" using assms(2) by auto
  obtain m where m: "m \<in> set cs" "E = child_end n m"
    using Min_in [OF fin] unfolding E_def by blast
  have le: "E \<le> child_end n c" if "c \<in> set cs" for c
    using Min_le [OF fin(1)] that unfolding E_def by blast
  show "S \<le> E" "unat E + 1 < 18446744073709551616" "blk_ok bs" using c m by auto
  have "\<Inter> (partition_blocks n ` set cs) = (\<Inter>c\<in>set cs. {unat S .. unat (child_end n c)})"
    using c(1) by simp
  also have "\<dots> = {unat S .. unat E}"
    using m le by (auto simp: u64_le_nat) (meson le_trans)
  finally show "\<Inter> (partition_blocks n ` set cs) = {unat S .. unat E}" .
qed

lemma block_len_cast: "blk_ok bs \<Longrightarrow> ucast (ucast bs :: u32) = bs"
proof -
  assume "blk_ok bs"
  then have "unat bs \<le> 262144" by (auto simp: blk_ok_def intro: dvd_imp_le)
  then show ?thesis
    by (simp add: u64_eq_nat unsigned_ucast_eq unsigned_take_bit_eq take_bit_nat_eq_self)
qed

text \<open>What \<open>setup_nexus_bdev\<close> does, over the children.\<close>

definition new_geometry :: "'s Nexus \<Rightarrow> u64 \<Rightarrow> 's Nexus" where
  "new_geometry n bs =
     n\<lparr>nx_data_ent_offset := data_start n bs, nx_block_len := ucast bs,
       nx_num_blocks := Min (child_end n ` set (nx_children n)) - data_start n bs + 1\<rparr>"

lemma new_geometry_blocks:
  assumes "list_all proper_device (nx_children n)" "nx_children n \<noteq> []"
    and "list_all (sized resizing n bs) (nx_children n)"
  shows "{unat (nx_data_ent_offset (new_geometry n bs)) ..<
          unat (nx_data_ent_offset (new_geometry n bs)) + unat (nx_num_blocks (new_geometry n bs))} =
         \<Inter> (partition_blocks n ` set (nx_children n))"
    "block_len (new_geometry n bs) = bs"
    "unat (nx_num_blocks (new_geometry n bs)) =
       card (\<Inter> (partition_blocks n ` set (nx_children n)))"
proof -
  define S E where "S = data_start n bs" and "E = Min (child_end n ` set (nx_children n))"
  note i = partition_intersection [OF assms, folded S_def E_def]
  have "unat (E - S) = unat E - unat S" using i(2) by (simp add: unat_sub_64 u64_le_nat)
  then have u: "unat (E - S + 1) = unat E - unat S + 1"
    using i(3) by (simp add: unat_add_64)
  have le: "unat S \<le> unat E" using i(2) by (simp add: u64_le_nat)
  show "{unat (nx_data_ent_offset (new_geometry n bs)) ..<
          unat (nx_data_ent_offset (new_geometry n bs)) + unat (nx_num_blocks (new_geometry n bs))} =
         \<Inter> (partition_blocks n ` set (nx_children n))"
    unfolding i(1) using u le by (auto simp: new_geometry_def S_def [symmetric] E_def [symmetric])
  show "unat (nx_num_blocks (new_geometry n bs)) =
       card (\<Inter> (partition_blocks n ` set (nx_children n)))"
    unfolding i(1) using u le by (simp add: new_geometry_def S_def [symmetric] E_def [symmetric])
  show "block_len (new_geometry n bs) = bs"
    using block_len_cast [OF i(4)] by (simp add: new_geometry_def block_len_def)
qed

lemma setup_cases:
  assumes "list_all proper_device (nx_children n)"
  obtains (refused) e where "setup_nexus_bdev notify resizing n = Some (Inl e, n)"
      "\<nexists>bs. nx_children n \<noteq> [] \<and> list_all (sized resizing n bs) (nx_children n)"
  | (sized) bs where "nx_children n \<noteq> []" "list_all (sized resizing n bs) (nx_children n)" "blk_ok bs"
      "setup_nexus_bdev notify resizing n =
         Some (let n' = new_geometry n bs in
           if nx_req_size_exact n \<and> nx_req_size n div bs \<noteq> nx_num_blocks n' then
             (Inl (Nexus_NexusSizeUnmatched (nx_name n) (nx_req_size n) (nx_num_blocks n' * bs)), n)
           else if \<not> resizing then (Inr (), n')
           else (case notify (nx_num_blocks n') of
                   None \<Rightarrow> (Inr (), n')
                 | Some rc \<Rightarrow> (Inl (Nexus_NexusResize rc (nx_name n)),
                               n\<lparr>nx_data_ent_offset := data_start n bs,
                                 nx_block_len := ucast bs\<rparr>)))"
proof (cases "nx_children n = []")
  case True
  then show ?thesis by (intro refused) (auto simp: setup_nexus_bdev_def)
next
  case ne: False
  define g0 :: geometry
    where "g0 = \<lparr> g_start_blk = 0, g_end_blk = 0, g_blk_size = 0, g_min_dev_size = - 1 \<rparr>"
  obtain r where r: "setup_loop resizing n (nx_children n) g0 = Some r"
    using setup_loop_total [OF assms] by blast
  note L = setup_loop_children [OF assms ne, of resizing n "- 1", folded g0_def]
  show ?thesis
  proof (cases r)
    case (Inl e)
    have "\<nexists>bs. list_all (sized resizing n bs) (nx_children n)"
      using L [of "\<lambda>_ _ _. True"] r Inl by simp
    then show ?thesis using r Inl ne
      by (intro refused) (auto simp: setup_nexus_bdev_def g0_def)
  next
    case (Inr g)
    obtain bs where bs: "list_all (sized resizing n bs) (nx_children n)" "g_start_blk g = data_start n bs"
      "g_end_blk g = Min (child_end n ` set (nx_children n))" "g_blk_size g = bs"
      using L [of "\<lambda>s e b. s = g_start_blk g \<and> e = g_end_blk g \<and> b = g_blk_size g"] r Inr by auto
    have ok: "blk_ok bs" by (rule partition_intersection(4) [OF assms ne bs(1)])
    show ?thesis
    proof (rule sized [OF ne bs(1) ok])
      show "setup_nexus_bdev notify resizing n =
         Some (let n' = new_geometry n bs in
           if nx_req_size_exact n \<and> nx_req_size n div bs \<noteq> nx_num_blocks n' then
             (Inl (Nexus_NexusSizeUnmatched (nx_name n) (nx_req_size n) (nx_num_blocks n' * bs)), n)
           else if \<not> resizing then (Inr (), n')
           else (case notify (nx_num_blocks n') of
                   None \<Rightarrow> (Inr (), n')
                 | Some rc \<Rightarrow> (Inl (Nexus_NexusResize rc (nx_name n)),
                               n\<lparr>nx_data_ent_offset := data_start n bs,
                                 nx_block_len := ucast bs\<rparr>)))"
        using r Inr ne bs(2-4) blk_ok_pos [OF ok]
        by (simp add: setup_nexus_bdev_def g0_def new_geometry_def Let_def split: option.split)
    qed
  qed
qed

section \<open>Resizing\<close>

text \<open>A nexus with the geometry that setting it up gives.\<close>

definition set_up :: "'s Nexus \<Rightarrow> bool" where
  "set_up n \<longleftrightarrow>
     (\<exists>bs. nx_children n \<noteq> [] \<and> list_all (sized False n bs) (nx_children n) \<and>
        new_geometry n bs = n)"

lemma child_extent_cong:
  "nx_label_version m = nx_label_version n \<Longrightarrow> nx_req_size m = nx_req_size n \<Longrightarrow>
   child_extent m c = child_extent n c"
  by (simp add: child_extent_def cong: option.case_cong)

lemma new_geometry_simps [simp]:
  "child_extent (new_geometry n bs) = child_extent n"
  "child_end (new_geometry n bs) = child_end n"
  "data_start (new_geometry n bs) = data_start n"
  "nx_children (new_geometry n bs) = nx_children n"
  "nx_req_size (new_geometry n bs) = nx_req_size n"
  "sized False (new_geometry n bs) = sized False n"
proof -
  show e: "child_extent (new_geometry n bs) = child_extent n"
    by (rule ext, rule child_extent_cong) (simp_all add: new_geometry_def)
  show "child_end (new_geometry n bs) = child_end n" by (simp add: child_end_def e fun_eq_iff)
  show "sized False (new_geometry n bs) = sized False n"
    by (simp add: sized_def grows_def e fun_eq_iff)
qed (simp_all add: new_geometry_def data_start_def fun_eq_iff)

lemma sized_set_up:
  assumes "nx_children n \<noteq> []" "list_all (sized resizing n bs) (nx_children n)"
  shows "set_up (new_geometry n bs)"
proof -
  have "list_all (sized False n bs) (nx_children n)"
    using assms(2) by (auto simp: list_all_iff sized_def grows_def)
  moreover have "new_geometry (new_geometry n bs) bs = new_geometry n bs"
    unfolding new_geometry_def [of "new_geometry n bs"] new_geometry_simps
    by (simp add: new_geometry_def)
  ultimately show ?thesis using assms(1) by (auto simp: set_up_def)
qed

lemma sized_device: "sized resizing n bs c \<Longrightarrow> \<exists>d. nc_device c = Some d \<and> bd_block_len d = bs"
  by (auto simp: sized_def child_extent_Some)

lemma resized_start:
  assumes "nx_children n \<noteq> []" "list_all proper_device (nx_children n)" "set_up n"
    and "list_all (sized resizing (n\<lparr>nx_req_size := sz\<rparr>) bs) (nx_children n)"
  shows "data_start n bs = nx_data_ent_offset n" "ucast bs = nx_block_len n"
    "list_all (sized False n bs) (nx_children n)" "new_geometry n bs = n"
proof -
  obtain b where b: "list_all (sized False n b) (nx_children n)" "new_geometry n b = n"
    using assms(3) by (auto simp: set_up_def)
  obtain c where c: "c \<in> set (nx_children n)" using assms(1) by (cases "nx_children n") auto
  have "sized False n b c" "sized resizing (n\<lparr>nx_req_size := sz\<rparr>) bs c"
    using b(1) assms(4) c by (simp_all add: list_all_iff)
  then have "b = bs" by (auto dest!: sized_device)
  with b show "list_all (sized False n bs) (nx_children n)" and g: "new_geometry n bs = n" by auto
  show "data_start n bs = nx_data_ent_offset n"
    using arg_cong [OF g, of nx_data_ent_offset] by (simp add: new_geometry_def)
  show "ucast bs = nx_block_len n"
    using arg_cong [OF g, of nx_block_len] by (simp add: new_geometry_def)
qed

text \<open>The smallest block count that a resize accepts.\<close>

lemma grown:
  assumes "nx_children n \<noteq> []" "list_all proper_device (nx_children n)" "set_up n"
    and s: "list_all (sized True (n\<lparr>nx_req_size := sz\<rparr>) bs) (nx_children n)"
  shows "unat (nx_num_blocks n) + 2 \<le> unat (nx_num_blocks (new_geometry (n\<lparr>nx_req_size := sz\<rparr>) bs))"
proof -
  define m where "m = n\<lparr>nx_req_size := sz\<rparr>"
  define S where "S = data_start n bs"
  have ms: "nx_children m = nx_children n" "data_start m = data_start n" "nx_num_blocks m = nx_num_blocks n"
    by (simp_all add: m_def data_start_def fun_eq_iff)
  note r = resized_start [OF assms(1-3) s]
  note I = partition_intersection [OF assms(2,1) r(3)]
    and J = partition_intersection [OF assms(2,1) s, folded m_def, unfolded ms]
  have n: "unat (nx_num_blocks n) = unat (Min (child_end n ` set (nx_children n))) - unat S + 1"
    and m: "unat (nx_num_blocks (new_geometry m bs)) =
      unat (Min (child_end m ` set (nx_children n))) - unat S + 1"
    using new_geometry_blocks(3) [OF assms(2,1) r(3)] r(4) I(1,2)
      new_geometry_blocks(3) [of m True bs] assms(1,2) s J(1,2)
    by (simp_all add: ms m_def [symmetric] S_def u64_le_nat)
  have fin: "finite (child_end m ` set (nx_children n))" "child_end m ` set (nx_children n) \<noteq> {}"
    using assms(1) by auto
  obtain c where c: "c \<in> set (nx_children n)" "Min (child_end m ` set (nx_children n)) = child_end m c"
    using Min_in [OF fin] by blast
  obtain x where x: "child_extent m c = Some (bs, x)" "grows True m x"
    using s c(1) by (auto simp: list_all_iff sized_def m_def)
  have p: "proper_device c" using assms(2) c(1) by (simp add: list_all_iff)
  have "\<not> child_end m c \<le> S + nx_num_blocks n"
    using x child_extent_start [OF p x(1)] ms by (simp add: grows_def child_end_def S_def)
  moreover have "unat (S + nx_num_blocks n) = unat S + unat (nx_num_blocks n)"
    using n I(2,3) by (subst unat_add_64) (auto simp: S_def u64_le_nat)
  ultimately have "unat S + unat (nx_num_blocks n) < unat (child_end m c)"
    by (simp add: u64_le_nat)
  then show ?thesis using m c(2) by (simp add: m_def [symmetric])
qed

section \<open>Properties\<close>

text \<open>Two children of 16 MiB and 20 MiB, and a nexus over them.\<close>

definition sized_child :: "string \<Rightarrow> u64 \<Rightarrow> NexusChild" where
  "sized_child name nb =
     \<lparr> nc_parent = ''nexus'', nc_state = CS_Open, nc_sync_state = Synced,
       nc_destroy_state = Destroy_None, nc_faulted_at = None, nc_remove_channel = [],
       nc_name = name,
       nc_device = Some \<lparr> bd_device_name = name @ ''n1'', bd_num_blocks = nb, bd_block_len = 512,
         bd_size_in_bytes = nb * 512, cd_driver_name = ''nvme'', cd_alignment = 512,
         cd_io_types = [IoRead, IoWrite] \<rparr>,
       nc_device_descriptor = Some (name @ ''n1''), nc_io_log = None \<rparr>"

definition sample_params :: NexusNvmeParams where
  "sample_params = \<lparr> np_min_cntlid = 1, np_max_cntlid = 0xffef, np_resv_key = 0,
     np_preempt_key = None, np_resv_type = Resv_WriteExclusiveAllRegs,
     np_preempt_policy = Preempt_ArgKey \<rparr>"

definition sample_nexus :: "u64 \<Rightarrow> NexusChild list \<Rightarrow> unit Nexus" where
  "sample_nexus req cs =
     (nexus_new (\<lambda>_. None) ''u'' ''nexus'' req False None None sample_params None V1 [] ())
       \<lparr>nx_children := cs, nx_state := NS_Open\<rparr>"

lemma sized_child_proper: "32768 \<le> unat nb \<Longrightarrow> proper_device (sized_child name nb)"
  using sample_device by (simp add: proper_device_def sized_child_def)

lemma two_children_proper:
  "list_all proper_device [sized_child ''a'' 32768, sized_child ''b'' 40960]"
  by (simp add: sized_child_proper)

lemma two_children_setup:
  "setup_nexus_bdev (\<lambda>_. None) False
     (sample_nexus (- 1) [sized_child ''a'' 32768, sized_child ''b'' 40960]) =
   Some (Inr (), (sample_nexus (- 1) [sized_child ''a'' 32768, sized_child ''b'' 40960])
     \<lparr>nx_data_ent_offset := 10240, nx_block_len := 512, nx_num_blocks := 22495\<rparr>)"
  by code_simp

text \<open>C28: Setting up the block device of a nexus succeeds exactly when there are children, each has a
  data partition, and all have one block length (and, for an exact size, the requested blocks are
  those found). Then the blocks of the nexus, at its data offset, are the blocks common to the data
  partitions of all children; otherwise the nexus is unchanged. It never panics.\<close>

theorem setup_is_intersection:
  assumes "list_all proper_device (nx_children n)"
  shows "\<exists>r n'. setup_nexus_bdev notify False n = Some (r, n') \<and>
    (case reference_geometry n of
       None \<Rightarrow> \<not> is_ok r \<and> n' = n
     | Some (bs, B) \<Rightarrow>
         if nx_req_size_exact n \<and> unat (nx_req_size n div bs) \<noteq> card B then \<not> is_ok r \<and> n' = n
         else is_ok r \<and> block_len n' = bs \<and>
              {unat (nx_data_ent_offset n') ..< unat (nx_data_ent_offset n') + unat (nx_num_blocks n')} = B \<and>
              n' = n\<lparr>nx_data_ent_offset := nx_data_ent_offset n', nx_block_len := nx_block_len n',
                     nx_num_blocks := nx_num_blocks n'\<rparr>)"
  using assms
proof (cases rule: setup_cases [where notify = notify and resizing = False])
  case (refused e)
  have "reference_geometry n = None"
    using refused(2) reference_geometry_Some [of n] by (metis not_None_eq surj_pair)
  with refused show ?thesis by simp
next
  case (sized bs)
  have r: "reference_geometry n = Some (bs, \<Inter> (partition_blocks n ` set (nx_children n)))"
    using sized by (simp add: reference_geometry_Some)
  note b = new_geometry_blocks [OF assms sized(1,2)]
  have u: "nx_req_size n div bs \<noteq> nx_num_blocks (new_geometry n bs) \<longleftrightarrow>
      unat (nx_req_size n div bs) \<noteq> card (\<Inter> (partition_blocks n ` set (nx_children n)))"
    using b(3) by (simp add: u64_eq_nat)
  show ?thesis
    unfolding r sized(4) using b u by (simp add: Let_def new_geometry_def)
qed

theorem setup_is_intersection_witness:
  "\<exists>n' B. setup_nexus_bdev (\<lambda>_. None) False
       (sample_nexus (- 1) [sized_child ''a'' 32768, sized_child ''b'' 40960]) = Some (Inr (), n') \<and>
     reference_geometry (sample_nexus (- 1) [sized_child ''a'' 32768, sized_child ''b'' 40960]) =
       Some (512, B) \<and> card B = 22495"
proof -
  let ?n = "sample_nexus (- 1) [sized_child ''a'' 32768, sized_child ''b'' 40960]"
  have p: "list_all proper_device (nx_children ?n)"
    using two_children_proper by (simp add: sample_nexus_def)
  obtain r n' where s: "setup_nexus_bdev (\<lambda>_. None) False ?n = Some (r, n')"
    and c: "case reference_geometry ?n of
       None \<Rightarrow> \<not> is_ok r \<and> n' = ?n
     | Some (bs, B) \<Rightarrow>
         if nx_req_size_exact ?n \<and> unat (nx_req_size ?n div bs) \<noteq> card B then \<not> is_ok r \<and> n' = ?n
         else is_ok r \<and> block_len n' = bs \<and>
              {unat (nx_data_ent_offset n') ..< unat (nx_data_ent_offset n') + unat (nx_num_blocks n')} = B \<and>
              n' = ?n\<lparr>nx_data_ent_offset := nx_data_ent_offset n', nx_block_len := nx_block_len n',
                     nx_num_blocks := nx_num_blocks n'\<rparr>"
    using setup_is_intersection [OF p, of "\<lambda>_. None"] by blast
  have "r = Inr ()" "block_len n' = 512" "nx_data_ent_offset n' = 10240" "nx_num_blocks n' = 22495"
    using s unfolding two_children_setup by (auto simp: block_len_def)
  with s c show ?thesis by (fastforce split: option.splits if_splits)
qed

text \<open>C29: An I/O that stays within the block count of a nexus that has been set up or resized is
  submitted, after the data offset is added, to blocks inside the data partition of every child: the
  addition does not wrap, and neither the labels at the beginning nor those at the end of a child
  are touched.\<close>

theorem nexus_io_in_data_partition:
  assumes "list_all proper_device (nx_children n)"
    and "setup_nexus_bdev notify resizing n = Some (Inr (), n')" and "c \<in> set (nx_children n)"
    and "n_data_ent_offset s = nx_data_ent_offset n'"
    and "unat (bio_offset (n_bios s ! b)) + unat (bio_num_blocks (n_bios s ! b)) \<le> unat (nx_num_blocks n')"
  shows "\<exists>d. nc_device c = Some d \<and> bd_block_len d = block_len n' \<and>
    {unat (effective_offset s b) ..< unat (effective_offset s b) + unat (bio_num_blocks (n_bios s ! b))}
      \<subseteq> partition_blocks n c \<and>
    partition_blocks n c \<subseteq> {2 * mib (bd_block_len d) ..<
      unat (bd_num_blocks d) - table_blks (bd_block_len d) - 1}"
  using assms(1)
proof (cases rule: setup_cases [where notify = notify and resizing = resizing])
  case (refused e)
  with assms(2) show ?thesis by simp
next
  case (sized bs)
  have n': "n' = new_geometry n bs"
    using assms(2) sized(4) by (auto simp: Let_def split: if_splits option.splits)
  note g = new_geometry_blocks [OF assms(1) sized(1,2), folded n']
  have p: "proper_device c" using assms(1,3) by (simp add: list_all_iff)
  obtain x where x: "child_extent n c = Some (bs, x)"
    using sized(2) assms(3) by (auto simp: list_all_iff sized_def)
  then obtain d where d: "nc_device c = Some d" "bd_block_len d = bs"
    and v: "version_data_extent (nx_label_version n) (nx_req_size n) (bd_num_blocks d) bs = Some (Inr x)"
    by (auto simp: child_extent_Some)
  have ok: "blk_ok bs" "table_blks bs + 2 \<le> unat (bd_num_blocks d)"
    using p d by (auto simp: proper_device_def)
  have room: "2 * mib bs \<le> unat (de_start x)" "unat (de_end x) + table_blks bs + 2 \<le> unat (bd_num_blocks d)"
    using version_extent_room [OF ok v] by auto
  have sub: "{unat (nx_data_ent_offset n') ..< unat (nx_data_ent_offset n') + unat (nx_num_blocks n')}
      \<subseteq> partition_blocks n c"
    unfolding g(1) using assms(3) by blast
  have px: "partition_blocks n c = {unat (de_start x) .. unat (de_end x)}"
    using x by (simp add: partition_blocks_def)
  show ?thesis
  proof (intro exI conjI)
    show "nc_device c = Some d" "bd_block_len d = block_len n'" using d g(2) by auto
    show "partition_blocks n c \<subseteq> {2 * mib (bd_block_len d) ..<
      unat (bd_num_blocks d) - table_blks (bd_block_len d) - 1}"
      unfolding px d(2) using room by auto
    show "{unat (effective_offset s b) ..< unat (effective_offset s b) + unat (bio_num_blocks (n_bios s ! b))}
      \<subseteq> partition_blocks n c"
    proof (cases "unat (bio_num_blocks (n_bios s ! b)) = 0")
      case False
      have "unat (nx_data_ent_offset n') + unat (nx_num_blocks n') - 1 \<in> partition_blocks n c"
        using sub assms(5) False by (auto intro!: subsetD [OF sub])
      then have "unat (nx_data_ent_offset n') + unat (nx_num_blocks n') - 1 \<le> unat (de_end x)"
        unfolding px by simp
      then have "unat (bio_offset (n_bios s ! b)) + unat (nx_data_ent_offset n') < 18446744073709551616"
        using assms(5) False unat_lt_64 [of "de_end x"] by linarith
      then have "unat (effective_offset s b) = unat (bio_offset (n_bios s ! b)) + unat (nx_data_ent_offset n')"
        using assms(4) by (simp add: effective_offset_def unat_add_64)
      then show ?thesis using assms(5) by (intro order_trans [OF _ sub]) auto
    qed simp
  qed
qed

definition sample_nio :: "unit nio" where
  "sample_nio =
     \<lparr> n_children = [], n_channels = [], n_queues = [], n_bios = [bio_new 0 IoWrite 22000 495],
       n_child_ios = [], n_done = [], n_last_error = IoSuccess, n_shutdown_requested = False,
       n_data_ent_offset = 10240, n_tasks = [], n_lock = None, n_info = persistent_info_new None,
       n_store = (), n_jobs = [] \<rparr>"

theorem nexus_io_in_data_partition_witness:
  "\<exists>d. nc_device (sized_child ''a'' 32768) = Some d \<and>
     {unat (effective_offset sample_nio 0) ..< unat (effective_offset sample_nio 0) + 495}
       \<subseteq> {2 * mib (bd_block_len d) ..< unat (bd_num_blocks d) - table_blks (bd_block_len d) - 1}"
proof -
  let ?n = "sample_nexus (- 1) [sized_child ''a'' 32768, sized_child ''b'' 40960]"
  have p: "list_all proper_device (nx_children ?n)" and c: "sized_child ''a'' 32768 \<in> set (nx_children ?n)"
    using two_children_proper by (simp_all add: sample_nexus_def)
  show ?thesis
    using nexus_io_in_data_partition [OF p two_children_setup c, of sample_nio 0]
    by (fastforce simp: sample_nio_def bio_new_def)
qed

text \<open>C30: A resize always returns. A resize that fails leaves the nexus as it was, requested size
  included. One that succeeds keeps the data offset and the block length, gives the nexus the
  geometry that a fresh setup with the new size would give, and grows it by at least two blocks; a
  resize to the current size changes nothing.\<close>

theorem resize_grows_or_keeps:
  assumes "list_all proper_device (nx_children n)" and "set_up n"
  shows "\<exists>r n'. nexus_resize notify sz n = Some (r, n') \<and>
    (if is_ok r then
       n' = n \<and> nx_req_size n = sz \<or>
       nx_req_size n' = sz \<and> set_up n' \<and> nx_data_ent_offset n' = nx_data_ent_offset n \<and>
       nx_block_len n' = nx_block_len n \<and> unat (nx_num_blocks n) + 2 \<le> unat (nx_num_blocks n')
     else n' = n)"
proof (cases "is_ok (check_nexus_operation Op_NexusResize n) \<and> nx_req_size n \<noteq> sz")
  case False
  then show ?thesis
    by (cases "check_nexus_operation Op_NexusResize n") (simp_all add: nexus_resize_def)
next
  case True
  define m where "m = n\<lparr>nx_req_size := sz\<rparr>"
  have m: "nx_children m = nx_children n" "m\<lparr>nx_req_size := nx_req_size n\<rparr> = n" by (simp_all add: m_def)
  have R: "nexus_resize notify sz n = do {
      (ret, n1) \<leftarrow> setup_nexus_bdev notify True m;
      Some (ret, if is_ok ret then n1 else n1\<lparr>nx_req_size := nx_req_size n\<rparr>) }"
    using True by (auto simp: nexus_resize_def m_def split: sum.splits)
  have "list_all proper_device (nx_children m)" using assms(1) m by simp
  then show ?thesis
  proof (cases rule: setup_cases [where notify = notify and resizing = True])
    case (refused e)
    then show ?thesis using m by (simp add: R)
  next
    case (sized bs)
    have ne: "nx_children n \<noteq> []" and sz: "list_all (sized True m bs) (nx_children n)"
      using sized m by auto
    note r = resized_start [OF ne assms sz [unfolded m_def]]
      and g = grown [OF ne assms sz [unfolded m_def], folded m_def]
    have geo: "nx_data_ent_offset (new_geometry m bs) = nx_data_ent_offset n"
      "nx_block_len (new_geometry m bs) = nx_block_len n" "nx_req_size (new_geometry m bs) = sz"
      using r by (simp_all add: new_geometry_def m_def data_start_def)
    have same: "m\<lparr>nx_data_ent_offset := data_start m bs, nx_block_len := ucast bs,
        nx_req_size := nx_req_size n\<rparr> = n"
      using r by (simp add: m_def data_start_def)
    show ?thesis
    proof (cases "nx_req_size_exact m \<and> nx_req_size m div bs \<noteq> nx_num_blocks (new_geometry m bs)")
      case True
      then show ?thesis using m by (auto simp: R sized(4) Let_def)
    next
      case False
      then show ?thesis
        using geo g same sized_set_up [OF sized(1,2)]
        by (cases "notify (nx_num_blocks (new_geometry m bs))") (auto simp: R sized(4) Let_def)
    qed
  qed
qed

definition thousand_blocks :: "unit Nexus" where
  "thousand_blocks =
     (sample_nexus 512000 [sized_child ''a'' 32768])
       \<lparr>nx_data_ent_offset := 10240, nx_block_len := 512, nx_num_blocks := 1000\<rparr>"

lemma thousand_blocks_set_up: "set_up thousand_blocks" "list_all proper_device (nx_children thousand_blocks)"
proof -
  let ?n = "sample_nexus 512000 [sized_child ''a'' 32768]"
  have p: "list_all proper_device (nx_children ?n)"
    by (simp add: sample_nexus_def sized_child_proper)
  have s: "setup_nexus_bdev (\<lambda>_. None) False ?n = Some (Inr (), thousand_blocks)" by code_simp
  show "list_all proper_device (nx_children thousand_blocks)"
    by (simp add: thousand_blocks_def sample_nexus_def sized_child_proper)
  show "set_up thousand_blocks"
    using p
  proof (cases rule: setup_cases [where notify = "\<lambda>_. None" and resizing = False])
    case (sized bs)
    then show ?thesis using s sized_set_up [OF sized(1,2)]
      by (auto simp: Let_def split: if_splits)
  qed (use s in simp)
qed

theorem resize_grows_or_keeps_witness:
  "\<exists>n'. nexus_resize (\<lambda>_. None) 513024 thousand_blocks = Some (Inr (), n') \<and> nx_num_blocks n' = 1002 \<and>
     set_up n' \<and> nx_data_ent_offset n' = 10240"
proof -
  have "nexus_resize (\<lambda>_. None) 513024 thousand_blocks =
      Some (Inr (), thousand_blocks\<lparr>nx_req_size := 513024, nx_num_blocks := 1002\<rparr>)" by code_simp
  then show ?thesis
    using resize_grows_or_keeps [OF thousand_blocks_set_up(2,1), of "\<lambda>_. None" 513024]
    by (auto simp: thousand_blocks_def sample_nexus_def nexus_new_def)
qed

text \<open>A resize that asks for one more block is refused as if the child were too small, although the
  data partition that the child provides has that block: the check compares the last block of the new
  partition with one block past the current end.\<close>

theorem resize_by_one_block_refused:
  "version_data_extent V1 512512 32768 512 = Some (Inr \<lparr> de_start = 10240, de_end = 11240 \<rparr>) \<and>
   de_size \<lparr> de_start = 10240, de_end = 11240 \<rparr> = nx_num_blocks thousand_blocks + 1 \<and>
   nexus_resize (\<lambda>_. None) 512512 thousand_blocks =
     Some (Inl (Nexus_ChildTooSmall ''a'' ''nexus'' 32768 512 1001), thousand_blocks)"
  by code_simp

end
