(* ===== verification/Nexus_Ops.thy ===== *)
theory Nexus_Ops
  imports Nexus_Bdev
begin

text \<open>
  The management operations of a nexus on its children and their rebuilds
  (\<open>bdev/nexus/nexus_bdev_children.rs\<close>, \<open>nexus_bdev_rebuild.rs\<close>, and \<open>pause\<close>, \<open>resume\<close> of
  \<open>nexus_bdev.rs\<close>): adding, removing, faulting and onlining a child, starting, stopping and
  completing a rebuild.

  The operations are asynchronous functions that all run on one core. Whenever one awaits, other
  operations of the same nexus may run; what they do is the parameter \<open>ne_others\<close>, applied at every
  await, so that an operation is analysed under arbitrary interleavings. What the device layer, the
  persistent store and the I/O subsystem answer at an await is a parameter too, indexed by the number
  of the await.
\<close>

section \<open>The environment of an operation\<close>

text \<open>What sharing asks of the NVMe-oF and NBD targets.\<close>

record share_env =
  sh_share_nvmf :: "CoreError + unit"
  sh_share_nbd :: "string + string"
  sh_unshare :: "CoreError + unit"
  sh_update_properties :: "CoreError + unit"
  sh_create_ptpl :: "string + unit"
  sh_nqn_lookup :: bool
  sh_share_uri :: string

text \<open>\<open>ne_child\<close> is what the others do to the child that an operation waits for, \<open>ne_failed\<close> the devices
  whose controller has failed. \<open>ne_suspend\<close> and \<open>ne_resume\<close> are the answer of the I/O subsystem of the nexus and the pause state
  it is left in; \<open>ne_new_starter\<close> is whether the descriptors of a rebuild could be opened.\<close>

record 's nexus_env =
  ne_others :: "nat \<Rightarrow> 's Nexus \<Rightarrow> 's Nexus"
  ne_store :: "nat \<Rightarrow> 's store_env"
  ne_bdev :: "nat \<Rightarrow> bdev_env"
  ne_destroy :: "nat \<Rightarrow> string \<Rightarrow> BdevError + unit"
  ne_close :: "nat \<Rightarrow> close_env"
  ne_reserve :: "nat \<Rightarrow> NexusChild \<Rightarrow> NexusNvmeParams \<Rightarrow> ChildError + unit"
  ne_suspend :: "nat \<Rightarrow> (NexusError + unit) \<times> NexusPauseState"
  ne_resume :: "nat \<Rightarrow> bool \<Rightarrow> (NexusError + unit) \<times> NexusPauseState"
  ne_new_starter :: "nat \<Rightarrow> string \<Rightarrow> string \<Rightarrow> u64 \<times> u64 \<Rightarrow> RebuildError + unit"
  ne_now :: "nat \<Rightarrow> nat"
  ne_log :: log_env
  ne_child :: "nat \<Rightarrow> NexusChild \<Rightarrow> NexusChild"
  ne_failed :: "nat \<Rightarrow> string list"
  ne_register :: "nat \<Rightarrow> Errno + unit"
  ne_unregister :: "nat \<Rightarrow> Errno + unit"
  ne_alignment :: "u8 \<Rightarrow> u64"
  ne_show :: "ChildError \<Rightarrow> string"
  ne_share :: "nat \<Rightarrow> share_env"

definition await :: "'s nexus_env \<Rightarrow> 's Nexus \<Rightarrow> 's Nexus" where
  "await env n = (ne_others env (nx_tick n) n)\<lparr>nx_tick := Suc (nx_tick n)\<rparr>"

text \<open>A traversal of the channels, awaited.\<close>

definition traverse_io_channels_async :: "'s nexus_env \<Rightarrow> chan_msg \<Rightarrow> 's Nexus \<Rightarrow> 's Nexus" where
  "traverse_io_channels_async env m n = await env (emit (Ev_traverse m) n)"

definition nexus_reconfigure :: "'s nexus_env \<Rightarrow> 's Nexus \<Rightarrow> 's Nexus" where
  "nexus_reconfigure env n = traverse_io_channels_async env Msg_reconnect_all n"

definition nexus_pause :: "'s nexus_env \<Rightarrow> 's Nexus \<Rightarrow> (NexusError + unit) \<times> 's Nexus" where
  "nexus_pause env n =
     (let (result, ps) = ne_suspend env (nx_tick n)
      in (result, (await env n)\<lparr>nx_pause_state := ps\<rparr>))"

definition nexus_resume :: "'s nexus_env \<Rightarrow> 's Nexus \<Rightarrow> (NexusError + unit) \<times> 's Nexus" where
  "nexus_resume env n =
     (let freeze = (status n = St_Faulted \<and> \<not> children_enospc n);
          (result, ps) = ne_resume env (nx_tick n) freeze
      in (result, (await env n)\<lparr>nx_pause_state := ps\<rparr>))"

text \<open>\<open>persist\<close>, waiting for the lock of the nexus information first; the change of the I/O mode of the
  channels is done only once the nexus has an I/O device.\<close>

definition persist_effect_on :: "persist_effect \<Rightarrow> 's Nexus \<Rightarrow> 's Nexus" where
  "persist_effect_on e n =
     (case e of
        PE_io_mode m \<Rightarrow> (if nx_has_io_device n then emit (Ev_traverse (Msg_io_mode m)) n else n)
      | PE_self_shutdown \<Rightarrow> send_future Fut_self_shutdown n)"

definition nexus_persist ::
  "'s nexus_env \<Rightarrow> PersistOp \<Rightarrow> 's Nexus \<Rightarrow> ((NexusError + unit) \<times> 's Nexus) option" where
  "nexus_persist env op n =
     (if \<not> se_enabled (ne_store env (nx_tick n)) then Some (Inr (), n)
      else let n1 = await env n in
      do {
        (r, info, effects, store) \<leftarrow>
          persist (ne_store env (nx_tick n)) (nx_children n1) op (nx_info n1) (nx_store n1);
        Some (r, await env (fold persist_effect_on effects (n1\<lparr>nx_info := info, nx_store := store\<rparr>)))
      })"

section \<open>Looking up children\<close>

definition lookup_child :: "string \<Rightarrow> 's Nexus \<Rightarrow> NexusChild option" where
  "lookup_child uri n = List.find (\<lambda>c. nc_name c = uri) (nx_children n)"

definition child_of :: "string \<Rightarrow> 's Nexus \<Rightarrow> NexusError + NexusChild" where
  "child_of uri n =
     (case lookup_child uri n of
        Some c \<Rightarrow> Inr c
      | None \<Rightarrow> Inl (Nexus_ChildNotFound uri (nx_name n)))"

definition child_by_device :: "string \<Rightarrow> 's Nexus \<Rightarrow> NexusError + NexusChild" where
  "child_by_device device_name n =
     (case lookup_child_by_device (nx_children n) device_name of
        Some c \<Rightarrow> Inr c
      | None \<Rightarrow> Inl (Nexus_ChildNotFound device_name (nx_name n)))"

text \<open>\<open>child_by_uuid\<close>; the URI of a child that does not parse is a panic.\<close>

primrec find_uuid :: "url_parser \<Rightarrow> string \<Rightarrow> NexusChild list \<Rightarrow> NexusChild option option" where
  "find_uuid query_pairs uuid [] = Some None"
| "find_uuid query_pairs uuid (c # cs) =
     do {
       u \<leftarrow> child_uuid query_pairs (nc_name c);
       if u = Some uuid then Some (Some c) else find_uuid query_pairs uuid cs
     }"

definition child_by_uuid ::
  "url_parser \<Rightarrow> string \<Rightarrow> 's Nexus \<Rightarrow> (NexusError + NexusChild) option" where
  "child_by_uuid query_pairs device_uuid n =
     do {
       r \<leftarrow> find_uuid query_pairs device_uuid (nx_children n);
       Some (case r of
               Some c \<Rightarrow> Inr c
             | None \<Rightarrow> Inl (Nexus_ChildNotFound device_uuid (nx_name n)))
     }"

definition get_child_device_name :: "string \<Rightarrow> 's Nexus \<Rightarrow> NexusError + string" where
  "get_child_device_name uri n =
     try_bind (child_of uri n) (\<lambda>c.
       case get_device_name c of
         Some d \<Rightarrow> Inr d
       | None \<Rightarrow> Inl (Nexus_ChildDeviceNotOpen uri (nx_name n)))"

definition child_devices :: "'s Nexus \<Rightarrow> string list" where
  "child_devices n = List.map_filter get_device_name (nx_children n)"

definition child_uris :: "'s Nexus \<Rightarrow> string list" where
  "child_uris n = map nc_name (nx_children n)"

definition contains_child_uri :: "string \<Rightarrow> 's Nexus \<Rightarrow> bool" where
  "contains_child_uri uri n = list_ex (\<lambda>c. nc_name c = uri) (nx_children n)"

definition contains_child_name :: "(string \<Rightarrow> BdevError + string) \<Rightarrow> string \<Rightarrow> 's Nexus \<Rightarrow> bool" where
  "contains_child_name device_name name n = list_ex (\<lambda>c. device_name (nc_name c) = Inr name) (nx_children n)"

text \<open>\<open>min_num_blocks\<close>; a healthy child without a device is a panic.\<close>

primrec device_blocks :: "NexusChild list \<Rightarrow> u64 list option" where
  "device_blocks [] = Some []"
| "device_blocks (c # cs) =
     do { d \<leftarrow> nc_device c; bs \<leftarrow> device_blocks cs; Some (bd_num_blocks d # bs) }"

definition min_num_blocks :: "'s Nexus \<Rightarrow> u64 option option" where
  "min_num_blocks n =
     do {
       bs \<leftarrow> device_blocks (filter is_healthy (nx_children n));
       Some (case bs of [] \<Rightarrow> None | b # bs' \<Rightarrow> Some (fold min bs' b))
     }"

definition child_add_unsafe :: "NexusChild \<Rightarrow> 's Nexus \<Rightarrow> 's Nexus" where
  "child_add_unsafe c n = n\<lparr>nx_children := nx_children n @ [c]\<rparr>"

definition child_remove_unsafe :: "string \<Rightarrow> 's Nexus \<Rightarrow> 's Nexus" where
  "child_remove_unsafe uri n = n\<lparr>nx_children := filter (\<lambda>c. nc_name c \<noteq> uri) (nx_children n)\<rparr>"

text \<open>A change of the child that a reference obtained by its URI stands for.\<close>

definition update_child :: "string \<Rightarrow> (NexusChild \<Rightarrow> NexusChild) \<Rightarrow> 's Nexus \<Rightarrow> 's Nexus" where
  "update_child uri f n = n\<lparr>nx_children := update_first (\<lambda>c. nc_name c = uri) f (nx_children n)\<rparr>"

subsection \<open>Closing children\<close>

text \<open>\<open>close\<close> of a child of the nexus. What the other tasks do to this child meanwhile is given by the
  parameters of \<open>child_close\<close>, what they do to the rest of the nexus by \<open>ne_others\<close>.\<close>

definition close_at :: "'s nexus_env \<Rightarrow> string \<Rightarrow> 's Nexus \<Rightarrow> ((BdevError + unit) \<times> 's Nexus) option" where
  "close_at env uri n =
     (case lookup_child uri n of
        None \<Rightarrow> Some (Inr (), n)
      | Some c \<Rightarrow>
          do {
            (r, c') \<leftarrow> child_close (ne_close env (nx_tick n)) c;
            Some (r, update_child uri (\<lambda>_. c') (await env n))
          })"

definition close_faulted_at ::
  "'s nexus_env \<Rightarrow> FaultReason \<Rightarrow> string \<Rightarrow> 's Nexus \<Rightarrow> 's Nexus option" where
  "close_faulted_at env reason uri n =
     (case lookup_child uri n of
        None \<Rightarrow> Some n
      | Some c \<Rightarrow>
          do {
            c' \<leftarrow> close_faulted (ne_close env (nx_tick n)) (ne_now env (nx_tick n)) reason c;
            Some (update_child uri (\<lambda>_. c') (await env n))
          })"

definition close_children :: "'s nexus_env \<Rightarrow> 's Nexus \<Rightarrow> 's Nexus option" where
  "close_children env n =
     foldM (\<lambda>uri n. map_option snd (close_at env uri n)) (child_uris n) n"

definition close_child ::
  "'s nexus_env \<Rightarrow> string \<Rightarrow> 's Nexus \<Rightarrow> ((NexusError + unit) \<times> 's Nexus) option" where
  "close_child env device_name n =
     (case child_by_device device_name n of
        Inl e \<Rightarrow> Some (Inl e, n)
      | Inr c \<Rightarrow>
          do {
            (r, n') \<leftarrow> close_at env (nc_name c) n;
            Some (map_err (\<lambda>source. Nexus_CloseChild source device_name (nx_name n)) r, n')
          })"

section \<open>Rebuilds\<close>

text \<open>The registry of the jobs is keyed by the URI of the destination.\<close>

definition job_update :: "string \<Rightarrow> RebuildJob \<Rightarrow> 's Nexus \<Rightarrow> 's Nexus" where
  "job_update uri j n = n\<lparr>nx_jobs := map (\<lambda>kv. if fst kv = uri then (uri, j) else kv) (nx_jobs n)\<rparr>"

definition rebuild_job :: "string \<Rightarrow> 's Nexus \<Rightarrow> NexusError + RebuildJob" where
  "rebuild_job dst_uri n =
     map_err (\<lambda>_. Nexus_RebuildJobNotFound dst_uri (nx_name n)) (inst_lookup dst_uri (nx_jobs n))"

definition rebuild_state :: "string \<Rightarrow> 's Nexus \<Rightarrow> NexusError + RebuildState" where
  "rebuild_state dst_uri n = try_bind (rebuild_job dst_uri n) (\<lambda>j. Inr (rs_current (rj_states j)))"

definition find_src_replica :: "string \<Rightarrow> 's Nexus \<Rightarrow> string option" where
  "find_src_replica dst_uri n =
     (let candidates = filter (\<lambda>c. is_healthy c \<and> nc_name c \<noteq> dst_uri) (nx_children n) in
      map_option nc_name
        (case List.find (\<lambda>c. is_local c = Some True) candidates of
           Some c \<Rightarrow> Some c
         | None \<Rightarrow> (case candidates of [] \<Rightarrow> None | c # _ \<Rightarrow> Some c)))"

definition create_rebuild_job ::
  "'s nexus_env \<Rightarrow> string \<Rightarrow> string \<Rightarrow> 's Nexus \<Rightarrow> (NexusError + unit) \<times> 's Nexus" where
  "create_rebuild_job env src_uri dst_uri n =
     (let range = (nx_data_ent_offset n, nx_num_blocks n + nx_data_ent_offset n);
          n1 = await env n;
          job = \<lparr> rj_src_uri = src_uri, rj_dst_uri = dst_uri, rj_states = rebuild_states_default,
                  rj_wakeups = 0, rj_listeners = Some 0 \<rparr>;
          r = try_bind (ne_new_starter env (nx_tick n) src_uri dst_uri range)
                (\<lambda>_. inst_store rj_dst_uri rj_dst_uri job (nx_jobs n1))
      in case r of
           Inl e \<Rightarrow> (Inl (Nexus_CreateRebuild e dst_uri (nx_name n)), n1)
         | Inr jobs \<Rightarrow> (Inr (), n1\<lparr>nx_jobs := jobs\<rparr>))"

text \<open>\<open>start_rebuild\<close>. The job is shared with the registry, so starting it acts on the state it has when
  the scheduling of its backend has been awaited.\<close>

definition start_rebuild ::
  "'s nexus_env \<Rightarrow> string \<Rightarrow> 's Nexus \<Rightarrow> ((NexusError + unit) \<times> 's Nexus) option" where
  "start_rebuild env uri n =
     (case find_src_replica uri n of
        None \<Rightarrow> Some (Inl (Nexus_NoRebuildSource (nx_name n)), n)
      | Some src \<Rightarrow>
          (case lookup_child uri n of
             None \<Rightarrow> Some (Inl (Nexus_ChildNotFound uri (nx_name n)), n)
           | Some c \<Rightarrow>
               if \<not> is_opened_unsync c then
                 Some (Inl (Nexus_ChildNotDegraded uri (nx_name n)
                              (child_state_to_string (nc_state c))), n)
               else if is_ok (inst_lookup uri (nx_jobs n)) then
                 Some (Inl (Nexus_RebuildJobAlreadyExists uri (nx_name n)), n)
               else
                 (case create_rebuild_job env src uri n of
                    (Inl e, n1) \<Rightarrow> Some (Inl e, n1)
                  | (Inr _, n1) \<Rightarrow>
                      let n2 = nexus_reconfigure env (emit (Ev_rebuild_begin uri) n1) in
                      do {
                        (log_map, n3) \<leftarrow>
                          (case lookup_child uri n2 of
                             None \<Rightarrow> Some (None, n2)
                           | Some c2 \<Rightarrow>
                               do {
                                 (m, c3) \<leftarrow> stop_io_log c2;
                                 Some (m, update_child uri (\<lambda>_. c3) n2)
                               });
                        case rebuild_job uri n3 of
                          Inl e \<Rightarrow> Some (Inl e, n3)
                        | Inr j \<Rightarrow>
                            let n4 = await env (emit (Ev_rebuild_start uri log_map) n3);
                                j4 = (case inst_lookup uri (nx_jobs n4) of Inr j4 \<Rightarrow> j4 | Inl _ \<Rightarrow> j);
                                (r, j') = job_start j4
                            in Some (map_err (\<lambda>e. Nexus_RebuildOperation uri (nx_name n) e) r,
                                     job_update uri j' n4)
                      })))"

definition terminate_rebuild :: "'s nexus_env \<Rightarrow> string \<Rightarrow> 's Nexus \<Rightarrow> 's Nexus" where
  "terminate_rebuild env uri n =
     (case rebuild_job uri n of
        Inl _ \<Rightarrow> n
      | Inr j \<Rightarrow>
          (case force_stop j of
             (Inl _, j') \<Rightarrow> await env (job_update uri j' n)
           | (Inr _, j') \<Rightarrow> job_update uri j' n))"

definition stop_rebuild :: "string \<Rightarrow> 's Nexus \<Rightarrow> (NexusError + unit) \<times> 's Nexus" where
  "stop_rebuild dst_uri n =
     (case rebuild_job dst_uri n of
        Inl _ \<Rightarrow> (Inr (), n)
      | Inr j \<Rightarrow>
          (case job_stop j of
             Inl e \<Rightarrow> (Inl (Nexus_RebuildOperation dst_uri (nx_name n) e), n)
           | Inr j' \<Rightarrow> (Inr (), job_update dst_uri j' n)))"

definition pause_rebuild :: "string \<Rightarrow> 's Nexus \<Rightarrow> (NexusError + unit) \<times> 's Nexus" where
  "pause_rebuild dst_uri n =
     (case rebuild_job dst_uri n of
        Inl e \<Rightarrow> (Inl e, n)
      | Inr j \<Rightarrow>
          (case job_pause j of
             Inl e \<Rightarrow> (Inl (Nexus_RebuildOperation dst_uri (nx_name n) e), n)
           | Inr j' \<Rightarrow> (Inr (), job_update dst_uri j' n)))"

definition resume_rebuild :: "string \<Rightarrow> 's Nexus \<Rightarrow> (NexusError + unit) \<times> 's Nexus" where
  "resume_rebuild dst_uri n =
     (case rebuild_job dst_uri n of
        Inl e \<Rightarrow> (Inl e, n)
      | Inr j \<Rightarrow>
          (case job_resume j of
             Inl e \<Rightarrow> (Inl (Nexus_RebuildOperation dst_uri (nx_name n) e), n)
           | Inr j' \<Rightarrow> (Inr (), job_update dst_uri j' n)))"

text \<open>\<open>cancel_rebuild_jobs\<close>: all jobs with the child as a source are told to stop, then each of those
  that still run is awaited, then the job with the child as a destination is terminated.\<close>

definition force_stop_job :: "RebuildJob \<Rightarrow> 's Nexus \<Rightarrow> 's Nexus" where
  "force_stop_job j n = job_update (rj_dst_uri j) (snd (force_stop j)) n"

definition cancel_rebuild_jobs :: "'s nexus_env \<Rightarrow> string \<Rightarrow> 's Nexus \<Rightarrow> string list \<times> 's Nexus" where
  "cancel_rebuild_jobs env src_uri n =
     (let src_jobs = inst_lookup_src rj_src_uri src_uri (nx_jobs n);
          n1 = fold force_stop_job src_jobs n;
          n2 = fold (\<lambda>j n. case fst (force_stop j) of Inl _ \<Rightarrow> await env n | Inr _ \<Rightarrow> n) src_jobs n1
      in (map rj_dst_uri src_jobs, terminate_rebuild env src_uri n2))"

definition start_rebuild_jobs :: "'s nexus_env \<Rightarrow> string list \<Rightarrow> 's Nexus \<Rightarrow> 's Nexus option" where
  "start_rebuild_jobs env uris n = foldM (\<lambda>uri n. map_option snd (start_rebuild env uri n)) uris n"

text \<open>The pause guard: the children whose jobs were cancelled. Resuming it consumes it; a guard that is
  dropped without having been resumed fails the assertion of its \<open>drop\<close>.\<close>

definition guard_resume :: "'s nexus_env \<Rightarrow> string list \<Rightarrow> 's Nexus \<Rightarrow> 's Nexus option" where
  "guard_resume env cancelled n = start_rebuild_jobs env cancelled n"

definition guard_drop :: "bool \<Rightarrow> 'a \<Rightarrow> 'a option" where
  "guard_drop restarted x = (if restarted then Some x else None)"

definition count_rebuild_jobs :: "'s Nexus \<Rightarrow> nat" where
  "count_rebuild_jobs n =
     fold (\<lambda>c acc. if is_ok (inst_lookup (nc_name c) (nx_jobs n)) then acc + 1 else acc)
       (nx_children n) 0"

definition create_history_record :: "nat \<Rightarrow> RebuildJob \<Rightarrow> 's Nexus \<Rightarrow> 's Nexus" where
  "create_history_record now job n =
     (case history_record now job of
        None \<Rightarrow> n
      | Some rec \<Rightarrow> n\<lparr>nx_rebuild_history := nx_rebuild_history n @ [rec]\<rparr>)"

text \<open>The end of \<open>on_rebuild_update\<close>: the job is removed, its history kept and the channels
  reconfigured.\<close>

definition rebuild_finished :: "'s nexus_env \<Rightarrow> string \<Rightarrow> 's Nexus \<Rightarrow> (NexusError + unit) \<times> 's Nexus" where
  "rebuild_finished env uri n =
     (case inst_remove uri (nx_jobs n) of
        Inl _ \<Rightarrow> (Inr (), n)
      | Inr (job, jobs) \<Rightarrow>
          (Inr (), nexus_reconfigure env
             (create_history_record (ne_now env (nx_tick n)) job (n\<lparr>nx_jobs := jobs\<rparr>))))"

definition on_rebuild_update ::
  "'s nexus_env \<Rightarrow> string \<Rightarrow> 's Nexus \<Rightarrow> ((NexusError + unit) \<times> 's Nexus) option" where
  "on_rebuild_update env uri n =
     (case child_of uri n of
        Inl e \<Rightarrow> Some (Inl e, n)
      | Inr c \<Rightarrow>
          (case rebuild_job uri n of
             Inl e \<Rightarrow> Some (Inl e, n)
           | Inr job \<Rightarrow>
               let job_state = rs_current (rj_states job);
                   n1 = emit (Ev_rebuild_end uri job_state) n
               in
               if \<not> rs_done job_state then Some (Inr (), n)
               else if job_state = RsCompleted then
                 let n2 = update_child uri (set_sync_state Synced) n1 in
                 if is_healthy (set_sync_state Synced c) then
                   do {
                     (r, n3) \<leftarrow> nexus_persist env (PO_Update uri True) n2;
                     Some (case r of
                             Inl e \<Rightarrow> (Inl e, n3)
                           | Inr _ \<Rightarrow> rebuild_finished env uri n3)
                   }
                 else Some (rebuild_finished env uri n2)
               else if job_state = RsStopped then Some (rebuild_finished env uri n1)
               else
                 do {
                   n2 \<leftarrow> close_faulted_at env FR_RebuildFailed uri n1;
                   Some (rebuild_finished env uri n2)
                 }))"

section \<open>Adding a child\<close>

definition new_child ::
  "'s nexus_env \<Rightarrow> string \<Rightarrow> 's Nexus \<Rightarrow> ((BdevError + unit) \<times> 's Nexus) option" where
  "new_child env uri n =
     (if nx_state n \<noteq> NS_Init then None
      else
        let n1 = await env n; t = nx_tick n; senv = ne_store env t in
        case be_device_create (ne_bdev env t) uri of
          Inl e \<Rightarrow> Some (Inl e, n1)
        | Inr device_name \<Rightarrow>
            do {
              c \<leftarrow> child_new (se_enabled senv) (se_query_pairs senv) uri (nx_name n)
                     (be_device_lookup (ne_bdev env t) device_name);
              Some (Inr (), child_add_unsafe c n1)
            })"

text \<open>\<open>device_destroy\<close>, whose error is only reported.\<close>

definition destroy_device :: "'s nexus_env \<Rightarrow> string \<Rightarrow> 's Nexus \<Rightarrow> 's Nexus" where
  "destroy_device env uri n = await env (emit (Ev_device_destroy uri) n)"

text \<open>Whether a device fits: the block length of the nexus, and at least the blocks of every healthy
  child.\<close>

definition geometry_differs :: "ChildDevice \<Rightarrow> 's Nexus \<Rightarrow> bool option" where
  "geometry_differs d n =
     (if bd_block_len d \<noteq> block_len n then Some True
      else
        do {
          m \<leftarrow> min_num_blocks n;
          Some (case m of None \<Rightarrow> True | Some k \<Rightarrow> k > bd_num_blocks d)
        })"

text \<open>The second half of \<open>add_child_only\<close>: opening the new child and recording it.\<close>

definition add_opened_child ::
  "'s nexus_env \<Rightarrow> string \<Rightarrow> NexusChild \<Rightarrow> 's Nexus \<Rightarrow> ((NexusError + NexusStatus) \<times> 's Nexus) option" where
  "add_opened_child env uri child n =
     do {
       (opened, child1) \<leftarrow> child_open (be_dev_open (ne_bdev env (nx_tick n))) (ne_now env (nx_tick n))
                             (nx_req_size n) OutOfSync child;
       let (res, n1) =
         (case opened of
            Inl e \<Rightarrow> (Inl e, n)
          | Inr child_uri \<Rightarrow>
              (try_bind (ne_reserve env (nx_tick n) child1 (nx_nvme_params n)) (\<lambda>_. Inr child_uri),
               await env n));
       case res of
         Inl e \<Rightarrow> Some (Inl (Nexus_OpenChild e uri (nx_name n)), destroy_device env uri n1)
       | Inr child_uri \<Rightarrow>
           do {
             (r, n2) \<leftarrow> nexus_persist env (PO_AddChild child_uri (is_healthy child1))
                          (child_add_unsafe child1 n1);
             Some (case r of
                     Inr _ \<Rightarrow> (Inr (status n2), n2)
                   | Inl e \<Rightarrow> (Inl e, child_remove_unsafe uri n2))
           }
     }"

definition add_child_only ::
  "'s nexus_env \<Rightarrow> string \<Rightarrow> 's Nexus \<Rightarrow> ((NexusError + NexusStatus) \<times> 's Nexus) option" where
  "add_child_only env uri n =
     (case check_nexus_operation Op_ReplicaAdd n of
        Inl e \<Rightarrow> Some (Inl e, n)
      | Inr _ \<Rightarrow>
          let t = nx_tick n; benv = ne_bdev env t; senv = ne_store env t; n1 = await env n in
          (case be_device_create benv uri of
             Inl e \<Rightarrow> Some (Inl (Nexus_CreateChild e (nx_name n)), n1)
           | Inr name \<Rightarrow>
               if \<not> (nx_num_blocks n1 > 0 \<and> block_len n1 > 0) then None
               else
                 (case be_device_lookup benv name of
                    None \<Rightarrow> Some (Inl (Nexus_ChildMissing name (nx_name n)), n1)
                  | Some d \<Rightarrow>
                      do {
                        differs \<leftarrow> geometry_differs d n1;
                        if differs then
                          Some (Inl (Nexus_ChildGeometry name (nx_name n)), destroy_device env uri n1)
                        else if lookup_child_by_device (nx_children n1) name \<noteq> None then
                          Some (Inl (Nexus_ChildAlreadyExists name (nx_name n)), n1)
                        else
                          do {
                            c \<leftarrow> child_new (se_enabled senv) (se_query_pairs senv) uri (nx_name n)
                                   (Some d);
                            add_opened_child env uri c n1
                          }
                      })))"

definition add_child ::
  "'s nexus_env \<Rightarrow> string \<Rightarrow> bool \<Rightarrow> 's Nexus \<Rightarrow> ((NexusError + NexusStatus) \<times> 's Nexus) option" where
  "add_child env uri norebuild n =
     (case check_nexus_operation Op_ReplicaAdd n of
        Inl e \<Rightarrow> Some (Inl e, n)
      | Inr _ \<Rightarrow>
          do {
            (r, n1) \<leftarrow> add_child_only env uri n;
            case r of
              Inl e \<Rightarrow> Some (Inl e, n1)
            | Inr st \<Rightarrow>
                if norebuild then Some (Inr st, n1)
                else
                  do {
                    (started, n2) \<leftarrow> start_rebuild env uri n1;
                    n3 \<leftarrow> (case started of
                              Inl _ \<Rightarrow> close_faulted_at env FR_RebuildFailed uri n2
                            | Inr _ \<Rightarrow>
                                Some (if lookup_child uri n2 \<noteq> None then emit (Ev_online_child uri) n2
                                      else n2));
                    Some (Inr st, n3)
                  }
          })"

section \<open>Removing, faulting and onlining a child\<close>

definition check_child_remove_operation :: "string \<Rightarrow> 's Nexus \<Rightarrow> NexusError + unit" where
  "check_child_remove_operation uri n =
     try_bind (child_of uri n) (\<lambda>_.
       let healthy = filter is_healthy (nx_children n) in
       if length (nx_children n) = 1 then Inl (Nexus_RemoveLastChild uri (nx_name n))
       else if length healthy = 1 \<and> nc_name (hd healthy) = uri then
         Inl (Nexus_RemoveLastHealthyChild uri (nx_name n))
       else Inr ())"

definition nexus_detach_device :: "'s nexus_env \<Rightarrow> string \<Rightarrow> 's Nexus \<Rightarrow> 's Nexus" where
  "nexus_detach_device env dev n =
     (if nx_has_io_device n then traverse_io_channels_async env (Msg_detach dev) n else n)"

definition disconnect_all_detached_devices :: "'s nexus_env \<Rightarrow> 's Nexus \<Rightarrow> 's Nexus" where
  "disconnect_all_detached_devices env n = traverse_io_channels_async env Msg_disconnect_all n"

text \<open>The part of \<open>remove_child\<close> between the update of the store and the resumption of I/O.\<close>

definition close_and_remove ::
  "'s nexus_env \<Rightarrow> string \<Rightarrow> 's Nexus \<Rightarrow> ((NexusError + unit) \<times> 's Nexus) option" where
  "close_and_remove env uri n =
     (case lookup_child uri n of
        None \<Rightarrow> Some (Inr (), n)
      | Some c \<Rightarrow>
          let n1 = (case get_device_name c of
                      None \<Rightarrow> n
                    | Some d \<Rightarrow> disconnect_all_detached_devices env (nexus_detach_device env d n))
          in do {
            (r, n2) \<leftarrow> close_at env uri n1;
            Some (map_err (\<lambda>source. Nexus_CloseChild source uri (nx_name n)) r,
                  child_remove_unsafe uri n2)
          })"

definition remove_child ::
  "'s nexus_env \<Rightarrow> string \<Rightarrow> 's Nexus \<Rightarrow> ((NexusError + unit) \<times> 's Nexus) option" where
  "remove_child env uri n =
     (case try_bind (check_nexus_operation Op_ReplicaRemove n)
             (\<lambda>_. check_child_remove_operation uri n) of
        Inl e \<Rightarrow> Some (Inl e, n)
      | Inr _ \<Rightarrow>
          if lookup_child uri n = None then Some (Inr (), n)
          else
            let (cancelled, n1) = cancel_rebuild_jobs env uri n;
                (paused, n2) = nexus_pause env n1
            in
            (case paused of
               Inl _ \<Rightarrow>
                 do { n3 \<leftarrow> guard_resume env cancelled n2; Some (Inr (), n3) }
             | Inr _ \<Rightarrow>
                 do {
                   (persisted, n3) \<leftarrow> nexus_persist env (PO_RemoveChild uri) n2;
                   case persisted of
                     Inl e \<Rightarrow> guard_drop False (Inl e, n3)
                   | Inr _ \<Rightarrow>
                       do {
                         (res, n4) \<leftarrow> close_and_remove env uri n3;
                         let (_, n5) = nexus_resume env n4;
                         n6 \<leftarrow> guard_resume env cancelled n5;
                         Some (res, n6)
                       }
                 }))"

text \<open>\<open>retire_child_device\<close>, as in the I/O path.\<close>

definition nexus_retire_child_device ::
  "'s nexus_env \<Rightarrow> string \<Rightarrow> FaultReason \<Rightarrow> bool \<Rightarrow> 's Nexus \<Rightarrow> 's Nexus option" where
  "nexus_retire_child_device env dev reason retry n =
     (case lookup_child_by_device (nx_children n) dev of
        None \<Rightarrow> Some n
      | Some c \<Rightarrow>
          do {
            (has_log, c1) \<leftarrow> start_io_log (ne_log env) c;
            let open = (nc_state c1 = CS_Open);
            let c2 = (if open then set_fault_timestamp (ne_now env (nx_tick n))
                                     (child_set_state (CS_Faulted reason) c1)
                      else c1);
            let n1 = n\<lparr>nx_children := update_first (match_device_name dev) (\<lambda>_. c2) (nx_children n)\<rparr>;
            let n2 = (if open then send_future (Fut_child_retire_routine dev retry) n1 else n1);
            Some (if has_log then emit (Ev_traverse Msg_reconnect_io_logs) n2 else n2)
          })"

definition fault_child ::
  "'s nexus_env \<Rightarrow> string \<Rightarrow> FaultReason \<Rightarrow> 's Nexus \<Rightarrow> ((NexusError + NexusStatus) \<times> 's Nexus) option" where
  "fault_child env uri reason n =
     (case try_bind (check_nexus_operation Op_ReplicaFault n) (\<lambda>_.
             try_bind (check_child_remove_operation uri n) (\<lambda>_. get_child_device_name uri n)) of
        Inl e \<Rightarrow> Some (Inl e, n)
      | Inr dev_name \<Rightarrow>
          let (cancelled, n1) = cancel_rebuild_jobs env uri n in
          do {
            n2 \<leftarrow> nexus_retire_child_device env dev_name reason False n1;
            n3 \<leftarrow> guard_resume env cancelled n2;
            Some (Inr (status n2), n3)
          })"

text \<open>\<open>online_child\<close>. The child that the reference stands for is looked up again after each await.\<close>

definition online_child ::
  "'s nexus_env \<Rightarrow> string \<Rightarrow> 's Nexus \<Rightarrow> ((NexusError + NexusStatus) \<times> 's Nexus) option" where
  "online_child env uri n =
     (case try_bind (check_nexus_operation Op_ReplicaOnline n) (\<lambda>_. child_of uri n) of
        Inl e \<Rightarrow> Some (Inl e, n)
      | Inr c \<Rightarrow>
          if nc_state c = CS_Open then Some (Inr (status n), n)
          else
            do {
              (r, c1) \<leftarrow> child_online (ne_bdev env (nx_tick n)) (ne_now env (nx_tick n))
                           (nx_req_size n) c;
              let n1 = update_child uri (\<lambda>_. c1) (await env n);
              case r of
                Inl e \<Rightarrow> Some (Inl (Nexus_OnlineChild e uri (nx_name n)), n1)
              | Inr _ \<Rightarrow>
                  let n2 = await env n1 in
                  (case ne_reserve env (nx_tick n1) c1 (nx_nvme_params n1) of
                     Inl e \<Rightarrow>
                       do {
                         (_, n3) \<leftarrow> close_at env uri n2;
                         Some (Inl (Nexus_OnlineChild e uri (nx_name n)), n3)
                       }
                   | Inr _ \<Rightarrow>
                       do {
                         (started, n3) \<leftarrow> start_rebuild env uri n2;
                         case started of
                           Inl e \<Rightarrow> do { (_, n4) \<leftarrow> close_at env uri n3; Some (Inl e, n4) }
                         | Inr _ \<Rightarrow>
                             let n4 = emit (Ev_online_child uri) n3 in Some (Inr (status n4), n4)
                       })
            })"

end
