(* ===== verification/Nexus_Life.thy ===== *)
theory Nexus_Life
  imports Nexus_Ops
begin

text \<open>
  The life of a nexus: its creation and registration, sharing, shutdown and destruction
  (\<open>bdev/nexus/nexus_bdev.rs\<close>, \<open>nexus_share.rs\<close>), and what the events of its devices start
  (\<open>nexus_bdev_children.rs\<close>): retiring a device, hot removal, the shutdown of a nexus that lost its
  record, the reset of the children.
\<close>

section \<open>Retiring a device\<close>

definition child_retire_persist ::
  "'s nexus_env \<Rightarrow> string \<Rightarrow> 's Nexus \<Rightarrow> ((NexusError + unit) \<times> 's Nexus) option" where
  "child_retire_persist env dev n =
     (case lookup_child_by_device (nx_children n) dev of
        None \<Rightarrow> Some (Inr (), n)
      | Some child \<Rightarrow>
          nexus_persist env (PO_UpdateCond (nc_name child) (is_healthy child) retire_predicate) n)"

definition child_retire_destroy_device :: "string \<Rightarrow> 's Nexus \<Rightarrow> 's Nexus" where
  "child_retire_destroy_device dev n =
     (case lookup_child_by_device (nx_children n) dev of
        None \<Rightarrow> n
      | Some child \<Rightarrow>
          let n1 = (case inst_lookup (nc_name child) (nx_jobs n) of
                      Inl _ \<Rightarrow> n
                    | Inr job \<Rightarrow> job_update (nc_name child) (snd (force_fail job)) n)
          in emit (Ev_retire_command dev) n1)"

definition do_child_retire ::
  "'s nexus_env \<Rightarrow> string \<Rightarrow> 's Nexus \<Rightarrow> ((NexusError + unit) \<times> 's Nexus) option" where
  "do_child_retire env dev n =
     do {
       (r, n1) \<leftarrow> child_retire_persist env dev n;
       if \<not> is_ok r then Some (Inr (), n1)
       else
         let n2 = nexus_detach_device env dev n1;
             n3 = traverse_io_channels_async env (Msg_disconnect (ne_failed env (nx_tick n2))) n2;
             (res, n4) = nexus_pause env n3;
             n5 = disconnect_all_detached_devices env n4
         in case res of
              Inl e \<Rightarrow> Some (Inl e, n5)
            | Inr _ \<Rightarrow> Some (nexus_resume env (child_retire_destroy_device dev n5))
     }"

definition child_retire_routine ::
  "'s nexus_env \<Rightarrow> string \<Rightarrow> bool \<Rightarrow> 's Nexus \<Rightarrow> 's Nexus option" where
  "child_retire_routine env dev retry n =
     do {
       (r, n1) \<leftarrow> do_child_retire env dev n;
       Some (case r of
               Inl _ \<Rightarrow> (if retry then send_future (Fut_child_retire_routine dev retry) n1 else n1)
             | Inr _ \<Rightarrow> n1)
     }"

section \<open>Events of the devices\<close>

definition handle_device_event ::
  "'s nexus_env \<Rightarrow> DeviceEventType \<Rightarrow> string \<Rightarrow> 's Nexus \<Rightarrow> 's Nexus option" where
  "handle_device_event env evt dev n =
     (case evt of
        DeviceRemoved \<Rightarrow> Some (send_future (Fut_child_remove_routine dev) n)
      | LoopbackRemoved \<Rightarrow> Some (send_future (Fut_child_remove_routine dev) n)
      | AdminCommandCompletionFailed \<Rightarrow>
          nexus_retire_child_device env dev FR_AdminCommandFailed False n
      | AdminQNoticeCtrlFailed \<Rightarrow> Some (send_future (Fut_disconnect_failed_child dev True) n)
      | AdminQBroken \<Rightarrow> Some (send_future (Fut_disconnect_failed_child dev False) n)
      | _ \<Rightarrow> Some n)"

text \<open>\<open>child_remove_routine\<close>: an open child that is not being destroyed is retired, any other one is
  unplugged.\<close>

definition child_remove_routine :: "'s nexus_env \<Rightarrow> string \<Rightarrow> 's Nexus \<Rightarrow> 's Nexus option" where
  "child_remove_routine env dev n =
     (case lookup_child_by_device (nx_children n) dev of
        None \<Rightarrow> Some n
      | Some c \<Rightarrow>
          if hot_removed c then nexus_retire_child_device env dev FR_HotRemove False n
          else
            let c' = unplug (ne_child env (nx_tick n)) c;
                n1 = (if nc_state c \<noteq> CS_Faulted FR_IoError then nexus_reconfigure env n else n)
            in Some (update_child (nc_name c) (\<lambda>_. c') n1))"

definition disconnect_failed_child :: "'s nexus_env \<Rightarrow> string \<Rightarrow> bool \<Rightarrow> 's Nexus \<Rightarrow> 's Nexus" where
  "disconnect_failed_child env dev ctrl_failed n =
     (case child_by_device dev n of
        Inl _ \<Rightarrow> n
      | Inr child \<Rightarrow>
          if \<not> is_faulted child then n
          else if nx_pause_state n \<noteq> Pausing then n
          else
            traverse_io_channels_async env
              (Msg_disconnect (if dev \<in> set (ne_failed env (nx_tick n)) \<or> \<not> ctrl_failed then [dev] else []))
              n)"

section \<open>Shutdown and reset\<close>

text \<open>The future that \<open>try_self_shutdown\<close> sends.\<close>

definition shutdown_device :: "'s nexus_env \<Rightarrow> string \<Rightarrow> 's Nexus \<Rightarrow> 's Nexus" where
  "shutdown_device env dev n =
     emit (Ev_retire_command dev)
       (disconnect_all_detached_devices env (nexus_detach_device env dev n))"

definition self_shutdown :: "'s nexus_env \<Rightarrow> 's Nexus \<Rightarrow> 's Nexus option" where
  "self_shutdown env n =
     (if nx_state n = NS_Shutdown \<or> nx_state n = NS_ShuttingDown then Some n
      else
        let n1 = n\<lparr>nx_state := NS_ShuttingDown\<rparr>;
            n2 = fold (shutdown_device env) (child_devices n1) n1;
            n3 = traverse_io_channels_async env Msg_abort_frozen n2;
            n4 = fold (\<lambda>uri n. snd (cancel_rebuild_jobs env uri n)) (child_uris n3) n3
        in do {
          n5 \<leftarrow> close_children env n4;
          Some (n5\<lparr>nx_state := NS_Shutdown\<rparr>)
        })"

definition nexus_shutdown ::
  "'s nexus_env \<Rightarrow> 's Nexus \<Rightarrow> ((NexusError + unit) \<times> 's Nexus) option" where
  "nexus_shutdown env n =
     (case nx_state n of
        NS_Shutdown \<Rightarrow> Some (Inr (), n)
      | NS_ShuttingDown \<Rightarrow>
          Some (Inl (Nexus_OperationNotAllowed ''Shutdown operation is already in progress''), n)
      | prev_state \<Rightarrow>
          let n1 = set_state NS_ShuttingDown n;
              (paused, n2) = nexus_pause env n1
          in case paused of
               Inl e \<Rightarrow> Some (Inl e, n2\<lparr>nx_state := prev_state\<rparr>)
             | Inr _ \<Rightarrow>
                 let n3 = fold (\<lambda>uri n. snd (cancel_rebuild_jobs env uri n)) (child_uris n2) n2 in
                 do {
                   n4 \<leftarrow> close_children env n3;
                   (_, n5) \<leftarrow> nexus_persist env PO_Shutdown n4;
                   Some (Inr (), emit (Ev_state_change NS_ShuttingDown NS_Shutdown)
                                   (n5\<lparr>nx_state := NS_Shutdown\<rparr>))
                 })"

definition reset_child :: "'s nexus_env \<Rightarrow> NexusChild \<Rightarrow> 's Nexus \<Rightarrow> 's Nexus" where
  "reset_child env child n =
     (if \<not> (is_healthy child \<or> is_opened_unsync child) then n
      else
        case nc_device child of
          None \<Rightarrow> n
        | Some dev \<Rightarrow>
            if cd_driver_name dev \<noteq> ''nvme'' then n
            else await env (emit (Ev_reset_controller (bd_device_name dev)) n))"

definition reset_all_children :: "'s nexus_env \<Rightarrow> 's Nexus \<Rightarrow> 's Nexus" where
  "reset_all_children env n =
     (case nexus_pause env n of
        (Inl _, n1) \<Rightarrow> n1
      | (Inr _, n1) \<Rightarrow>
          let n2 = fold (reset_child env) (nx_children n1) n1;
              (_, n3) = nexus_resume env n2
          in snd (set_open_state n3))"

text \<open>A future sent to the master core; it looks the nexus up and ends at once when the nexus is gone.\<close>

definition run_future ::
  "'s nexus_env \<Rightarrow> nexus_future \<Rightarrow> 's Nexus option \<Rightarrow> 's Nexus option option" where
  "run_future env f nexus =
     (case nexus of
        None \<Rightarrow> Some None
      | Some n \<Rightarrow>
          map_option Some
            (case f of
               Fut_child_retire_routine dev retry \<Rightarrow> child_retire_routine env dev retry n
             | Fut_child_remove_routine dev \<Rightarrow> child_remove_routine env dev n
             | Fut_disconnect_failed_child dev failed \<Rightarrow>
                 Some (disconnect_failed_child env dev failed n)
             | Fut_self_shutdown \<Rightarrow> self_shutdown env n
             | Fut_reset_all_children \<Rightarrow> Some (reset_all_children env n)
             | Fut_notify_rebuild dst_uri \<Rightarrow> map_option snd (on_rebuild_update env dst_uri n)))"

section \<open>Sharing\<close>

definition share_nvmf :: "'s nexus_env \<Rightarrow> 's Nexus \<Rightarrow> ((NexusError + string) \<times> 's Nexus) option" where
  "share_nvmf env n =
     (if nx_shared n then Some (Inr (sh_share_uri (ne_share env (nx_tick n))), n)
      else
        do {
          (r, n1) \<leftarrow> nexus_persist env (PO_SetShared True) n;
          Some (case r of
                  Inl e \<Rightarrow> (Inl e, n1)
                | Inr _ \<Rightarrow>
                    (let sh = ne_share env (nx_tick n1); n2 = await env n1 in
                     case sh_share_nvmf sh of
                       Inl e \<Rightarrow> (Inl (Nexus_ShareNvmfNexus e (nx_name n)), n2)
                     | Inr _ \<Rightarrow> (Inr (sh_share_uri sh), emit Ev_share_nvmf (n2\<lparr>nx_shared := True\<rparr>))))
        })"

definition target_protocol :: "NexusTarget \<Rightarrow> Protocol" where
  "target_protocol t = (case t of Target_NexusNvmf \<Rightarrow> Protocol_Nvmf | _ \<Rightarrow> Protocol_Off)"

text \<open>\<open>get_share_uri\<close>; a nexus shared over NVMe-oF has the URI of its block device.\<close>

definition get_share_uri :: "share_env \<Rightarrow> 's Nexus \<Rightarrow> string option" where
  "get_share_uri sh n =
     (case nx_target n of
        Some (Target_NbdDisk uri) \<Rightarrow> Some uri
      | Some Target_NexusNvmf \<Rightarrow> (if nx_shared n then Some (sh_share_uri sh) else None)
      | None \<Rightarrow> None)"

definition share_ext ::
  "'s nexus_env \<Rightarrow> Protocol \<Rightarrow> 's Nexus \<Rightarrow> ((NexusError + string) \<times> 's Nexus) option" where
  "share_ext env protocol n =
     (case nx_target n of
        Some t \<Rightarrow>
          (if target_protocol t = protocol then
             let sh = ne_share env (nx_tick n); n1 = await env n in
             case sh_update_properties sh of
               Inl e \<Rightarrow> Some (Inl (Nexus_UpdateShareProperties e (nx_name n)), n1)
             | Inr _ \<Rightarrow> do { uri \<leftarrow> get_share_uri sh n1; Some (Inr uri, n1) }
           else Some (Inl (Nexus_AlreadyShared (nx_name n)), n))
      | None \<Rightarrow>
          (case protocol of
             Protocol_Off \<Rightarrow>
               do {
                 (r, n1) \<leftarrow> nexus_persist env (PO_SetShared True) n;
                 Some (case r of
                         Inl e \<Rightarrow> (Inl e, n1)
                       | Inr _ \<Rightarrow>
                           (let sh = ne_share env (nx_tick n1); n2 = await env n1 in
                            case sh_share_nbd sh of
                              Inl e \<Rightarrow> (Inl (Nexus_ShareNbdNexus e (nx_name n)), n2)
                            | Inr uri \<Rightarrow>
                                (Inr uri, emit Ev_share_nbd (n2\<lparr>nx_target := Some (Target_NbdDisk uri)\<rparr>))))
               }
           | Protocol_Nvmf \<Rightarrow>
               (case sh_create_ptpl (ne_share env (nx_tick n)) of
                  Inl e \<Rightarrow> Some (Inl (Nexus_ShareNvmfNexus (Core_Ptpl e) (nx_name n)), n)
                | Inr _ \<Rightarrow>
                    do {
                      (r, n1) \<leftarrow> share_nvmf env n;
                      Some (case r of
                              Inl e \<Rightarrow> (Inl e, n1)
                            | Inr uri \<Rightarrow> (Inr uri, n1\<lparr>nx_target := Some Target_NexusNvmf\<rparr>))
                    })))"

definition unshare :: "'s nexus_env \<Rightarrow> 's Nexus \<Rightarrow> (NexusError + unit) \<times> 's Nexus" where
  "unshare env n =
     (let sh = ne_share env (nx_tick n); n1 = await env n in
      case sh_unshare sh of
        Inl e \<Rightarrow> (Inl (Nexus_UnshareNexus e (nx_name n)), n1)
      | Inr _ \<Rightarrow> (Inr (), emit Ev_unshare (n1\<lparr>nx_shared := False\<rparr>)))"

definition unshare_nexus_internal ::
  "'s nexus_env \<Rightarrow> bool \<Rightarrow> 's Nexus \<Rightarrow> ((NexusError + unit) \<times> 's Nexus) option" where
  "unshare_nexus_internal env persist_clean n =
     (let n0 = n\<lparr>nx_target := None\<rparr>;
          n1 = (case nx_target n of Some (Target_NbdDisk uri) \<Rightarrow> emit (Ev_nbd_destroy uri) n0 | _ \<Rightarrow> n0)
      in case unshare env n1 of
           (Inl e, n2) \<Rightarrow> Some (Inl e, n2)
         | (Inr _, n2) \<Rightarrow>
             if persist_clean \<and> \<not> sh_nqn_lookup (ne_share env (nx_tick n2)) then
               do { (_, n3) \<leftarrow> nexus_persist env (PO_SetShared False) n2; Some (Inr (), n3) }
             else Some (Inr (), n2))"

section \<open>Creation and destruction\<close>

text \<open>The loop of \<open>try_open_children\<close> over the children: the children opened, and the last error.\<close>

primrec open_all ::
  "(ChildDevice \<Rightarrow> CoreError + string) \<Rightarrow> nat \<Rightarrow> u64 \<Rightarrow> NexusChild list \<Rightarrow>
   (ChildError option \<times> NexusChild list) option" where
  "open_all dev_open now req_size [] = Some (None, [])"
| "open_all dev_open now req_size (c # cs) =
     do {
       (r, c') \<leftarrow> child_open dev_open now req_size Synced c;
       (e, cs') \<leftarrow> open_all dev_open now req_size cs;
       Some (case e of
               Some _ \<Rightarrow> e
             | None \<Rightarrow> (case r of Inl err \<Rightarrow> Some err | Inr _ \<Rightarrow> None), c' # cs')
     }"

text \<open>The loop that acquires the reservations, up to the first error.\<close>

primrec reserve_all ::
  "'s nexus_env \<Rightarrow> NexusChild list \<Rightarrow> 's Nexus \<Rightarrow> (NexusError + unit) \<times> 's Nexus" where
  "reserve_all env [] n = (Inr (), n)"
| "reserve_all env (c # cs) n =
     (case ne_reserve env (nx_tick n) c (nx_nvme_params n) of
        Inl e \<Rightarrow> (Inl (Nexus_ChildWriteExclusiveResvFailed e (nc_name c) (nx_name n)), await env n)
      | Inr _ \<Rightarrow> reserve_all env cs (await env n))"

definition close_opened :: "'s nexus_env \<Rightarrow> 's Nexus \<Rightarrow> 's Nexus option" where
  "close_opened env n =
     foldM (\<lambda>uri n. case lookup_child uri n of
              Some c \<Rightarrow> (if is_opened c then map_option snd (close_at env uri n) else Some n)
            | None \<Rightarrow> Some n) (child_uris n) n"

primrec max_alignment :: "NexusChild list \<Rightarrow> u64 \<Rightarrow> u64 option" where
  "max_alignment [] new_alignment = Some new_alignment"
| "max_alignment (c # cs) new_alignment =
     do {
       d \<leftarrow> nc_device c;
       max_alignment cs (if new_alignment < cd_alignment d then cd_alignment d else new_alignment)
     }"

definition try_open_children ::
  "'s nexus_env \<Rightarrow> 's Nexus \<Rightarrow> ((NexusError + unit) \<times> 's Nexus) option" where
  "try_open_children env n =
     do {
       (err, cs) \<leftarrow> open_all (be_dev_open (ne_bdev env (nx_tick n))) (ne_now env (nx_tick n))
                        (nx_req_size n) (nx_children n);
       let n1 = n\<lparr>nx_children := cs\<rparr>;
       case err of
         Some e \<Rightarrow>
           do {
             n2 \<leftarrow> close_opened env n1;
             Some (Inl (Nexus_NexusIncomplete (nx_name n) (ne_show env e)), n2)
           }
       | None \<Rightarrow>
           (case reserve_all env (nx_children n1) n1 of
              (Inl e, n2) \<Rightarrow> do { n3 \<leftarrow> close_children env n2; Some (Inl e, n3) }
            | (Inr _, n2) \<Rightarrow>
                let alignment = ne_alignment env (nx_required_alignment n2) in
                do {
                  new_alignment \<leftarrow> max_alignment (nx_children n2) alignment;
                  Some (Inr (), if alignment \<noteq> new_alignment
                                then n2\<lparr>nx_required_alignment := ucast new_alignment\<rparr> else n2)
                })
     }"

definition register_instance ::
  "'s nexus_env \<Rightarrow> 's Nexus \<Rightarrow> ((NexusError + unit) \<times> 's Nexus) option" where
  "register_instance env n =
     (if nx_state n \<noteq> NS_Init then None
      else
        do {
          (r, n1) \<leftarrow> setup_nexus_bdev (\<lambda>_. None) False n;
          case r of
            Inl e \<Rightarrow> Some (Inl e, n1)
          | Inr _ \<Rightarrow>
              let n2 = emit Ev_register_io_device n1 in
              (case ne_register env (nx_tick n2) of
                 Inl e \<Rightarrow> Some (Inl (Nexus_RegisterNexus e (nx_name n)), n2)
               | Inr _ \<Rightarrow>
                   do {
                     (r3, n3) \<leftarrow> try_open_children env (n2\<lparr>nx_has_io_device := True\<rparr>);
                     case r3 of
                       Inl e \<Rightarrow> Some (Inl e, emit Ev_unregister_bdev n3)
                     | Inr _ \<Rightarrow>
                         do {
                           (r4, n4) \<leftarrow> nexus_persist env PO_Create n3;
                           Some (case r4 of
                                   Inl e \<Rightarrow> (Inl e, emit Ev_unregister_bdev n4)
                                 | Inr _ \<Rightarrow> (Inr (), set_state NS_Open n4))
                         }
                   })
        })"

text \<open>The children of a new nexus, up to the first that cannot be created.\<close>

primrec new_children ::
  "'s nexus_env \<Rightarrow> string list \<Rightarrow> 's Nexus \<Rightarrow> ((BdevError + unit) \<times> 's Nexus) option" where
  "new_children env [] n = Some (Inr (), n)"
| "new_children env (uri # uris) n =
     do {
       (r, n1) \<leftarrow> new_child env uri n;
       case r of Inl e \<Rightarrow> Some (Inl e, n1) | Inr _ \<Rightarrow> new_children env uris n1
     }"

text \<open>\<open>nexus_create_internal\<close>. \<open>existing\<close> is the nexus with the name or the UUID, if there is one, and
  \<open>fresh\<close> the object that \<open>Nexus::new\<close> makes.\<close>

definition nexus_create_internal ::
  "'s nexus_env \<Rightarrow> string \<Rightarrow> string option \<Rightarrow> string list \<Rightarrow> 's Nexus option \<Rightarrow> 's Nexus \<Rightarrow>
   ((NexusError + unit) \<times> 's Nexus option) option" where
  "nexus_create_internal env name nexus_uuid children existing fresh =
     (case existing of
        Some nexus \<Rightarrow>
          Some (if nx_state nexus = NS_Init then Inl (Nexus_NexusInitialising name)
                else if nx_name nexus \<noteq> name \<or> (nexus_uuid \<noteq> None \<and> Some (nx_uuid nexus) \<noteq> nexus_uuid)
                then Inl (Nexus_UuidExists (nx_uuid nexus) name)
                else Inr (), existing)
      | None \<Rightarrow>
          do {
            (r, n1) \<leftarrow> new_children env children fresh;
            case r of
              Inl e \<Rightarrow>
                do { n2 \<leftarrow> close_children env n1; Some (Inl (Nexus_CreateChild e name), Some n2) }
            | Inr _ \<Rightarrow>
                do {
                  (r2, n2) \<leftarrow> register_instance env n1;
                  case r2 of
                    Inr _ \<Rightarrow> Some (Inr (), Some n2)
                  | Inl (Nexus_NexusIncomplete nm reason) \<Rightarrow>
                      Some (Inl (Nexus_NexusCreate nm reason),
                            Some (fold (destroy_device env) (child_uris n2) n2))
                  | Inl e \<Rightarrow> do { n3 \<leftarrow> close_children env n2; Some (Inl e, Some n3) }
                }
          })"

text \<open>The checks of \<open>nexus_create_v2\<close> on the NVMe parameters; the text of the range is not modelled.\<close>

definition create_params_ok :: "string \<Rightarrow> NexusNvmeParams \<Rightarrow> NexusError + unit" where
  "create_params_ok name p =
     (if np_min_cntlid p < 1 \<or> np_min_cntlid p > np_max_cntlid p \<or> np_max_cntlid p > 0xffef then
        Inl (Nexus_InvalidArguments name ''invalid NVMe controller ID range'')
      else if \<not> reservations_enabled p then Inr ()
      else if \<not> reservations_valid p then
        Inl (Nexus_InvalidArguments name ''invalid NVMe reservation parameters'')
      else Inr ())"

text \<open>The UUIDs that \<open>nexus_create_v2\<close> gives to the block device and to the nexus.\<close>

definition create_uuids ::
  "(string \<Rightarrow> string option) \<Rightarrow> string \<Rightarrow> string \<Rightarrow> NexusError + (string option \<times> string option)" where
  "create_uuids parse_str name uuid =
     (case parse_str name of
        Some name_uuid \<Rightarrow>
          (case parse_str uuid of
             None \<Rightarrow> Inl (Nexus_InvalidUuid uuid)
           | Some nexus_uuid \<Rightarrow> Inr (Some name_uuid, Some nexus_uuid))
      | None \<Rightarrow> Inr (Some uuid, None))"

definition nexus_create_v2 ::
  "'s nexus_env \<Rightarrow> (string \<Rightarrow> string option) \<Rightarrow> string \<Rightarrow> string \<Rightarrow> u64 \<Rightarrow> bool \<Rightarrow> string \<Rightarrow>
   NexusNvmeParams \<Rightarrow> string list \<Rightarrow> string option \<Rightarrow> LabelVersion \<Rightarrow>
   (string option \<Rightarrow> 's Nexus option) \<Rightarrow> (string \<times> RebuildJob) list \<Rightarrow> 's \<Rightarrow>
   ((NexusError + unit) \<times> 's Nexus option) option" where
  "nexus_create_v2 env parse_str generated name req_size size_exact uuid nvme_params children
     nexus_info_key label_version lookup jobs store =
     (case try_bind (create_params_ok name nvme_params) (\<lambda>_. create_uuids parse_str name uuid) of
        Inl e \<Rightarrow> Some (Inl e, None)
      | Inr (bdev_uuid, nexus_uuid) \<Rightarrow>
          nexus_create_internal env name nexus_uuid children (lookup nexus_uuid)
            (nexus_new parse_str generated name req_size size_exact bdev_uuid nexus_uuid nvme_params
               nexus_info_key label_version jobs store))"

definition destroy_ext ::
  "'s nexus_env \<Rightarrow> bool \<Rightarrow> 's Nexus \<Rightarrow> ((NexusError + unit) \<times> 's Nexus) option" where
  "destroy_ext env sigterm n =
     do {
       (r, n1) \<leftarrow> unshare_nexus_internal env False n;
       case r of
         Inl e \<Rightarrow> Some (Inl e, n1)
       | Inr _ \<Rightarrow>
           let n2 = fold (\<lambda>uri n. snd (cancel_rebuild_jobs env uri n)) (child_uris n1) n1 in
           do {
             n3 \<leftarrow> close_children env n2;
             (_, n4) \<leftarrow> nexus_persist env PO_Shutdown n3;
             let n5 = (if \<not> sigterm then emit Ev_ptpl_destroy n4 else n4);
             let n6 = await env (emit Ev_unregister_bdev n5);
             Some (case ne_unregister env (nx_tick n5) of
                     Inr _ \<Rightarrow> (Inr (), n6)
                   | Inl _ \<Rightarrow> (Inl (Nexus_NexusDestroy (nx_name n)), n6))
           }
     }"

text \<open>\<open>destruct\<close>, the callback of SPDK when the block device is unregistered.\<close>

definition nexus_destruct :: "'s nexus_env \<Rightarrow> 's Nexus \<Rightarrow> 's Nexus option" where
  "nexus_destruct env n =
     (if nx_state n = NS_Closed then Some n
      else
        do {
          n1 \<leftarrow> (if list_ex is_opened (nx_children n) then
                    do { n1 \<leftarrow> close_opened env n; Some (n1\<lparr>nx_children := []\<rparr>) }
                  else Some n);
          Some (set_state NS_Closed
                  ((emit Ev_unregister_io_device n1)\<lparr>nx_has_io_device := False\<rparr>))
        })"

end
