(* ===== verification/Nexus_Interference.thy ===== *)
theory Nexus_Interference
  imports Nexus_Life
begin

text \<open>
  Reasoning about the operations of a nexus that others interleave with. A relation between the nexus
  before and the nexus after, kept by the others and by every elementary change an operation makes, is
  kept by the operations: the locale \<open>interference\<close> states what is asked of the relation, and its
  lemmas, one for each operation, are proved once and used for every relation it is interpreted with.
\<close>

definition healthy_uri :: "'s Nexus \<Rightarrow> string \<Rightarrow> bool" where
  "healthy_uri n u \<longleftrightarrow> (\<exists>c\<in>set (nx_children n). nc_name c = u \<and> is_healthy c)"

section \<open>Children that do not get healthier\<close>

definition no_healthier :: "NexusChild \<Rightarrow> NexusChild \<Rightarrow> bool" where
  "no_healthier c c' \<longleftrightarrow> nc_name c' = nc_name c \<and> (is_healthy c' \<longrightarrow> is_healthy c)"

lemma no_healthier_refl [simp]: "no_healthier c c"
  by (simp add: no_healthier_def)

lemma no_healthier_trans: "no_healthier a b \<Longrightarrow> no_healthier b c \<Longrightarrow> no_healthier a c"
  by (simp add: no_healthier_def)

lemma no_healthier_setters [simp]:
  "no_healthier c (c\<lparr>nc_remove_channel := q\<rparr>)" "no_healthier c (c\<lparr>nc_device := d\<rparr>)"
  "no_healthier c (c\<lparr>nc_device_descriptor := desc\<rparr>)" "no_healthier c (c\<lparr>nc_io_log := l\<rparr>)"
  "no_healthier c (c\<lparr>nc_destroy_state := ds\<rparr>)" "no_healthier c (set_faulted_state now reason c)"
  "no_healthier c (set_fault_timestamp now c)"
  "st \<noteq> CS_Open \<Longrightarrow> no_healthier c (c\<lparr>nc_state := st\<rparr>)"
  "st \<noteq> CS_Open \<Longrightarrow> no_healthier c (child_set_state st c)"
  by (auto simp: no_healthier_def is_healthy_def set_destroy_state_def set_faulted_state_def
      set_fault_timestamp_def child_set_state_def)

text \<open>What the other tasks may do to a child that is being closed.\<close>

definition calm_close :: "close_env \<Rightarrow> bool" where
  "calm_close env \<longleftrightarrow>
     (\<forall>c. no_healthier c (ce_until_recv env c)) \<and> (\<forall>s\<in>set (ce_sleeps env). \<forall>c. no_healthier c (s c))"

lemma close_wait_no_healthier:
  "\<forall>s\<in>set sleeps. \<forall>c. no_healthier c (s c) \<Longrightarrow> no_healthier c (snd (close_wait sleeps tries destroyed c))"
proof (induction sleeps tries destroyed c rule: close_wait.induct)
  case (1 sleeps tries destroyed c)
  show ?case
  proof (cases "\<not> destroyed \<and> tries < 20")
    case run: True
    show ?thesis
    proof (cases "nc_remove_channel c")
      case Nil
      show ?thesis
      proof (cases sleeps)
        case Nil2: Nil
        have "no_healthier c (snd (close_wait [] (tries + 1) destroyed c))"
          using 1(1) [OF run Nil Nil2] by simp
        then show ?thesis using run Nil Nil2 by (subst close_wait.simps) simp
      next
        case (Cons s ss)
        have "no_healthier (s c) (snd (close_wait ss (tries + 1) destroyed (s c)))"
          using 1(2) [OF run Nil Cons] 1(4) Cons by simp
        moreover have "no_healthier c (s c)" using 1(4) Cons by simp
        ultimately have "no_healthier c (snd (close_wait ss (tries + 1) destroyed (s c)))"
          using no_healthier_trans by blast
        then show ?thesis using run Nil Cons by (subst close_wait.simps) simp
      qed
    next
      case (Cons b bs)
      have "no_healthier (c\<lparr>nc_remove_channel := bs\<rparr>)
          (snd (close_wait sleeps tries b (c\<lparr>nc_remove_channel := bs\<rparr>)))"
        using 1(3) [OF run Cons] 1(4) by simp
      then have "no_healthier c (snd (close_wait sleeps tries b (c\<lparr>nc_remove_channel := bs\<rparr>)))"
        using no_healthier_trans no_healthier_setters(1) by blast
      then show ?thesis using run Cons by (subst close_wait.simps) simp
    qed
  next
    case False
    then show ?thesis by (subst close_wait.simps) auto
  qed
qed

lemma child_close_no_healthier:
  assumes "child_close env c = Some (r, c')" "calm_close env"
  shows "no_healthier c c'"
proof -
  define c1 where "c1 = set_destroy_state Destroying c"
  define c2 where "c2 = ce_until_recv env c1"
  have c1: "no_healthier c c1" by (simp add: c1_def set_destroy_state_def)
  have c2: "no_healthier c c2"
    using assms(2) c1 no_healthier_trans by (auto simp: calm_close_def c2_def)
  have sl: "\<forall>s\<in>set (ce_sleeps env). \<forall>c. no_healthier c (s c)" using assms(2) by (simp add: calm_close_def)
  have step: "no_healthier c x \<Longrightarrow> no_healthier c (set_destroy_state Destroy_None x)" for x
    using no_healthier_trans no_healthier_setters(5) by (fastforce simp: set_destroy_state_def)
  show ?thesis
  proof (cases "nc_destroy_state c \<noteq> Destroy_None \<or> nc_device c1 = None")
    case True
    then show ?thesis using assms(1) step [OF c1]
      by (auto simp: child_close_def c1_def Let_def split: if_splits)
  next
    case False
    show ?thesis
    proof (cases "ce_destroy env (nc_name c)")
      case (Inl e)
      then show ?thesis using assms(1) False step [OF c2]
        by (auto simp: child_close_def c1_def c2_def Let_def)
    next
      case (Inr u)
      show ?thesis
      proof (cases "nc_state c2 = CS_Init")
        case True
        then show ?thesis using assms(1) False Inr step [OF c2]
          by (auto simp: child_close_def c1_def c2_def Let_def)
      next
        case ni: False
        obtain b bs where q: "nc_remove_channel c2 = b # bs"
          and c': "c' = set_destroy_state Destroy_None
            (snd (close_wait (ce_sleeps env) 0 b (c2\<lparr>nc_remove_channel := bs\<rparr>)))"
          using assms(1) False Inr ni
          by (auto simp: child_close_def c1_def c2_def Let_def child_recv_def
              split: Option.bind_splits list.splits)
        have "no_healthier c (c2\<lparr>nc_remove_channel := bs\<rparr>)"
          using c2 no_healthier_trans no_healthier_setters(1) by blast
        then have "no_healthier c (snd (close_wait (ce_sleeps env) 0 b (c2\<lparr>nc_remove_channel := bs\<rparr>)))"
          using close_wait_no_healthier [OF sl] no_healthier_trans by blast
        then show ?thesis unfolding c' by (rule step)
      qed
    qed
  qed
qed

lemma close_faulted_no_healthier:
  assumes "close_faulted env now reason c = Some c'" "calm_close env"
  shows "no_healthier c c'"
proof -
  obtain r d where d: "child_close env c = Some (r, d)" "c' = set_faulted_state now reason d"
    using assms(1) by (auto simp: close_faulted_def split: Option.bind_splits)
  show ?thesis
    unfolding d(2)
    by (rule no_healthier_trans [OF child_close_no_healthier [OF d(1) assms(2)] no_healthier_setters(6)])
qed

lemma child_open_unsync:
  assumes "child_open dev_open now sz OutOfSync c = Some (r, c')"
  shows "no_healthier c c'"
  using assms
  by (auto simp: child_open_def Let_def set_sync_state_def child_set_state_def no_healthier_def
      is_healthy_def set_faulted_state_def set_fault_timestamp_def
      split: if_splits option.splits sum.splits ChildState.splits)

lemma child_online_no_healthier:
  assumes "child_online benv now sz c = Some (r, c')"
  shows "no_healthier c c'"
proof -
  have "no_healthier c x" if "child_open o' n' s' OutOfSync (c\<lparr>nc_device := d\<rparr>) = Some (r', x)" for o' n' s' d r' x
    using child_open_unsync [OF that] no_healthier_trans no_healthier_setters(2) by blast
  then show ?thesis using assms
    by (auto simp: child_online_def Let_def split: if_splits sum.splits)
qed

lemma start_io_log_no_healthier: "start_io_log lenv c = Some (b, c') \<Longrightarrow> no_healthier c c'"
  by (auto simp: start_io_log_def split: if_splits option.splits Option.bind_splits)

lemma stop_io_log_no_healthier: "stop_io_log c = Some (b, c') \<Longrightarrow> no_healthier c c'"
  by (auto simp: stop_io_log_def split: option.splits Option.bind_splits)

lemma unplug_no_healthier: "(\<And>c. no_healthier c (f c)) \<Longrightarrow> no_healthier c (unplug f c)"
proof -
  assume f: "\<And>c. no_healthier c (f c)"
  define c1 where "c1 = (if is_destroying c then c\<lparr>nc_device := None\<rparr> else c)"
  define c2 where "c2 = (if nc_state c = CS_Open then child_set_state CS_Closed c1 else c1)"
  define c3 where "c3 = (if nc_state c \<noteq> CS_Faulted FR_IoError then f c2 else c2)"
  define c4 where "c4 = (if is_destroying c then c3\<lparr>nc_device_descriptor := None\<rparr> else c3)"
  have "no_healthier c c1" by (simp add: c1_def)
  moreover have "no_healthier c1 c2" by (simp add: c2_def)
  moreover have "no_healthier c2 c3" using f by (simp add: c3_def)
  moreover have "no_healthier c3 c4" by (simp add: c4_def)
  moreover have "unplug f c = unplug_complete c4"
    by (simp add: unplug_def c4_def c3_def c2_def c1_def Let_def)
  moreover have "no_healthier c4 (unplug_complete c4)" by (simp add: unplug_complete_def)
  ultimately show ?thesis by (metis no_healthier_trans)
qed

lemma healthy_update_first:
  assumes "\<And>c. P c \<Longrightarrow> c \<in> set cs \<Longrightarrow> is_healthy (f c) \<Longrightarrow> Q (nc_name (f c))"
    and "\<And>c. c \<in> set cs \<Longrightarrow> is_healthy c \<Longrightarrow> Q (nc_name c)"
  shows "c \<in> set (update_first P f cs) \<Longrightarrow> is_healthy c \<Longrightarrow> Q (nc_name c)"
  using assms
proof (induction cs)
  case (Cons x xs)
  show ?case
  proof (cases "P x")
    case True
    then show ?thesis using Cons.prems by auto
  next
    case False
    then consider "c = x" | "c \<in> set (update_first P f xs)" using Cons.prems(1) by auto
    then show ?thesis
    proof cases
      case 2
      then show ?thesis using Cons.IH Cons.prems(2-4) by (metis list.set_intros(2))
    qed (use Cons.prems in auto)
  qed
qed simp

lemma lookup_child_Some:
  "lookup_child uri n = Some c \<Longrightarrow> c \<in> set (nx_children n) \<and> nc_name c = uri"
  by (auto simp: lookup_child_def find_Some_iff)

lemma lookup_by_device_Some: "lookup_child_by_device cs dev = Some c \<Longrightarrow> c \<in> set cs"
  by (auto simp: lookup_child_by_device_def find_Some_iff)

section \<open>Relations kept under interference\<close>

text \<open>The laws that concern the tasks themselves: what the others do, and every change that leaves the
  children alone.\<close>

locale task_interference =
  fixes env :: "'s nexus_env" and R :: "'s Nexus \<Rightarrow> 's Nexus \<Rightarrow> bool"
  assumes refl: "R n n"
    and trans: "R x y \<Longrightarrow> R y z \<Longrightarrow> R x z"
    and others: "R n ((ne_others env t n)\<lparr>nx_tick := k\<rparr>)"
    and emits: "R n (emit e n)"
    and sends: "R n (send_future f n)"
    and pauses: "R n (n\<lparr>nx_pause_state := ps\<rparr>)"
    and jobs: "R n (n\<lparr>nx_jobs := js\<rparr>)"
    and records: "R n (n\<lparr>nx_info := i, nx_store := st\<rparr>)"
    and history: "R n (n\<lparr>nx_rebuild_history := h\<rparr>)"
begin

lemma then_emit: "R a n \<Longrightarrow> R a (emit e n)"
  by (rule trans [OF _ emits])

lemma then_send: "R a n \<Longrightarrow> R a (send_future f n)"
  by (rule trans [OF _ sends])

lemma then_await: "R a n \<Longrightarrow> R a (await env n)"
  unfolding await_def by (rule trans [OF _ others])

lemma then_pause_state: "R a n \<Longrightarrow> R a (n\<lparr>nx_pause_state := ps\<rparr>)"
  by (rule trans [OF _ pauses])

lemma then_jobs: "R a n \<Longrightarrow> R a (n\<lparr>nx_jobs := js\<rparr>)"
  by (rule trans [OF _ jobs])

lemma then_traverse: "R a n \<Longrightarrow> R a (traverse_io_channels_async env m n)"
  unfolding traverse_io_channels_async_def by (intro then_await then_emit)

lemma then_reconfigure: "R a n \<Longrightarrow> R a (nexus_reconfigure env n)"
  unfolding nexus_reconfigure_def by (rule then_traverse)

lemma then_detach: "R a n \<Longrightarrow> R a (nexus_detach_device env dev n)"
  unfolding nexus_detach_device_def by (auto intro: then_traverse)

lemma then_disconnect: "R a n \<Longrightarrow> R a (disconnect_all_detached_devices env n)"
  unfolding disconnect_all_detached_devices_def by (rule then_traverse)

lemma then_pause: "nexus_pause env n = (r, n') \<Longrightarrow> R a n \<Longrightarrow> R a n'"
  by (auto simp: nexus_pause_def split: prod.splits intro!: then_pause_state then_await)

lemma then_resume: "nexus_resume env n = (r, n') \<Longrightarrow> R a n \<Longrightarrow> R a n'"
  by (auto simp: nexus_resume_def Let_def split: prod.splits intro!: then_pause_state then_await)

lemma then_effects: "R a n \<Longrightarrow> R a (fold persist_effect_on es n)"
  by (induction es arbitrary: n)
    (auto simp: persist_effect_on_def split: persist_effect.splits intro: then_emit then_send)

lemma then_persist: "nexus_persist env op n = Some (r, n') \<Longrightarrow> R a n \<Longrightarrow> R a n'"
  by (auto simp: nexus_persist_def Let_def split: if_splits Option.bind_splits
      intro!: then_await then_effects trans [OF _ records])

lemma then_job_update: "R a n \<Longrightarrow> R a (job_update uri j n)"
  unfolding job_update_def by (rule then_jobs)

lemma then_foldM:
  assumes "\<And>x n n'. f x n = Some n' \<Longrightarrow> R n n'"
  shows "foldM f xs n = Some n' \<Longrightarrow> R a n \<Longrightarrow> R a n'"
proof (induction xs arbitrary: n)
  case (Cons x xs)
  then obtain m where m: "f x n = Some m" "foldM f xs m = Some n'" by (auto split: option.splits)
  show ?case using Cons.IH [OF m(2)] trans [OF Cons.prems(2) assms [OF m(1)]] by blast
qed simp

lemma then_fold:
  assumes "\<And>x n. R n (f x n)"
  shows "R a n \<Longrightarrow> R a (fold f xs n)"
  by (induction xs arbitrary: n) (auto intro: trans [OF _ assms])

lemma then_create_rebuild_job: "create_rebuild_job env src dst n = (r, n') \<Longrightarrow> R a n \<Longrightarrow> R a n'"
  by (auto simp: create_rebuild_job_def Let_def split: sum.splits intro!: then_await then_jobs)

lemma then_terminate: "R a n \<Longrightarrow> R a (terminate_rebuild env uri n)"
  by (auto simp: terminate_rebuild_def split: sum.splits prod.splits
      intro!: then_await then_job_update)

lemma then_stop_rebuild: "stop_rebuild uri n = (r, n') \<Longrightarrow> R a n \<Longrightarrow> R a n'"
  by (auto simp: stop_rebuild_def split: sum.splits intro!: then_job_update)

lemma then_pause_rebuild: "pause_rebuild uri n = (r, n') \<Longrightarrow> R a n \<Longrightarrow> R a n'"
  by (auto simp: pause_rebuild_def split: sum.splits intro!: then_job_update)

lemma then_resume_rebuild: "resume_rebuild uri n = (r, n') \<Longrightarrow> R a n \<Longrightarrow> R a n'"
  by (auto simp: resume_rebuild_def split: sum.splits intro!: then_job_update)

lemma then_cancel: "cancel_rebuild_jobs env uri n = (us, n') \<Longrightarrow> R a n \<Longrightarrow> R a n'"
  by (auto simp: cancel_rebuild_jobs_def Let_def force_stop_job_def split: sum.splits
      intro!: then_terminate then_fold then_job_update then_await refl)

lemma then_history: "R a n \<Longrightarrow> R a (create_history_record now job n)"
  by (auto simp: create_history_record_def split: option.splits intro: trans [OF _ history])

lemma then_finished: "rebuild_finished env uri n = (r, n') \<Longrightarrow> R a n \<Longrightarrow> R a n'"
  by (auto simp: rebuild_finished_def split: sum.splits
      intro!: then_reconfigure then_history then_jobs)

lemma then_destroy_device: "R a n \<Longrightarrow> R a (destroy_device env uri n)"
  unfolding destroy_device_def by (intro then_await then_emit)

lemma then_retire_destroy: "R a n \<Longrightarrow> R a (child_retire_destroy_device dev n)"
  by (auto simp: child_retire_destroy_device_def Let_def split: option.splits sum.splits
      intro!: then_emit then_job_update)

lemma then_disconnect_failed: "R a n \<Longrightarrow> R a (disconnect_failed_child env dev failed n)"
  by (auto simp: disconnect_failed_child_def split: sum.splits intro: then_traverse)

lemma then_shutdown_device: "R a n \<Longrightarrow> R a (shutdown_device env dev n)"
  unfolding shutdown_device_def by (intro then_emit then_disconnect then_detach)

lemma then_shutdown_devices: "R a n \<Longrightarrow> R a (fold (shutdown_device env) devs n)"
  by (rule then_fold [OF then_shutdown_device [OF refl]])

lemma then_cancel_all:
  "R a n \<Longrightarrow> R a (fold (\<lambda>uri n. snd (cancel_rebuild_jobs env uri n)) uris n)"
  by (rule then_fold) (metis prod.collapse then_cancel refl)

lemma then_reset_child: "R a n \<Longrightarrow> R a (reset_child env c n)"
  by (auto simp: reset_child_def split: option.splits intro: then_await then_emit)

lemma then_reset_children: "R a n \<Longrightarrow> R a (fold (reset_child env) cs n)"
  by (rule then_fold [OF then_reset_child [OF refl]])

lemma then_retire_persist: "child_retire_persist env dev n = Some (r, n') \<Longrightarrow> R a n \<Longrightarrow> R a n'"
  by (auto simp: child_retire_persist_def split: option.splits intro: then_persist)

lemma then_do_child_retire:
  assumes "do_child_retire env dev n = Some (r, n')" "R a n"
  shows "R a n'"
proof -
  obtain r1 n1 where p: "child_retire_persist env dev n = Some (r1, n1)"
    using assms(1) by (auto simp: do_child_retire_def split: Option.bind_splits)
  have R1: "R a n1" by (rule then_retire_persist [OF p assms(2)])
  define n3 where "n3 = (let n2 = nexus_detach_device env dev n1 in
    traverse_io_channels_async env (Msg_disconnect (ne_failed env (nx_tick n2))) n2)"
  have R3: "R a n3" unfolding n3_def Let_def by (intro then_traverse then_detach R1)
  obtain res n4 where q: "nexus_pause env n3 = (res, n4)" by fastforce
  have R5: "R a (disconnect_all_detached_devices env n4)"
    by (rule then_disconnect [OF then_pause [OF q R3]])
  show ?thesis
    using assms(1) p R1 R5 q unfolding do_child_retire_def n3_def Let_def
    by (auto split: if_splits sum.splits intro: then_resume [OF _ then_retire_destroy])
qed

lemma then_retire_routine: "child_retire_routine env dev retry n = Some n' \<Longrightarrow> R a n \<Longrightarrow> R a n'"
  by (auto simp: child_retire_routine_def split: sum.splits if_splits Option.bind_splits
      intro: then_do_child_retire then_send [OF then_do_child_retire])

end

text \<open>Starting a rebuild also ends the I/O log of the child.\<close>

locale rebuild_interference = task_interference +
  assumes logs: "lookup_child uri n = Some c \<Longrightarrow> stop_io_log c = Some (lm, c') \<Longrightarrow>
    R n (update_child uri (\<lambda>_. c') n)"
begin

lemma then_start_rebuild: "start_rebuild env uri n = Some (r, n') \<Longrightarrow> R a n \<Longrightarrow> R a n'"
  unfolding start_rebuild_def Let_def
  by (auto split: option.splits if_splits prod.splits sum.splits Option.bind_splits
      intro!: then_job_update then_await then_emit trans [OF _ logs] then_reconfigure
      intro: then_create_rebuild_job)

lemma then_start_jobs: "start_rebuild_jobs env uris n = Some n' \<Longrightarrow> R a n \<Longrightarrow> R a n'"
  unfolding start_rebuild_jobs_def
  by (rule then_foldM) (auto intro: then_start_rebuild refl)

lemma then_guard_resume: "guard_resume env uris n = Some n' \<Longrightarrow> R a n \<Longrightarrow> R a n'"
  unfolding guard_resume_def by (rule then_start_jobs)

end

text \<open>The laws that concern the children: a new list of children without new healthy ones, and the end
  of a rebuild.\<close>

locale interference = task_interference +
  assumes children: "R n m \<Longrightarrow>
      (\<And>c. c \<in> set cs \<Longrightarrow> is_healthy c \<Longrightarrow> healthy_uri n (nc_name c) \<or> healthy_uri m (nc_name c)) \<Longrightarrow>
      R n (m\<lparr>nx_children := cs\<rparr>)"
    and heals: "R n (update_child uri (set_sync_state Synced) (emit (Ev_rebuild_end uri RsCompleted) n))"
    and closes: "calm_close (ne_close env t)"
    and unplugs: "no_healthier d (ne_child env t d)"
begin

text \<open>A child replaced by one that is no healthier than a child of the same name was before.\<close>

lemma then_replace:
  assumes "R a n" "R n m" "lookup_child uri n = Some c" "no_healthier c c'"
  shows "R a (update_child uri (\<lambda>_. c') m)"
proof -
  have u: "is_healthy c' \<Longrightarrow> healthy_uri n (nc_name c')"
    using lookup_child_Some [OF assms(3)] assms(4) by (auto simp: no_healthier_def healthy_uri_def)
  have "R n (update_child uri (\<lambda>_. c') m)"
    unfolding update_child_def
  proof (rule children [OF assms(2)])
    fix x
    assume "x \<in> set (update_first (\<lambda>c. nc_name c = uri) (\<lambda>_. c') (nx_children m))" "is_healthy x"
    then show "healthy_uri n (nc_name x) \<or> healthy_uri m (nc_name x)"
      by (rule healthy_update_first [rotated -2]) (use u in \<open>auto simp: healthy_uri_def\<close>)
  qed
  then show ?thesis using assms(1) trans by blast
qed

lemma then_stop_log:
  assumes "R a n" "lookup_child uri n = Some c" "stop_io_log c = Some (m, c')"
  shows "R a (update_child uri (\<lambda>_. c') n)"
  by (rule then_replace [OF assms(1) refl assms(2) stop_io_log_no_healthier [OF assms(3)]])

end

sublocale interference \<subseteq> rebuild_interference
  by unfold_locales (rule then_stop_log [OF refl])

context interference
begin

lemma then_close_at: "close_at env uri n = Some (r, n') \<Longrightarrow> R a n \<Longrightarrow> R a n'"
  by (auto simp: close_at_def split: option.splits Option.bind_splits
      intro!: then_replace then_await refl dest: child_close_no_healthier [OF _ closes])

lemma then_close_faulted_at: "close_faulted_at env reason uri n = Some n' \<Longrightarrow> R a n \<Longrightarrow> R a n'"
  by (auto simp: close_faulted_at_def split: option.splits Option.bind_splits
      intro!: then_replace then_await refl dest: close_faulted_no_healthier [OF _ closes])

lemma then_close_children: "close_children env n = Some n' \<Longrightarrow> R a n \<Longrightarrow> R a n'"
  unfolding close_children_def
  by (rule then_foldM) (auto intro: then_close_at refl)

lemma then_close_child: "close_child env dev n = Some (r, n') \<Longrightarrow> R a n \<Longrightarrow> R a n'"
  by (auto simp: close_child_def split: sum.splits Option.bind_splits intro: then_close_at)

text \<open>Rebuilds.\<close>

lemma then_heals:
  "R a n \<Longrightarrow> R a (update_child uri (set_sync_state Synced) (emit (Ev_rebuild_end uri RsCompleted) n))"
  by (rule trans [OF _ heals])

lemma then_rebuild_update: "on_rebuild_update env uri n = Some (r, n') \<Longrightarrow> R a n \<Longrightarrow> R a n'"
  unfolding on_rebuild_update_def Let_def
  by (auto split: sum.splits if_splits Option.bind_splits
      intro: then_finished then_heals then_emit
        then_persist [OF _ then_heals] then_finished [OF _ then_persist [OF _ then_heals]]
        then_finished [OF _ then_heals] then_finished [OF _ then_emit]
        then_finished [OF _ then_close_faulted_at [OF _ then_emit]])

text \<open>Operations on the children.\<close>

lemma then_add:
  assumes "R a n" "\<not> is_healthy c"
  shows "R a (child_add_unsafe c n)"
proof -
  have "R n (child_add_unsafe c n)"
    unfolding child_add_unsafe_def
    by (rule children [OF refl]) (use assms(2) in \<open>auto simp: healthy_uri_def\<close>)
  then show ?thesis using assms(1) trans by blast
qed

lemma then_remove: "R a n \<Longrightarrow> R a (child_remove_unsafe uri n)"
proof -
  assume a: "R a n"
  have "R n (child_remove_unsafe uri n)"
    unfolding child_remove_unsafe_def
    by (rule children [OF refl]) (auto simp: healthy_uri_def)
  then show ?thesis using a trans by blast
qed

lemma then_new_child: "new_child env uri n = Some (r, n') \<Longrightarrow> R a n \<Longrightarrow> R a n'"
  by (auto simp: new_child_def Let_def child_new_def split: if_splits sum.splits Option.bind_splits
      intro!: then_await then_add) (auto simp: is_healthy_def)

lemma then_add_opened_child:
  assumes "add_opened_child env uri c n = Some (r, n')" "R a n" "\<not> is_healthy c"
  shows "R a n'"
proof -
  obtain opened c1 where o: "child_open (be_dev_open (ne_bdev env (nx_tick n))) (ne_now env (nx_tick n))
      (nx_req_size n) OutOfSync c = Some (opened, c1)"
    using assms(1) by (auto simp: add_opened_child_def split: Option.bind_splits)
  have h: "\<not> is_healthy c1" using child_open_unsync [OF o] assms(3) by (simp add: no_healthier_def)
  show ?thesis
    using assms(1,2) o h unfolding add_opened_child_def Let_def
    by (auto split: sum.splits prod.splits Option.bind_splits
        intro!: then_destroy_device then_remove then_await
        intro: then_persist [OF _ then_add [OF then_await]] then_persist [OF _ then_add])
qed

lemma then_add_child_only: "add_child_only env uri n = Some (r, n') \<Longrightarrow> R a n \<Longrightarrow> R a n'"
  by (auto simp: add_child_only_def Let_def child_new_def
      split: sum.splits if_splits option.splits Option.bind_splits
      intro!: then_destroy_device then_await
      elim!: then_add_opened_child [OF _ then_await]) (auto simp: is_healthy_def)

lemma then_add_child: "add_child env uri norebuild n = Some (r, n') \<Longrightarrow> R a n \<Longrightarrow> R a n'"
  by (auto simp: add_child_def split: sum.splits if_splits Option.bind_splits)
    (blast intro: then_add_child_only then_start_rebuild then_close_faulted_at then_emit)+

lemma then_close_and_remove: "close_and_remove env uri n = Some (r, n') \<Longrightarrow> R a n \<Longrightarrow> R a n'"
  by (auto simp: close_and_remove_def Let_def split: option.splits Option.bind_splits
      intro!: then_remove intro: then_close_at then_close_at [OF _ then_disconnect [OF then_detach]])

lemma then_remove_child:
  assumes "remove_child env uri n = Some (r, n')" "R a n"
  shows "R a n'"
proof -
  obtain us n1 where c: "cancel_rebuild_jobs env uri n = (us, n1)" by fastforce
  obtain p n2 where p: "nexus_pause env n1 = (p, n2)" by fastforce
  have R2: "R a n2" using then_pause [OF p then_cancel [OF c assms(2)]] .
  show ?thesis
    using assms c p R2 unfolding remove_child_def Let_def
    by (auto simp: guard_drop_def split: sum.splits if_splits prod.splits Option.bind_splits
        intro: then_guard_resume
          then_guard_resume [OF _ then_resume [OF _ then_close_and_remove [OF _ then_persist]]])
qed

lemma then_retire_device:
  assumes "nexus_retire_child_device env dev reason retry n = Some n'" "R a n"
  shows "R a n'"
proof (cases "lookup_child_by_device (nx_children n) dev")
  case None
  then show ?thesis using assms by (simp add: nexus_retire_child_device_def)
next
  case (Some c)
  then obtain has_log c1 where l: "start_io_log (ne_log env) c = Some (has_log, c1)"
    using assms(1) by (auto simp: nexus_retire_child_device_def split: Option.bind_splits)
  define c2 where "c2 = (if nc_state c1 = CS_Open then set_fault_timestamp (ne_now env (nx_tick n))
      (child_set_state (CS_Faulted reason) c1) else c1)"
  define n1 where "n1 = n\<lparr>nx_children := update_first (match_device_name dev) (\<lambda>_. c2) (nx_children n)\<rparr>"
  have h: "\<not> is_healthy c2"
    by (auto simp: c2_def is_healthy_def set_fault_timestamp_def child_set_state_def)
  have "R n n1"
    unfolding n1_def
  proof (rule children [OF refl])
    fix x
    assume "x \<in> set (update_first (match_device_name dev) (\<lambda>_. c2) (nx_children n))" "is_healthy x"
    then show "healthy_uri n (nc_name x) \<or> healthy_uri n (nc_name x)"
      by (rule healthy_update_first [rotated -2]) (use h in \<open>auto simp: healthy_uri_def\<close>)
  qed
  then have "R a n1" using assms(2) trans by blast
  then show ?thesis using assms(1) Some l
    by (auto simp: nexus_retire_child_device_def Let_def c2_def n1_def
        intro!: then_emit then_send split: if_splits)
qed

lemma then_fault_child: "fault_child env uri reason n = Some (r, n') \<Longrightarrow> R a n \<Longrightarrow> R a n'"
  by (auto simp: fault_child_def split: sum.splits prod.splits Option.bind_splits
      intro: then_guard_resume [OF _ then_retire_device [OF _ then_cancel]])

lemma then_online_child:
  assumes "online_child env uri n = Some (r, n')" "R a n"
  shows "R a n'"
proof (cases "try_bind (check_nexus_operation Op_ReplicaOnline n) (\<lambda>_. child_of uri n)")
  case (Inl e)
  then show ?thesis using assms by (simp add: online_child_def)
next
  case (Inr c)
  then have c: "lookup_child uri n = Some c"
    by (auto simp: try_bind_Inr child_of_def split: option.splits)
  show ?thesis
  proof (cases "nc_state c = CS_Open")
    case True
    then show ?thesis using assms Inr by (simp add: online_child_def)
  next
    case False
    then obtain r1 c1 where o: "child_online (ne_bdev env (nx_tick n)) (ne_now env (nx_tick n))
        (nx_req_size n) c = Some (r1, c1)"
      using assms(1) Inr by (auto simp: online_child_def split: Option.bind_splits)
    define n1 where "n1 = update_child uri (\<lambda>_. c1) (await env n)"
    have "R a n1" unfolding n1_def
      by (rule then_replace [OF assms(2) then_await [OF refl] c child_online_no_healthier [OF o]])
    then show ?thesis using assms(1) Inr False o
      by (auto simp: online_child_def Let_def n1_def [symmetric]
          split: sum.splits Option.bind_splits
          intro: then_close_at [OF _ then_await] then_emit [OF then_start_rebuild [OF _ then_await]]
            then_close_at [OF _ then_start_rebuild [OF _ then_await]])
  qed
qed

text \<open>Retirement and the events of the devices.\<close>

lemma then_device_event: "handle_device_event env evt dev n = Some n' \<Longrightarrow> R a n \<Longrightarrow> R a n'"
  by (auto simp: handle_device_event_def split: DeviceEventType.splits
      intro: then_send then_retire_device)

lemma then_remove_routine:
  assumes "child_remove_routine env dev n = Some n'" "R a n"
  shows "R a n'"
proof (cases "lookup_child_by_device (nx_children n) dev")
  case None
  then show ?thesis using assms by (simp add: child_remove_routine_def)
next
  case (Some c)
  show ?thesis
  proof (cases "hot_removed c")
    case True
    then show ?thesis using assms Some by (auto simp: child_remove_routine_def intro: then_retire_device)
  next
    case False
    define c' where "c' = unplug (ne_child env (nx_tick n)) c"
    define m where "m = (if nc_state c \<noteq> CS_Faulted FR_IoError then nexus_reconfigure env n else n)"
    have n': "n' = update_child (nc_name c) (\<lambda>_. c') m"
      using assms(1) Some False by (simp add: child_remove_routine_def Let_def c'_def m_def)
    have h: "no_healthier c c'" unfolding c'_def by (rule unplug_no_healthier [OF unplugs])
    have Rm: "R n m" unfolding m_def by (auto intro: then_reconfigure refl)
    have "R n n'"
      unfolding n' update_child_def
    proof (rule children [OF Rm])
      fix x
      assume "x \<in> set (update_first (\<lambda>d. nc_name d = nc_name c) (\<lambda>_. c') (nx_children m))" "is_healthy x"
      then show "healthy_uri n (nc_name x) \<or> healthy_uri m (nc_name x)"
        by (rule healthy_update_first [rotated -2])
          (use h lookup_by_device_Some [OF Some] in \<open>auto simp: healthy_uri_def no_healthier_def\<close>)
    qed
    then show ?thesis using assms(2) trans by blast
  qed
qed

end

text \<open>With changes of the sharing and of the geometry as further steps.\<close>

locale field_interference = interference +
  assumes sharing: "R n (n\<lparr>nx_shared := b\<rparr>)"
    and targets: "R n (n\<lparr>nx_target := tg\<rparr>)"
    and requests: "R n (n\<lparr>nx_req_size := rs\<rparr>)"
    and extents: "R n (n\<lparr>nx_data_ent_offset := off, nx_block_len := bl\<rparr>)"
    and lengths: "R n (n\<lparr>nx_num_blocks := nb\<rparr>)"
begin

lemma then_share_nvmf: "share_nvmf env n = Some (r, n') \<Longrightarrow> R a n \<Longrightarrow> R a n'"
  by (auto simp: share_nvmf_def Let_def split: if_splits sum.splits Option.bind_splits
      intro!: then_emit trans [OF _ sharing] then_await intro: then_persist)

lemma then_share: "share_ext env protocol n = Some (r, n') \<Longrightarrow> R a n \<Longrightarrow> R a n'"
  by (auto simp: share_ext_def Let_def
      split: option.splits if_splits sum.splits Protocol.splits Option.bind_splits
      intro!: then_emit trans [OF _ targets] then_await intro: then_persist then_share_nvmf)

lemma then_unshare: "unshare env n = (r, n') \<Longrightarrow> R a n \<Longrightarrow> R a n'"
  by (auto simp: unshare_def Let_def split: sum.splits
      intro!: then_emit trans [OF _ sharing] then_await)

lemma then_unshare_nexus: "unshare_nexus_internal env clean n = Some (r, n') \<Longrightarrow> R a n \<Longrightarrow> R a n'"
proof -
  assume u: "unshare_nexus_internal env clean n = Some (r, n')" and R0: "R a n"
  define n1 where "n1 = (let n0 = n\<lparr>nx_target := None\<rparr> in
    case nx_target n of Some (Target_NbdDisk uri) \<Rightarrow> emit (Ev_nbd_destroy uri) n0 | _ \<Rightarrow> n0)"
  have R1: "R a n1" unfolding n1_def Let_def
    by (auto split: option.splits NexusTarget.splits intro!: then_emit trans [OF R0 targets])
  show ?thesis
    using u R1 unfolding unshare_nexus_internal_def n1_def Let_def
    by (auto split: sum.splits prod.splits if_splits Option.bind_splits
        intro: then_unshare then_persist [OF _ then_unshare])
qed

lemma then_setup: "setup_nexus_bdev notify resizing n = Some (r, n') \<Longrightarrow> R a n \<Longrightarrow> R a n'"
  by (auto simp: setup_nexus_bdev_def Let_def
      split: if_splits sum.splits option.splits Option.bind_splits
      intro: trans [OF _ extents] trans [OF trans [OF _ extents] lengths]
        trans [OF trans [OF _ extents] lengths, simplified])

lemma then_resize: "nexus_resize notify new_size n = Some (r, n') \<Longrightarrow> R a n \<Longrightarrow> R a n'"
  by (auto simp: nexus_resize_def Let_def
      split: if_splits sum.splits option.splits Option.bind_splits
      intro: then_setup [OF _ trans [OF _ requests]] trans [OF then_setup [OF _ trans [OF _ requests]] requests])


end

text \<open>With changes of the state too.\<close>

locale life_interference = field_interference +
  assumes states: "R n (n\<lparr>nx_state := s\<rparr>)"
begin

lemma then_state: "R a n \<Longrightarrow> R a (n\<lparr>nx_state := s\<rparr>)"
  by (rule trans [OF _ states])

lemma then_set_state: "R a n \<Longrightarrow> R a (set_state s n)"
  unfolding set_state_def by (intro then_emit then_state)

lemma then_self_shutdown: "self_shutdown env n = Some n' \<Longrightarrow> R a n \<Longrightarrow> R a n'"
  by (auto simp: self_shutdown_def Let_def split: if_splits Option.bind_splits
      intro!: then_state then_cancel_all then_traverse then_shutdown_devices elim!: then_close_children)

lemma then_shutdown:
  assumes "nexus_shutdown env n = Some (r, n')" "R a n"
  shows "R a n'"
proof -
  obtain p n2 where p: "nexus_pause env (set_state NS_ShuttingDown n) = (p, n2)" by fastforce
  have R2: "R a n2" by (rule then_pause [OF p then_set_state [OF assms(2)]])
  show ?thesis
    using assms p R2 unfolding nexus_shutdown_def Let_def
    by (cases "nx_state n")
      (auto split: sum.splits Option.bind_splits
        intro!: then_state then_emit
        intro: then_persist [OF _ then_close_children [OF _ then_cancel_all]])
qed

lemma then_reset_all: "R a n \<Longrightarrow> R a (reset_all_children env n)"
  by (auto simp: reset_all_children_def Let_def set_open_state_def split: sum.splits prod.splits
      intro: then_pause
      intro!: then_state then_reset_children elim!: then_resume)

lemma then_run_future: "run_future env f (Some n) = Some n'' \<Longrightarrow> R a n \<Longrightarrow> \<exists>n'. n'' = Some n' \<and> R a n'"
  by (auto simp: run_future_def split: nexus_future.splits)
    (blast intro: then_retire_routine then_remove_routine then_disconnect_failed then_self_shutdown
      then_reset_all then_rebuild_update)+

end

end
