(* ===== verification/Nexus_Ops_Safety.thy ===== *)
theory Nexus_Ops_Safety
  imports Nexus_Interference
begin

text \<open>
  What the management operations of a nexus keep, whatever the other tasks do while an operation
  awaits, as long as the others keep it too. A replica becomes healthy only by a completed rebuild, a
  nexus that shuts down is left to the task that shuts it down, and removing or faulting a child
  leaves a healthy one.
\<close>

section \<open>Calls\<close>

text \<open>The entry points of a nexus: the operations of the clients, the events of the devices and the
  futures that run on the master core. \<open>Call_resize\<close> has the answer of the notification of SPDK.\<close>

datatype nexus_call =
    Call_add_child string bool
  | Call_remove_child string
  | Call_fault_child string FaultReason
  | Call_online_child string
  | Call_start_rebuild string
  | Call_stop_rebuild string
  | Call_pause_rebuild string
  | Call_resume_rebuild string
  | Call_share Protocol
  | Call_unshare bool
  | Call_resize u64 "Errno option"
  | Call_shutdown
  | Call_device_event DeviceEventType string
  | Call_future nexus_future

fun nexus_exec :: "'s nexus_env \<Rightarrow> nexus_call \<Rightarrow> 's Nexus \<Rightarrow> 's Nexus option" where
  "nexus_exec env (Call_add_child uri norebuild) n = map_option snd (add_child env uri norebuild n)"
| "nexus_exec env (Call_remove_child uri) n = map_option snd (remove_child env uri n)"
| "nexus_exec env (Call_fault_child uri reason) n = map_option snd (fault_child env uri reason n)"
| "nexus_exec env (Call_online_child uri) n = map_option snd (online_child env uri n)"
| "nexus_exec env (Call_start_rebuild uri) n = map_option snd (start_rebuild env uri n)"
| "nexus_exec env (Call_stop_rebuild uri) n = Some (snd (stop_rebuild uri n))"
| "nexus_exec env (Call_pause_rebuild uri) n = Some (snd (pause_rebuild uri n))"
| "nexus_exec env (Call_resume_rebuild uri) n = Some (snd (resume_rebuild uri n))"
| "nexus_exec env (Call_share protocol) n = map_option snd (share_ext env protocol n)"
| "nexus_exec env (Call_unshare clean) n = map_option snd (unshare_nexus_internal env clean n)"
| "nexus_exec env (Call_resize sz answer) n = map_option snd (nexus_resize (\<lambda>_. answer) sz n)"
| "nexus_exec env Call_shutdown n = map_option snd (nexus_shutdown env n)"
| "nexus_exec env (Call_device_event evt dev) n = handle_device_event env evt dev n"
| "nexus_exec env (Call_future f) n = Option.bind (run_future env f (Some n)) (\<lambda>r. r)"

definition nexus_calls :: "'s nexus_env \<Rightarrow> nexus_call list \<Rightarrow> 's Nexus \<Rightarrow> 's Nexus option" where
  "nexus_calls env calls n = foldM (nexus_exec env) calls n"

text \<open>Every call keeps the relation of an interpretation, the calls that change the state apart.\<close>

context field_interference
begin

lemma then_exec_but:
  assumes "nexus_exec env call n = Some n'" "R a n"
    and "call = Call_shutdown \<Longrightarrow> R a n'"
    and "call = Call_future Fut_self_shutdown \<Longrightarrow> R a n'"
    and "call = Call_future Fut_reset_all_children \<Longrightarrow> R a n'"
  shows "R a n'"
proof (cases call)
  case (Call_future f)
  then show ?thesis
    using assms by (cases f)
      (auto simp: run_future_def split: Option.bind_splits
        intro: then_retire_routine then_remove_routine then_disconnect_failed then_rebuild_update)
qed (use assms in \<open>auto intro: then_add_child then_remove_child then_fault_child then_online_child
    then_start_rebuild then_share then_unshare_nexus then_resize then_device_event
    then_stop_rebuild [OF prod.collapse [symmetric]] then_pause_rebuild [OF prod.collapse [symmetric]]
    then_resume_rebuild [OF prod.collapse [symmetric]]\<close>)

end

context life_interference
begin

lemma then_exec:
  assumes "nexus_exec env call n = Some n'" "R a n"
  shows "R a n'"
  by (rule then_exec_but [OF assms])
    (use assms in \<open>auto simp: run_future_def split: Option.bind_splits
      intro: then_shutdown then_self_shutdown then_reset_all\<close>)

lemma then_calls: "nexus_calls env calls n = Some n' \<Longrightarrow> R a n \<Longrightarrow> R a n'"
  unfolding nexus_calls_def by (rule then_foldM [OF then_exec [OF _ refl]])

end

section \<open>What is asked of the others\<close>

text \<open>The other tasks keep a relation and make no child healthier while it is closed or unplugged.\<close>

definition rely :: "('s Nexus \<Rightarrow> 's Nexus \<Rightarrow> bool) \<Rightarrow> 's nexus_env \<Rightarrow> bool" where
  "rely R env \<longleftrightarrow>
     (\<forall>t n k. R n ((ne_others env t n)\<lparr>nx_tick := k\<rparr>)) \<and> (\<forall>t. calm_close (ne_close env t)) \<and>
     (\<forall>t d. no_healthier d (ne_child env t d))"

text \<open>An environment made to keep the relation: what does not is replaced by doing nothing.\<close>

definition calmed :: "('s Nexus \<Rightarrow> 's Nexus \<Rightarrow> bool) \<Rightarrow> 's nexus_env \<Rightarrow> 's nexus_env" where
  "calmed R env = env\<lparr>
     ne_others := (\<lambda>t n. if \<forall>k. R n ((ne_others env t n)\<lparr>nx_tick := k\<rparr>) then ne_others env t n else n),
     ne_close := (\<lambda>t. if calm_close (ne_close env t) then ne_close env t
                      else (ne_close env t)\<lparr>ce_until_recv := id, ce_sleeps := []\<rparr>),
     ne_child := (\<lambda>t d. if no_healthier d (ne_child env t d) then ne_child env t d else d)\<rparr>"

lemma calmed_rely: "rely R env \<Longrightarrow> calmed R env = env"
  by (simp add: rely_def calmed_def)

lemma calmed_others:
  "(\<And>n k. R n (n\<lparr>nx_tick := k\<rparr>)) \<Longrightarrow> R n ((ne_others (calmed R env) t n)\<lparr>nx_tick := k\<rparr>)"
  by (simp add: calmed_def)

lemma calmed_close: "calm_close (ne_close (calmed R env) t)"
  by (simp add: calmed_def calm_close_def)

lemma calmed_child: "no_healthier d (ne_child (calmed R env) t d)"
  by (simp add: calmed_def)

section \<open>Replicas heal by rebuilds\<close>

text \<open>The events only grow, and a child that became healthy was rebuilt to completion.\<close>

definition heal :: "'s Nexus \<Rightarrow> 's Nexus \<Rightarrow> bool" where
  "heal n m \<longleftrightarrow>
     (\<exists>es. nx_events m = nx_events n @ es \<and>
        (\<forall>u. healthy_uri m u \<longrightarrow> healthy_uri n u \<or> Ev_rebuild_end u RsCompleted \<in> set es))"

lemma healI:
  "nx_events m = nx_events n @ es \<Longrightarrow>
   (\<And>u. healthy_uri m u \<Longrightarrow> healthy_uri n u \<or> Ev_rebuild_end u RsCompleted \<in> set es) \<Longrightarrow> heal n m"
  unfolding heal_def by blast

lemma heal_same: "nx_events m = nx_events n \<Longrightarrow> nx_children m = nx_children n \<Longrightarrow> heal n m"
  by (rule healI [of _ _ "[]"]) (simp_all add: healthy_uri_def)

lemma heal_trans: "heal x y \<Longrightarrow> heal y z \<Longrightarrow> heal x z"
  unfolding heal_def by fastforce

lemma heal_children:
  assumes "heal n m"
    and "\<And>c. c \<in> set cs \<Longrightarrow> is_healthy c \<Longrightarrow> healthy_uri n (nc_name c) \<or> healthy_uri m (nc_name c)"
  shows "heal n (m\<lparr>nx_children := cs\<rparr>)"
  using assms unfolding heal_def by (auto simp: healthy_uri_def [of "m\<lparr>nx_children := cs\<rparr>"])

lemma heal_rebuilt:
  "heal n (update_child uri (set_sync_state Synced) (emit (Ev_rebuild_end uri RsCompleted) n))"
proof (rule healI [of _ _ "[Ev_rebuild_end uri RsCompleted]"])
  fix u
  assume "healthy_uri (update_child uri (set_sync_state Synced) (emit (Ev_rebuild_end uri RsCompleted) n)) u"
  then obtain c where c: "c \<in> set (update_first (\<lambda>c. nc_name c = uri) (set_sync_state Synced) (nx_children n))"
    "nc_name c = u" "is_healthy c"
    by (auto simp: healthy_uri_def update_child_def emit_def)
  have "healthy_uri n (nc_name c) \<or> nc_name c = uri"
    by (rule healthy_update_first [OF _ _ c(1) c(3)]) (auto simp: healthy_uri_def)
  then show "healthy_uri n u \<or> Ev_rebuild_end u RsCompleted \<in> set [Ev_rebuild_end uri RsCompleted]"
    using c(2) by auto
qed (simp add: update_child_def emit_def)

lemma heal_emit: "heal n (emit e n)"
  by (rule healI [of _ _ "[e]"]) (simp_all add: emit_def healthy_uri_def)

interpretation heal: life_interference "calmed heal env" heal for env
proof unfold_locales
  show "heal n ((ne_others (calmed heal env) t n)\<lparr>nx_tick := k\<rparr>)" for n t k
    by (rule calmed_others) (simp add: heal_same)
  show "heal x z" if "heal x y" "heal y z" for x y z using that by (rule heal_trans)
  show "heal n (m\<lparr>nx_children := cs\<rparr>)"
    if "heal n m" "\<And>c. c \<in> set cs \<Longrightarrow> is_healthy c \<Longrightarrow> healthy_uri n (nc_name c) \<or> healthy_uri m (nc_name c)"
    for n m cs using that by (rule heal_children)
qed (auto simp: calmed_close calmed_child heal_rebuilt heal_emit send_future_def intro!: heal_same)

text \<open>C2: A replica becomes healthy only by a rebuild. Let the clients, the devices and the master core
  make any calls on a nexus, interleaved at every await with tasks of which nothing is assumed but that
  they, too, make no replica healthy without a rebuild. A replica that is healthy at the end and was
  not at the start was the destination of a rebuild that was observed as completed in between, and
  nothing is ever taken back from the trace of the nexus.\<close>

theorem replica_heals_only_by_rebuild:
  assumes "rely heal env" and "nexus_calls env calls n = Some n'"
  shows "\<exists>es. nx_events n' = nx_events n @ es \<and>
    (\<forall>c\<in>set (nx_children n'). is_healthy c \<longrightarrow>
       (\<exists>c0\<in>set (nx_children n). nc_name c0 = nc_name c \<and> is_healthy c0) \<or>
       Ev_rebuild_end (nc_name c) RsCompleted \<in> set es)"
proof -
  have "heal n n'"
    using heal.then_calls [OF _ heal.refl] assms by (metis calmed_rely)
  then show ?thesis unfolding heal_def healthy_uri_def by blast
qed

section \<open>Shutdown is exclusive\<close>

definition stopped :: "'s Nexus \<Rightarrow> bool" where
  "stopped n \<longleftrightarrow> nx_state n = NS_ShuttingDown \<or> nx_state n = NS_Shutdown"

definition stays :: "'s Nexus \<Rightarrow> 's Nexus \<Rightarrow> bool" where
  "stays n m \<longleftrightarrow> (stopped n \<longrightarrow> nx_state m = nx_state n)"

lemma stays_same: "nx_state m = nx_state n \<Longrightarrow> stays n m"
  by (simp add: stays_def)

lemma stays_trans: "stays x y \<Longrightarrow> stays y z \<Longrightarrow> stays x z"
  by (auto simp: stays_def stopped_def)

interpretation stays: field_interference "calmed stays env" stays for env
proof unfold_locales
  show "stays n ((ne_others (calmed stays env) t n)\<lparr>nx_tick := k\<rparr>)" for n t k
    by (rule calmed_others) (simp add: stays_same)
  show "stays x z" if "stays x y" "stays y z" for x y z using that by (rule stays_trans)
  show "stays n (m\<lparr>nx_children := cs\<rparr>)" if "stays n m" for n m cs
    using that by (simp add: stays_def)
qed (auto simp: calmed_close calmed_child emit_def send_future_def update_child_def intro!: stays_same)

lemma stays_shutdown: "nexus_shutdown env n = Some (r, n') \<Longrightarrow> stays n n'"
  by (auto simp: stays_def stopped_def nexus_shutdown_def)

lemma stays_self_shutdown: "self_shutdown env n = Some n' \<Longrightarrow> stays n n'"
  by (auto simp: stays_def stopped_def self_shutdown_def)

lemma stays_reset_all: "stays n (reset_all_children (calmed stays env) n)"
proof (cases "nexus_pause (calmed stays env) n")
  case p: (Pair r n1)
  have 1: "stays n n1" by (rule stays.then_pause [OF p stays.refl])
  define n2 where "n2 = fold (reset_child (calmed stays env)) (nx_children n1) n1"
  obtain r3 n3 where r: "nexus_resume (calmed stays env) n2 = (r3, n3)" by fastforce
  have "stays n n2" unfolding n2_def by (rule stays.then_reset_children [OF 1])
  then have 3: "stays n n3" by (rule stays.then_resume [OF r])
  then have "stays n (snd (set_open_state n3))"
    by (auto simp: stays_def stopped_def set_open_state_def)
  then show ?thesis using p 1 r by (auto simp: reset_all_children_def n2_def split: sum.splits)
qed

lemma stays_exec:
  assumes "nexus_exec (calmed stays env) call n = Some n'"
  shows "stays n n'"
  by (rule stays.then_exec_but [OF assms stays.refl])
    (use assms in \<open>auto simp: run_future_def split: Option.bind_splits
      intro: stays_shutdown stays_self_shutdown stays_reset_all\<close>)

lemma stays_calls: "nexus_calls (calmed stays env) calls n = Some n' \<Longrightarrow> stays n n'"
  unfolding nexus_calls_def by (rule stays.then_foldM [OF stays_exec _ stays.refl])

lemma stopped_refuses:
  assumes "stopped n"
  shows "add_child env uri b n = Some (Inl (Nexus_OperationNotAllowed ''Nexus is shutdown''), n)"
    "remove_child env uri n = Some (Inl (Nexus_OperationNotAllowed ''Nexus is shutdown''), n)"
    "fault_child env uri reason n = Some (Inl (Nexus_OperationNotAllowed ''Nexus is shutdown''), n)"
    "online_child env uri n = Some (Inl (Nexus_OperationNotAllowed ''Nexus is shutdown''), n)"
    "nexus_resize notify sz n = Some (Inl (Nexus_OperationNotAllowed ''Nexus is shutdown''), n)"
    "\<exists>r. nexus_shutdown env n = Some (r, n)"
    "self_shutdown env n = Some n"
  using assms
  by (auto simp: stopped_def check_nexus_operation_def add_child_def remove_child_def fault_child_def
      online_child_def nexus_resize_def nexus_shutdown_def self_shutdown_def)

text \<open>C31: A shutdown is exclusive. Once a nexus is shutting down or shut down, no call changes its state,
  whatever the calls are and however they interleave with other tasks that leave the state of such a
  nexus alone, and at the end of them the nexus still refuses to add, remove, fault or online a child
  and to be resized, with nothing changed, and a second shutdown of either kind does nothing.\<close>

theorem shutdown_is_exclusive:
  assumes "rely stays env" and "stopped n" and "nexus_calls env calls n = Some n'"
  shows "nx_state n' = nx_state n \<and>
    (\<forall>env' uri b reason notify sz.
       add_child env' uri b n' = Some (Inl (Nexus_OperationNotAllowed ''Nexus is shutdown''), n') \<and>
       remove_child env' uri n' = Some (Inl (Nexus_OperationNotAllowed ''Nexus is shutdown''), n') \<and>
       fault_child env' uri reason n' = Some (Inl (Nexus_OperationNotAllowed ''Nexus is shutdown''), n') \<and>
       online_child env' uri n' = Some (Inl (Nexus_OperationNotAllowed ''Nexus is shutdown''), n') \<and>
       nexus_resize notify sz n' = Some (Inl (Nexus_OperationNotAllowed ''Nexus is shutdown''), n') \<and>
       (\<exists>r. nexus_shutdown env' n' = Some (r, n')) \<and> self_shutdown env' n' = Some n')"
proof -
  have "stays n n'" using stays_calls assms(1,3) by (metis calmed_rely)
  then have st: "nx_state n' = nx_state n" and "stopped n'"
    using assms(2) by (auto simp: stays_def stopped_def)
  then show ?thesis by (simp add: stopped_refuses)
qed

section \<open>A healthy child is left\<close>

text \<open>Every healthy child but the given one stays, healthy and with its device.\<close>

definition keeps :: "string \<Rightarrow> 's Nexus \<Rightarrow> 's Nexus \<Rightarrow> bool" where
  "keeps uri n m \<longleftrightarrow>
     (\<forall>c\<in>set (nx_children n). is_healthy c \<and> nc_name c \<noteq> uri \<longrightarrow>
        (\<exists>c'\<in>set (nx_children m). nc_name c' = nc_name c \<and> nc_device c' = nc_device c \<and> is_healthy c'))"

lemma keeps_same: "nx_children m = nx_children n \<Longrightarrow> keeps uri n m"
  by (auto simp: keeps_def)

lemma keeps_trans: "keeps uri x y \<Longrightarrow> keeps uri y z \<Longrightarrow> keeps uri x z"
  unfolding keeps_def by (metis (no_types, lifting))

lemma update_first_keeps:
  "x \<in> set xs \<Longrightarrow> x \<in> set (update_first P f xs) \<or> List.find P xs = Some x \<and> f x \<in> set (update_first P f xs)"
  by (induction xs) auto

lemma stop_io_log_keeps:
  "stop_io_log c = Some (lm, c') \<Longrightarrow>
   nc_name c' = nc_name c \<and> nc_device c' = nc_device c \<and> is_healthy c' = is_healthy c"
  by (simp add: stop_io_log_fields is_healthy_def)

interpretation keeps: rebuild_interference "calmed (keeps uri) env" "keeps uri" for uri env
proof unfold_locales
  show "keeps uri n ((ne_others (calmed (keeps uri) env) t n)\<lparr>nx_tick := k\<rparr>)" for n t k
    by (rule calmed_others) (simp add: keeps_same)
  show "keeps uri x z" if "keeps uri x y" "keeps uri y z" for x y z using that by (rule keeps_trans)
  show "keeps uri n (update_child u (\<lambda>_. c') n)"
    if "lookup_child u n = Some c" "stop_io_log c = Some (lm, c')" for u n c lm c'
    unfolding keeps_def
  proof (intro ballI impI)
    fix x
    assume x: "x \<in> set (nx_children n)" "is_healthy x \<and> nc_name x \<noteq> uri"
    from update_first_keeps [OF x(1), of "\<lambda>c. nc_name c = u" "\<lambda>_. c'"] that(1)
    have "x \<in> set (nx_children (update_child u (\<lambda>_. c') n)) \<or>
        x = c \<and> c' \<in> set (nx_children (update_child u (\<lambda>_. c') n))"
      by (auto simp: update_child_def lookup_child_def)
    then show "\<exists>y\<in>set (nx_children (update_child u (\<lambda>_. c') n)).
        nc_name y = nc_name x \<and> nc_device y = nc_device x \<and> is_healthy y"
      using x(2) stop_io_log_keeps [OF that(2)] by blast
  qed
qed (auto simp: emit_def send_future_def intro!: keeps_same)

lemma keeps_update: "keeps uri m (update_child uri f m)"
  using update_first_keeps [where P = "\<lambda>c. nc_name c = uri" and f = f]
  by (force simp: keeps_def update_child_def find_Some_iff)

lemma keeps_close_at: "close_at (calmed (keeps uri) env) uri n = Some (r, n') \<Longrightarrow> keeps uri n n'"
  by (auto simp: close_at_def split: option.splits Option.bind_splits
      intro: keeps.refl keeps_trans [OF keeps.then_await [OF keeps.refl] keeps_update])

lemma keeps_remove: "keeps uri n (child_remove_unsafe uri n)"
  by (auto simp: keeps_def child_remove_unsafe_def)

lemma keeps_close_and_remove:
  "close_and_remove (calmed (keeps uri) env) uri n = Some (r, n') \<Longrightarrow> keeps uri n n'"
  by (auto simp: close_and_remove_def Let_def split: option.splits Option.bind_splits
      intro!: keeps.refl keeps_trans [OF _ keeps_remove]
      intro: keeps_close_at keeps_trans [OF keeps.then_disconnect [OF keeps.then_detach [OF keeps.refl]] keeps_close_at])

lemma keeps_remove_child:
  "remove_child (calmed (keeps uri) env) uri n = Some (r, n') \<Longrightarrow> keeps uri n n'"
  by (auto simp: remove_child_def Let_def guard_drop_def
      split: sum.splits if_splits prod.splits Option.bind_splits
      intro!: keeps.refl
      elim!: keeps.then_guard_resume keeps.then_resume
      intro: keeps.then_pause keeps.then_cancel
        keeps_trans [OF keeps.then_persist [OF _ keeps.then_pause [OF _ keeps.then_cancel [OF _ keeps.refl]]]
          keeps_close_and_remove])

text \<open>Retiring a device touches no healthy child of another name, if no such child has the device.\<close>

definition device_only_of :: "string \<Rightarrow> string \<Rightarrow> 's Nexus \<Rightarrow> bool" where
  "device_only_of uri dev n \<longleftrightarrow>
     (\<forall>c\<in>set (nx_children n). is_healthy c \<and> nc_name c \<noteq> uri \<longrightarrow> get_device_name c \<noteq> Some dev)"

lemma keeps_retire_device:
  assumes "nexus_retire_child_device env dev reason retry m = Some m'"
    and "keeps uri n m" and "device_only_of uri dev n"
  shows "keeps uri n m'"
proof (cases "lookup_child_by_device (nx_children m) dev")
  case None
  then show ?thesis using assms by (simp add: nexus_retire_child_device_def)
next
  case (Some c)
  then obtain c2 where m': "nx_children m' = update_first (match_device_name dev) (\<lambda>_. c2) (nx_children m)"
    using assms(1) by (auto simp: nexus_retire_child_device_def Let_def emit_def send_future_def
        split: Option.bind_splits if_splits)
  show ?thesis
    unfolding keeps_def
  proof (intro ballI impI)
    fix x
    assume x: "x \<in> set (nx_children n)" "is_healthy x \<and> nc_name x \<noteq> uri"
    obtain y where y: "y \<in> set (nx_children m)" "nc_name y = nc_name x" "nc_device y = nc_device x" "is_healthy y"
      using assms(2) x unfolding keeps_def by blast
    have "\<not> match_device_name dev y"
      using assms(3) x y(3) by (auto simp: device_only_of_def match_device_name_def get_device_name_def split: option.splits)
    then have "y \<in> set (nx_children m')"
      using update_first_keeps [OF y(1), of "match_device_name dev" "\<lambda>_. c2"] m' by (auto simp: find_Some_iff)
    then show "\<exists>z\<in>set (nx_children m'). nc_name z = nc_name x \<and> nc_device z = nc_device x \<and> is_healthy z"
      using y by blast
  qed
qed

lemma map_filter_set: "z \<in> set zs \<Longrightarrow> f z = Some v \<Longrightarrow> v \<in> set (List.map_filter f zs)"
  by (force simp: List.map_filter_def)

lemma map_filter_inj:
  "distinct (List.map_filter f xs) \<Longrightarrow> x \<in> set xs \<Longrightarrow> y \<in> set xs \<Longrightarrow> f x = Some v \<Longrightarrow> f y = Some v \<Longrightarrow> x = y"
  by (induction xs) (auto simp: map_filter_simps map_filter_set split: option.splits)

lemma device_only_ofI:
  assumes "distinct (child_devices n)" "get_child_device_name uri n = Inr dev"
  shows "device_only_of uri dev n"
proof -
  obtain c where "c \<in> set (nx_children n)" "nc_name c = uri" "get_device_name c = Some dev"
    using assms(2) lookup_child_Some
    by (fastforce simp: get_child_device_name_def child_of_def split: option.splits)
  then show ?thesis
    using map_filter_inj [OF assms(1) [unfolded child_devices_def]] by (auto simp: device_only_of_def)
qed

lemma fault_device:
  "try_bind (check_nexus_operation op n) (\<lambda>_. try_bind (check_child_remove_operation uri n)
     (\<lambda>_. get_child_device_name uri n)) = Inr dev \<Longrightarrow> get_child_device_name uri n = Inr dev"
  by (cases "check_nexus_operation op n"; cases "check_child_remove_operation uri n") auto

lemma keeps_fault_child:
  assumes "fault_child (calmed (keeps uri) env) uri reason n = Some (r, n')" "distinct (child_devices n)"
  shows "keeps uri n n'"
  using assms(1) device_only_ofI [OF assms(2) fault_device]
  by (auto simp: fault_child_def Let_def split: sum.splits prod.splits Option.bind_splits
      intro!: keeps.refl elim!: keeps.then_guard_resume
      intro: keeps_retire_device [OF _ keeps.then_cancel [OF _ keeps.refl]])

lemma another_healthy:
  assumes "check_child_remove_operation uri n = Inr ()" "distinct (child_uris n)"
    and "\<exists>c\<in>set (nx_children n). is_healthy c"
  shows "\<exists>c\<in>set (nx_children n). is_healthy c \<and> nc_name c \<noteq> uri"
proof -
  let ?hs = "filter is_healthy (nx_children n)"
  have sub: "set ?hs \<subseteq> {c \<in> set (nx_children n). is_healthy c}" by auto
  have "distinct (map nc_name ?hs)" using assms(2) by (simp add: child_uris_def distinct_map_filter)
  moreover have "\<not> (length ?hs = 1 \<and> nc_name (hd ?hs) = uri)"
    using assms(1) by (auto simp: check_child_remove_operation_def child_of_def Let_def
        split: option.splits if_splits)
  moreover have "?hs \<noteq> []" using assms(3) by (simp add: filter_empty_conv)
  ultimately have "\<exists>h\<in>set ?hs. nc_name h \<noteq> uri"
    by (cases ?hs rule: remdups_adj.cases) auto
  then show ?thesis using sub by blast
qed

text \<open>C32: Removing or faulting a child leaves the nexus with a healthy child. Whatever the result of the
  operation, a nexus with a healthy child still has one afterwards, if the children have distinct URIs
  and devices and the tasks that run while the operation awaits leave the other healthy children as
  they are.\<close>

theorem healthy_child_left:
  assumes "rely (keeps uri) env" and "distinct (child_uris n)" and "distinct (child_devices n)"
    and "\<exists>c\<in>set (nx_children n). is_healthy c"
    and "remove_child env uri n = Some (r, n') \<or> fault_child env uri reason n = Some (q, n')"
  shows "\<exists>c\<in>set (nx_children n'). is_healthy c"
proof (cases "check_child_remove_operation uri n")
  case (Inl e)
  then show ?thesis
    using assms(4,5) by (cases "check_nexus_operation Op_ReplicaRemove n";
        cases "check_nexus_operation Op_ReplicaFault n")
      (auto simp: remove_child_def fault_child_def)
next
  case (Inr x)
  have "keeps uri n n'"
    using assms(5) keeps_remove_child keeps_fault_child [OF _ assms(3)] assms(1) by (metis calmed_rely)
  then show ?thesis
    using another_healthy [OF _ assms(2,4), of uri] Inr unfolding keeps_def by auto
qed

section \<open>A child whose removal cannot be recorded\<close>

lemma save_loop_unanswered:
  "(\<And>i. se_fate env i \<noteq> Op_Done) \<Longrightarrow> \<exists>e s'. save_loop env key v retry k s = (Inl e, s')"
proof (induction env key v retry k s rule: save_loop.induct)
  case (1 env key v retry k s)
  obtain err s' where p: "store_put (se_client env) (se_fate env k) key v (se_others env k s) = (Inl err, s')"
    using 1(2) [of k] by (cases "se_fate env k") (auto simp: store_put_def execute_store_op_def)
  show ?case
    using 1 p by (subst save_loop.simps) auto
qed

lemma remove_unsaved:
  assumes "se_enabled (ne_store env (nx_tick n))" and "\<And>i. se_fate (ne_store env (nx_tick n)) i \<noteq> Op_Done"
    and "nexus_persist env (PO_RemoveChild uri) n = Some (r, n')"
  shows "\<not> is_ok r"
proof -
  have "save (ne_store env (nx_tick n)) i s \<noteq> (Inr u, s')" for i s u s'
    using save_loop_unanswered [OF assms(2)] unfolding save_def by (metis Inl_Inr_False prod.inject)
  then show ?thesis
    using assms(1,3)
    by (auto simp: nexus_persist_def persist_def persist_update_def Let_def
        split: Option.bind_splits prod.splits sum.splits if_splits)
qed

text \<open>C35: When the store does not answer, removing a child brings the process down. If the child may be
  removed and the nexus can be paused, and no attempt to save the record is answered in time, then
  \<open>remove_child\<close> panics, whatever the other tasks do: it returns the error of the store while it holds
  the guard of the paused rebuild jobs, and the guard asserts when it is dropped that the jobs were
  resumed.\<close>

theorem unsaved_removal_panics:
  assumes "check_nexus_operation Op_ReplicaRemove n = Inr ()"
    and "check_child_remove_operation uri n = Inr ()"
    and "\<And>t. fst (ne_suspend env t) = Inr ()"
    and "\<And>t. se_enabled (ne_store env t)"
    and "\<And>t i. se_fate (ne_store env t) i \<noteq> Op_Done"
  shows "remove_child env uri n = None"
proof -
  have "lookup_child uri n \<noteq> None"
    using assms(2) by (auto simp: check_child_remove_operation_def child_of_def split: option.splits)
  moreover obtain us n1 where c: "cancel_rebuild_jobs env uri n = (us, n1)" by fastforce
  moreover obtain n2 where "nexus_pause env n1 = (Inr (), n2)"
    using assms(3) [of "nx_tick n1"] by (cases "ne_suspend env (nx_tick n1)") (auto simp: nexus_pause_def)
  ultimately show ?thesis
    using assms(1,2)
    by (auto simp: remove_child_def guard_drop_def split: Option.bind_splits sum.splits
        dest!: remove_unsaved [OF assms(4,5)])
qed

section \<open>Instances\<close>

text \<open>An environment in which every call succeeds and the other tasks do nothing, but for the store,
  whose answers are given.\<close>

definition sample_env :: "(nat \<Rightarrow> op_fate) \<Rightarrow> (string \<Rightarrow> u8 list option) nexus_env" where
  "sample_env fate =
     \<lparr> ne_others = (\<lambda>_ n. n), ne_store = (\<lambda>_. mem_env fate 1),
       ne_bdev = (\<lambda>_. \<lparr> be_device_create = Inr, be_device_lookup = (\<lambda>_. None), be_dev_open = (\<lambda>_. Inr ''d'') \<rparr>),
       ne_destroy = (\<lambda>_ _. Inr ()),
       ne_close = (\<lambda>_. \<lparr> ce_destroy = (\<lambda>_. Inr ()), ce_until_recv = unplug id, ce_sleeps = [] \<rparr>),
       ne_reserve = (\<lambda>_ _ _. Inr ()), ne_suspend = (\<lambda>_. (Inr (), Paused)),
       ne_resume = (\<lambda>_ _. (Inr (), Unpaused)), ne_new_starter = (\<lambda>_ _ _ _. Inr ()),
       ne_now = (\<lambda>_. 0),
       ne_log = \<lparr> le_partial_rebuild = False, le_segment_size = 65536, le_cores = [] \<rparr>,
       ne_child = (\<lambda>_ c. c), ne_failed = (\<lambda>_. []), ne_register = (\<lambda>_. Inr ()),
       ne_unregister = (\<lambda>_. Inr ()), ne_alignment = (\<lambda>_. 1), ne_show = (\<lambda>_. ''error''),
       ne_share = (\<lambda>_. \<lparr> sh_share_nvmf = Inr (), sh_share_nbd = Inr ''nbd'', sh_unshare = Inr (),
         sh_update_properties = Inr (), sh_create_ptpl = Inr (), sh_nqn_lookup = False,
         sh_share_uri = ''uri'' \<rparr>) \<rparr>"

definition mem_nexus :: "NexusChild list \<Rightarrow> (string \<Rightarrow> u8 list option) Nexus" where
  "mem_nexus cs =
     (nexus_new (\<lambda>_. None) ''u'' ''nexus'' 512000 False None None sample_params None V1 [] (\<lambda>_. None))
       \<lparr>nx_children := cs, nx_state := NS_Open\<rparr>"

lemma sample_env_rely: "(\<And>n k. R n (n\<lparr>nx_tick := k\<rparr>)) \<Longrightarrow> rely R (sample_env fate)"
  by (auto simp: rely_def sample_env_def calm_close_def intro!: unplug_no_healthier)

text \<open>A nexus with a healthy replica \<open>a\<close> and a replica \<open>b\<close> whose rebuild from \<open>a\<close> has completed.\<close>

definition rebuilt_nexus :: "(string \<Rightarrow> u8 list option) Nexus" where
  "rebuilt_nexus =
     (mem_nexus [sized_child ''a'' 32768, (sized_child ''b'' 32768)\<lparr>nc_sync_state := OutOfSync\<rparr>])
       \<lparr>nx_jobs := [(''b'', \<lparr> rj_src_uri = ''a'', rj_dst_uri = ''b'',
          rj_states = rebuild_states_default\<lparr>rs_current := RsCompleted\<rparr>, rj_wakeups = 0,
          rj_listeners = Some 0 \<rparr>)]\<rparr>"

theorem replica_heals_only_by_rebuild_witness:
  "\<exists>n'. nexus_calls (sample_env (\<lambda>_. Op_Done)) [Call_future (Fut_notify_rebuild ''b''), Call_remove_child ''a'']
          rebuilt_nexus = Some n' \<and>
     map nc_name (filter is_healthy (nx_children rebuilt_nexus)) = [''a''] \<and>
     map nc_name (filter is_healthy (nx_children n')) = [''b''] \<and>
     Ev_rebuild_end ''b'' RsCompleted \<in> set (drop (length (nx_events rebuilt_nexus)) (nx_events n'))"
proof -
  let ?calls = "[Call_future (Fut_notify_rebuild ''b''), Call_remove_child ''a'']"
  have "map_option (\<lambda>n'. map nc_name (filter is_healthy (nx_children n')))
      (nexus_calls (sample_env (\<lambda>_. Op_Done)) ?calls rebuilt_nexus) = Some [''b'']"
    by code_simp
  then obtain n' where n': "nexus_calls (sample_env (\<lambda>_. Op_Done)) ?calls rebuilt_nexus = Some n'"
    "map nc_name (filter is_healthy (nx_children n')) = [''b'']"
    by auto
  have a: "map nc_name (filter is_healthy (nx_children rebuilt_nexus)) = [''a'']" by code_simp
  have "''b'' \<in> nc_name ` set (filter is_healthy (nx_children n'))"
    using n'(2) by (metis image_set list.set_intros(1))
  then obtain c where c: "c \<in> set (nx_children n')" "is_healthy c" "nc_name c = ''b''" by auto
  have "\<not> (\<exists>c0\<in>set (nx_children rebuilt_nexus). nc_name c0 = ''b'' \<and> is_healthy c0)"
    by code_simp
  then have "Ev_rebuild_end ''b'' RsCompleted \<in> set (drop (length (nx_events rebuilt_nexus)) (nx_events n'))"
    using replica_heals_only_by_rebuild [OF sample_env_rely [OF heal_same] n'(1)] c by fastforce
  with n' a show ?thesis by (intro exI [of _ n'] conjI)
qed

theorem shutdown_is_exclusive_witness:
  "\<exists>n n'. nexus_shutdown (sample_env (\<lambda>_. Op_Done)) rebuilt_nexus = Some (Inr (), n) \<and>
     nexus_calls (sample_env (\<lambda>_. Op_Done))
       [Call_future Fut_reset_all_children, Call_start_rebuild ''b'', Call_remove_child ''a''] n = Some n' \<and>
     nx_state n = NS_Shutdown \<and> nx_state n' = NS_Shutdown"
proof -
  let ?env = "sample_env (\<lambda>_. Op_Done)"
  let ?calls = "[Call_future Fut_reset_all_children, Call_start_rebuild ''b'', Call_remove_child ''a'']"
  have "map_option (\<lambda>(r, n). (r, nx_state n, nexus_calls ?env ?calls n \<noteq> None))
      (nexus_shutdown ?env rebuilt_nexus) = Some (Inr (), NS_Shutdown, True)"
    by code_simp
  then obtain n n' where n: "nexus_shutdown ?env rebuilt_nexus = Some (Inr (), n)" "nx_state n = NS_Shutdown"
    "nexus_calls ?env ?calls n = Some n'"
    by auto
  then have "stopped n" by (simp add: stopped_def)
  from shutdown_is_exclusive [OF sample_env_rely this n(3)] n show ?thesis
    by (auto simp: stays_def)
qed

theorem healthy_child_left_witness:
  "\<exists>r n'. remove_child (sample_env (\<lambda>_. Op_Done)) ''a''
       (mem_nexus [sized_child ''a'' 32768, sized_child ''b'' 32768]) = Some (r, n') \<and>
     (\<exists>c\<in>set (nx_children n'). is_healthy c)"
proof -
  let ?env = "sample_env (\<lambda>_. Op_Done)" and ?n = "mem_nexus [sized_child ''a'' 32768, sized_child ''b'' 32768]"
  have "remove_child ?env ''a'' ?n \<noteq> None" by code_simp
  then obtain r n' where r: "remove_child ?env ''a'' ?n = Some (r, n')" by auto
  have "distinct (child_uris ?n)" "distinct (child_devices ?n)" "\<exists>c\<in>set (nx_children ?n). is_healthy c"
    by code_simp+
  from healthy_child_left [OF sample_env_rely [OF keeps_same] this disjI1 [OF r]] r show ?thesis by auto
qed

theorem unsaved_removal_panics_witness:
  "remove_child (sample_env (\<lambda>_. Op_TimedOut False)) ''a''
     (mem_nexus [sized_child ''a'' 32768, sized_child ''b'' 32768]) = None"
  by (rule unsaved_removal_panics) (code_simp, code_simp, simp_all add: sample_env_def mem_env_def)

section \<open>Two defects\<close>

text \<open>A removal that races with a fault. The check that another healthy child exists is made before the
  removal awaits, and the removal of a child from the record is not conditional. When the device of the
  other replica fails while the subsystem is being paused, its retirement is recorded first, and the
  record in the store is left without a healthy replica.\<close>

definition fail_b :: "(string \<Rightarrow> u8 list option) Nexus \<Rightarrow> (string \<Rightarrow> u8 list option) Nexus" where
  "fail_b n =
     (case nexus_retire_child_device (sample_env (\<lambda>_. Op_Done)) ''bn1'' FR_IoError True n of
        None \<Rightarrow> n
      | Some n1 \<Rightarrow>
          (case child_retire_routine (sample_env (\<lambda>_. Op_Done)) ''bn1'' True n1 of
             None \<Rightarrow> n1
           | Some n2 \<Rightarrow> n2))"

definition racing_env :: "(string \<Rightarrow> u8 list option) nexus_env" where
  "racing_env = (sample_env (\<lambda>_. Op_Done))\<lparr>ne_others := (\<lambda>t n. if t = 0 then fail_b n else n)\<rparr>"

definition recorded_nexus :: "(string \<Rightarrow> u8 list option) Nexus" where
  "recorded_nexus =
     (mem_nexus [sized_child ''a'' 32768, sized_child ''b'' 32768])
       \<lparr>nx_info := two_healthy, nx_store := (\<lambda>k. Some (mem_json (pi_inner two_healthy)))\<rparr>"

lemma fail_b_record:
  "map (\<lambda>c. (ci_uuid c, ci_healthy c)) (ni_children (pi_inner (nx_info (fail_b recorded_nexus)))) = [(''a'', True), (''b'', False)]"
  "pi_key (nx_info (fail_b recorded_nexus)) = None"
  by code_simp+

theorem removal_races_with_fault:
  "check_child_remove_operation ''a'' recorded_nexus = Inr () \<and>
   (let (us, n1) = cancel_rebuild_jobs racing_env ''a'' recorded_nexus; (paused, n2) = nexus_pause racing_env n1 in
    \<exists>n3. paused = Inr () \<and> nexus_persist racing_env (PO_RemoveChild ''a'') n2 = Some (Inr (), n3) \<and>
      map (\<lambda>c. (ci_uuid c, ci_healthy c)) (ni_children (pi_inner (nx_info n3))) = [(''b'', False)] \<and>
      nx_store n3 ''key'' = Some (mem_json (pi_inner (nx_info n3))))"
proof -
  let ?i = "pi_inner (nx_info (fail_b recorded_nexus))"
  obtain x y where i: "ni_children ?i = [x, y]" "ci_uuid x = ''a''" "ci_uuid y = ''b''" "\<not> ci_healthy y"
    using fail_b_record by (auto simp: map_eq_Cons_conv)
  have c: "cancel_rebuild_jobs racing_env ''a'' recorded_nexus = ([], recorded_nexus)"
    by (simp add: cancel_rebuild_jobs_def recorded_nexus_def mem_nexus_def nexus_new_def
        inst_lookup_src_def terminate_rebuild_def rebuild_job_def inst_lookup_def)
  have p: "nexus_pause racing_env recorded_nexus =
      (Inr (), (fail_b recorded_nexus)\<lparr>nx_tick := 1, nx_pause_state := Paused\<rparr>)"
    by (simp add: nexus_pause_def await_def racing_env_def sample_env_def recorded_nexus_def
        mem_nexus_def nexus_new_def)
  have "check_child_remove_operation ''a'' recorded_nexus = Inr ()" by code_simp
  then show ?thesis
    using i fail_b_record(2) unfolding c p Let_def prod.case
    by (simp add: Let_def nexus_persist_def racing_env_def sample_env_def mem_env_def await_def persist_def
        persist_update_def expect_uuid_def child_uuid_def save_def save_loop.simps store_put_def
        execute_store_op_def put_kv_def mem_client_def info_key_def persist_effect_on_def emit_def)
qed

text \<open>The alignment of a nexus is the logarithm of a number of bytes in a field of eight bits; opening the
  children stores the number of bytes itself, truncated. With a child that needs 4096 bytes the nexus
  asks for none.\<close>

theorem wide_alignment_lost:
  "map_option (\<lambda>(r, n). (r, nx_required_alignment n))
     (try_open_children
        ((sample_env (\<lambda>_. Op_Done))\<lparr>ne_alignment := (\<lambda>a. push_bit (unat a) 1)\<rparr>)
        ((mem_nexus [(sized_child ''a'' 32768)\<lparr>nc_state := CS_Closed, nc_device_descriptor := None,
            nc_device := map_option (cd_alignment_update (\<lambda>_. 4096)) (nc_device (sized_child ''a'' 32768))\<rparr>])
          \<lparr>nx_required_alignment := 9\<rparr>)) = Some (Inr (), 0)"
  by code_simp

end
