(* ===== verification/Wiper.thy ===== *)
theory Wiper
  imports Core_Types
begin

text \<open>
  The wiper of block devices (\<open>core/wiper.rs\<close>) on top of the I/O of a handle to a block device
  (\<open>core/handle.rs\<close>). A device is wiped in chunks, with a notification of the client after each of
  them, and a chunk that is larger than 8 MiB in smaller pieces.

  SPDK, its CRC-32C and the stream to the client are parameters: they act on a state of the world,
  which the statements below look at only through the contents of the device.
\<close>

section \<open>Handles\<close>

text \<open>What SPDK answers to a request: it is refused with an error number, or completes with a status.\<close>

record 'd spdk_bdev =
  sb_size_in_bytes :: u64
  sb_block_len :: u32
  sb_malloc :: "u64 \<Rightarrow> 'd \<Rightarrow> bool"
  sb_write :: "u64 \<Rightarrow> u8 list \<Rightarrow> 'd \<Rightarrow> (Errno + NvmeStatus) \<times> 'd"
  sb_read :: "u64 \<Rightarrow> u64 \<Rightarrow> 'd \<Rightarrow> (Errno + NvmeStatus \<times> u8 list) \<times> 'd"
  sb_write_zeroes :: "u64 \<Rightarrow> u64 \<Rightarrow> 'd \<Rightarrow> (Errno + NvmeStatus) \<times> 'd"
  sb_reset :: "'d \<Rightarrow> (Errno + NvmeStatus) \<times> 'd"
  sb_nvme_admin :: "u16 \<Rightarrow> 'd \<Rightarrow> (Errno + NvmeStatus) \<times> 'd"

definition write_at :: "'d spdk_bdev \<Rightarrow> u64 \<Rightarrow> u8 list \<Rightarrow> 'd \<Rightarrow> (CoreError + u64) \<times> 'd" where
  "write_at b offset buffer d =
     (let len = of_nat (length buffer) in
      case sb_write b offset buffer d of
        (Inl e, d') \<Rightarrow> (Inl (Core_WriteDispatch e offset len), d')
      | (Inr status, d') \<Rightarrow>
          (if status = Nvme_SUCCESS then Inr len
           else Inl (Core_WriteFailed (IoNvmeError status) offset len), d'))"

text \<open>\<open>read_at\<close> with the length of its buffer; the bytes read are the contents of the buffer afterwards.\<close>

definition read_at :: "'d spdk_bdev \<Rightarrow> u64 \<Rightarrow> u64 \<Rightarrow> 'd \<Rightarrow> (CoreError + u8 list) \<times> 'd" where
  "read_at b offset len d =
     (case sb_read b offset len d of
        (Inl e, d') \<Rightarrow> (Inl (Core_ReadDispatch e offset len), d')
      | (Inr (status, buffer), d') \<Rightarrow>
          (if status = Nvme_SUCCESS then Inr buffer
           else if status = Nvme_UNWRITTEN_BLOCK then Inl (Core_ReadingUnallocatedBlock offset len)
           else Inl (Core_ReadFailed (IoNvmeError status) offset len), d'))"

definition handle_reset :: "'d spdk_bdev \<Rightarrow> 'd \<Rightarrow> (CoreError + unit) \<times> 'd" where
  "handle_reset b d =
     (case sb_reset b d of
        (Inl e, d') \<Rightarrow> (Inl (Core_ResetDispatch e), d')
      | (Inr status, d') \<Rightarrow> (if status = Nvme_SUCCESS then Inr () else Inl Core_ResetFailed, d'))"

definition write_zeroes_at :: "'d spdk_bdev \<Rightarrow> u64 \<Rightarrow> u64 \<Rightarrow> 'd \<Rightarrow> (CoreError + unit) \<times> 'd" where
  "write_zeroes_at b offset len d =
     (case sb_write_zeroes b offset len d of
        (Inl e, d') \<Rightarrow> (Inl (Core_WriteZeroesDispatch e offset len), d')
      | (Inr status, d') \<Rightarrow>
          (if status = Nvme_SUCCESS then Inr () else Inl (Core_WriteZeroesFailed offset len), d'))"

definition nvme_admin :: "'d spdk_bdev \<Rightarrow> u16 \<Rightarrow> 'd \<Rightarrow> (CoreError + unit) \<times> 'd" where
  "nvme_admin b opc d =
     (case sb_nvme_admin b opc d of
        (Inl e, d') \<Rightarrow> (Inl (Core_NvmeAdminDispatch e opc), d')
      | (Inr status, d') \<Rightarrow>
          (if status = Nvme_SUCCESS then Inr () else Inl (Core_NvmeAdminFailed EIO opc), d'))"

section \<open>The iterator over the chunks\<close>

record WipeIterator =
  wi_start_offset :: u64
  wi_total_bytes :: u64
  wi_chunk_size_bytes :: u64
  wi_extra_chunk_size_bytes :: "u64 option"
  wi_wiped_chunks :: u64
  wi_wiped_bytes :: u64
  wi_remaining_chunks :: u64
  wi_total_chunks :: u64
  wi_cksum_crc32c :: "u32 option"

text \<open>The bytes that are wiped: the last 33 blocks are spared, unless there are fewer.\<close>

definition wiped_part :: "u64 \<Rightarrow> u64 \<Rightarrow> u64" where
  "wiped_part total_bytes block_len =
     (let size_blks = total_bytes div block_len in
      (if size_blks < 33 then size_blks else size_blks - 33) * block_len)"

definition wipe_iterator_new ::
  "u64 \<Rightarrow> u64 \<Rightarrow> u64 \<Rightarrow> u64 \<Rightarrow> (WiperError + WipeIterator) option" where
  "wipe_iterator_new start_offset total_bytes chunk_size_bytes block_len =
     (if total_bytes = 0 then Some (Inl Wiper_ZeroBdev)
      else if block_len = 0 then None
      else
        let part = wiped_part total_bytes block_len;
            chunk = (if chunk_size_bytes = 0 then part else chunk_size_bytes)
        in if chunk > part then Some (Inl Wiper_ChunkTooLarge)
           else if chunk mod block_len \<noteq> 0 then Some (Inl Wiper_ChunkBlockSizeInvalid)
           else if chunk = 0 then None
           else
             let chunks = part div chunk; remainder = part mod chunk in
             if remainder mod block_len \<noteq> 0 then Some (Inl Wiper_ChunkBlockSizeInvalid)
             else
               let n = (if remainder = 0 then chunks else chunks + 1) in
               Some (Inr \<lparr> wi_start_offset = start_offset, wi_total_bytes = part,
                 wi_chunk_size_bytes = chunk,
                 wi_extra_chunk_size_bytes = (if remainder = 0 then None else Some remainder),
                 wi_wiped_chunks = 0, wi_wiped_bytes = 0, wi_remaining_chunks = n,
                 wi_total_chunks = n, wi_cksum_crc32c = None \<rparr>))"

definition wi_complete_chunk :: "u64 \<Rightarrow> WipeIterator \<Rightarrow> WipeIterator" where
  "wi_complete_chunk sz it =
     it\<lparr>wi_wiped_chunks := wi_wiped_chunks it + 1, wi_wiped_bytes := wi_wiped_bytes it + sz,
        wi_remaining_chunks := wi_remaining_chunks it - 1\<rparr>"

definition wi_next :: "WipeIterator \<Rightarrow> (u64 \<times> u64) option" where
  "wi_next it =
     (if wi_wiped_chunks it \<ge> wi_total_chunks it then None
      else
        let offset = wi_start_offset it + wi_wiped_chunks it * wi_chunk_size_bytes it in
        case wi_extra_chunk_size_bytes it of
          Some sz \<Rightarrow>
            (if wi_remaining_chunks it = 1 then Some (offset, sz)
             else Some (offset, wi_chunk_size_bytes it))
        | None \<Rightarrow> Some (offset, wi_chunk_size_bytes it))"

lemma wi_next_decreases:
  "wi_next it = Some x \<Longrightarrow>
   unat (wi_total_chunks it) - unat (wi_wiped_chunks it + 1) < unat (wi_total_chunks it) - unat (wi_wiped_chunks it)"
proof -
  assume "wi_next it = Some x"
  then have l: "unat (wi_wiped_chunks it) < unat (wi_total_chunks it)"
    by (auto simp: wi_next_def word_le_nat_alt split: if_splits)
  then have "unat (wi_wiped_chunks it + 1) = unat (wi_wiped_chunks it) + 1"
    using unat_lt_64 [of "wi_total_chunks it"] by (simp add: unat_add_64)
  then show ?thesis using l by simp
qed

section \<open>Wiping\<close>

text \<open>\<open>we_crc32c_xor\<close> is the constant \<open>SPDK_CRC32C_XOR\<close> with which a checksum is finalised.\<close>

record WipeStats =
  ws_stats :: WipeIterator
  ws_since :: "nat option"

record 'd wipe_env =
  we_bdev :: "'d spdk_bdev"
  we_crc32c_update :: "u8 list \<Rightarrow> u32 \<Rightarrow> u32"
  we_crc32c_xor :: u32
  we_notify :: "WipeStats \<Rightarrow> 'd \<Rightarrow> (string + unit) \<times> 'd"
  we_is_closed :: "'d \<Rightarrow> bool"
  we_elapsed :: "'d \<Rightarrow> nat"

definition wipe_supported :: "WipeMethod \<Rightarrow> WiperError + WipeMethod" where
  "wipe_supported m =
     (case m of
        Wipe_None \<Rightarrow> Inr m
      | Wipe_WriteZeroes \<Rightarrow> Inr m
      | Wipe_Unmap \<Rightarrow> Inl (Wiper_MethodUnimplemented m)
      | Wipe_WritePattern _ \<Rightarrow> Inl (Wiper_MethodUnimplemented m)
      | Wipe_CkSum _ \<Rightarrow> Inr m)"

definition wiper_wipe ::
  "'d wipe_env \<Rightarrow> u64 \<Rightarrow> u64 \<Rightarrow> WipeMethod \<Rightarrow> 'd \<Rightarrow> ((WiperError + unit) \<times> WipeMethod \<times> 'd) option" where
  "wiper_wipe env offset sz m d =
     (case m of
        Wipe_None \<Rightarrow> Some (Inr (), m, d)
      | Wipe_WriteZeroes \<Rightarrow>
          (case write_zeroes_at (we_bdev env) offset sz d of
             (r, d') \<Rightarrow> Some (map_err Wiper_WipeIoFailed r, m, d'))
      | Wipe_Unmap \<Rightarrow> Some (Inl (Wiper_MethodUnimplemented m), m, d)
      | Wipe_WritePattern _ \<Rightarrow> Some (Inl (Wiper_MethodUnimplemented m), m, d)
      | Wipe_CkSum crc32c \<Rightarrow>
          if \<not> sb_malloc (we_bdev env) sz d then None
          else
            (case read_at (we_bdev env) offset sz d of
               (Inl e, d') \<Rightarrow> Some (Inl (Wiper_WipeIoFailed e), m, d')
             | (Inr buffer, d') \<Rightarrow>
                 Some (Inr (), Wipe_CkSum (we_crc32c_update env buffer crc32c), d')))"

text \<open>The loop of \<open>wipe_with_abort\<close> over the pieces of a large chunk.\<close>

function wipe_pieces ::
  "'d wipe_env \<Rightarrow> WipeIterator \<Rightarrow> WipeMethod \<Rightarrow> 'd \<Rightarrow> ((WiperError + unit) \<times> WipeMethod \<times> 'd) option" where
  "wipe_pieces env it m d =
     (case wi_next it of
        None \<Rightarrow> Some (Inr (), m, d)
      | Some (offset, sz) \<Rightarrow>
          (case wiper_wipe env offset sz m d of
             None \<Rightarrow> None
           | Some (Inl e, m', d') \<Rightarrow> Some (Inl e, m', d')
           | Some (Inr _, m', d') \<Rightarrow>
               if we_is_closed env d' then Some (Inl Wiper_WipeAborted, m', d')
               else wipe_pieces env (wi_complete_chunk sz it) m' d'))"
  by pat_completeness auto
termination
  by (relation "measure (\<lambda>(env, it, m, d). unat (wi_total_chunks it) - unat (wi_wiped_chunks it))")
    (auto simp: wi_complete_chunk_def dest: wi_next_decreases)

definition wipe_with_abort ::
  "'d wipe_env \<Rightarrow> u64 \<Rightarrow> u64 \<Rightarrow> WipeMethod \<Rightarrow> 'd \<Rightarrow> ((WiperError + unit) \<times> WipeMethod \<times> 'd) option" where
  "wipe_with_abort env offset sz m d =
     (let max_io_size = 8 * 1024 * 1024 in
      if sz > max_io_size then
        do {
          r \<leftarrow> wipe_iterator_new offset sz max_io_size (ucast (sb_block_len (we_bdev env)));
          case r of
            Inl e \<Rightarrow> Some (Inl e, m, d)
          | Inr it \<Rightarrow> wipe_pieces env it m d
        }
      else wiper_wipe env offset sz m d)"

record StreamedWiper =
  sw_method :: WipeMethod
  sw_stats :: WipeStats

definition streamed_wiper_new ::
  "'d wipe_env \<Rightarrow> WipeMethod \<Rightarrow> u64 \<Rightarrow> u64 \<Rightarrow> (WiperError + StreamedWiper) option" where
  "streamed_wiper_new env wipe_method chunk_size_bytes max_chunks =
     (case wipe_supported wipe_method of
        Inl e \<Rightarrow> Some (Inl e)
      | Inr m \<Rightarrow>
          let sz = sb_size_in_bytes (we_bdev env); block_len = ucast (sb_block_len (we_bdev env)) in
          if chunk_size_bytes > sz then Some (Inl Wiper_ChunkTooLarge)
          else
            do {
              r \<leftarrow> wipe_iterator_new 0 sz chunk_size_bytes block_len;
              Some (try_bind r (\<lambda>it.
                if wi_total_chunks it \<ge> max_chunks then Inl Wiper_TooManyChunks
                else Inr \<lparr> sw_method = m, sw_stats = \<lparr> ws_stats = it, ws_since = None \<rparr> \<rparr>))
            })"

definition wipe_notify :: "'d wipe_env \<Rightarrow> StreamedWiper \<Rightarrow> 'd \<Rightarrow> (WiperError + unit) \<times> 'd" where
  "wipe_notify env w d =
     (case we_notify env (sw_stats w) d of
        (Inl e, d') \<Rightarrow>
          (Inl (if we_is_closed env d' then Wiper_WipeAborted else Wiper_ChunkNotifyFailed e), d')
      | (Inr _, d') \<Rightarrow> (Inr (), d'))"

text \<open>\<open>complete_chunk\<close>: the checksum is finalised after the last chunk.\<close>

definition sw_complete_chunk :: "u32 \<Rightarrow> nat \<Rightarrow> u64 \<Rightarrow> StreamedWiper \<Rightarrow> StreamedWiper" where
  "sw_complete_chunk xr elapsed sz w =
     (let it = wi_complete_chunk sz (ws_stats (sw_stats w));
          since = Some elapsed
      in case sw_method w of
           Wipe_CkSum crc32c \<Rightarrow>
             (let crc = (if wi_remaining_chunks it = 0 then xor crc32c xr else crc32c) in
              \<lparr> sw_method = Wipe_CkSum crc,
                sw_stats = \<lparr> ws_stats = it\<lparr>wi_cksum_crc32c := Some crc\<rparr>, ws_since = since \<rparr> \<rparr>)
         | m \<Rightarrow> \<lparr> sw_method = m, sw_stats = \<lparr> ws_stats = it, ws_since = since \<rparr> \<rparr>)"

definition wipe_chunk ::
  "'d wipe_env \<Rightarrow> u64 \<Rightarrow> u64 \<Rightarrow> StreamedWiper \<Rightarrow> 'd \<Rightarrow> ((WiperError + unit) \<times> StreamedWiper \<times> 'd) option" where
  "wipe_chunk env offset sz w d =
     do {
       (r, m, d1) \<leftarrow> wipe_with_abort env offset sz (sw_method w) d;
       case r of
         Inl e \<Rightarrow> Some (Inl e, w\<lparr>sw_method := m\<rparr>, d1)
       | Inr _ \<Rightarrow>
           let w' = sw_complete_chunk (we_crc32c_xor env) (we_elapsed env d1) sz (w\<lparr>sw_method := m\<rparr>);
               (r2, d2) = wipe_notify env w' d1
           in Some (r2, w', d2)
     }"

lemma sw_complete_chunk_stats:
  "wi_total_chunks (ws_stats (sw_stats (sw_complete_chunk xr t sz w))) = wi_total_chunks (ws_stats (sw_stats w))"
  "wi_wiped_chunks (ws_stats (sw_stats (sw_complete_chunk xr t sz w))) = wi_wiped_chunks (ws_stats (sw_stats w)) + 1"
  by (auto simp: sw_complete_chunk_def wi_complete_chunk_def Let_def split: WipeMethod.splits)

lemma wipe_chunk_stats:
  "wipe_chunk env offset sz w d = Some (Inr u, w', d') \<Longrightarrow>
   wi_total_chunks (ws_stats (sw_stats w')) = wi_total_chunks (ws_stats (sw_stats w)) \<and>
   wi_wiped_chunks (ws_stats (sw_stats w')) = wi_wiped_chunks (ws_stats (sw_stats w)) + 1"
  by (auto simp: wipe_chunk_def Let_def sw_complete_chunk_stats split: Option.bind_splits sum.splits prod.splits)

function wipe_loop ::
  "'d wipe_env \<Rightarrow> StreamedWiper \<Rightarrow> 'd \<Rightarrow> ((WiperError + WipeStats) \<times> 'd) option" where
  "wipe_loop env w d =
     (case wi_next (ws_stats (sw_stats w)) of
        None \<Rightarrow> Some (Inr (sw_stats w), d)
      | Some (offset, sz) \<Rightarrow>
          (case wipe_chunk env offset sz w d of
             None \<Rightarrow> None
           | Some (Inl e, w', d') \<Rightarrow> Some (Inl e, d')
           | Some (Inr _, w', d') \<Rightarrow> wipe_loop env w' d'))"
  by pat_completeness auto
termination
  by (relation "measure (\<lambda>(env, w, d). unat (wi_total_chunks (ws_stats (sw_stats w)))
        - unat (wi_wiped_chunks (ws_stats (sw_stats w))))")
    (auto dest!: wipe_chunk_stats dest: wi_next_decreases)

declare wipe_pieces.simps [simp del] wipe_loop.simps [simp del]

definition streamed_wipe ::
  "'d wipe_env \<Rightarrow> StreamedWiper \<Rightarrow> 'd \<Rightarrow> ((WiperError + WipeStats) \<times> 'd) option" where
  "streamed_wipe env w d =
     (case wipe_notify env w d of
        (Inl e, d') \<Rightarrow> Some (Inl e, d')
      | (Inr _, d') \<Rightarrow> wipe_loop env w d')"

section \<open>The chunks of a wipe\<close>

definition wi_chunks :: "WipeIterator \<Rightarrow> nat" where
  "wi_chunks it = (unat (wi_total_bytes it) + unat (wi_chunk_size_bytes it) - 1) div unat (wi_chunk_size_bytes it)"

text \<open>An iterator after a number of chunks.\<close>

definition wi_ok :: "WipeIterator \<Rightarrow> bool" where
  "wi_ok it \<longleftrightarrow>
     0 < unat (wi_chunk_size_bytes it) \<and>
     unat (wi_start_offset it) + unat (wi_total_bytes it) < 18446744073709551616 \<and>
     wi_extra_chunk_size_bytes it =
       (if wi_total_bytes it mod wi_chunk_size_bytes it = 0 then None
        else Some (wi_total_bytes it mod wi_chunk_size_bytes it)) \<and>
     unat (wi_total_chunks it) = wi_chunks it \<and>
     unat (wi_wiped_chunks it) \<le> wi_chunks it \<and>
     unat (wi_remaining_chunks it) = wi_chunks it - unat (wi_wiped_chunks it)"

lemma wi_chunks_eq:
  "0 < unat (wi_chunk_size_bytes it) \<Longrightarrow>
   wi_chunks it =
     (if 0 < unat (wi_total_bytes it) mod unat (wi_chunk_size_bytes it)
      then unat (wi_total_bytes it) div unat (wi_chunk_size_bytes it) + 1
      else unat (wi_total_bytes it) div unat (wi_chunk_size_bytes it))"
  unfolding wi_chunks_def by (rule ceil_div_nat)

lemma mod_zero_nat: "(a mod b = 0) = (unat a mod unat b = 0)" for a b :: u64
  by (metis unat_eq_zero unat_mod_64)

lemma chunk_size_nat:
  fixes t c k :: nat
  assumes "0 < c" "k < (if 0 < t mod c then t div c + 1 else t div c)"
  shows "k * c < t"
    and "t mod c \<noteq> 0 \<Longrightarrow> k = t div c \<Longrightarrow> min c (t - k * c) = t mod c"
    and "t mod c = 0 \<or> k \<noteq> t div c \<Longrightarrow> min c (t - k * c) = c"
proof -
  define q r where "q = t div c" and "r = t mod c"
  have t: "t = q * c + r" "r < c" using assms(1) by (simp_all add: q_def r_def)
  have k: "k < (if 0 < r then q + 1 else q)" using assms(2) unfolding q_def r_def .
  have kc: "k < q \<Longrightarrow> k * c + c \<le> q * c"
    by (metis add.commute mult_Suc mult_le_mono1 Suc_leI)
  show "k * c < t" using k kc t assms(1) by (cases "k < q") (auto split: if_splits simp: less_Suc_eq)
  show "min c (t - k * c) = t mod c" if "t mod c \<noteq> 0" "k = t div c"
    using that t by (simp add: q_def [symmetric] r_def [symmetric])
  show "min c (t - k * c) = c" if "t mod c = 0 \<or> k \<noteq> t div c"
  proof -
    have "k < q" using that k by (auto simp: q_def [symmetric] r_def [symmetric] split: if_splits)
    then show ?thesis using kc t by simp
  qed
qed

lemma wi_next_at:
  assumes "wi_ok it" "unat (wi_wiped_chunks it) < wi_chunks it"
  shows "\<exists>off sz. wi_next it = Some (off, sz) \<and>
    unat off = unat (wi_start_offset it) + unat (wi_wiped_chunks it) * unat (wi_chunk_size_bytes it) \<and>
    unat sz = min (unat (wi_chunk_size_bytes it))
      (unat (wi_total_bytes it) - unat (wi_wiped_chunks it) * unat (wi_chunk_size_bytes it))"
proof -
  let ?c = "unat (wi_chunk_size_bytes it)" and ?t = "unat (wi_total_bytes it)" and ?k = "unat (wi_wiped_chunks it)"
  have c: "0 < ?c" using assms(1) by (simp add: wi_ok_def)
  have k: "?k < (if 0 < ?t mod ?c then ?t div ?c + 1 else ?t div ?c)"
    using assms(2) by (simp add: wi_chunks_eq [OF c])
  note sz = chunk_size_nat [OF c k]
  have "unat (wi_wiped_chunks it * wi_chunk_size_bytes it) = ?k * ?c"
    using sz(1) unat_lt_64 [of "wi_total_bytes it"] by (intro unat_mult_64) simp
  then have off: "unat (wi_start_offset it + wi_wiped_chunks it * wi_chunk_size_bytes it) =
      unat (wi_start_offset it) + ?k * ?c"
    using assms(1) sz(1) by (subst unat_add_64) (auto simp: wi_ok_def)
  have last: "wi_remaining_chunks it = 1 \<longleftrightarrow> wi_chunks it = ?k + 1"
    using assms by (auto simp: wi_ok_def word_unat_eq_iff)
  have run: "\<not> wi_wiped_chunks it \<ge> wi_total_chunks it"
    using assms by (simp add: wi_ok_def word_le_nat_alt)
  show ?thesis
  proof (cases "wi_total_bytes it mod wi_chunk_size_bytes it = 0")
    case True
    then show ?thesis
      using assms(1) run off sz(3) by (auto simp: wi_next_def wi_ok_def mod_zero_nat)
  next
    case False
    then have nz: "?t mod ?c \<noteq> 0" by (simp add: mod_zero_nat)
    show ?thesis
    proof (cases "wi_remaining_chunks it = 1")
      case True
      then have "?k = ?t div ?c" using last nz by (simp add: wi_chunks_eq [OF c])
      then show ?thesis
        using assms(1) run off sz(2) [OF nz] False True by (simp add: wi_next_def wi_ok_def unat_mod_64)
    next
      case more: False
      then have "?k \<noteq> ?t div ?c" using last nz by (simp add: wi_chunks_eq [OF c])
      then show ?thesis
        using assms(1) run off sz(3) False more by (simp add: wi_next_def wi_ok_def)
    qed
  qed
qed

lemma wi_next_end: "wi_ok it \<Longrightarrow> unat (wi_wiped_chunks it) = wi_chunks it \<Longrightarrow> wi_next it = None"
  by (auto simp: wi_next_def wi_ok_def word_le_nat_alt)

lemma wi_complete_ok:
  assumes "wi_ok it" "unat (wi_wiped_chunks it) < wi_chunks it"
  shows "wi_ok (wi_complete_chunk sz it)"
    and "unat (wi_wiped_chunks (wi_complete_chunk sz it)) = unat (wi_wiped_chunks it) + 1"
    and "wi_chunks (wi_complete_chunk sz it) = wi_chunks it"
proof -
  have n: "unat (wi_total_chunks it) = wi_chunks it" using assms by (simp add: wi_ok_def)
  show w: "unat (wi_wiped_chunks (wi_complete_chunk sz it)) = unat (wi_wiped_chunks it) + 1"
    using assms(2) n unat_lt_64 [of "wi_total_chunks it"]
    by (simp add: wi_complete_chunk_def unat_add_64)
  show c: "wi_chunks (wi_complete_chunk sz it) = wi_chunks it"
    by (simp add: wi_chunks_def wi_complete_chunk_def)
  have "unat (wi_remaining_chunks it - 1) = unat (wi_remaining_chunks it) - 1"
    using assms by (simp add: unat_sub_64 wi_ok_def)
  then show "wi_ok (wi_complete_chunk sz it)"
    using assms w c by (auto simp: wi_ok_def wi_complete_chunk_def)
qed

section \<open>What a wipe does\<close>

text \<open>An effect on ranges of bytes that the wiper has on every piece, that composes along adjacent
  ranges and that the notifications do not disturb, is had on the whole range by a wipe of chunks
  of at most 8 MiB.\<close>

definition final_stats :: "u32 \<Rightarrow> WipeMethod \<Rightarrow> WipeIterator \<Rightarrow> WipeIterator" where
  "final_stats xr m it =
     it\<lparr>wi_wiped_chunks := wi_total_chunks it, wi_wiped_bytes := wi_total_bytes it, wi_remaining_chunks := 0,
        wi_cksum_crc32c := (case m of Wipe_CkSum c \<Rightarrow> Some (xor c xr) | _ \<Rightarrow> wi_cksum_crc32c it)\<rparr>"

lemma wipe_small_chunk:
  assumes wipe: "\<And>off sz d. \<exists>m' d'. wiper_wipe env off sz m d = Some (Inr (), m', d') \<and> good m' \<and>
      A (unat off) (unat off + unat sz) (m, d) (m', d')"
    and notify: "\<And>st d. \<exists>d'. we_notify env st d = (Inr (), d') \<and> (\<forall>a b x m. A a b x (m, d) \<longrightarrow> A a b x (m, d'))"
    and sz: "unat sz \<le> 8388608"
  shows "\<exists>m' t d'. wipe_chunk env off sz (\<lparr> sw_method = m, sw_stats = st \<rparr>) d =
      Some (Inr (), sw_complete_chunk (we_crc32c_xor env) t sz \<lparr> sw_method = m', sw_stats = st \<rparr>, d') \<and>
      good m' \<and> A (unat off) (unat off + unat sz) (m, d) (m', d')"
proof -
  obtain m' d1 where w: "wiper_wipe env off sz m d = Some (Inr (), m', d1)" "good m'"
    "A (unat off) (unat off + unat sz) (m, d) (m', d1)"
    using wipe by blast
  have "\<not> sz > 8 * 1024 * 1024" using sz by (simp add: word_less_nat_alt)
  then have a: "wipe_with_abort env off sz m d = Some (Inr (), m', d1)"
    using w(1) by (simp add: wipe_with_abort_def)
  define t where "t = we_elapsed env d1"
  obtain d2 where n: "we_notify env (sw_stats (sw_complete_chunk (we_crc32c_xor env) t sz \<lparr> sw_method = m', sw_stats = st \<rparr>)) d1 = (Inr (), d2)"
    "\<forall>a b x m. A a b x (m, d1) \<longrightarrow> A a b x (m, d2)"
    using notify by blast
  have "wipe_chunk env off sz \<lparr> sw_method = m, sw_stats = st \<rparr> d =
      Some (Inr (), sw_complete_chunk (we_crc32c_xor env) t sz \<lparr> sw_method = m', sw_stats = st \<rparr>, d2)"
    using a n(1) by (simp add: wipe_chunk_def wipe_notify_def t_def)
  then show ?thesis using w n(2) by blast
qed

lemma sw_complete_chunk_more:
  assumes "wi_remaining_chunks it \<noteq> 1"
  shows "\<exists>crc. sw_complete_chunk xr t sz \<lparr> sw_method = m, sw_stats = \<lparr> ws_stats = it, ws_since = s \<rparr> \<rparr> =
    \<lparr> sw_method = m, sw_stats = \<lparr> ws_stats = (wi_complete_chunk sz it)\<lparr>wi_cksum_crc32c := crc\<rparr>, ws_since = Some t \<rparr> \<rparr> \<and>
    ((\<forall>c. m \<noteq> Wipe_CkSum c) \<longrightarrow> crc = wi_cksum_crc32c it)"
  using assms
  by (cases m) (auto simp: sw_complete_chunk_def wi_complete_chunk_def)

lemma sw_complete_chunk_last:
  "wi_remaining_chunks it = 1 \<Longrightarrow>
   ws_stats (sw_stats (sw_complete_chunk xr t sz \<lparr> sw_method = m, sw_stats = \<lparr> ws_stats = it, ws_since = s \<rparr> \<rparr>)) =
     (wi_complete_chunk sz it)\<lparr>wi_cksum_crc32c :=
        (case m of Wipe_CkSum c \<Rightarrow> Some (xor c xr) | _ \<Rightarrow> wi_cksum_crc32c it)\<rparr>"
  by (auto simp: sw_complete_chunk_def wi_complete_chunk_def Let_def split: WipeMethod.splits)

definition wi_bytes :: "WipeIterator \<Rightarrow> bool" where
  "wi_bytes it \<longleftrightarrow> unat (wi_wiped_bytes it) =
     min (unat (wi_wiped_chunks it) * unat (wi_chunk_size_bytes it)) (unat (wi_total_bytes it))"

lemma wi_bytes_complete:
  assumes "wi_ok it" "wi_bytes it" "unat (wi_wiped_chunks it) < wi_chunks it" "wi_next it = Some (off, sz)"
  shows "wi_bytes (wi_complete_chunk sz it)"
proof -
  let ?c = "unat (wi_chunk_size_bytes it)" and ?t = "unat (wi_total_bytes it)" and ?k = "unat (wi_wiped_chunks it)"
  have sz: "unat sz = min ?c (?t - ?k * ?c)" using wi_next_at [OF assms(1,3)] assms(4) by auto
  have "unat (wi_wiped_bytes it + sz) = unat (wi_wiped_bytes it) + unat sz"
    using assms(2) sz unat_lt_64 [of "wi_total_bytes it"] by (intro unat_add_64) (auto simp: wi_bytes_def)
  moreover have "(?k + 1) * ?c = ?k * ?c + ?c" by simp
  ultimately show ?thesis
    using assms(2) sz wi_complete_ok(2) [OF assms(1,3), of sz]
    by (simp add: wi_bytes_def wi_complete_chunk_def min_def split: if_splits)
qed

lemma ceil_covers:
  fixes t c :: nat
  assumes "0 < c"
  shows "t \<le> (if 0 < t mod c then t div c + 1 else t div c) * c"
proof (cases "0 < t mod c")
  case True
  then show ?thesis using dividend_less_div_times [OF assms, of t] by simp
next
  case False
  then show ?thesis using div_mult_mod_eq [of t c] by simp
qed

lemma wi_last_bytes:
  assumes "wi_ok it" "wi_bytes it" "unat (wi_wiped_chunks it) = wi_chunks it"
  shows "wi_wiped_bytes it = wi_total_bytes it" and "wi_wiped_chunks it = wi_total_chunks it"
    and "wi_remaining_chunks it = 0"
proof -
  let ?c = "unat (wi_chunk_size_bytes it)" and ?t = "unat (wi_total_bytes it)"
  have c: "0 < ?c" using assms(1) by (simp add: wi_ok_def)
  have "?t \<le> wi_chunks it * ?c"
    unfolding wi_chunks_eq [OF c] by (rule ceil_covers [OF c])
  then show "wi_wiped_bytes it = wi_total_bytes it"
    using assms(2,3) by (simp add: wi_bytes_def word_unat_eq_iff)
  show "wi_wiped_chunks it = wi_total_chunks it" "wi_remaining_chunks it = 0"
    using assms(1,3) by (simp_all add: wi_ok_def word_unat_eq_iff)
qed

lemma wipe_loop_effect:
  assumes wipe: "\<And>off sz m d. good m \<Longrightarrow> \<exists>m' d'. wiper_wipe env off sz m d = Some (Inr (), m', d') \<and> good m' \<and>
      A (unat off) (unat off + unat sz) (m, d) (m', d')"
    and seq: "\<And>a b c x y z. A a b x y \<Longrightarrow> A b c y z \<Longrightarrow> A a c x z"
    and notify: "\<And>st d. \<exists>d'. we_notify env st d = (Inr (), d') \<and> (\<forall>a b x m. A a b x (m, d) \<longrightarrow> A a b x (m, d'))"
    and kind: "\<And>m m'. good m \<Longrightarrow> good m' \<Longrightarrow> (\<exists>c. m = Wipe_CkSum c) = (\<exists>c. m' = Wipe_CkSum c)"
  shows "wi_ok it \<Longrightarrow> wi_bytes it \<Longrightarrow> unat (wi_wiped_chunks it) < wi_chunks it \<Longrightarrow>
    unat (wi_chunk_size_bytes it) \<le> 8388608 \<Longrightarrow> good m \<Longrightarrow>
    \<exists>m' st d'. wipe_loop env \<lparr> sw_method = m, sw_stats = \<lparr> ws_stats = it, ws_since = s \<rparr> \<rparr> d = Some (Inr st, d') \<and>
      good m' \<and> ws_stats st = final_stats (we_crc32c_xor env) m' it \<and>
      A (unat (wi_start_offset it) + unat (wi_wiped_chunks it) * unat (wi_chunk_size_bytes it))
        (unat (wi_start_offset it) + unat (wi_total_bytes it)) (m, d) (m', d')"
proof (induction "wi_chunks it - unat (wi_wiped_chunks it)" arbitrary: it s m d rule: less_induct)
  case less
  let ?c = "unat (wi_chunk_size_bytes it)" and ?t = "unat (wi_total_bytes it)" and ?k = "unat (wi_wiped_chunks it)"
  let ?w = "\<lparr> sw_method = m, sw_stats = \<lparr> ws_stats = it, ws_since = s \<rparr> \<rparr>"
  obtain off sz where nx: "wi_next it = Some (off, sz)" "unat off = unat (wi_start_offset it) + ?k * ?c"
    "unat sz = min ?c (?t - ?k * ?c)"
    using wi_next_at [OF less.prems(1,3)] by blast
  have small: "unat sz \<le> 8388608" using nx(3) less.prems(4) by simp
  obtain m1 t d1 where ch: "wipe_chunk env off sz ?w d =
      Some (Inr (), sw_complete_chunk (we_crc32c_xor env) t sz \<lparr> sw_method = m1, sw_stats = \<lparr> ws_stats = it, ws_since = s \<rparr> \<rparr>, d1)"
    "good m1" "A (unat off) (unat off + unat sz) (m, d) (m1, d1)"
    using wipe_small_chunk [of env m good A sz off "\<lparr> ws_stats = it, ws_since = s \<rparr>" d,
        OF wipe [OF less.prems(5)] notify small] by blast
  let ?w1 = "sw_complete_chunk (we_crc32c_xor env) t sz \<lparr> sw_method = m1, sw_stats = \<lparr> ws_stats = it, ws_since = s \<rparr> \<rparr>"
  have step: "wipe_loop env ?w d = wipe_loop env ?w1 d1"
    using nx(1) ch(1) by (subst wipe_loop.simps) simp
  note ok1 = wi_complete_ok [OF less.prems(1,3), of sz]
  note by1 = wi_bytes_complete [OF less.prems(1,2,3) nx(1)]
  show ?case
  proof (cases "?k + 1 = wi_chunks it")
    case True
    then have rem: "wi_remaining_chunks it = 1" using less.prems(1) by (simp add: wi_ok_def word_unat_eq_iff)
    have fin: "ws_stats (sw_stats ?w1) = final_stats (we_crc32c_xor env) m1 it"
      using sw_complete_chunk_last [OF rem, of _ t sz m1 s] wi_last_bytes [OF ok1(1) by1] True ok1(2,3)
      by (auto simp: final_stats_def wi_complete_chunk_def)
    then have "wi_next (ws_stats (sw_stats ?w1)) = None"
      by (simp add: wi_next_def final_stats_def)
    then have "wipe_loop env ?w1 d1 = Some (Inr (sw_stats ?w1), d1)" by (subst wipe_loop.simps) simp
    moreover have "unat off + unat sz = unat (wi_start_offset it) + ?t"
    proof -
      have c: "0 < ?c" using less.prems(1) by (simp add: wi_ok_def)
      have "?k * ?c < ?t" using chunk_size_nat(1) [OF c] less.prems(3) by (simp add: wi_chunks_eq [OF c])
      moreover have "?t \<le> ?k * ?c + ?c"
        using ceil_covers [OF c, of ?t] unfolding wi_chunks_eq [OF c, symmetric] True [symmetric] by simp
      ultimately show ?thesis using nx(2,3) by simp
    qed
    ultimately show ?thesis using step ch(2,3) fin nx(2) by metis
  next
    case False
    then have more: "?k + 1 < wi_chunks it" using less.prems(3) by simp
    then have "wi_remaining_chunks it \<noteq> 1" using less.prems(1) by (auto simp: wi_ok_def word_unat_eq_iff)
    from sw_complete_chunk_more [OF this, of "we_crc32c_xor env" t sz m1 s] obtain crc where
      w1: "?w1 = \<lparr> sw_method = m1, sw_stats = \<lparr> ws_stats = (wi_complete_chunk sz it)\<lparr>wi_cksum_crc32c := crc\<rparr>, ws_since = Some t \<rparr> \<rparr>"
      and crc: "(\<forall>c. m1 \<noteq> Wipe_CkSum c) \<longrightarrow> crc = wi_cksum_crc32c it"
      by blast
    let ?it1 = "(wi_complete_chunk sz it)\<lparr>wi_cksum_crc32c := crc\<rparr>"
    have it1: "wi_ok ?it1" "wi_bytes ?it1" "wi_chunks ?it1 = wi_chunks it" "unat (wi_wiped_chunks ?it1) = ?k + 1"
      "wi_chunk_size_bytes ?it1 = wi_chunk_size_bytes it" "wi_start_offset ?it1 = wi_start_offset it"
      "wi_total_bytes ?it1 = wi_total_bytes it"
      using ok1 by1 by (simp_all add: wi_ok_def wi_bytes_def wi_chunks_def wi_complete_chunk_def)
    have dec: "wi_chunks ?it1 - unat (wi_wiped_chunks ?it1) < wi_chunks it - ?k"
      using it1(3,4) less.prems(3) by linarith
    have "\<exists>m' st d'. wipe_loop env ?w1 d1 = Some (Inr st, d') \<and> good m' \<and> ws_stats st = final_stats (we_crc32c_xor env) m' ?it1 \<and>
        A (unat (wi_start_offset ?it1) + unat (wi_wiped_chunks ?it1) * unat (wi_chunk_size_bytes ?it1))
          (unat (wi_start_offset ?it1) + unat (wi_total_bytes ?it1)) (m1, d1) (m', d')"
      unfolding w1 by (rule less.hyps [OF dec it1(1,2) _ _ ch(2)]) (use it1 more less.prems(4) in simp_all)
    then obtain m2 st d2 where r: "wipe_loop env ?w1 d1 = Some (Inr st, d2)" "good m2"
      "ws_stats st = final_stats (we_crc32c_xor env) m2 ?it1"
      "A (unat (wi_start_offset it) + (?k + 1) * ?c) (unat (wi_start_offset it) + ?t) (m1, d1) (m2, d2)"
      unfolding it1(4-7) by blast
    have "final_stats (we_crc32c_xor env) m2 ?it1 = final_stats (we_crc32c_xor env) m2 it"
      using crc kind [OF ch(2) r(2)] by (auto simp: final_stats_def wi_complete_chunk_def split: WipeMethod.splits)
    moreover have "unat off + unat sz = unat (wi_start_offset it) + (?k + 1) * ?c"
      using chunk_size_nat(1) [of ?c "?k + 1" ?t] more less.prems(1) nx(2,3)
      by (auto simp: wi_ok_def wi_chunks_eq)
    ultimately show ?thesis
      using step r seq [OF ch(3)] nx(2) by metis
  qed
qed

lemma wiped_part_bounds:
  assumes "block_len \<noteq> 0"
  shows "unat (wiped_part bytes block_len) =
      (let b = unat bytes div unat block_len in (if b < 33 then b else b - 33) * unat block_len)"
    and "unat (wiped_part bytes block_len) \<le> unat bytes"
proof -
  let ?b = "unat bytes div unat block_len"
  let ?n = "if bytes div block_len < 33 then bytes div block_len else bytes div block_len - 33"
  have n: "unat ?n = (if ?b < 33 then ?b else ?b - 33)"
    by (simp add: word_less_nat_alt unat_div_64 unat_sub_64 word_le_nat_alt)
  have le: "(if ?b < 33 then ?b else ?b - 33) * unat block_len \<le> unat bytes"
    by (rule order_trans [OF _ div_times_less_eq_dividend [of "unat bytes" "unat block_len"]])
      (simp add: mult_le_mono1)
  have "unat (wiped_part bytes block_len) = unat ?n * unat block_len"
    unfolding wiped_part_def Let_def
    using le n unat_lt_64 [of bytes] by (intro unat_mult_64) simp
  then show "unat (wiped_part bytes block_len) =
      (let b = ?b in (if b < 33 then b else b - 33) * unat block_len)"
    and "unat (wiped_part bytes block_len) \<le> unat bytes"
    using n le by (simp_all add: Let_def)
qed

lemma wipe_iterator_new_ok:
  assumes "wipe_iterator_new 0 bytes chunk block_len = Some (Inr it)"
  shows "wi_ok it" "wi_bytes it" "wi_wiped_chunks it = 0" "wi_start_offset it = 0" "0 < wi_chunks it"
    "wi_total_bytes it = wiped_part bytes block_len" "block_len \<noteq> 0"
    "chunk \<noteq> 0 \<Longrightarrow> wi_chunk_size_bytes it = chunk" "wi_cksum_crc32c it = None"
proof -
  define t where "t = wiped_part bytes block_len"
  define c where "c = (if chunk = 0 then t else chunk)"
  have it: "block_len \<noteq> 0" "\<not> c > t" "c \<noteq> 0"
    "it = \<lparr> wi_start_offset = 0, wi_total_bytes = t, wi_chunk_size_bytes = c,
       wi_extra_chunk_size_bytes = (if t mod c = 0 then None else Some (t mod c)),
       wi_wiped_chunks = 0, wi_wiped_bytes = 0,
       wi_remaining_chunks = (if t mod c = 0 then t div c else t div c + 1),
       wi_total_chunks = (if t mod c = 0 then t div c else t div c + 1), wi_cksum_crc32c = None \<rparr>"
    using assms unfolding wipe_iterator_new_def Let_def t_def [symmetric] c_def [symmetric]
    by (auto split: if_splits)
  have c: "0 < unat c" using it(3) by (simp add: unat_gt_0)
  have "unat t mod unat c = 0 \<or> unat t div unat c \<le> unat t div 2"
    using div_le_mono2 [of 2 "unat c" "unat t"] c by (cases "unat c = 1") auto
  then have "unat t div unat c + 1 < 18446744073709551616 \<or> unat t mod unat c = 0"
    using unat_lt_64 [of t] by linarith
  then have n: "unat (if t mod c = 0 then t div c else t div c + 1) = wi_chunks it"
    using it(4) c by (auto simp: wi_chunks_eq mod_zero_nat unat_add_64 unat_div_64)
  show "wi_ok it" using it(4) n c unat_lt_64 [of t] by (simp add: wi_ok_def)
  show "0 < wi_chunks it"
    using c it(2,4) by (auto simp: wi_chunks_def word_le_nat_alt not_less div_greater_zero_iff)
qed (use assms in \<open>auto simp: wipe_iterator_new_def wi_bytes_def Let_def split: if_splits\<close>)

text \<open>What is used of the device and of the stream, in terms of the contents of the device: requests
  complete, zeroes are written and bytes read at the range of the request, and notifying the client
  leaves the device alone. A CRC can be computed piece by piece.\<close>

definition zeroed :: "nat \<Rightarrow> nat \<Rightarrow> (nat \<Rightarrow> u8) \<Rightarrow> nat \<Rightarrow> u8" where
  "zeroed a b f = (\<lambda>i. if a \<le> i \<and> i < b then 0 else f i)"

definition wipe_laws :: "('d \<Rightarrow> nat \<Rightarrow> u8) \<Rightarrow> 'd wipe_env \<Rightarrow> bool" where
  "wipe_laws media env \<longleftrightarrow>
     (\<forall>off sz d. \<exists>d'. sb_write_zeroes (we_bdev env) off sz d = (Inr Nvme_SUCCESS, d') \<and>
        media d' = zeroed (unat off) (unat off + unat sz) (media d)) \<and>
     (\<forall>off sz d. sb_malloc (we_bdev env) sz d \<and>
        (\<exists>d'. sb_read (we_bdev env) off sz d =
           (Inr (Nvme_SUCCESS, map (media d) [unat off ..< unat off + unat sz]), d') \<and> media d' = media d)) \<and>
     (\<forall>st d. \<exists>d'. we_notify env st d = (Inr (), d') \<and> media d' = media d)"

definition crc_laws :: "'d wipe_env \<Rightarrow> bool" where
  "crc_laws env \<longleftrightarrow>
     (\<forall>xs ys c. we_crc32c_update env (xs @ ys) c = we_crc32c_update env ys (we_crc32c_update env xs c))"

definition zero_effect ::
  "('d \<Rightarrow> nat \<Rightarrow> u8) \<Rightarrow> nat \<Rightarrow> nat \<Rightarrow> WipeMethod \<times> 'd \<Rightarrow> WipeMethod \<times> 'd \<Rightarrow> bool" where
  "zero_effect media a b x y \<longleftrightarrow> a \<le> b \<and> media (snd y) = zeroed a b (media (snd x))"

definition crc_effect ::
  "'d wipe_env \<Rightarrow> ('d \<Rightarrow> nat \<Rightarrow> u8) \<Rightarrow> nat \<Rightarrow> nat \<Rightarrow> WipeMethod \<times> 'd \<Rightarrow> WipeMethod \<times> 'd \<Rightarrow> bool" where
  "crc_effect env media a b x y \<longleftrightarrow> a \<le> b \<and> media (snd y) = media (snd x) \<and>
     (\<exists>c. fst x = Wipe_CkSum c \<and> fst y = Wipe_CkSum (we_crc32c_update env (map (media (snd x)) [a..<b]) c))"

lemma zero_effect_trans: "zero_effect media a b x y \<Longrightarrow> zero_effect media b c y z \<Longrightarrow> zero_effect media a c x z"
  by (auto simp: zero_effect_def zeroed_def fun_eq_iff)

lemma crc_effect_trans:
  "crc_laws env \<Longrightarrow> crc_effect env media a b x y \<Longrightarrow> crc_effect env media b c y z \<Longrightarrow> crc_effect env media a c x z"
  using upt_add_eq_append [of a b "c - b"] by (auto simp: crc_effect_def crc_laws_def)

lemma streamed_wiper_new_ok:
  assumes "streamed_wiper_new env m chunk max_chunks = Some (Inr w)"
  shows "sw_method w = m"
    "wipe_iterator_new 0 (sb_size_in_bytes (we_bdev env)) chunk (ucast (sb_block_len (we_bdev env))) =
       Some (Inr (ws_stats (sw_stats w)))"
  using assms
  by (auto simp: streamed_wiper_new_def wipe_supported_def Let_def try_bind_Inr
      split: WipeMethod.splits if_splits Option.bind_splits)

text \<open>The bytes that a wipe of the device covers.\<close>

definition wiped_bytes :: "'d wipe_env \<Rightarrow> nat" where
  "wiped_bytes env =
     (let bl = unat (sb_block_len (we_bdev env)); b = unat (sb_size_in_bytes (we_bdev env)) div bl in
      (if b < 33 then b else b - 33) * bl)"

lemma unat_block_len: "unat (ucast (x :: u32) :: u64) = unat x"
proof -
  have "unat x < 2 ^ 32" using unsigned_less [of x, where ?'a = nat] by simp
  then have "unat x < 2 ^ 64" by simp
  then show ?thesis by (simp add: unsigned_ucast_eq take_bit_nat_eq_self)
qed

lemma streamed_wipe_effect:
  assumes new: "streamed_wiper_new env m chunk max_chunks = Some (Inr w)"
    and chunk: "chunk \<noteq> 0" "unat chunk \<le> 8388608" and laws: "wipe_laws media env"
    and wipe: "\<And>off sz m d. good m \<Longrightarrow> \<exists>m' d'. wiper_wipe env off sz m d = Some (Inr (), m', d') \<and> good m' \<and>
      A (unat off) (unat off + unat sz) (m, d) (m', d')"
    and seq: "\<And>a b c x y z. A a b x y \<Longrightarrow> A b c y z \<Longrightarrow> A a c x z"
    and media: "\<And>a b x m d d'. A a b x (m, d) \<Longrightarrow> media d' = media d \<Longrightarrow> A a b x (m, d')"
    and kind: "\<And>m m'. good m \<Longrightarrow> good m' \<Longrightarrow> (\<exists>c. m = Wipe_CkSum c) = (\<exists>c. m' = Wipe_CkSum c)"
    and good: "good m"
  shows "\<exists>m' st d1 d'. streamed_wipe env w d = Some (Inr st, d') \<and> media d1 = media d \<and>
    ws_stats st = final_stats (we_crc32c_xor env) m' (ws_stats (sw_stats w)) \<and> A 0 (wiped_bytes env) (m, d1) (m', d')"
proof -
  obtain it s where w: "w = \<lparr> sw_method = m, sw_stats = \<lparr> ws_stats = it, ws_since = s \<rparr> \<rparr>"
    using streamed_wiper_new_ok(1) [OF new] by (metis StreamedWiper.surjective WipeStats.surjective old.unit.exhaust)
  note it = wipe_iterator_new_ok [OF streamed_wiper_new_ok(2) [OF new]]
  have total: "unat (wi_total_bytes it) = wiped_bytes env"
    using it(6,7) w wiped_part_bounds(1) [of "ucast (sb_block_len (we_bdev env))" "sb_size_in_bytes (we_bdev env)"]
    by (simp add: wiped_bytes_def Let_def unat_block_len)
  have notify: "\<exists>d'. we_notify env st d = (Inr (), d') \<and> (\<forall>a b x m. A a b x (m, d) \<longrightarrow> A a b x (m, d'))" for st d
    using laws media unfolding wipe_laws_def by metis
  obtain d1 where d1: "we_notify env (sw_stats w) d = (Inr (), d1)" "media d1 = media d"
    using laws unfolding wipe_laws_def by blast
  have "\<exists>m' st d'. wipe_loop env w d1 = Some (Inr st, d') \<and> good m' \<and> ws_stats st = final_stats (we_crc32c_xor env) m' it \<and>
      A (unat (wi_start_offset it) + unat (wi_wiped_chunks it) * unat (wi_chunk_size_bytes it))
        (unat (wi_start_offset it) + unat (wi_total_bytes it)) (m, d1) (m', d')"
    unfolding w by (rule wipe_loop_effect [OF wipe seq notify kind]) (use it w chunk good in auto)
  then show ?thesis
    using d1 it w total by (auto simp: streamed_wipe_def wipe_notify_def)
qed

lemma zero_wipe:
  assumes "wipe_laws media env" "m = Wipe_WriteZeroes"
  shows "\<exists>m' d'. wiper_wipe env off sz m d = Some (Inr (), m', d') \<and> m' = Wipe_WriteZeroes \<and>
    zero_effect media (unat off) (unat off + unat sz) (m, d) (m', d')"
proof -
  obtain d' where "sb_write_zeroes (we_bdev env) off sz d = (Inr Nvme_SUCCESS, d')"
    "media d' = zeroed (unat off) (unat off + unat sz) (media d)"
    using assms(1) unfolding wipe_laws_def by blast
  then show ?thesis using assms(2) by (simp add: wiper_wipe_def write_zeroes_at_def zero_effect_def)
qed

lemma crc_wipe:
  assumes "wipe_laws media env" "\<exists>c. m = Wipe_CkSum c"
  shows "\<exists>m' d'. wiper_wipe env off sz m d = Some (Inr (), m', d') \<and> (\<exists>c. m' = Wipe_CkSum c) \<and>
    crc_effect env media (unat off) (unat off + unat sz) (m, d) (m', d')"
proof -
  obtain d' where "sb_read (we_bdev env) off sz d =
      (Inr (Nvme_SUCCESS, map (media d) [unat off ..< unat off + unat sz]), d')" "media d' = media d"
    "sb_malloc (we_bdev env) sz d"
    using assms(1) unfolding wipe_laws_def by blast
  then show ?thesis using assms(2) by (auto simp: wiper_wipe_def read_at_def crc_effect_def)
qed

lemma zero_streamed:
  assumes "wipe_laws media env" "chunk \<noteq> 0" "unat chunk \<le> 8388608"
    and "streamed_wiper_new env Wipe_WriteZeroes chunk max_chunks = Some (Inr w)"
  shows "\<exists>st d'. streamed_wipe env w d = Some (Inr st, d') \<and>
    media d' = zeroed 0 (wiped_bytes env) (media d) \<and> unat (wi_wiped_bytes (ws_stats st)) = wiped_bytes env \<and>
    wi_wiped_chunks (ws_stats st) = wi_total_chunks (ws_stats st) \<and> wi_remaining_chunks (ws_stats st) = 0"
proof -
  have part: "unat (wi_total_bytes (ws_stats (sw_stats w))) = wiped_bytes env"
    using wipe_iterator_new_ok(6,7) [OF streamed_wiper_new_ok(2) [OF assms(4)]] wiped_part_bounds(1)
    by (simp add: wiped_bytes_def Let_def unat_block_len)
  have "\<exists>m' st d1 d'. streamed_wipe env w d = Some (Inr st, d') \<and> media d1 = media d \<and>
      ws_stats st = final_stats (we_crc32c_xor env) m' (ws_stats (sw_stats w)) \<and>
      zero_effect media 0 (wiped_bytes env) (Wipe_WriteZeroes, d1) (m', d')"
    by (rule streamed_wipe_effect [OF assms(4,2,3,1), where good = "\<lambda>m. m = Wipe_WriteZeroes"])
      (simp add: zero_wipe [OF assms(1)], erule (1) zero_effect_trans, simp_all add: zero_effect_def)
  then show ?thesis using part by (auto simp: zero_effect_def final_stats_def)
qed

lemma crc_streamed:
  assumes "wipe_laws media env" "crc_laws env" "chunk \<noteq> 0" "unat chunk \<le> 8388608"
    and "streamed_wiper_new env (Wipe_CkSum c) chunk max_chunks = Some (Inr w)"
  shows "\<exists>st d'. streamed_wipe env w d = Some (Inr st, d') \<and> media d' = media d \<and>
    wi_cksum_crc32c (ws_stats st) =
      Some (xor (we_crc32c_update env (map (media d) [0..<wiped_bytes env]) c) (we_crc32c_xor env))"
proof -
  have "\<exists>m' st d1 d'. streamed_wipe env w d = Some (Inr st, d') \<and> media d1 = media d \<and>
      ws_stats st = final_stats (we_crc32c_xor env) m' (ws_stats (sw_stats w)) \<and>
      crc_effect env media 0 (wiped_bytes env) (Wipe_CkSum c, d1) (m', d')"
    by (rule streamed_wipe_effect [OF assms(5,3,4,1), where good = "\<lambda>m. \<exists>c. m = Wipe_CkSum c"])
      (erule crc_wipe [OF assms(1)], erule (1) crc_effect_trans [OF assms(2)], simp_all add: crc_effect_def)
  then show ?thesis by (auto simp: crc_effect_def final_stats_def)
qed


section \<open>Instances and defects\<close>

text \<open>A device in memory with blocks of 512 bytes, whose world is its contents.\<close>

definition mem_wipe_env :: "u64 \<Rightarrow> (nat \<Rightarrow> u8) wipe_env" where
  "mem_wipe_env sz =
     \<lparr> we_bdev = \<lparr> sb_size_in_bytes = sz, sb_block_len = 512, sb_malloc = (\<lambda>_ _. True),
         sb_write = (\<lambda>_ _ d. (Inr Nvme_SUCCESS, d)),
         sb_read = (\<lambda>off len d. (Inr (Nvme_SUCCESS, map d [unat off ..< unat off + unat len]), d)),
         sb_write_zeroes = (\<lambda>off len d. (Inr Nvme_SUCCESS, zeroed (unat off) (unat off + unat len) d)),
         sb_reset = (\<lambda>d. (Inr Nvme_SUCCESS, d)), sb_nvme_admin = (\<lambda>_ d. (Inr Nvme_SUCCESS, d)) \<rparr>,
       we_crc32c_update = (\<lambda>bs c. fold (\<lambda>b c. c + ucast b) bs c), we_crc32c_xor = 0xffffffff, we_notify = (\<lambda>_ d. (Inr (), d)),
       we_is_closed = (\<lambda>_. False), we_elapsed = (\<lambda>_. 0) \<rparr>"

lemma mem_wipe_laws: "wipe_laws id (mem_wipe_env sz)" "crc_laws (mem_wipe_env sz)"
  by (auto simp: wipe_laws_def crc_laws_def mem_wipe_env_def)


text \<open>A device that records the requests.\<close>

definition trace_env :: "u64 \<Rightarrow> (u64 \<times> u64) list wipe_env" where
  "trace_env sz =
     \<lparr> we_bdev = \<lparr> sb_size_in_bytes = sz, sb_block_len = 512, sb_malloc = (\<lambda>_ _. True),
         sb_write = (\<lambda>_ _ d. (Inr Nvme_SUCCESS, d)), sb_read = (\<lambda>_ _ d. (Inr (Nvme_SUCCESS, []), d)),
         sb_write_zeroes = (\<lambda>off len d. (Inr Nvme_SUCCESS, d @ [(off, len)])),
         sb_reset = (\<lambda>d. (Inr Nvme_SUCCESS, d)), sb_nvme_admin = (\<lambda>_ d. (Inr Nvme_SUCCESS, d)) \<rparr>,
       we_crc32c_update = (\<lambda>_ c. c), we_crc32c_xor = 0xffffffff, we_notify = (\<lambda>_ d. (Inr (), d)),
       we_is_closed = (\<lambda>_. False), we_elapsed = (\<lambda>_. 0) \<rparr>"

text \<open>The iterator over the pieces of a large chunk spares 33 blocks too: with chunks of 16 MiB the last
  33 blocks of every chunk are not wiped, although the wipe succeeds.\<close>

theorem large_chunks_leave_gaps:
  "Option.bind (streamed_wiper_new (trace_env 33554432) Wipe_WriteZeroes 16777216 100)
     (\<lambda>r. case r of
        Inl e \<Rightarrow> None
      | Inr w \<Rightarrow> map_option (\<lambda>(r, d). (is_ok r, d)) (streamed_wipe (trace_env 33554432) w [])) =
   Some (True, [(0, 8388608), (8388608, 8371712), (16777216, 8388608), (25165824, 8354816)])"
  by code_simp

text \<open>A chunk that is larger than 8 MiB by at most 33 blocks cannot be wiped at all.\<close>

theorem chunk_above_limit_fails:
  "wipe_with_abort (trace_env 33554432) 0 8389120 Wipe_WriteZeroes d =
     Some (Inl Wiper_ChunkTooLarge, Wipe_WriteZeroes, d)"
  by (simp add: wipe_with_abort_def wipe_iterator_new_def wiped_part_def trace_env_def)

text \<open>A device of exactly 33 blocks has nothing to wipe, and the default chunk size divides by zero.\<close>

theorem tiny_device_panics: "wipe_iterator_new 0 16896 0 512 = None"
  by (simp add: wipe_iterator_new_def wiped_part_def)

end
