(* ===== verification/Nvmx_Controller.thy ===== *)
theory Nvmx_Controller
  imports Io_Log Core_Types
begin

text \<open>
  The NVMe controller of a remote device (\<open>bdev/nvmx/controller_state.rs\<close>, \<open>controller.rs\<close>,
  \<open>controller_inner.rs\<close>) and its I/O channels (\<open>channel.rs\<close>). Reset, hot removal and shutdown are
  traversals of the channels, one channel at a time on its own core: between two visits anything else
  can happen, so they are steps of a system that holds the controller, its channels and the traversals
  under way.

  SPDK is a parameter: whether queue pairs can be created and connected, which namespaces it reports,
  what the admin queue returns. A traversal visits the channels one after the other, ends early with
  the first status that is not 0, and then calls its completion function.
\<close>

section \<open>The state machine\<close>

datatype ControllerFailureReason = Failure_Reset | Failure_Shutdown | Failure_NamespaceInit

datatype NvmeControllerState =
    Ctrl_New | Ctrl_Initializing | Ctrl_Running | Ctrl_Faulted ControllerFailureReason
  | Ctrl_Unconfiguring | Ctrl_Unconfigured

definition controller_state_to_string :: "NvmeControllerState \<Rightarrow> string" where
  "controller_state_to_string st =
     (case st of
        Ctrl_New \<Rightarrow> ''New'' | Ctrl_Initializing \<Rightarrow> ''Initializing'' | Ctrl_Running \<Rightarrow> ''Running''
      | Ctrl_Unconfiguring \<Rightarrow> ''Unconfiguring'' | Ctrl_Unconfigured \<Rightarrow> ''Unconfigured''
      | Ctrl_Faulted _ \<Rightarrow> ''Faulted'')"

datatype ControllerFlag = ResetActive

record ControllerStateMachine =
  csm_name :: string
  csm_current_state :: NvmeControllerState
  csm_flag :: bool

datatype ControllerStateMachineError =
    ControllerStateTransitionError NvmeControllerState NvmeControllerState
  | ControllerFlagUpdateError ControllerFlag bool bool

definition check_transition :: "NvmeControllerState \<Rightarrow> NvmeControllerState \<Rightarrow> bool" where
  "check_transition from' to' =
     (case from' of
        Ctrl_New \<Rightarrow> to' = Ctrl_Initializing
      | Ctrl_Initializing \<Rightarrow> (case to' of Ctrl_Running \<Rightarrow> True | Ctrl_Faulted _ \<Rightarrow> True | _ \<Rightarrow> False)
      | Ctrl_Running \<Rightarrow> (case to' of Ctrl_Unconfiguring \<Rightarrow> True | Ctrl_Faulted _ \<Rightarrow> True | _ \<Rightarrow> False)
      | Ctrl_Unconfiguring \<Rightarrow> (case to' of Ctrl_Unconfigured \<Rightarrow> True | Ctrl_Faulted _ \<Rightarrow> True | _ \<Rightarrow> False)
      | Ctrl_Faulted _ \<Rightarrow>
          (case to' of Ctrl_Running \<Rightarrow> True | Ctrl_Unconfiguring \<Rightarrow> True | Ctrl_Faulted _ \<Rightarrow> True | _ \<Rightarrow> False)
      | Ctrl_Unconfigured \<Rightarrow> False)"

definition state_machine_new :: "string \<Rightarrow> ControllerStateMachine" where
  "state_machine_new name = \<lparr> csm_name = name, csm_current_state = Ctrl_New, csm_flag = False \<rparr>"

definition transition ::
  "NvmeControllerState \<Rightarrow> ControllerStateMachine \<Rightarrow> ControllerStateMachineError + ControllerStateMachine" where
  "transition new_state m =
     (if check_transition (csm_current_state m) new_state then Inr (m\<lparr>csm_current_state := new_state\<rparr>)
      else Inl (ControllerStateTransitionError (csm_current_state m) new_state))"

definition transition_checked ::
  "NvmeControllerState \<Rightarrow> NvmeControllerState \<Rightarrow> ControllerStateMachine \<Rightarrow>
   ControllerStateMachineError + ControllerStateMachine" where
  "transition_checked current_state new_state m =
     (if csm_current_state m \<noteq> current_state then Inl (ControllerStateTransitionError current_state new_state)
      else transition new_state m)"

definition set_flag_exclusively ::
  "ControllerFlag \<Rightarrow> ControllerStateMachine \<Rightarrow> ControllerStateMachineError + ControllerStateMachine" where
  "set_flag_exclusively flag m =
     (if csm_flag m then Inl (ControllerFlagUpdateError flag True True) else Inr (m\<lparr>csm_flag := True\<rparr>))"

definition clear_flag_exclusively ::
  "ControllerFlag \<Rightarrow> ControllerStateMachine \<Rightarrow> ControllerStateMachineError + ControllerStateMachine" where
  "clear_flag_exclusively flag m =
     (if csm_flag m then Inr (m\<lparr>csm_flag := False\<rparr>) else Inl (ControllerFlagUpdateError flag False False))"

section \<open>I/O channels\<close>

record BlockDeviceIoStats =
  bs_num_read_ops :: u64
  bs_num_write_ops :: u64
  bs_num_unmap_ops :: u64
  bs_bytes_read :: u64
  bs_bytes_written :: u64
  bs_bytes_unmapped :: u64

definition stats_default :: BlockDeviceIoStats where
  "stats_default = \<lparr> bs_num_read_ops = 0, bs_num_write_ops = 0, bs_num_unmap_ops = 0, bs_bytes_read = 0,
     bs_bytes_written = 0, bs_bytes_unmapped = 0 \<rparr>"

definition saturating_add :: "u64 \<Rightarrow> u64 \<Rightarrow> u64" where
  "saturating_add a b = (if a + b < a then - 1 else a + b)"

text \<open>\<open>merge\<close>; the latencies, which the NVMe channels do not measure, are left out.\<close>

definition stats_merge :: "BlockDeviceIoStats \<Rightarrow> BlockDeviceIoStats \<Rightarrow> BlockDeviceIoStats" where
  "stats_merge x y =
     \<lparr> bs_num_read_ops = saturating_add (bs_num_read_ops x) (bs_num_read_ops y),
       bs_num_write_ops = saturating_add (bs_num_write_ops x) (bs_num_write_ops y),
       bs_num_unmap_ops = saturating_add (bs_num_unmap_ops x) (bs_num_unmap_ops y),
       bs_bytes_read = saturating_add (bs_bytes_read x) (bs_bytes_read y),
       bs_bytes_written = saturating_add (bs_bytes_written x) (bs_bytes_written y),
       bs_bytes_unmapped = saturating_add (bs_bytes_unmapped x) (bs_bytes_unmapped y) \<rparr>"

record IoStatsController =
  isc_io_stats :: BlockDeviceIoStats
  isc_block_size :: u64

text \<open>The bytes are accounted in blocks and translated when the statistics are read.\<close>

definition account_block_io :: "IoType \<Rightarrow> u64 \<Rightarrow> u64 \<Rightarrow> IoStatsController \<Rightarrow> IoStatsController" where
  "account_block_io op num_ops num_blocks c =
     (let st = isc_io_stats c in
      case op of
        IoRead \<Rightarrow> c\<lparr>isc_io_stats := st\<lparr>bs_num_read_ops := bs_num_read_ops st + num_ops,
                                      bs_bytes_read := bs_bytes_read st + num_blocks\<rparr>\<rparr>
      | IoWrite \<Rightarrow> c\<lparr>isc_io_stats := st\<lparr>bs_num_write_ops := bs_num_write_ops st + num_ops,
                                       bs_bytes_written := bs_bytes_written st + num_blocks\<rparr>\<rparr>
      | IoUnmap \<Rightarrow> c\<lparr>isc_io_stats := st\<lparr>bs_num_unmap_ops := bs_num_unmap_ops st + num_ops,
                                       bs_bytes_unmapped := bs_bytes_unmapped st + num_blocks\<rparr>\<rparr>
      | _ \<Rightarrow> c)"

definition get_io_stats :: "IoStatsController \<Rightarrow> BlockDeviceIoStats" where
  "get_io_stats c =
     (let st = isc_io_stats c in
      st\<lparr>bs_bytes_read := bs_bytes_read st * isc_block_size c,
         bs_bytes_written := bs_bytes_written st * isc_block_size c,
         bs_bytes_unmapped := bs_bytes_unmapped st * isc_block_size c\<rparr>)"

text \<open>\<open>ioc_qpair\<close> is whether the channel has a queue pair, \<open>ioc_ctrl\<close> whether it holds its reference to the
  controller.\<close>

record NvmeIoChannelInner =
  ioc_qpair :: bool
  ioc_io_stats_controller :: IoStatsController
  ioc_ctrl :: bool
  ioc_num_pending_ios :: u64
  ioc_is_shutdown :: bool

definition io_channel_reset :: "NvmeIoChannelInner \<Rightarrow> int \<times> NvmeIoChannelInner" where
  "io_channel_reset ch = (0, ch\<lparr>ioc_qpair := False\<rparr>)"

definition io_channel_shutdown :: "NvmeIoChannelInner \<Rightarrow> int \<times> NvmeIoChannelInner" where
  "io_channel_shutdown ch =
     (if ioc_is_shutdown ch then (0, ch)
      else
        let (rc, ch1) = io_channel_reset ch in
        (rc, if rc = 0 then ch1\<lparr>ioc_is_shutdown := True, ioc_ctrl := False\<rparr> else ch1))"

definition account_io :: "NvmeIoChannelInner \<Rightarrow> NvmeIoChannelInner" where
  "account_io ch = ch\<lparr>ioc_num_pending_ios := ioc_num_pending_ios ch + 1\<rparr>"

definition discard_io :: "NvmeIoChannelInner \<Rightarrow> NvmeIoChannelInner" where
  "discard_io ch =
     (if ioc_num_pending_ios ch = 0 then ch else ch\<lparr>ioc_num_pending_ios := ioc_num_pending_ios ch - 1\<rparr>)"

text \<open>What SPDK answers when a queue pair is made: whether it could be created, and the codes of adding it
  to the poll group and of connecting it.\<close>

record qpair_env =
  qe_create :: bool
  qe_add_qpair :: int
  qe_connect :: int

definition reinitialize :: "qpair_env \<Rightarrow> NvmeIoChannelInner \<Rightarrow> int \<times> NvmeIoChannelInner" where
  "reinitialize qe ch =
     (if ioc_is_shutdown ch then (- 19, ch)
      else
        let ch1 = ch\<lparr>ioc_qpair := False\<rparr> in
        if \<not> qe_create qe then (- 12, ch1)
        else if qe_add_qpair qe \<noteq> 0 then (qe_add_qpair qe, ch1)
        else if qe_connect qe \<noteq> 0 then (qe_connect qe, ch1)
        else (0, ch1\<lparr>ioc_qpair := True\<rparr>))"

section \<open>The controller\<close>

datatype DeviceTimeoutAction = Timeout_Abort | Timeout_Reset | Timeout_Ignore | Timeout_HotRemove

text \<open>\<open>SPDK_BDEV_NVME_TIMEOUT_ACTION_NONE\<close>, \<open>_RESET\<close> and \<open>_ABORT\<close> are given.\<close>

definition timeout_action_try_from ::
  "u32 \<Rightarrow> u32 \<Rightarrow> u32 \<Rightarrow> u32 \<Rightarrow> DeviceTimeoutAction option" where
  "timeout_action_try_from action_none action_reset action_abort action =
     (if action = action_none then Some Timeout_Ignore
      else if action = action_reset then Some Timeout_Reset
      else if action = action_abort then Some Timeout_Abort
      else if action = 4 then Some Timeout_HotRemove
      else None)"

definition MAX_RESET_ATTEMPTS :: u32 where "MAX_RESET_ATTEMPTS = 1"

text \<open>Times are in milliseconds.\<close>

definition RESET_COOLDOWN_INTERVAL :: nat where "RESET_COOLDOWN_INTERVAL = 3000"

record TimeoutConfig =
  tc_timeout_action :: DeviceTimeoutAction
  tc_reset_in_progress :: bool
  tc_reset_attempts :: u32
  tc_next_reset_time :: nat
  tc_destroy_in_progress :: bool
  tc_report_failed :: bool
  tc_adminq_broken_report :: bool
  tc_adminq_broken_ts :: "nat option"
  tc_adminq_broken_tmo :: nat

definition timeout_config_new :: "nat \<Rightarrow> nat \<Rightarrow> TimeoutConfig" where
  "timeout_config_new now timeout_admin =
     \<lparr> tc_timeout_action = Timeout_Ignore, tc_reset_in_progress = False,
       tc_reset_attempts = MAX_RESET_ATTEMPTS, tc_next_reset_time = now, tc_destroy_in_progress = False,
       tc_report_failed = True, tc_adminq_broken_report = True, tc_adminq_broken_ts = None,
       tc_adminq_broken_tmo = timeout_admin \<rparr>"

definition start_device_destroy :: "TimeoutConfig \<Rightarrow> bool \<times> TimeoutConfig" where
  "start_device_destroy t =
     (if tc_destroy_in_progress t then (False, t) else (True, t\<lparr>tc_destroy_in_progress := True\<rparr>))"

definition adminq_broken_tmo :: "nat \<Rightarrow> Errno \<Rightarrow> TimeoutConfig \<Rightarrow> bool \<times> TimeoutConfig" where
  "adminq_broken_tmo now error t =
     (if error \<noteq> ENXIO then (False, t)
      else
        case tc_adminq_broken_ts t of
          None \<Rightarrow> (False, t\<lparr>tc_adminq_broken_ts := Some now\<rparr>)
        | Some start_ts \<Rightarrow>
            if now - start_ts \<le> tc_adminq_broken_tmo t then (False, t)
            else if tc_adminq_broken_report t then (True, t\<lparr>tc_adminq_broken_report := False\<rparr>)
            else (False, t))"

definition report_failed :: "bool \<Rightarrow> TimeoutConfig \<Rightarrow> bool \<times> TimeoutConfig" where
  "report_failed is_failed t =
     (if \<not> is_failed then (False, t)
      else if tc_report_failed t then (True, t\<lparr>tc_report_failed := False\<rparr>)
      else (False, t))"

text \<open>\<open>reset_cb\<close>, with the assertion that the flag is still set.\<close>

definition reset_cb :: "nat \<Rightarrow> bool \<Rightarrow> TimeoutConfig \<Rightarrow> TimeoutConfig option" where
  "reset_cb now success t =
     (let t1 = (if success then t\<lparr>tc_reset_attempts := MAX_RESET_ATTEMPTS\<rparr>
                else if tc_reset_attempts t = 0 then t\<lparr>tc_next_reset_time := now + RESET_COOLDOWN_INTERVAL\<rparr>
                else t)
      in if tc_reset_in_progress t1 then Some (t1\<lparr>tc_reset_in_progress := False\<rparr>) else None)"

text \<open>A namespace is the handle of SPDK.\<close>

type_synonym NvmeNamespace = nat

record NvmeControllerInner =
  cti_namespaces :: "NvmeNamespace list"

record NvmeController =
  ct_name :: string
  ct_id :: u64
  ct_inner :: "NvmeControllerInner option"
  ct_state_machine :: ControllerStateMachine
  ct_events :: "DeviceEventType list"
  ct_timeout_config :: TimeoutConfig

text \<open>\<open>ct_events\<close> are the events that the listeners were notified of.\<close>

definition controller_new :: "nat \<Rightarrow> nat \<Rightarrow> string \<Rightarrow> NvmeController" where
  "controller_new now timeout_admin name =
     \<lparr> ct_name = name, ct_id = 0, ct_inner = None, ct_state_machine = state_machine_new name,
       ct_events = [], ct_timeout_config = timeout_config_new now timeout_admin \<rparr>"

abbreviation ct_state :: "NvmeController \<Rightarrow> NvmeControllerState" where
  "ct_state c \<equiv> csm_current_state (ct_state_machine c)"

definition notify_listeners :: "DeviceEventType \<Rightarrow> NvmeController \<Rightarrow> NvmeController" where
  "notify_listeners event c = c\<lparr>ct_events := ct_events c @ [event]\<rparr>"

text \<open>A transition whose failure is a panic.\<close>

definition expect_transition :: "NvmeControllerState \<Rightarrow> NvmeController \<Rightarrow> NvmeController option" where
  "expect_transition st c =
     (case transition st (ct_state_machine c) of
        Inl _ \<Rightarrow> None
      | Inr m \<Rightarrow> Some (c\<lparr>ct_state_machine := m\<rparr>))"

text \<open>\<open>populate_namespaces\<close>; \<open>ns\<close> is the first namespace of the controller, \<open>None\<close> for a null pointer.\<close>

definition populate_namespaces ::
  "NvmeNamespace option \<Rightarrow> bool \<Rightarrow> NvmeController \<Rightarrow> (bool \<times> NvmeController) option" where
  "populate_namespaces ns ns_active c =
     do {
       inner \<leftarrow> ct_inner c;
       let notify = (\<not> ns_active \<and> cti_namespaces inner \<noteq> []);
       let namespaces = (case ns of None \<Rightarrow> [] | Some h \<Rightarrow> if ns_active then [h] else []);
       let c1 = c\<lparr>ct_inner := Some (inner\<lparr>cti_namespaces := namespaces\<rparr>)\<rparr>;
       c2 \<leftarrow> (if ns_active then Some c1 else expect_transition (Ctrl_Faulted Failure_NamespaceInit) c1);
       Some (ns_active, if notify then notify_listeners DeviceRemoved c2 else c2)
     }"

definition clear_namespaces :: "NvmeController \<Rightarrow> NvmeController option" where
  "clear_namespaces c =
     do { inner \<leftarrow> ct_inner c; Some (c\<lparr>ct_inner := Some (inner\<lparr>cti_namespaces := []\<rparr>)\<rparr>) }"

text \<open>The assertion of \<open>drop\<close>.\<close>

definition controller_drop :: "NvmeController \<Rightarrow> unit option" where
  "controller_drop c = (if ct_state c = Ctrl_New \<or> ct_state c = Ctrl_Unconfigured then Some () else None)"

section \<open>The system\<close>

text \<open>Who is called back when an operation completes.\<close>

datatype op_completion = Cb_timeout | Cb_reset nat | Cb_hot_remove nat | Cb_destroy nat

record ResetCtx =
  rx_cb :: op_completion
  rx_shutdown_in_progress :: bool

datatype traversal_kind =
    Tr_reset_destroy ResetCtx | Tr_reset_create ResetCtx | Tr_hot_remove ResetCtx | Tr_shutdown op_completion

record traversal =
  tv_kind :: traversal_kind
  tv_rest :: "nat list"
  tv_status :: int

text \<open>\<open>nv_listed\<close> is whether the controller is in the list of controllers, \<open>nv_done\<close> the completions that
  were called back, with their success.\<close>

record nvmx =
  nv_ctrl :: NvmeController
  nv_listed :: bool
  nv_channels :: "NvmeIoChannelInner list"
  nv_traversals :: "traversal list"
  nv_done :: "(op_completion \<times> bool) list"

definition traverse_io_channels :: "traversal_kind \<Rightarrow> nvmx \<Rightarrow> nvmx" where
  "traverse_io_channels k s =
     s\<lparr>nv_traversals := nv_traversals s @
         [\<lparr> tv_kind = k, tv_rest = [0..<length (nv_channels s)], tv_status = 0 \<rparr>]\<rparr>"

definition call_back :: "nat \<Rightarrow> op_completion \<Rightarrow> bool \<Rightarrow> nvmx \<Rightarrow> nvmx option" where
  "call_back now cb success s =
     (case cb of
        Cb_timeout \<Rightarrow>
          do {
            t \<leftarrow> reset_cb now success (ct_timeout_config (nv_ctrl s));
            Some (s\<lparr>nv_ctrl := (nv_ctrl s)\<lparr>ct_timeout_config := t\<rparr>, nv_done := nv_done s @ [(cb, success)]\<rparr>)
          }
      | _ \<Rightarrow> Some (s\<lparr>nv_done := nv_done s @ [(cb, success)]\<rparr>))"

subsection \<open>Reset\<close>

definition controller_reset :: "op_completion \<Rightarrow> nvmx \<Rightarrow> ((CoreError + unit) \<times> nvmx) option" where
  "controller_reset cb s =
     (case ct_state (nv_ctrl s) of
        Ctrl_New \<Rightarrow> Some (Inl (Core_ResetDispatch EBUSY), s)
      | Ctrl_Initializing \<Rightarrow> Some (Inl (Core_ResetDispatch EBUSY), s)
      | Ctrl_Unconfiguring \<Rightarrow> Some (Inl (Core_ResetDispatch EBUSY), s)
      | Ctrl_Unconfigured \<Rightarrow> Some (Inl (Core_ResetDispatch EBUSY), s)
      | _ \<Rightarrow>
          (case set_flag_exclusively ResetActive (ct_state_machine (nv_ctrl s)) of
             Inl _ \<Rightarrow> Some (Inl (Core_ResetDispatch EBUSY), s)
           | Inr m \<Rightarrow>
               if ct_inner (nv_ctrl s) = None then None
               else
                 Some (Inr (), traverse_io_channels
                   (Tr_reset_destroy \<lparr> rx_cb = cb, rx_shutdown_in_progress = False \<rparr>)
                   (s\<lparr>nv_ctrl := (nv_ctrl s)\<lparr>ct_state_machine := m\<rparr>\<rparr>))))"

definition reset_destroy_channel ::
  "NvmeIoChannelInner \<Rightarrow> ResetCtx \<Rightarrow> int \<times> NvmeIoChannelInner \<times> ResetCtx" where
  "reset_destroy_channel ch ctx =
     (if rx_shutdown_in_progress ctx then (0, ch, ctx)
      else if ioc_is_shutdown ch then (0, ch, ctx\<lparr>rx_shutdown_in_progress := True\<rparr>)
      else let (rc, ch') = io_channel_reset ch in (rc, ch', ctx))"

definition reset_create_channel ::
  "qpair_env \<Rightarrow> NvmeIoChannelInner \<Rightarrow> int \<times> NvmeIoChannelInner" where
  "reset_create_channel qe ch = (if ioc_is_shutdown ch then (0, ch) else reinitialize qe ch)"

definition complete_reset :: "nat \<Rightarrow> ResetCtx \<Rightarrow> int \<Rightarrow> nvmx \<Rightarrow> nvmx option" where
  "complete_reset now ctx status s =
     do {
       s1 \<leftarrow>
         (if \<not> nv_listed s then Some s
          else
            case clear_flag_exclusively ResetActive (ct_state_machine (nv_ctrl s)) of
              Inl _ \<Rightarrow> None
            | Inr m \<Rightarrow>
                let m' = (if status \<noteq> 0 then
                            (case transition_checked Ctrl_Running (Ctrl_Faulted Failure_Reset) m of
                               Inl _ \<Rightarrow> m
                             | Inr m' \<Rightarrow> m')
                          else m)
                in Some (s\<lparr>nv_ctrl := (nv_ctrl s)\<lparr>ct_state_machine := m'\<rparr>\<rparr>));
       call_back now (rx_cb ctx) (status = 0) s1
     }"

definition reset_destroy_done :: "nat \<Rightarrow> int \<Rightarrow> ResetCtx \<Rightarrow> nvmx \<Rightarrow> nvmx option" where
  "reset_destroy_done now status ctx s =
     (if status \<noteq> 0 then complete_reset now ctx status s
      else if rx_shutdown_in_progress ctx then Some s
      else Some (traverse_io_channels (Tr_reset_create ctx) s))"

subsection \<open>Shutdown and hot removal\<close>

definition controller_shutdown :: "op_completion \<Rightarrow> nvmx \<Rightarrow> ((CoreError + unit) \<times> nvmx) option" where
  "controller_shutdown cb s =
     (case transition Ctrl_Unconfiguring (ct_state_machine (nv_ctrl s)) of
        Inl _ \<Rightarrow> Some (Inl (Core_ResetDispatch EBUSY), s)
      | Inr m \<Rightarrow>
          if ct_inner (nv_ctrl s) = None then None
          else
            let t = snd (start_device_destroy (ct_timeout_config (nv_ctrl s))) in
            Some (Inr (), traverse_io_channels (Tr_shutdown cb)
              (s\<lparr>nv_ctrl := (nv_ctrl s)\<lparr>ct_state_machine := m, ct_timeout_config := t\<rparr>\<rparr>)))"

definition shutdown_channels_done :: "nat \<Rightarrow> int \<Rightarrow> op_completion \<Rightarrow> nvmx \<Rightarrow> nvmx option" where
  "shutdown_channels_done now result cb s =
     (if \<not> nv_listed s then None
      else if result \<noteq> 0 then
        do {
          c \<leftarrow> expect_transition (Ctrl_Faulted Failure_Shutdown) (nv_ctrl s);
          Some (s\<lparr>nv_ctrl := c\<rparr>)
        }
      else
        do {
          c1 \<leftarrow> clear_namespaces (nv_ctrl s);
          c2 \<leftarrow> expect_transition Ctrl_Unconfigured c1;
          call_back now cb True (s\<lparr>nv_ctrl := c2\<rparr>)
        })"

definition controller_hot_remove :: "op_completion \<Rightarrow> nvmx \<Rightarrow> nvmx option" where
  "controller_hot_remove cb s =
     (if ct_inner (nv_ctrl s) = None then None
      else Some (traverse_io_channels
             (Tr_hot_remove \<lparr> rx_cb = cb, rx_shutdown_in_progress = False \<rparr>) s))"

subsection \<open>Steps of the traversals\<close>

definition visit_channel ::
  "qpair_env \<Rightarrow> traversal_kind \<Rightarrow> NvmeIoChannelInner \<Rightarrow> int \<times> NvmeIoChannelInner \<times> traversal_kind" where
  "visit_channel qe k ch =
     (case k of
        Tr_reset_destroy ctx \<Rightarrow>
          (case reset_destroy_channel ch ctx of (rc, ch', ctx') \<Rightarrow> (rc, ch', Tr_reset_destroy ctx'))
      | Tr_hot_remove ctx \<Rightarrow>
          (case reset_destroy_channel ch ctx of (rc, ch', ctx') \<Rightarrow> (rc, ch', Tr_hot_remove ctx'))
      | Tr_reset_create ctx \<Rightarrow> (case reset_create_channel qe ch of (rc, ch') \<Rightarrow> (rc, ch', k))
      | Tr_shutdown cb \<Rightarrow> (case io_channel_shutdown ch of (rc, ch') \<Rightarrow> (rc, ch', k)))"

definition traversal_done :: "nat \<Rightarrow> int \<Rightarrow> traversal_kind \<Rightarrow> nvmx \<Rightarrow> nvmx option" where
  "traversal_done now status k s =
     (case k of
        Tr_reset_destroy ctx \<Rightarrow> reset_destroy_done now status ctx s
      | Tr_reset_create ctx \<Rightarrow> complete_reset now ctx status s
      | Tr_hot_remove ctx \<Rightarrow> Some s
      | Tr_shutdown cb \<Rightarrow> shutdown_channels_done now status cb s)"

definition remove_at :: "nat \<Rightarrow> 'a list \<Rightarrow> 'a list" where
  "remove_at i xs = take i xs @ drop (Suc i) xs"

text \<open>The \<open>i\<close>th traversal makes a step: it visits its next channel, or is done.\<close>

definition traversal_step :: "qpair_env \<Rightarrow> nat \<Rightarrow> nat \<Rightarrow> nvmx \<Rightarrow> nvmx option" where
  "traversal_step qe now i s =
     (if length (nv_traversals s) \<le> i then Some s
      else
        let t = nv_traversals s ! i in
        case (if tv_status t \<noteq> 0 then [] else tv_rest t) of
          [] \<Rightarrow> traversal_done now (tv_status t) (tv_kind t) (s\<lparr>nv_traversals := remove_at i (nv_traversals s)\<rparr>)
        | c # cs \<Rightarrow>
            if length (nv_channels s) \<le> c then
              Some (s\<lparr>nv_traversals := (nv_traversals s)[i := t\<lparr>tv_rest := cs\<rparr>]\<rparr>)
            else
              (case visit_channel qe (tv_kind t) (nv_channels s ! c) of
                 (rc, ch, k) \<Rightarrow>
                   Some (s\<lparr>nv_channels := (nv_channels s)[c := ch],
                           nv_traversals := (nv_traversals s)[i := \<lparr> tv_kind = k, tv_rest = cs, tv_status = rc \<rparr>]\<rparr>)))"

subsection \<open>Timeouts and the admin queue\<close>

text \<open>\<open>reset_controller\<close> of the timeout configuration. The final assertion is that the flag is set.\<close>

definition timeout_reset_controller :: "nat \<Rightarrow> nvmx \<Rightarrow> nvmx option" where
  "timeout_reset_controller now s =
     (let t = ct_timeout_config (nv_ctrl s);
          put = (\<lambda>t s. s\<lparr>nv_ctrl := (nv_ctrl s)\<lparr>ct_timeout_config := t\<rparr>\<rparr>)
      in
      if \<not> tc_reset_in_progress t then Some (put (t\<lparr>tc_reset_in_progress := True\<rparr>) s)
      else
        let t1 = (if tc_reset_attempts t = 0 \<and> now \<ge> tc_next_reset_time t
                  then t\<lparr>tc_reset_attempts := MAX_RESET_ATTEMPTS\<rparr> else t)
        in
        do {
          (started, s1) \<leftarrow>
            (if tc_reset_attempts t1 > 0 then
               let s1 = put (t1\<lparr>tc_reset_attempts := tc_reset_attempts t1 - 1\<rparr>) s in
               if nv_listed s1 then
                 do { (r, s2) \<leftarrow> controller_reset Cb_timeout s1; Some (is_ok r, s2) }
               else Some (False, s1)
             else Some (False, put t1 s));
          if started then Some s1
          else
            let t2 = ct_timeout_config (nv_ctrl s1) in
            if tc_reset_in_progress t2 then Some (put (t2\<lparr>tc_reset_in_progress := False\<rparr>) s1) else None
        })"

definition timeout_hot_remove :: "nvmx \<Rightarrow> nvmx option" where
  "timeout_hot_remove s = (if nv_listed s then controller_hot_remove (Cb_hot_remove 0) s else Some s)"

text \<open>\<open>io_timeout_handler\<close>; \<open>abort_rc\<close> is the code of submitting the abort.\<close>

definition io_timeout_handler :: "nat \<Rightarrow> bool \<Rightarrow> int \<Rightarrow> nvmx \<Rightarrow> nvmx option" where
  "io_timeout_handler now qpair_null abort_rc s =
     (let a = tc_timeout_action (ct_timeout_config (nv_ctrl s));
          action = (if \<not> qpair_null \<and> a \<noteq> Timeout_Ignore \<and> a \<noteq> Timeout_HotRemove then Timeout_Reset else a)
      in case action of
           Timeout_Abort \<Rightarrow>
             (if \<not> qpair_null \<and> abort_rc = 0 then Some s else timeout_reset_controller now s)
         | Timeout_Reset \<Rightarrow> timeout_reset_controller now s
         | Timeout_Ignore \<Rightarrow> Some s
         | Timeout_HotRemove \<Rightarrow> timeout_hot_remove s)"

definition command_abort_handler :: "nat \<Rightarrow> bool \<Rightarrow> nvmx \<Rightarrow> nvmx option" where
  "command_abort_handler now succeeded s = (if succeeded then Some s else timeout_reset_controller now s)"

definition configure_timeout :: "u64 \<Rightarrow> DeviceTimeoutAction option \<Rightarrow> NvmeController \<Rightarrow> NvmeController" where
  "configure_timeout timeout_us action c =
     c\<lparr>ct_timeout_config := (ct_timeout_config c)\<lparr>tc_timeout_action :=
        (if timeout_us = 0 then Timeout_Ignore
         else case action of Some a \<Rightarrow> a | None \<Rightarrow> Timeout_Ignore)\<rparr>\<rparr>"

text \<open>\<open>nvme_poll_adminq\<close>: \<open>error\<close> is the error of processing the completions, if any.\<close>

definition nvme_poll_adminq :: "nat \<Rightarrow> Errno option \<Rightarrow> bool \<Rightarrow> nvmx \<Rightarrow> nvmx option" where
  "nvme_poll_adminq now error is_failed s =
     (case error of
        None \<Rightarrow> Some s
      | Some e \<Rightarrow>
          let put = (\<lambda>t s. s\<lparr>nv_ctrl := (nv_ctrl s)\<lparr>ct_timeout_config := t\<rparr>\<rparr>);
              notify = (\<lambda>ev s. s\<lparr>nv_ctrl := notify_listeners ev (nv_ctrl s)\<rparr>);
              (first, t1) = start_device_destroy (ct_timeout_config (nv_ctrl s))
          in
          if first then (if nv_listed s then Some (notify AdminCommandCompletionFailed (put t1 s)) else None)
          else
            let (failed, t2) = report_failed is_failed t1 in
            if failed then
              Some (if nv_listed s then notify AdminQNoticeCtrlFailed (put t2 s) else put t2 s)
            else
              let (broken, t3) = adminq_broken_tmo now e t2 in
              Some (if broken \<and> nv_listed s then notify AdminQBroken (put t3 s) else put t3 s))"

subsection \<open>Attaching, channels and destruction\<close>

text \<open>\<open>connected_attached_cb\<close>: the result is what is sent to the task that attaches the controller.\<close>

definition connected_attached_cb ::
  "u64 \<Rightarrow> NvmeNamespace option \<Rightarrow> bool \<Rightarrow> u64 \<Rightarrow> DeviceTimeoutAction option \<Rightarrow> nvmx \<Rightarrow>
   ((Errno + unit) \<times> nvmx) option" where
  "connected_attached_cb cid ns ns_active timeout_us action s =
     (if \<not> nv_listed s then None
      else
        do {
          c1 \<leftarrow> expect_transition Ctrl_Initializing (nv_ctrl s);
          c2 \<leftarrow> (if cid = 0 then None else Some (c1\<lparr>ct_id := cid\<rparr>));
          let c3 = configure_timeout timeout_us action (c2\<lparr>ct_inner := Some \<lparr> cti_namespaces = [] \<rparr>\<rparr>);
          (populated, c4) \<leftarrow> populate_namespaces ns ns_active c3;
          if \<not> populated then Some (Inl ENXIO, s\<lparr>nv_ctrl := c4\<rparr>)
          else
            do {
              c5 \<leftarrow> expect_transition Ctrl_Running c4;
              Some (Inr (), s\<lparr>nv_ctrl := c5\<rparr>)
            }
        })"

text \<open>The creation of an I/O channel; \<open>block_size\<close> is that of the namespace, \<open>device\<close> whether the block
  device of the controller was found, \<open>pgroup\<close> whether a poll group could be created.\<close>

definition io_channel_create :: "qpair_env \<Rightarrow> bool \<Rightarrow> bool \<Rightarrow> u64 \<Rightarrow> nvmx \<Rightarrow> (int \<times> nvmx) option" where
  "io_channel_create qe device pgroup block_size s =
     (if \<not> nv_listed s then Some (1, s)
      else if ct_state (nv_ctrl s) \<noteq> Ctrl_Running then Some (1, s)
      else
        do {
          inner \<leftarrow> ct_inner (nv_ctrl s);
          if cti_namespaces inner = [] then None
          else if \<not> device \<or> \<not> qe_create qe \<or> \<not> pgroup \<or> qe_add_qpair qe \<noteq> 0 then Some (1, s)
          else
            Some (0, s\<lparr>nv_channels := nv_channels s @
              [\<lparr> ioc_qpair = True,
                 ioc_io_stats_controller = \<lparr> isc_io_stats = stats_default, isc_block_size = block_size \<rparr>,
                 ioc_ctrl = True, ioc_num_pending_ios = 0, ioc_is_shutdown = False \<rparr>]\<rparr>)
        })"

text \<open>\<open>aer_cb\<close>: the namespaces are enumerated again when their attributes have changed.\<close>

definition aer_cb :: "bool \<Rightarrow> u32 \<Rightarrow> u32 \<Rightarrow> NvmeNamespace option \<Rightarrow> bool \<Rightarrow> nvmx \<Rightarrow> nvmx option" where
  "aer_cb succeeded event_type event_info ns ns_active s =
     (if \<not> succeeded then Some s
      else if event_type = 2 \<and> event_info = 0 then
        (if nv_listed s then
           do { (_, c) \<leftarrow> populate_namespaces ns ns_active (nv_ctrl s); Some (s\<lparr>nv_ctrl := c\<rparr>) }
         else Some s)
      else Some s)"

text \<open>\<open>destroy_device\<close>, up to the wait for the shutdown and after it. A controller that was never attached
  is removed at once. The error number \<open>EAGAIN\<close> is 11.\<close>

definition destroy_remove :: "nvmx \<Rightarrow> nvmx option" where
  "destroy_remove s =
     (let c = notify_listeners DeviceRemoved (nv_ctrl s) in
      do { _ \<leftarrow> controller_drop c; Some (s\<lparr>nv_ctrl := c, nv_listed := False\<rparr>) })"

definition destroy_begin :: "nat \<Rightarrow> nvmx \<Rightarrow> ((BdevError + unit) \<times> nvmx) option" where
  "destroy_begin i s =
     (if \<not> nv_listed s then Some (Inl (Bdev_BdevNotFound (ct_name (nv_ctrl s))), s)
      else if ct_state (nv_ctrl s) \<noteq> Ctrl_New then
        do {
          (r, s1) \<leftarrow> controller_shutdown (Cb_destroy i) s;
          Some (map_err (\<lambda>_. Bdev_DestroyBdevFailed (EOther 11) (ct_name (nv_ctrl s))) r, s1)
        }
      else do { s1 \<leftarrow> destroy_remove s; Some (Inr (), s1) })"

definition destroy_finish :: "nat \<Rightarrow> nvmx \<Rightarrow> nvmx option" where
  "destroy_finish i s =
     (if nv_listed s \<and> (Cb_destroy i, True) \<in> set (nv_done s) then destroy_remove s else Some s)"

definition controller_io_stats :: "nvmx \<Rightarrow> CoreError + BlockDeviceIoStats" where
  "controller_io_stats s =
     (if ct_state (nv_ctrl s) \<noteq> Ctrl_Running then Inl (Core_DeviceStatisticsFailed (EOther 11))
      else Inr (fold (\<lambda>ch acc. stats_merge acc (get_io_stats (ioc_io_stats_controller ch)))
                  (nv_channels s) stats_default))"

section \<open>Events\<close>

datatype nvmx_event =
    Nv_attached u64 "NvmeNamespace option" bool u64 "DeviceTimeoutAction option"
  | Nv_create_channel qpair_env bool bool u64
  | Nv_reset nat
  | Nv_hot_remove nat
  | Nv_destroy nat
  | Nv_destroyed nat
  | Nv_traverse qpair_env nat nat
  | Nv_aer bool u32 u32 "NvmeNamespace option" bool
  | Nv_io_timeout nat bool int
  | Nv_abort_done nat bool
  | Nv_poll_adminq nat "Errno option" bool

text \<open>An event on the system. The controller is reset, removed, and calls back only once it has been
  attached.\<close>

fun nvmx_exec :: "nvmx_event \<Rightarrow> nvmx \<Rightarrow> nvmx option" where
  "nvmx_exec (Nv_attached cid ns active timeout_us action) s =
     (if ct_state (nv_ctrl s) \<noteq> Ctrl_New \<or> \<not> nv_listed s then Some s
      else map_option snd (connected_attached_cb cid ns active timeout_us action s))"
| "nvmx_exec (Nv_create_channel qe device pgroup bs) s = map_option snd (io_channel_create qe device pgroup bs s)"
| "nvmx_exec (Nv_reset i) s = map_option snd (controller_reset (Cb_reset i) s)"
| "nvmx_exec (Nv_hot_remove i) s =
     (if ct_inner (nv_ctrl s) = None then Some s else controller_hot_remove (Cb_hot_remove i) s)"
| "nvmx_exec (Nv_destroy i) s = map_option snd (destroy_begin i s)"
| "nvmx_exec (Nv_destroyed i) s = destroy_finish i s"
| "nvmx_exec (Nv_traverse qe now i) s = traversal_step qe now i s"
| "nvmx_exec (Nv_aer ok ty info ns active) s =
     (if ct_inner (nv_ctrl s) = None then Some s else aer_cb ok ty info ns active s)"
| "nvmx_exec (Nv_io_timeout now null rc) s =
     (if ct_inner (nv_ctrl s) = None then Some s else io_timeout_handler now null rc s)"
| "nvmx_exec (Nv_abort_done now ok) s =
     (if ct_inner (nv_ctrl s) = None then Some s else command_abort_handler now ok s)"
| "nvmx_exec (Nv_poll_adminq now error failed) s =
     (if ct_inner (nv_ctrl s) = None then Some s else nvme_poll_adminq now error failed s)"

definition nvmx_run :: "nvmx_event list \<Rightarrow> nvmx \<Rightarrow> nvmx option" where
  "nvmx_run es s = foldM nvmx_exec es s"

definition nvmx_init :: "nat \<Rightarrow> nat \<Rightarrow> string \<Rightarrow> nvmx" where
  "nvmx_init now timeout_admin name =
     \<lparr> nv_ctrl = controller_new now timeout_admin name, nv_listed = True, nv_channels = [],
       nv_traversals = [], nv_done = [] \<rparr>"

section \<open>Resets exclude each other and a shutdown is final\<close>

fun is_reset_tr :: "traversal_kind \<Rightarrow> bool" where
  "is_reset_tr (Tr_reset_destroy _) = True"
| "is_reset_tr (Tr_reset_create _) = True"
| "is_reset_tr _ = False"

fun is_shutdown_tr :: "traversal_kind \<Rightarrow> bool" where
  "is_shutdown_tr (Tr_shutdown _) = True"
| "is_shutdown_tr _ = False"

definition resets :: "nvmx \<Rightarrow> nat" where
  "resets s = length (filter (\<lambda>t. is_reset_tr (tv_kind t)) (nv_traversals s))"

definition shutdowns :: "nvmx \<Rightarrow> nat" where
  "shutdowns s = length (filter (\<lambda>t. is_shutdown_tr (tv_kind t)) (nv_traversals s))"

fun kind_ok :: "traversal_kind \<Rightarrow> bool" where
  "kind_ok (Tr_reset_destroy ctx) = (\<exists>i. rx_cb ctx = Cb_reset i)"
| "kind_ok (Tr_reset_create ctx) = (\<exists>i. rx_cb ctx = Cb_reset i)"
| "kind_ok (Tr_hot_remove ctx) = True"
| "kind_ok (Tr_shutdown cb) = (\<exists>i. cb = Cb_destroy i)"

text \<open>The invariant of the controller: its state and its inner part belong together, a controller in use
  has a namespace, and one that is shut down or gone has started its destruction.\<close>

definition ctrl_ok :: "NvmeController \<Rightarrow> bool \<Rightarrow> bool" where
  "ctrl_ok c listed \<longleftrightarrow>
     (ct_inner c = None \<longleftrightarrow> ct_state c = Ctrl_New) \<and> ct_state c \<noteq> Ctrl_Initializing \<and>
     (ct_state c = Ctrl_Running \<longrightarrow> (\<forall>inner. ct_inner c = Some inner \<longrightarrow> cti_namespaces inner \<noteq> [])) \<and>
     (ct_state c = Ctrl_Unconfiguring \<or> ct_state c = Ctrl_Unconfigured \<longrightarrow>
        tc_destroy_in_progress (ct_timeout_config c)) \<and>
     (\<not> listed \<longrightarrow> ct_state c = Ctrl_New \<or> ct_state c = Ctrl_Unconfigured)"

definition nvmx_wf :: "nvmx \<Rightarrow> bool" where
  "nvmx_wf s \<longleftrightarrow>
     ctrl_ok (nv_ctrl s) (nv_listed s) \<and>
     resets s \<le> (if csm_flag (ct_state_machine (nv_ctrl s)) then 1 else 0) \<and>
     shutdowns s = (if ct_state (nv_ctrl s) = Ctrl_Unconfiguring then 1 else 0) \<and>
     (ct_state (nv_ctrl s) = Ctrl_New \<longrightarrow> nv_traversals s = []) \<and>
     (\<forall>t\<in>set (nv_traversals s). kind_ok (tv_kind t) \<and> (is_shutdown_tr (tv_kind t) \<longrightarrow> tv_status t = 0)) \<and>
     (\<forall>ch\<in>set (nv_channels s). ioc_is_shutdown ch \<longrightarrow> \<not> ioc_qpair ch \<and> \<not> ioc_ctrl ch) \<and>
     (\<forall>i. (Cb_destroy i, True) \<in> set (nv_done s) \<longrightarrow> ct_state (nv_ctrl s) = Ctrl_Unconfigured)"

text \<open>What is asked of the events: a namespace that SPDK calls active has a handle, the address of a
  controller is not null, no namespace disappears while the controller shuts down, and no timeout asks
  for a reset.\<close>

fun calm :: "nvmx_event \<Rightarrow> nvmx \<Rightarrow> bool" where
  "calm (Nv_attached cid ns active timeout_us action) s = (cid \<noteq> 0 \<and> (active \<longrightarrow> ns \<noteq> None))"
| "calm (Nv_aer ok ty info ns active) s =
     ((active \<longrightarrow> ns \<noteq> None) \<and>
      (\<not> active \<longrightarrow> ct_state (nv_ctrl s) \<noteq> Ctrl_Unconfiguring \<and> ct_state (nv_ctrl s) \<noteq> Ctrl_Unconfigured))"
| "calm (Nv_io_timeout now null rc) s =
     (let a = tc_timeout_action (ct_timeout_config (nv_ctrl s)) in a = Timeout_Ignore \<or> a = Timeout_HotRemove)"
| "calm (Nv_abort_done now ok) s = ok"
| "calm _ s = True"

fun calm_run :: "nvmx_event list \<Rightarrow> nvmx \<Rightarrow> bool" where
  "calm_run [] s = True"
| "calm_run (e # es) s = (calm e s \<and> (case nvmx_exec e s of None \<Rightarrow> True | Some s' \<Rightarrow> calm_run es s'))"

lemmas counts = resets_def shutdowns_def traverse_io_channels_def

lemma wf_reset:
  assumes "nvmx_wf s"
  shows "\<exists>r s'. controller_reset (Cb_reset i) s = Some (r, s') \<and> nvmx_wf s'"
  using assms
  by (cases "ct_state (nv_ctrl s)"; cases "csm_flag (ct_state_machine (nv_ctrl s))")
    (simp_all add: controller_reset_def set_flag_exclusively_def nvmx_wf_def ctrl_ok_def counts)

lemma wf_hot_remove:
  assumes "nvmx_wf s" "ct_inner (nv_ctrl s) \<noteq> None"
  shows "\<exists>s'. controller_hot_remove cb s = Some s' \<and> nvmx_wf s'"
  using assms by (auto simp: controller_hot_remove_def nvmx_wf_def ctrl_ok_def counts)

lemma wf_shutdown:
  assumes "nvmx_wf s" "nv_listed s"
  shows "\<exists>r s'. controller_shutdown (Cb_destroy i) s = Some (r, s') \<and> nvmx_wf s'"
  using assms
  by (auto simp: controller_shutdown_def transition_def check_transition_def nvmx_wf_def ctrl_ok_def counts
      start_device_destroy_def split: NvmeControllerState.splits)

lemma wf_create:
  assumes "nvmx_wf s"
  shows "\<exists>r s'. io_channel_create qe device pgroup bs s = Some (r, s') \<and> nvmx_wf s'"
proof (cases "nv_listed s \<and> ct_state (nv_ctrl s) = Ctrl_Running")
  case False
  then show ?thesis using assms by (auto simp: io_channel_create_def)
next
  case True
  then obtain inner where i: "ct_inner (nv_ctrl s) = Some inner" "cti_namespaces inner \<noteq> []"
    using assms by (cases "ct_inner (nv_ctrl s)") (auto simp: nvmx_wf_def ctrl_ok_def)
  show ?thesis
  proof (cases "\<not> device \<or> \<not> qe_create qe \<or> \<not> pgroup \<or> qe_add_qpair qe \<noteq> 0")
    case bad: True
    then show ?thesis using True i assms by (simp add: io_channel_create_def)
  next
    case good: False
    then show ?thesis
      using True i assms by (simp add: io_channel_create_def nvmx_wf_def resets_def shutdowns_def)
  qed
qed

lemma wf_ctrl:
  assumes "nvmx_wf s" "ctrl_ok c (nv_listed s)"
    and "csm_flag (ct_state_machine c) = csm_flag (ct_state_machine (nv_ctrl s))"
    and "ct_state c = Ctrl_Unconfiguring \<longleftrightarrow> ct_state (nv_ctrl s) = Ctrl_Unconfiguring"
    and "ct_state (nv_ctrl s) = Ctrl_Unconfigured \<longrightarrow> ct_state c = Ctrl_Unconfigured"
    and "ct_state c \<noteq> Ctrl_New \<or> nv_traversals s = []"
  shows "nvmx_wf (s\<lparr>nv_ctrl := c\<rparr>)"
  using assms by (simp add: nvmx_wf_def resets_def shutdowns_def)

text \<open>Enumerating the namespaces keeps the invariant of the controller and faults it at most.\<close>

lemma populate_ok:
  assumes "ct_inner c \<noteq> None" "active \<longrightarrow> ns \<noteq> None"
    and "\<not> active \<longrightarrow> check_transition (ct_state c) (Ctrl_Faulted Failure_NamespaceInit)"
  shows "\<exists>c'. populate_namespaces ns active c = Some (active, c') \<and> ct_inner c' \<noteq> None \<and>
    (active \<longrightarrow> (\<forall>inner. ct_inner c' = Some inner \<longrightarrow> cti_namespaces inner \<noteq> [])) \<and>
    ct_state c' = (if active then ct_state c else Ctrl_Faulted Failure_NamespaceInit) \<and>
    csm_flag (ct_state_machine c') = csm_flag (ct_state_machine c) \<and>
    ct_timeout_config c' = ct_timeout_config c"
  using assms
  by (cases active; cases ns)
    (auto simp: populate_namespaces_def expect_transition_def transition_def notify_listeners_def Let_def)

lemma wf_attached:
  assumes "nvmx_wf s" "ct_state (nv_ctrl s) = Ctrl_New" "nv_listed s" "cid \<noteq> 0" "active \<longrightarrow> ns \<noteq> None"
  shows "\<exists>r s'. connected_attached_cb cid ns active timeout_us action s = Some (r, s') \<and> nvmx_wf s'"
proof -
  define m where "m = (ct_state_machine (nv_ctrl s))\<lparr>csm_current_state := Ctrl_Initializing\<rparr>"
  define c3 where "c3 = configure_timeout timeout_us action
    ((nv_ctrl s)\<lparr>ct_state_machine := m, ct_id := cid, ct_inner := Some \<lparr> cti_namespaces = [] \<rparr>\<rparr>)"
  have c3: "ct_inner c3 = Some \<lparr> cti_namespaces = [] \<rparr>" "ct_state_machine c3 = m"
    by (simp_all add: c3_def configure_timeout_def)
  obtain c4 where c4: "populate_namespaces ns active c3 = Some (active, c4)" "ct_inner c4 \<noteq> None"
    "active \<longrightarrow> (\<forall>inner. ct_inner c4 = Some inner \<longrightarrow> cti_namespaces inner \<noteq> [])"
    "ct_state c4 = (if active then Ctrl_Initializing else Ctrl_Faulted Failure_NamespaceInit)"
    "csm_flag (ct_state_machine c4) = csm_flag (ct_state_machine (nv_ctrl s))"
    using populate_ok [of c3 active ns] assms(5) c3 by (auto simp: m_def check_transition_def)
  have e: "expect_transition Ctrl_Initializing (nv_ctrl s) = Some ((nv_ctrl s)\<lparr>ct_state_machine := m\<rparr>)"
    using assms(2) by (simp add: expect_transition_def transition_def check_transition_def m_def)
  have r: "connected_attached_cb cid ns active timeout_us action s =
      (if active then do { c5 \<leftarrow> expect_transition Ctrl_Running c4; Some (Inr (), s\<lparr>nv_ctrl := c5\<rparr>) }
       else Some (Inl ENXIO, s\<lparr>nv_ctrl := c4\<rparr>))"
    using assms(3,4) e c4(1) by (simp add: connected_attached_cb_def c3_def [symmetric])
  show ?thesis
  proof (cases active)
    case True
    let ?c5 = "c4\<lparr>ct_state_machine := (ct_state_machine c4)\<lparr>csm_current_state := Ctrl_Running\<rparr>\<rparr>"
    have "expect_transition Ctrl_Running c4 = Some ?c5"
      using True c4(4) by (simp add: expect_transition_def transition_def check_transition_def)
    moreover have "nvmx_wf (s\<lparr>nv_ctrl := ?c5\<rparr>)"
      by (rule wf_ctrl [OF assms(1)]) (use c4 True assms(2,3) in \<open>auto simp: ctrl_ok_def\<close>)
    ultimately show ?thesis using r True by simp
  next
    case False
    have "nvmx_wf (s\<lparr>nv_ctrl := c4\<rparr>)"
      by (rule wf_ctrl [OF assms(1)]) (use c4 False assms(2,3) in \<open>auto simp: ctrl_ok_def\<close>)
    then show ?thesis using r False by simp
  qed
qed

lemma wf_aer:
  assumes "nvmx_wf s" "calm (Nv_aer ok ty info ns active) s" "ct_inner (nv_ctrl s) \<noteq> None"
  shows "\<exists>s'. aer_cb ok ty info ns active s = Some s' \<and> nvmx_wf s'"
proof (cases "ok \<and> ty = 2 \<and> info = 0 \<and> nv_listed s")
  case False
  then show ?thesis using assms(1) by (auto simp: aer_cb_def)
next
  case True
  have st: "ct_state (nv_ctrl s) \<noteq> Ctrl_New" "ct_state (nv_ctrl s) \<noteq> Ctrl_Initializing"
    using assms(1,3) by (auto simp: nvmx_wf_def ctrl_ok_def)
  then have "\<not> active \<longrightarrow> check_transition (ct_state (nv_ctrl s)) (Ctrl_Faulted Failure_NamespaceInit)"
    using assms(2) by (cases "ct_state (nv_ctrl s)") (auto simp: check_transition_def)
  then obtain c where c: "populate_namespaces ns active (nv_ctrl s) = Some (active, c)" "ct_inner c \<noteq> None"
    "active \<longrightarrow> (\<forall>inner. ct_inner c = Some inner \<longrightarrow> cti_namespaces inner \<noteq> [])"
    "ct_state c = (if active then ct_state (nv_ctrl s) else Ctrl_Faulted Failure_NamespaceInit)"
    "csm_flag (ct_state_machine c) = csm_flag (ct_state_machine (nv_ctrl s))"
    "ct_timeout_config c = ct_timeout_config (nv_ctrl s)"
    using populate_ok [OF assms(3), of active ns] assms(2) by auto
  have "nvmx_wf (s\<lparr>nv_ctrl := c\<rparr>)"
    by (rule wf_ctrl [OF assms(1)]) (use c st True assms in \<open>auto simp: nvmx_wf_def ctrl_ok_def\<close>)
  then show ?thesis using True c(1) by (simp add: aer_cb_def)
qed

lemma wf_tick:
  assumes "nvmx_wf s" "tc_destroy_in_progress t \<or> \<not> tc_destroy_in_progress (ct_timeout_config (nv_ctrl s))"
  shows "nvmx_wf (s\<lparr>nv_ctrl := (nv_ctrl s)\<lparr>ct_timeout_config := t\<rparr>\<rparr>)"
    "nvmx_wf (s\<lparr>nv_ctrl := (nv_ctrl s)\<lparr>ct_timeout_config := t, ct_events := ev\<rparr>\<rparr>)"
proof -
  have c: "ctrl_ok (nv_ctrl s) (nv_listed s)" "ct_state (nv_ctrl s) = Ctrl_New \<longrightarrow> nv_traversals s = []"
    using assms(1) by (simp_all add: nvmx_wf_def)
  show "nvmx_wf (s\<lparr>nv_ctrl := (nv_ctrl s)\<lparr>ct_timeout_config := t\<rparr>\<rparr>)"
    "nvmx_wf (s\<lparr>nv_ctrl := (nv_ctrl s)\<lparr>ct_timeout_config := t, ct_events := ev\<rparr>\<rparr>)"
    by (rule wf_ctrl [OF assms(1)]; use c assms(2) in \<open>auto simp: ctrl_ok_def\<close>)+
qed

lemma destroy_listed:
  "nvmx_wf s \<Longrightarrow> ct_inner (nv_ctrl s) \<noteq> None \<Longrightarrow> \<not> tc_destroy_in_progress (ct_timeout_config (nv_ctrl s)) \<Longrightarrow>
   nv_listed s"
  by (auto simp: nvmx_wf_def ctrl_ok_def)

lemma wf_poll:
  assumes "nvmx_wf s" "ct_inner (nv_ctrl s) \<noteq> None"
  shows "\<exists>s'. nvme_poll_adminq now error failed s = Some s' \<and> nvmx_wf s'"
proof (cases error)
  case None
  then show ?thesis using assms(1) by (simp add: nvme_poll_adminq_def)
next
  case (Some e)
  let ?t = "ct_timeout_config (nv_ctrl s)"
  show ?thesis
  proof (cases "tc_destroy_in_progress ?t")
    case False
    then show ?thesis
      using Some destroy_listed [OF assms] wf_tick [OF assms(1)]
      by (simp add: nvme_poll_adminq_def start_device_destroy_def notify_listeners_def)
  next
    case True
    obtain f t2 where f: "report_failed failed ?t = (f, t2)" by fastforce
    obtain br t3 where br: "adminq_broken_tmo now e t2 = (br, t3)" by fastforce
    have "tc_destroy_in_progress t2" "tc_destroy_in_progress t3"
      using True f br by (auto simp: report_failed_def adminq_broken_tmo_def split: if_splits option.splits)
    then show ?thesis
      using Some True f br wf_tick [OF assms(1)]
      by (simp add: nvme_poll_adminq_def start_device_destroy_def notify_listeners_def)
  qed
qed

lemma wf_destroy_remove:
  assumes "nvmx_wf s" "ct_state (nv_ctrl s) = Ctrl_New \<or> ct_state (nv_ctrl s) = Ctrl_Unconfigured"
  shows "\<exists>s'. destroy_remove s = Some s' \<and> nvmx_wf s'"
  using assms
  by (simp add: destroy_remove_def controller_drop_def notify_listeners_def nvmx_wf_def ctrl_ok_def
      resets_def shutdowns_def)

subsection \<open>Steps of traversals\<close>

lemma count_update:
  "i < length xs \<Longrightarrow> P y = P (xs ! i) \<Longrightarrow> length (filter P (xs[i := y])) = length (filter P xs)"
proof (induction xs arbitrary: i)
  case (Cons x xs)
  then show ?case by (cases i) auto
qed simp

lemma count_remove:
  "i < length xs \<Longrightarrow>
   length (filter P xs) = length (filter P (remove_at i xs)) + (if P (xs ! i) then 1 else 0)"
  unfolding remove_at_def by (subst (1) id_take_nth_drop [of i xs]) simp_all

lemma remove_at_subset: "set (remove_at i xs) \<subseteq> set xs"
  unfolding remove_at_def using set_take_subset [of i xs] set_drop_subset [of "Suc i" xs] by auto

lemma visit_kind:
  assumes "visit_channel qe k ch = (rc, ch', k')" "kind_ok k"
    and "ioc_is_shutdown ch \<longrightarrow> \<not> ioc_qpair ch \<and> \<not> ioc_ctrl ch"
  shows "is_reset_tr k' = is_reset_tr k" "is_shutdown_tr k' = is_shutdown_tr k" "kind_ok k'"
    "is_shutdown_tr k \<longrightarrow> rc = 0" "ioc_is_shutdown ch' \<longrightarrow> \<not> ioc_qpair ch' \<and> \<not> ioc_ctrl ch'"
  using assms
  by (cases k; auto simp: visit_channel_def reset_destroy_channel_def reset_create_channel_def
      io_channel_reset_def io_channel_shutdown_def reinitialize_def Let_def split: if_splits)+

lemma wf_visit:
  assumes "nvmx_wf s" "i < length (nv_traversals s)" "c < length (nv_channels s)"
    and "visit_channel qe (tv_kind (nv_traversals s ! i)) (nv_channels s ! c) = (rc, ch, k)"
  shows "nvmx_wf (s\<lparr>nv_channels := (nv_channels s)[c := ch],
    nv_traversals := (nv_traversals s)[i := \<lparr> tv_kind = k, tv_rest = cs, tv_status = rc \<rparr>]\<rparr>)"
proof -
  let ?t = "nv_traversals s ! i"
  have t: "?t \<in> set (nv_traversals s)" "nv_channels s ! c \<in> set (nv_channels s)" using assms(2,3) by simp_all
  then have "kind_ok (tv_kind ?t)"
    "ioc_is_shutdown (nv_channels s ! c) \<longrightarrow> \<not> ioc_qpair (nv_channels s ! c) \<and> \<not> ioc_ctrl (nv_channels s ! c)"
    using assms(1) by (auto simp: nvmx_wf_def)
  note v = visit_kind [OF assms(4) this]
  have "resets s = length (filter (\<lambda>t. is_reset_tr (tv_kind t))
      ((nv_traversals s)[i := \<lparr> tv_kind = k, tv_rest = cs, tv_status = rc \<rparr>]))"
    "shutdowns s = length (filter (\<lambda>t. is_shutdown_tr (tv_kind t))
      ((nv_traversals s)[i := \<lparr> tv_kind = k, tv_rest = cs, tv_status = rc \<rparr>]))"
    unfolding resets_def shutdowns_def using v(1,2) by (simp_all add: count_update [OF assms(2)])
  moreover have "\<forall>u\<in>set ((nv_traversals s)[i := \<lparr> tv_kind = k, tv_rest = cs, tv_status = rc \<rparr>]).
      kind_ok (tv_kind u) \<and> (is_shutdown_tr (tv_kind u) \<longrightarrow> tv_status u = 0)"
    using assms(1) v(2-4) set_update_subset_insert [of "nv_traversals s" i]
    by (fastforce simp: nvmx_wf_def)
  moreover have "\<forall>u\<in>set ((nv_channels s)[c := ch]). ioc_is_shutdown u \<longrightarrow> \<not> ioc_qpair u \<and> \<not> ioc_ctrl u"
    using assms(1) v(5) set_update_subset_insert [of "nv_channels s" c ch]
    by (fastforce simp: nvmx_wf_def)
  moreover have "ct_state (nv_ctrl s) \<noteq> Ctrl_New" using assms(1) t(1) by (auto simp: nvmx_wf_def)
  ultimately show ?thesis
    using assms(1) by (simp add: nvmx_wf_def resets_def [of "nvmx.nv_channels_update _ _"]
        shutdowns_def [of "nvmx.nv_channels_update _ _"] resets_def shutdowns_def)
qed

text \<open>A traversal that ends is taken off the list; what follows works on the shorter list.\<close>

lemma wf_removed:
  assumes "nvmx_wf s" "i < length (nv_traversals s)"
  defines "t \<equiv> nv_traversals s ! i" and "s1 \<equiv> s\<lparr>nv_traversals := remove_at i (nv_traversals s)\<rparr>"
  shows "\<not> is_shutdown_tr (tv_kind t) \<Longrightarrow> nvmx_wf s1"
    "is_reset_tr (tv_kind t) \<Longrightarrow> resets s1 = 0 \<and> csm_flag (ct_state_machine (nv_ctrl s1))"
    "is_shutdown_tr (tv_kind t) \<Longrightarrow> shutdowns s1 = 0 \<and> ct_state (nv_ctrl s1) = Ctrl_Unconfiguring \<and> tv_status t = 0"
    "kind_ok (tv_kind t)" "resets s1 \<le> resets s" "ct_state (nv_ctrl s) \<noteq> Ctrl_New"
proof -
  have t: "t \<in> set (nv_traversals s)" using assms(2) by (simp add: t_def)
  have r: "resets s = resets s1 + (if is_reset_tr (tv_kind t) then 1 else 0)"
    using count_remove [OF assms(2), of "\<lambda>t. is_reset_tr (tv_kind t)"] by (simp add: resets_def t_def s1_def)
  have sh: "shutdowns s = shutdowns s1 + (if is_shutdown_tr (tv_kind t) then 1 else 0)"
    using count_remove [OF assms(2), of "\<lambda>t. is_shutdown_tr (tv_kind t)"] by (simp add: shutdowns_def t_def s1_def)
  have sub: "set (nv_traversals s1) \<subseteq> set (nv_traversals s)" using remove_at_subset by (simp add: s1_def)
  show new: "ct_state (nv_ctrl s) \<noteq> Ctrl_New" and "kind_ok (tv_kind t)"
    using assms(1) t by (auto simp: nvmx_wf_def)
  show "resets s1 \<le> resets s" using r by simp
  show "\<not> is_shutdown_tr (tv_kind t) \<Longrightarrow> nvmx_wf s1"
    using assms(1) r sh sub new by (auto simp: nvmx_wf_def s1_def split: if_splits)
  show "is_reset_tr (tv_kind t) \<Longrightarrow> resets s1 = 0 \<and> csm_flag (ct_state_machine (nv_ctrl s1))"
    using assms(1) r by (simp add: nvmx_wf_def s1_def split: if_splits)
  show "is_shutdown_tr (tv_kind t) \<Longrightarrow> shutdowns s1 = 0 \<and> ct_state (nv_ctrl s1) = Ctrl_Unconfiguring \<and> tv_status t = 0"
    using assms(1) sh t by (simp add: nvmx_wf_def s1_def split: if_splits)
qed

lemma wf_done:
  assumes "nvmx_wf s" "\<forall>i. cb \<noteq> Cb_destroy i"
  shows "nvmx_wf (s\<lparr>nv_done := nv_done s @ [(cb, ok)]\<rparr>)"
  using assms by (auto simp: nvmx_wf_def resets_def shutdowns_def)

lemma wf_complete_reset:
  assumes "nvmx_wf s" "resets s = 0" "csm_flag (ct_state_machine (nv_ctrl s))" "rx_cb ctx = Cb_reset i"
    and "ct_state (nv_ctrl s) \<noteq> Ctrl_New"
  shows "\<exists>s'. complete_reset now ctx status s = Some s' \<and> nvmx_wf s'"
proof (cases "nv_listed s")
  case False
  then show ?thesis using assms wf_done [OF assms(1), of "Cb_reset i"] by (simp add: complete_reset_def call_back_def)
next
  case True
  define m where "m = (ct_state_machine (nv_ctrl s))\<lparr>csm_flag := False\<rparr>"
  define m' where "m' = (if status \<noteq> 0 then
      (case transition_checked Ctrl_Running (Ctrl_Faulted Failure_Reset) m of Inl _ \<Rightarrow> m | Inr m' \<Rightarrow> m') else m)"
  have m': "csm_flag m' = False" "csm_current_state m' = ct_state (nv_ctrl s) \<or>
      (ct_state (nv_ctrl s) = Ctrl_Running \<and> csm_current_state m' = Ctrl_Faulted Failure_Reset)"
    by (auto simp: m'_def m_def transition_checked_def transition_def split: if_splits)
  have r: "complete_reset now ctx status s =
      Some (s\<lparr>nv_ctrl := (nv_ctrl s)\<lparr>ct_state_machine := m'\<rparr>, nv_done := nv_done s @ [(Cb_reset i, status = 0)]\<rparr>)"
    using assms(3,4) True
    by (simp add: complete_reset_def call_back_def clear_flag_exclusively_def m_def [symmetric] m'_def [symmetric]
        Let_def)
  have "nvmx_wf (s\<lparr>nv_ctrl := (nv_ctrl s)\<lparr>ct_state_machine := m'\<rparr>\<rparr>)"
    using m'(2)
  proof
    assume "csm_current_state m' = ct_state (nv_ctrl s)"
    then show ?thesis
      using assms(1,2,5) True m'(1) by (simp add: nvmx_wf_def ctrl_ok_def resets_def shutdowns_def)
  next
    assume "ct_state (nv_ctrl s) = Ctrl_Running \<and> csm_current_state m' = Ctrl_Faulted Failure_Reset"
    then show ?thesis
      using assms(1,2) True m'(1) by (simp add: nvmx_wf_def ctrl_ok_def resets_def shutdowns_def)
  qed
  from wf_done [OF this, of "Cb_reset i"] show ?thesis using r by simp
qed

lemma wf_reset_destroy_done:
  assumes "nvmx_wf s" "resets s = 0" "csm_flag (ct_state_machine (nv_ctrl s))" "rx_cb ctx = Cb_reset i"
    and "ct_state (nv_ctrl s) \<noteq> Ctrl_New"
  shows "\<exists>s'. reset_destroy_done now status ctx s = Some s' \<and> nvmx_wf s'"
proof (cases "status \<noteq> 0 \<or> rx_shutdown_in_progress ctx")
  case True
  then show ?thesis using wf_complete_reset [OF assms] assms(1) by (auto simp: reset_destroy_done_def)
next
  case False
  then show ?thesis using assms by (simp add: reset_destroy_done_def nvmx_wf_def counts)
qed

lemma wf_shutdown_done:
  assumes "nvmx_wf s" "i < length (nv_traversals s)" "tv_kind (nv_traversals s ! i) = Tr_shutdown cb"
  shows "\<exists>s'. shutdown_channels_done now (tv_status (nv_traversals s ! i)) cb
    (s\<lparr>nv_traversals := remove_at i (nv_traversals s)\<rparr>) = Some s' \<and> nvmx_wf s'"
proof -
  let ?s1 = "s\<lparr>nv_traversals := remove_at i (nv_traversals s)\<rparr>"
  note r = wf_removed [OF assms(1,2)]
  have sh: "shutdowns ?s1 = 0" "ct_state (nv_ctrl s) = Ctrl_Unconfiguring" "tv_status (nv_traversals s ! i) = 0"
    using r(3) assms(3) by simp_all
  then obtain inner where inner: "ct_inner (nv_ctrl s) = Some inner" and l: "nv_listed s"
    "tc_destroy_in_progress (ct_timeout_config (nv_ctrl s))"
    using assms(1) by (cases "ct_inner (nv_ctrl s)") (auto simp: nvmx_wf_def ctrl_ok_def)
  let ?c = "(nv_ctrl s)\<lparr>ct_inner := Some (inner\<lparr>cti_namespaces := []\<rparr>),
    ct_state_machine := (ct_state_machine (nv_ctrl s))\<lparr>csm_current_state := Ctrl_Unconfigured\<rparr>\<rparr>"
  let ?s' = "s\<lparr>nv_ctrl := ?c, nv_traversals := remove_at i (nv_traversals s), nv_done := nv_done s @ [(cb, True)]\<rparr>"
  obtain j where cb: "cb = Cb_destroy j" using r(4) assms(3) by auto
  have "shutdown_channels_done now (tv_status (nv_traversals s ! i)) cb ?s1 = Some ?s'"
    using sh inner l cb
    by (simp add: shutdown_channels_done_def clear_namespaces_def expect_transition_def transition_def
        check_transition_def call_back_def)
  moreover have "nvmx_wf ?s'"
    unfolding nvmx_wf_def
  proof (intro conjI)
    show "resets ?s' \<le> (if csm_flag (ct_state_machine (nv_ctrl ?s')) then 1 else 0)"
      using assms(1) r(5) by (simp add: nvmx_wf_def resets_def split: if_splits)
    show "shutdowns ?s' = (if ct_state (nv_ctrl ?s') = Ctrl_Unconfiguring then 1 else 0)"
      using sh(1) by (simp add: shutdowns_def)
    show "\<forall>t\<in>set (nv_traversals ?s'). kind_ok (tv_kind t) \<and> (is_shutdown_tr (tv_kind t) \<longrightarrow> tv_status t = 0)"
      using assms(1) remove_at_subset [of i "nv_traversals s"] by (simp add: nvmx_wf_def subset_iff)
  qed (use assms(1) l in \<open>simp_all add: nvmx_wf_def ctrl_ok_def\<close>)
  ultimately show ?thesis by simp
qed

lemma wf_traversal_done:
  assumes "nvmx_wf s" "i < length (nv_traversals s)"
  shows "\<exists>s'. traversal_done now (tv_status (nv_traversals s ! i)) (tv_kind (nv_traversals s ! i))
    (s\<lparr>nv_traversals := remove_at i (nv_traversals s)\<rparr>) = Some s' \<and> nvmx_wf s'"
proof (cases "tv_kind (nv_traversals s ! i)")
  case (Tr_reset_destroy ctx)
  note r = wf_removed [OF assms]
  obtain j where "rx_cb ctx = Cb_reset j" using r(4) Tr_reset_destroy by auto
  then show ?thesis
    using wf_reset_destroy_done [of "s\<lparr>nv_traversals := remove_at i (nv_traversals s)\<rparr>" ctx j] r Tr_reset_destroy
    by (simp add: traversal_done_def)
next
  case (Tr_reset_create ctx)
  note r = wf_removed [OF assms]
  obtain j where "rx_cb ctx = Cb_reset j" using r(4) Tr_reset_create by auto
  then show ?thesis
    using wf_complete_reset [of "s\<lparr>nv_traversals := remove_at i (nv_traversals s)\<rparr>" ctx j] r Tr_reset_create
    by (simp add: traversal_done_def)
next
  case (Tr_hot_remove ctx)
  then show ?thesis using wf_removed(1) [OF assms] by (simp add: traversal_done_def)
next
  case (Tr_shutdown cb)
  then show ?thesis using wf_shutdown_done [OF assms Tr_shutdown] by (simp add: traversal_done_def)
qed

lemma wf_skip:
  assumes "nvmx_wf s" "i < length (nv_traversals s)"
  shows "nvmx_wf (s\<lparr>nv_traversals := (nv_traversals s)[i := (nv_traversals s ! i)\<lparr>tv_rest := cs\<rparr>]\<rparr>)"
proof -
  let ?u = "(nv_traversals s ! i)\<lparr>tv_rest := cs\<rparr>"
  have "resets s = length (filter (\<lambda>t. is_reset_tr (tv_kind t)) ((nv_traversals s)[i := ?u]))"
    "shutdowns s = length (filter (\<lambda>t. is_shutdown_tr (tv_kind t)) ((nv_traversals s)[i := ?u]))"
    unfolding resets_def shutdowns_def by (simp_all add: count_update [OF assms(2)])
  moreover have "\<forall>u\<in>set ((nv_traversals s)[i := ?u]).
      kind_ok (tv_kind u) \<and> (is_shutdown_tr (tv_kind u) \<longrightarrow> tv_status u = 0)"
    using assms set_update_subset_insert [of "nv_traversals s" i ?u] nth_mem [OF assms(2)]
    by (fastforce simp: nvmx_wf_def)
  ultimately show ?thesis
    using assms wf_removed(6) [OF assms] by (simp add: nvmx_wf_def resets_def shutdowns_def)
qed

lemma wf_traversal_step:
  assumes "nvmx_wf s"
  shows "\<exists>s'. traversal_step qe now i s = Some s' \<and> nvmx_wf s'"
proof (cases "i < length (nv_traversals s)")
  case False
  then show ?thesis using assms by (simp add: traversal_step_def)
next
  case True
  let ?t = "nv_traversals s ! i"
  show ?thesis
  proof (cases "if tv_status ?t \<noteq> 0 then [] else tv_rest ?t")
    case Nil
    then show ?thesis using True wf_traversal_done [OF assms True] by (simp add: traversal_step_def Let_def)
  next
    case (Cons c cs)
    obtain rc ch k where v: "visit_channel qe (tv_kind ?t) (nv_channels s ! c) = (rc, ch, k)" by (metis prod_cases3)
    show ?thesis
      using True Cons v wf_visit [OF assms True _ v, of cs] wf_skip [OF assms True, of cs]
      by (cases "length (nv_channels s) \<le> c") (simp_all add: traversal_step_def Let_def)
  qed
qed

lemma wf_destroy:
  assumes "nvmx_wf s"
  shows "\<exists>r s'. destroy_begin i s = Some (r, s') \<and> nvmx_wf s'"
  using wf_shutdown [OF assms, of i] wf_destroy_remove [OF assms] assms
  by (cases "nv_listed s"; cases "ct_state (nv_ctrl s) = Ctrl_New") (auto simp: destroy_begin_def)

lemma wf_destroyed:
  assumes "nvmx_wf s"
  shows "\<exists>s'. destroy_finish i s = Some s' \<and> nvmx_wf s'"
proof (cases "nv_listed s \<and> (Cb_destroy i, True) \<in> set (nv_done s)")
  case True
  then have "ct_state (nv_ctrl s) = Ctrl_Unconfigured" using assms by (auto simp: nvmx_wf_def)
  then show ?thesis using True wf_destroy_remove [OF assms] by (simp add: destroy_finish_def)
next
  case False
  then show ?thesis using assms by (auto simp: destroy_finish_def)
qed

lemma wf_hot_timeout:
  assumes "nvmx_wf s" "ct_inner (nv_ctrl s) \<noteq> None"
    and "tc_timeout_action (ct_timeout_config (nv_ctrl s)) \<in> {Timeout_Ignore, Timeout_HotRemove}"
  shows "\<exists>s'. io_timeout_handler now null rc s = Some s' \<and> nvmx_wf s'"
  using assms(3) wf_hot_remove [OF assms(1,2)] assms(1)
  by (cases "tc_timeout_action (ct_timeout_config (nv_ctrl s))")
    (simp_all add: io_timeout_handler_def timeout_hot_remove_def)

lemma wf_exec:
  assumes "nvmx_wf s" "calm e s"
  shows "\<exists>s'. nvmx_exec e s = Some s' \<and> nvmx_wf s'"
proof (cases e)
  case (Nv_attached cid ns active timeout_us action)
  then show ?thesis
    using assms wf_attached [OF assms(1), of cid active ns timeout_us action] by fastforce
next
  case (Nv_create_channel qe device pgroup bs)
  then show ?thesis using wf_create [OF assms(1), of qe device pgroup bs] by fastforce
next
  case (Nv_reset i)
  then show ?thesis using wf_reset [OF assms(1), of i] by fastforce
next
  case (Nv_hot_remove i)
  then show ?thesis using assms(1) wf_hot_remove [OF assms(1), of "Cb_hot_remove i"] by simp
next
  case (Nv_destroy i)
  then show ?thesis using wf_destroy [OF assms(1), of i] by fastforce
next
  case (Nv_destroyed i)
  then show ?thesis using wf_destroyed [OF assms(1), of i] by simp
next
  case (Nv_traverse qe now i)
  then show ?thesis using wf_traversal_step [OF assms(1), of qe now i] by simp
next
  case (Nv_aer ok ty info ns active)
  then show ?thesis using assms wf_aer [OF assms(1), of ok ty info ns active] by simp
next
  case (Nv_io_timeout now null rc)
  then show ?thesis using assms wf_hot_timeout [OF assms(1), of now null rc] by (simp add: Let_def)
next
  case (Nv_abort_done now ok)
  then show ?thesis using assms by (simp add: command_abort_handler_def)
next
  case (Nv_poll_adminq now error failed)
  then show ?thesis using assms(1) wf_poll [OF assms(1), of now error failed] by simp
qed

lemma wf_init: "nvmx_wf (nvmx_init now timeout_admin name)"
  by (simp add: nvmx_wf_def ctrl_ok_def nvmx_init_def controller_new_def state_machine_new_def resets_def
      shutdowns_def)

lemma wf_run:
  "nvmx_wf s \<Longrightarrow> calm_run es s \<Longrightarrow> \<exists>s'. nvmx_run es s = Some s' \<and> nvmx_wf s'"
proof (induction es arbitrary: s)
  case Nil
  then show ?case by (simp add: nvmx_run_def)
next
  case (Cons e es)
  obtain s1 where "nvmx_exec e s = Some s1" "nvmx_wf s1" using wf_exec [OF Cons.prems(1)] Cons.prems(2) by auto
  then show ?case using Cons.IH [of s1] Cons.prems(2) by (simp add: nvmx_run_def)
qed


definition good_qpairs :: qpair_env where
  "good_qpairs = \<lparr> qe_create = True, qe_add_qpair = 0, qe_connect = 0 \<rparr>"

definition attach_event :: "DeviceTimeoutAction \<Rightarrow> nvmx_event" where
  "attach_event action = Nv_attached 1 (Some 1) True 1000 (Some action)"

definition channel_event :: nvmx_event where
  "channel_event = Nv_create_channel good_qpairs True True 512"

definition turn :: "nat \<Rightarrow> nvmx_event" where
  "turn i = Nv_traverse good_qpairs 0 i"

definition reset_during_destroy :: "nvmx_event list" where
  "reset_during_destroy =
     [attach_event Timeout_Ignore, channel_event, channel_event, Nv_reset 1, Nv_reset 2, Nv_destroy 1,
      turn 1, turn 0, turn 0, turn 0, turn 0, turn 0, Nv_destroyed 1]"


section \<open>Where it fails\<close>

text \<open>In that run the reset meets a channel that is shut down: it is dropped, its callback is never called
  and the controller counts as being reset for good.\<close>

theorem interrupted_reset_never_reported:
  "map_option (\<lambda>s. (nv_done s, nv_traversals s, csm_flag (ct_state_machine (nv_ctrl s)), nv_listed s))
     (nvmx_run reset_during_destroy (nvmx_init 0 0 ''c'')) = Some ([(Cb_destroy 1, True)], [], True, False)"
  by code_simp

text \<open>An asynchronous event that reports the namespace as inactive during the shutdown faults the
  controller; the end of the shutdown then panics.\<close>

theorem namespace_lost_in_shutdown_panics:
  "nvmx_run [attach_event Timeout_Ignore, Nv_destroy 1, Nv_aer True 2 0 None False] (nvmx_init 0 0 ''c'') \<noteq> None \<and>
   nvmx_run [attach_event Timeout_Ignore, Nv_destroy 1, Nv_aer True 2 0 None False, turn 0]
     (nvmx_init 0 0 ''c'') = None"
  by code_simp

text \<open>The first timeout that asks for a reset only marks one as being in progress; the second starts it,
  and the third takes the mark away under it, so that its completion panics.\<close>

theorem timeouts_lose_reset_and_panic:
  "map_option nv_traversals (nvmx_run [attach_event Timeout_Reset, Nv_io_timeout 0 False 0] (nvmx_init 0 0 ''c''))
     = Some []"
  "map_option resets (nvmx_run ([attach_event Timeout_Reset] @ replicate 3 (Nv_io_timeout 0 False 0))
     (nvmx_init 0 0 ''c'')) = Some 1"
  "nvmx_run ([attach_event Timeout_Reset] @ replicate 3 (Nv_io_timeout 0 False 0) @ replicate 2 (turn 0))
     (nvmx_init 0 0 ''c'') = None"
  by code_simp+

text \<open>A timeout whose action is to abort the command never aborts it but resets the controller.\<close>

theorem abort_action_resets:
  assumes "tc_timeout_action (ct_timeout_config (nv_ctrl s)) = Timeout_Abort"
  shows "io_timeout_handler now null rc s = timeout_reset_controller now s"
  using assms by (cases null) (simp_all add: io_timeout_handler_def)

text \<open>The callback of a hot removal is never called.\<close>

theorem hot_remove_not_reported:
  "traversal_done now status (Tr_hot_remove ctx) s = Some s"
  by (simp add: traversal_done_def)

end
