(* ===== verification/Spec2Isabelle.thy ===== *)
theory Spec2Isabelle
  imports Rebuild_Backend Io_Log Gpt_Tool Nexus_Io_Safety Nexus_Ops_Safety Wiper Nvmx_Controller
begin

text \<open>
  Verification of the Mayastor I/O engine (\<open>src/io-engine\<close>; the paths below are relative to
  \<open>src/io-engine/src\<close>).

  \<^bold>\<open>The program.\<close> The engine exports a volume as a \<^emph>\<open>nexus\<close>: a block device that mirrors every write
  to several \<^emph>\<open>children\<close>, one per replica, and reads from any of them. A replica that fails is retired:
  it is faulted, its retirement is recorded in the persistent store so that the control plane does not
  take it for a healthy one, and it is detached from the I/O channels of all cores. While it is away an
  I/O log collects what it misses. A rebuild job copies the missed, or all, segments back while the
  volume is written. The children of a nexus are reached by NVMe controllers; a GPT label tells where
  on a child the data lies.

  \<^bold>\<open>Conventions.\<close> Machine integers are words of their width and wrap as in a release build. A panic is
  the value \<open>None\<close>, an error the left injection of a sum. Code that is not part of the repository
  (SPDK, etcd, bincode, the CRC, the URL parser, the devices) is an argument of the definitions that
  use it; what is relied on of it is a named hypothesis (\<open>codec_ok\<close>, \<open>etcd_ok\<close>, \<open>rely\<close>, \<open>calm\<close>) that a
  witness instantiates. Tasks of one core interleave only where they await. This is modelled in two
  ways. Where the interleaving itself matters (the rebuild manager, the I/O path, the I/O subsystem, the NVMe
  controller) the code is cut at its awaits into the steps of an event system, and theorems quantify
  over all sequences of events. The management operations of the nexus run as they are written, with
  an arbitrary action of the other tasks at every await (\<open>ne_others\<close>).

  \<^bold>\<open>Theories.\<close>

  \<^item> \<open>Prelude\<close>: integers, bit vectors, sequencing of fallible steps, facts about words and lists.
  \<^item> \<open>Core_Types\<close>: errors, statuses and device events of \<open>core/mod.rs\<close>, \<open>core/block_device.rs\<close>,
    \<open>core/device_events.rs\<close>, \<open>bdev_api.rs\<close>.
  \<^item> \<open>Segment_Map\<close>: \<open>core/segment_map.rs\<close>, \<open>rebuild/rebuild_map.rs\<close>. The locale \<open>dirty_map\<close> is the contract
    of a map of dirty blocks; setting a range marks exactly the segments it touches.
  \<^item> \<open>Io_Log\<close>: \<open>bdev/nexus/nexus_io_log.rs\<close>, a client of \<open>dirty_map\<close>; the finalised log calls a block clean
    exactly if no logged I/O modified its segment.
  \<^item> \<open>Rebuild_State\<close>: \<open>rebuild/rebuild_state.rs\<close>, \<open>rebuild_stats.rs\<close>, \<open>rebuild_error.rs\<close>, \<open>rebuild_job.rs\<close>,
    \<open>rebuild_instances.rs\<close>; the state diagram and that a final state is final.
  \<^item> \<open>Rebuild_Copy\<close>: \<open>rebuild/rebuild_descriptor.rs\<close>, \<open>nexus_rebuild.rs\<close>, \<open>rebuilders.rs\<close>. The locale
    \<open>segment_copier\<close> is what the manager relies on of a rebuilder; it is interpreted for the full and the
    partial rebuild. The segments partition the range.
  \<^item> \<open>Rebuild_Backend\<close>: \<open>rebuild/rebuild_job_backend.rs\<close>, \<open>rebuild_task.rs\<close>; a completed rebuild has made
    the replica equal to its source under concurrent writes, a started rebuild completes, its
    statistics are sane, and how a pause can lose an error.
  \<^item> \<open>Gpt_Label\<close>, \<open>Gpt_Layout\<close>, \<open>Gpt_Codec\<close>, \<open>Gpt_Tool\<close>: \<open>core/gpt/primitives.rs\<close>, \<open>maya.rs\<close>, \<open>label.rs\<close> and
    \<open>bin/gpt.rs\<close>. The locale \<open>maya_layout\<close>, interpreted for both versions, is what the code relies on of
    a layout. A written label is read back, also from its backup; the data partition lies where it
    should; the word computation refines an integer specification.
  \<^item> \<open>Nexus_Child\<close>, \<open>Nexus_Error\<close>: \<open>bdev/nexus/nexus_child.rs\<close>, \<open>nexus_bdev_error.rs\<close>, \<open>store/store_defs.rs\<close>;
    the invariant of a child, onlining, closing and reservations.
  \<^item> \<open>Nexus_Persist\<close>: \<open>bdev/nexus/nexus_persistence.rs\<close>, \<open>persistent_store.rs\<close>, \<open>store/etcd.rs\<close>; retirements
    keep a healthy replica on record, a transaction is applied at most once, and a nexus whose record
    another one has taken over is fenced.
  \<^item> \<open>Nexus_Channel\<close>, \<open>Nexus_Io\<close>, \<open>Nexus_Io_Effects\<close>, \<open>Nexus_Io_Inv\<close>, \<open>Nexus_Io_Safety\<close>:
    \<open>bdev/nexus/nexus_channel.rs\<close>, \<open>nexus_io.rs\<close> and the retirement of a device of
    \<open>nexus_bdev_children.rs\<close>. Every I/O is completed exactly once, and an acknowledged write is on every
    replica that the stored record calls healthy.
  \<^item> \<open>Io_Subsystem\<close>: \<open>bdev/nexus/nexus_io_subsystem.rs\<close>; a pause is held while a caller relies on it, and
    all calls return.
  \<^item> \<open>Nexus_Bdev\<close>, \<open>Nexus_Ops\<close>, \<open>Nexus_Life\<close>: \<open>bdev/nexus/nexus_bdev.rs\<close>, \<open>nexus_bdev_children.rs\<close>,
    \<open>nexus_bdev_rebuild.rs\<close>, \<open>nexus_share.rs\<close>. The geometry of a nexus is the intersection of the data
    partitions of its children, and resizing grows it or leaves it alone.
  \<^item> \<open>Nexus_Interference\<close>, \<open>Nexus_Ops_Safety\<close>: rely/guarantee reasoning about these operations. The locales
    \<open>task_interference\<close>, \<open>rebuild_interference\<close>, \<open>interference\<close>, \<open>field_interference\<close> and
    \<open>life_interference\<close> state which elementary changes a relation has to allow; their lemmas carry the
    relation through every operation. They are interpreted with three relations: a replica heals only
    by a completed rebuild (\<open>heal\<close>), a nexus that shuts down is left alone (\<open>stays\<close>), a healthy child other
    than the removed one is kept (\<open>keeps\<close>).
  \<^item> \<open>Wiper\<close>: \<open>core/wiper.rs\<close> and the I/O of \<open>core/handle.rs\<close>; a wipe covers the device without the blocks
    of the backup label.
  \<^item> \<open>Nvmx_Controller\<close>: \<open>bdev/nvmx/controller_state.rs\<close>, \<open>controller.rs\<close>, \<open>controller_inner.rs\<close>, \<open>channel.rs\<close>; no
    order of resets, hot removals, shutdowns, attribute changes and polls panics or leaves the
    controller ill-formed, with the two exceptions that are shown to fail.

  \<^bold>\<open>Loops and bounds.\<close> All definitions are total. The loops over ranges (\<open>set_range\<close>, \<open>step_range\<close>,
  \<open>wipe_pieces\<close>, \<open>wipe_loop\<close>) end by a measure on what is left; the wait for the removal of a device
  (\<open>close_wait\<close>) and the retries of a save (\<open>save_loop\<close>, \<open>save_txn_loop\<close>) end by the number of
  attempts that the code counts down. Event systems have no fuel: a run is a list of events, and the
  liveness theorems give the number of events after which the result is there.

  \<^bold>\<open>Where the code does not do what it means to.\<close> Some theorems exhibit runs in which a property fails
  without one of its conditions: writes acknowledged although a replica refused them, a rebuild that
  loses an error across a pause, a read completed twice, a removal that panics when the store is not
  reachable, a removal that races with the failure of the last other healthy child, resets that
  timeouts lose, chunks that a wipe leaves unwiped. They stand next to the property they limit.

  \<^bold>\<open>Not modelled.\<close> The gRPC and JSON-RPC services and the command line clients translate messages. The
  lvol stores, the NVMe-oF target, the device handles, the queue pairs and the URI-named devices are
  wrappers of SPDK, whose state is outside of the repository; LVM pools run external tools. The start-up,
  reactors, logging and eventing are I/O. Fault injection is compiled out of releases. Snapshots are
  taken by the targets of the replicas. \<open>bdev/gpt_labels.rs\<close> is an older copy of \<open>core/gpt\<close> that no
  module includes. Of the modelled files, texts of messages, debug output and latency counters are
  left out.
\<close>

end
